(* ===== verification/Prelude.thy ===== *)
theory Prelude
  imports Main "HOL-Library.Word" "HOL-Library.Multiset"
begin

text \<open>
  What the components of the development share: the machine integer types, the laws of
  exclusive or on 32-bit words, word addresses of array elements, the counted loop, and
  the named collections the component proofs add to the simplifier.
\<close>

unbundle bit_operations_syntax

type_synonym u8 = "8 word"
type_synonym u16 = "16 word"
type_synonym u32 = "32 word"
type_synonym u64 = "64 word"

text \<open>The word memory: a byte address to the 32-bit word stored there.\<close>

type_synonym mem = "u32 \<Rightarrow> u32"

named_theorems layout_simps \<open>the fixed addresses and sizes of the benchmark programs\<close>
named_theorems kernel_defs \<open>the definitions of the benchmark kernels\<close>
named_theorems init_defs \<open>the definitions of the board bring-up sequences\<close>

section \<open>Counted loops\<close>

text \<open>
  The loop \<^verbatim>\<open>for (uint32_t i = a; i < b; i++) s = f(i, s);\<close> for bounds
  far below the word size, so that the counter never wraps.
\<close>

definition for_range :: "nat \<Rightarrow> nat \<Rightarrow> (nat \<Rightarrow> 's \<Rightarrow> 's) \<Rightarrow> 's \<Rightarrow> 's" where
  "for_range a b f s = fold f [a..<b] s"

lemma for_range_empty [simp]: "b \<le> a \<Longrightarrow> for_range a b f s = s"
  by (simp add: for_range_def)

lemma for_range_Suc: "a \<le> b \<Longrightarrow> for_range a (Suc b) f s = f b (for_range a b f s)"
  by (simp add: for_range_def)

lemma for_range_split:
  "a \<le> b \<Longrightarrow> b \<le> c \<Longrightarrow> for_range a c f s = for_range b c f (for_range a b f s)"
proof -
  assume "a \<le> b" "b \<le> c"
  then have "[a..<c] = [a..<b] @ [b..<c]"
    by (metis le_add_diff_inverse upt_add_eq_append)
  then show ?thesis by (simp add: for_range_def)
qed

text \<open>The invariant rule: what holds at the start and is kept by each round holds at the end.\<close>

lemma for_range_inv:
  assumes "a \<le> b" and "P a s"
    and step: "\<And>i t. a \<le> i \<Longrightarrow> i < b \<Longrightarrow> P i t \<Longrightarrow> P (Suc i) (f i t)"
  shows "P b (for_range a b f s)"
proof -
  have "a \<le> c \<Longrightarrow> c \<le> b \<Longrightarrow> P c (for_range a c f s)" for c
  proof (induction c)
    case 0
    then show ?case using \<open>P a s\<close> by simp
  next
    case (Suc c)
    show ?case
    proof (cases "a = Suc c")
      case True
      then show ?thesis using \<open>P a s\<close> by simp
    next
      case False
      with Suc show ?thesis by (simp add: for_range_Suc step)
    qed
  qed
  then show ?thesis using \<open>a \<le> b\<close> by simp
qed

lemma for_range_const: "for_range 0 n (\<lambda>_. f) s = (f ^^ n) s"
  by (induction n) (simp_all add: for_range_Suc)

lemma for_range_cong:
  assumes "\<And>i t. a \<le> i \<Longrightarrow> i < b \<Longrightarrow> f i t = g i t" and "s = t"
  shows "for_range a b f s = for_range a b g t"
  unfolding for_range_def assms(2) by (rule fold_cong) (auto simp: assms(1))

text \<open>A loop in one state simulates a loop in another when the bodies do.\<close>

lemma for_range_sim:
  assumes "R s t"
    and "\<And>i s t. a \<le> i \<Longrightarrow> i < b \<Longrightarrow> R s t \<Longrightarrow> R (f i s) (g i t)"
  shows "R (for_range a b f s) (for_range a b g t)"
proof (cases "a \<le> b")
  case True
  have "a \<le> c \<Longrightarrow> c \<le> b \<Longrightarrow> R (for_range a c f s) (for_range a c g t)" for c
  proof (induction c)
    case 0
    then show ?case using assms(1) by simp
  next
    case (Suc c)
    then show ?case
      using assms by (cases "a = Suc c") (simp_all add: for_range_Suc)
  qed
  then show ?thesis using True by simp
next
  case False
  then show ?thesis using assms(1) by simp
qed

section \<open>Machine words\<close>

lemma unat_u32: "unat (x :: u32) < 2 ^ 32"
  using unsigned_less [of x] by simp

section \<open>A percentage in 64 bits\<close>

lemma unat_up: "unat (ucast (x :: u32) :: u64) = unat x"
  using unat_u32 [of x] by (simp add: unsigned_ucast_eq take_bit_nat_eq_self)

lemma spread_exact:
  fixes lo hi :: u32
  assumes "lo \<le> hi" and "lo \<noteq> 0"
  shows "2 \<le> (ucast (hi - lo) * 100) div (ucast lo :: u64) \<longleftrightarrow> 2 * unat lo \<le> 100 * (unat hi - unat lo)"
proof -
  have d: "unat (hi - lo) = unat hi - unat lo" using assms(1) by (simp add: unat_sub word_le_nat_alt)
  have "unat hi - unat lo < 2 ^ 32" using unat_u32 [of hi] by linarith
  then have "unat (ucast (hi - lo) * 100 :: u64) = (unat hi - unat lo) * 100"
    by (simp add: unat_word_ariths unat_up d)
  then have "2 \<le> (ucast (hi - lo) * 100) div (ucast lo :: u64) \<longleftrightarrow> 2 \<le> (unat hi - unat lo) * 100 div unat lo"
    by (simp add: word_le_nat_alt unat_div unat_up)
  moreover have "0 < unat lo" using assms(2) by (simp add: unat_gt_0)
  ultimately show ?thesis by (simp add: less_eq_div_iff_mult_less_eq mult.commute)
qed

section \<open>Exclusive or\<close>

lemmas xor_ac = xor.assoc xor.commute xor.left_commute

lemma xor_cancel_left [simp]: "x XOR (x XOR y) = (y :: 'a::len word)"
  by (simp add: xor.assoc [symmetric])

lemma xor_eq_zero_iff [simp]: "x XOR y = 0 \<longleftrightarrow> x = (y :: 'a::len word)"
  by (metis xor_cancel_left xor.comm_neutral xor_self_eq)

text \<open>
  The maps on words that commute with exclusive or: linear over the field with two
  elements. The pseudo-random step and the CRC round are both of this kind.
\<close>

locale xor_linear =
  fixes f :: "'a::len word \<Rightarrow> 'a word"
  assumes linear: "f (x XOR y) = f x XOR f y"
begin

lemma zero [simp]: "f 0 = 0"
  using linear [of 0 0] by simp

lemma funpow_linear: "(f ^^ n) (x XOR y) = (f ^^ n) x XOR (f ^^ n) y"
  by (induction n) (simp_all add: linear)

lemma funpow_zero [simp]: "(f ^^ n) 0 = 0"
  by (induction n) simp_all

text \<open>A linear map with trivial kernel is injective.\<close>

lemma inj_if_kernel:
  assumes "\<And>x. f x = 0 \<Longrightarrow> x = 0"
  shows "inj f"
proof (rule injI)
  fix x y
  assume "f x = f y"
  then have "f (x XOR y) = 0" by (simp add: linear)
  then have "x XOR y = 0" by (rule assms)
  then show "x = y" by simp
qed

end

section \<open>Word addresses of array elements\<close>

text \<open>
  The address of element \<open>i\<close> of an array of 32-bit words at address \<open>b\<close>:
  \<^verbatim>\<open>&b[i]\<close>. An array of \<open>n\<close> elements fits when it does not run past the top of
  the address space.
\<close>

definition idx :: "u32 \<Rightarrow> nat \<Rightarrow> u32" where
  "idx b i = b + 4 * of_nat i"

definition fits :: "u32 \<Rightarrow> nat \<Rightarrow> bool" where
  "fits b n \<longleftrightarrow> unat b + 4 * n \<le> 2 ^ 32"

lemma unat_idx: "fits b n \<Longrightarrow> i < n \<Longrightarrow> unat (idx b i) = unat b + 4 * i"
proof -
  assume "fits b n" "i < n"
  then have lt: "unat b + 4 * i < 2 ^ 32" by (simp add: fits_def)
  then have "unat (4 * of_nat i :: u32) = 4 * i"
    by (simp add: unat_word_ariths unat_of_nat)
  with lt show ?thesis by (simp add: idx_def unat_word_ariths)
qed

lemma idx_inject:
  assumes "fits b n" and "i < n" and "j < n"
  shows "idx b i = idx b j \<longleftrightarrow> i = j"
proof
  assume "idx b i = idx b j"
  then have "unat (idx b i) = unat (idx b j)" by simp
  then show "i = j" by (simp add: unat_idx [OF assms(1,2)] unat_idx [OF assms(1,3)])
qed simp

text \<open>Two arrays whose address ranges do not overlap share no element.\<close>

definition apart :: "u32 \<Rightarrow> nat \<Rightarrow> u32 \<Rightarrow> nat \<Rightarrow> bool" where
  "apart b m c n \<longleftrightarrow> fits b m \<and> fits c n \<and>
     (unat b + 4 * m \<le> unat c \<or> unat c + 4 * n \<le> unat b)"

lemma idx_apart:
  assumes "apart b m c n" and "i < m" and "j < n"
  shows "idx b i \<noteq> idx c j"
proof
  assume eq: "idx b i = idx c j"
  have "unat (idx b i) = unat b + 4 * i" "unat (idx c j) = unat c + 4 * j"
    using assms unat_idx [of b m i] unat_idx [of c n j] by (simp_all add: apart_def)
  with eq have "unat b + 4 * i = unat c + 4 * j" by simp
  with assms show False unfolding apart_def by linarith
qed

definition region :: "u32 \<Rightarrow> nat \<Rightarrow> u32 set" where
  "region b n = idx b ` {..<n}"

lemma idx_in_region [intro]: "i < n \<Longrightarrow> idx b i \<in> region b n"
  by (auto simp: region_def)

lemma region_disjoint: "apart b m c n \<Longrightarrow> region b m \<inter> region c n = {}"
  by (auto simp: region_def dest: idx_apart)

text \<open>The contents of an array as a list.\<close>

definition arr :: "mem \<Rightarrow> u32 \<Rightarrow> nat \<Rightarrow> u32 list" where
  "arr m b n = map (\<lambda>i. m (idx b i)) [0..<n]"

lemma length_arr [simp]: "length (arr m b n) = n"
  by (simp add: arr_def)

lemma nth_arr [simp]: "i < n \<Longrightarrow> arr m b n ! i = m (idx b i)"
  by (simp add: arr_def)

lemma arr_eq_iff: "arr m b n = arr m' b n \<longleftrightarrow> (\<forall>i<n. m (idx b i) = m' (idx b i))"
  by (auto simp: arr_def)

text \<open>
  A buffer of \<open>len\<close> words at address \<open>base\<close> that lies inside the address space: the
  setting in which the array algorithms are verified. Every fixed buffer of the benchmark
  programs is an instance.
\<close>

locale buffer =
  fixes base :: u32 and len :: nat
  assumes inside: "fits base len"
begin

lemma inject: "i < len \<Longrightarrow> j < len \<Longrightarrow> idx base i = idx base j \<longleftrightarrow> i = j"
  using inside by (rule idx_inject)

lemma arr_update:
  "i < len \<Longrightarrow> arr (m(idx base i := v)) base len = (arr m base len)[i := v]"
  by (rule nth_equalityI) (auto simp: inject nth_list_update)

lemma arr_outside: "c \<notin> region base len \<Longrightarrow> arr (m(c := v)) base len = arr m base len"
  by (rule nth_equalityI) auto

end

section \<open>Array stores\<close>

text \<open>
  The interface of a store of words: reading back what was written, and nothing else
  changed. Its client is the loop that fills an array, which every kernel runs first.
\<close>

locale word_store =
  fixes get :: "'s \<Rightarrow> u32 \<Rightarrow> u32"
    and put :: "'s \<Rightarrow> u32 \<Rightarrow> u32 \<Rightarrow> 's"
    and valid :: "u32 \<Rightarrow> bool"
  assumes get_put_same: "valid a \<Longrightarrow> get (put s a v) a = v"
    and get_put_other: "valid a \<Longrightarrow> a \<noteq> b \<Longrightarrow> get (put s a v) b = get s b"
begin

lemma get_put: "valid a \<Longrightarrow> get (put s a v) b = (if a = b then v else get s b)"
  by (cases "a = b") (simp_all add: get_put_same get_put_other)

text \<open>Filling an array element by element with values that depend on the index only.\<close>

lemma get_fill_idx:
  assumes "fits b n" and "\<And>i. i < n \<Longrightarrow> valid (idx b i)" and "j < n"
  shows "get (for_range 0 n (\<lambda>i s. put s (idx b i) (f i)) s) (idx b j) = f j"
proof -
  have "\<forall>j<n. j < n \<longrightarrow>
      get (for_range 0 n (\<lambda>i s. put s (idx b i) (f i)) s) (idx b j) = f j"
  proof (rule for_range_inv [where P = "\<lambda>k t. \<forall>j<k. j < n \<longrightarrow> get t (idx b j) = f j"])
    fix i t
    assume "i < n" and IH: "\<forall>j<i. j < n \<longrightarrow> get t (idx b j) = f j"
    show "\<forall>j<Suc i. j < n \<longrightarrow> get (put t (idx b i) (f i)) (idx b j) = f j"
    proof (intro allI impI)
      fix j assume "j < Suc i" "j < n"
      with \<open>i < n\<close> IH assms(2) show "get (put t (idx b i) (f i)) (idx b j) = f j"
        by (cases "i = j") (simp_all add: get_put idx_inject [OF assms(1)])
    qed
  qed simp_all
  then show ?thesis using assms(3) by simp
qed

lemma get_fill_other:
  assumes "\<And>i. i < n \<Longrightarrow> valid (idx b i)" and "c \<notin> region b n"
  shows "get (for_range 0 n (\<lambda>i s. put s (idx b i) (f i)) s) c = get s c"
proof (rule for_range_inv [where P = "\<lambda>_ t. get t c = get s c"])
  fix i t
  assume "i < n" and "get t c = get s c"
  moreover from \<open>i < n\<close> have "idx b i \<noteq> c" using assms(2) by (auto simp: region_def)
  ultimately show "get (put t (idx b i) (f i)) c = get s c"
    using assms(1) by (simp add: get_put)
qed simp_all

end

text \<open>The word memory itself is such a store.\<close>

definition mem_put :: "mem \<Rightarrow> u32 \<Rightarrow> u32 \<Rightarrow> mem" where
  "mem_put m a v = m(a := v)"

interpretation word_mem: word_store "\<lambda>m. m" mem_put "\<lambda>_. True"
  by unfold_locales (simp_all add: mem_put_def)

end
