(* ===== verification/HwReg.thy ===== *)
theory HwReg
  imports Prelude
begin

text \<open>
  Memory-mapped hardware registers as the register headers describe them: an offset in the
  block, the mask of the implemented bits, the reset value, and the fields with their bit
  range, access and enumerated values. \<open>reg_wf\<close> is what makes a description coherent;
  \<open>get_field\<close> and \<open>set_field\<close> are the shift-and-mask accesses the assembly builds
  from the \<^verbatim>\<open>_LSB\<close> and \<^verbatim>\<open>_BITS\<close> constants.
\<close>

datatype access = RO | RW

record hw_field =
  fld_name :: string
  fld_reset :: u32
  fld_bits :: u32
  fld_msb :: nat
  fld_lsb :: nat
  fld_access :: access
  fld_values :: "(string \<times> u32) list"

record hw_reg =
  reg_name :: string
  reg_offset :: u32
  reg_bits :: u32
  reg_reset :: u32
  reg_fields :: "hw_field list"

definition hw_fld :: "string \<Rightarrow> u32 \<Rightarrow> u32 \<Rightarrow> nat \<Rightarrow> nat \<Rightarrow> access \<Rightarrow> (string \<times> u32) list \<Rightarrow> hw_field" where
  "hw_fld n r b msb lsb acc vs =
     \<lparr>fld_name = n, fld_reset = r, fld_bits = b, fld_msb = msb, fld_lsb = lsb,
      fld_access = acc, fld_values = vs\<rparr>"

definition hw_register :: "string \<Rightarrow> u32 \<Rightarrow> u32 \<Rightarrow> u32 \<Rightarrow> hw_field list \<Rightarrow> hw_reg" where
  "hw_register n off b r fs =
     \<lparr>reg_name = n, reg_offset = off, reg_bits = b, reg_reset = r, reg_fields = fs\<rparr>"

text \<open>\<^verbatim>\<open>REG_FIELD_WIDTH(f)\<close> of \<^verbatim>\<open>platform_defs.h\<close>.\<close>

definition reg_field_width :: "hw_field \<Rightarrow> nat" where
  "reg_field_width f = fld_msb f + 1 - fld_lsb f"

section \<open>Field access\<close>

definition get_field :: "hw_field \<Rightarrow> u32 \<Rightarrow> u32" where
  "get_field f w = drop_bit (fld_lsb f) (w AND fld_bits f)"

definition set_field :: "hw_field \<Rightarrow> u32 \<Rightarrow> u32 \<Rightarrow> u32" where
  "set_field f v w = (w AND NOT (fld_bits f)) OR (push_bit (fld_lsb f) v AND fld_bits f)"

section \<open>Coherent descriptions\<close>

text \<open>
  A field's mask is the bits from its least to its most significant one, and its reset and
  enumerated values fit it.
\<close>

definition field_wf :: "hw_field \<Rightarrow> bool" where
  "field_wf f \<longleftrightarrow> fld_lsb f \<le> fld_msb f \<and> fld_msb f < 32 \<and>
     fld_bits f = push_bit (fld_lsb f) (mask (reg_field_width f)) \<and>
     fld_reset f AND mask (reg_field_width f) = fld_reset f \<and>
     list_all (\<lambda>(_, v). v AND mask (reg_field_width f) = v) (fld_values f)"

fun fields_apart :: "hw_field list \<Rightarrow> bool" where
  "fields_apart [] = True"
| "fields_apart (f # fs) = (list_all (\<lambda>g. fld_bits f AND fld_bits g = 0) fs \<and> fields_apart fs)"

definition fields_mask :: "hw_field list \<Rightarrow> u32" where
  "fields_mask fs = foldr (\<lambda>f m. fld_bits f OR m) fs 0"

definition fields_reset :: "hw_field list \<Rightarrow> u32" where
  "fields_reset fs = foldr (\<lambda>f m. push_bit (fld_lsb f) (fld_reset f) OR m) fs 0"

definition reg_wf :: "hw_reg \<Rightarrow> bool" where
  "reg_wf r \<longleftrightarrow> list_all field_wf (reg_fields r) \<and> fields_apart (reg_fields r) \<and>
     fields_mask (reg_fields r) = reg_bits r \<and> fields_reset (reg_fields r) = reg_reset r \<and>
     reg_offset r AND 3 = 0"

definition block_wf :: "hw_reg list \<Rightarrow> bool" where
  "block_wf rs \<longleftrightarrow> list_all reg_wf rs \<and> distinct (map reg_offset rs)"

end
