(* ===== verification/RegsSSI.thy ===== *)
theory RegsSSI
  imports HwReg
begin

text \<open>The DesignWare SSI controller the boot stage drives the flash through: every register
  of \<^verbatim>\<open>runtime/boot2/hardware/regs/ssi.h\<close> with its offset, mask, reset value and fields.\<close>

named_theorems ssi_defs \<open>the register descriptions of this block\<close>

definition SSI_CTRLR0 :: hw_reg where [ssi_defs]:
  "SSI_CTRLR0 = hw_register ''SSI_CTRLR0'' 0 0x17FFFFF 0 [
    hw_fld ''SSTE'' 0 0x1000000 24 24 RW [],
    hw_fld ''SPI_FRF'' 0 0x600000 22 21 RW [(''STD'', 0), (''DUAL'', 1), (''QUAD'', 2)],
    hw_fld ''DFS_32'' 0 0x1F0000 20 16 RW [],
    hw_fld ''CFS'' 0 0xF000 15 12 RW [],
    hw_fld ''SRL'' 0 0x800 11 11 RW [],
    hw_fld ''SLV_OE'' 0 0x400 10 10 RW [],
    hw_fld ''TMOD'' 0 0x300 9 8 RW [(''TX_AND_RX'', 0), (''TX_ONLY'', 1), (''RX_ONLY'', 2), (''EEPROM_READ'', 3)],
    hw_fld ''SCPOL'' 0 0x80 7 7 RW [],
    hw_fld ''SCPH'' 0 0x40 6 6 RW [],
    hw_fld ''FRF'' 0 0x30 5 4 RW [],
    hw_fld ''DFS'' 0 0xF 3 0 RW []]"

definition SSI_CTRLR1 :: hw_reg where [ssi_defs]:
  "SSI_CTRLR1 = hw_register ''SSI_CTRLR1'' 4 0xFFFF 0 [
    hw_fld ''NDF'' 0 0xFFFF 15 0 RW []]"

definition SSI_SSIENR :: hw_reg where [ssi_defs]:
  "SSI_SSIENR = hw_register ''SSI_SSIENR'' 8 1 0 [
    hw_fld ''SSI_EN'' 0 1 0 0 RW []]"

definition SSI_MWCR :: hw_reg where [ssi_defs]:
  "SSI_MWCR = hw_register ''SSI_MWCR'' 0xC 7 0 [
    hw_fld ''MHS'' 0 4 2 2 RW [],
    hw_fld ''MDD'' 0 2 1 1 RW [],
    hw_fld ''MWMOD'' 0 1 0 0 RW []]"

definition SSI_SER :: hw_reg where [ssi_defs]:
  "SSI_SER = hw_register ''SSI_SER'' 0x10 1 0 [
    hw_fld '''' 0 1 0 0 RW []]"

definition SSI_BAUDR :: hw_reg where [ssi_defs]:
  "SSI_BAUDR = hw_register ''SSI_BAUDR'' 0x14 0xFFFF 0 [
    hw_fld ''SCKDV'' 0 0xFFFF 15 0 RW []]"

definition SSI_TXFTLR :: hw_reg where [ssi_defs]:
  "SSI_TXFTLR = hw_register ''SSI_TXFTLR'' 0x18 0xFF 0 [
    hw_fld ''TFT'' 0 0xFF 7 0 RW []]"

definition SSI_RXFTLR :: hw_reg where [ssi_defs]:
  "SSI_RXFTLR = hw_register ''SSI_RXFTLR'' 0x1C 0xFF 0 [
    hw_fld ''RFT'' 0 0xFF 7 0 RW []]"

definition SSI_TXFLR :: hw_reg where [ssi_defs]:
  "SSI_TXFLR = hw_register ''SSI_TXFLR'' 0x20 0xFF 0 [
    hw_fld ''TFTFL'' 0 0xFF 7 0 RO []]"

definition SSI_RXFLR :: hw_reg where [ssi_defs]:
  "SSI_RXFLR = hw_register ''SSI_RXFLR'' 0x24 0xFF 0 [
    hw_fld ''RXTFL'' 0 0xFF 7 0 RO []]"

definition SSI_SR :: hw_reg where [ssi_defs]:
  "SSI_SR = hw_register ''SSI_SR'' 0x28 0x7F 0 [
    hw_fld ''DCOL'' 0 0x40 6 6 RO [],
    hw_fld ''TXE'' 0 0x20 5 5 RO [],
    hw_fld ''RFF'' 0 0x10 4 4 RO [],
    hw_fld ''RFNE'' 0 8 3 3 RO [],
    hw_fld ''TFE'' 0 4 2 2 RO [],
    hw_fld ''TFNF'' 0 2 1 1 RO [],
    hw_fld ''BUSY'' 0 1 0 0 RO []]"

definition SSI_IMR :: hw_reg where [ssi_defs]:
  "SSI_IMR = hw_register ''SSI_IMR'' 0x2C 0x3F 0 [
    hw_fld ''MSTIM'' 0 0x20 5 5 RW [],
    hw_fld ''RXFIM'' 0 0x10 4 4 RW [],
    hw_fld ''RXOIM'' 0 8 3 3 RW [],
    hw_fld ''RXUIM'' 0 4 2 2 RW [],
    hw_fld ''TXOIM'' 0 2 1 1 RW [],
    hw_fld ''TXEIM'' 0 1 0 0 RW []]"

definition SSI_ISR :: hw_reg where [ssi_defs]:
  "SSI_ISR = hw_register ''SSI_ISR'' 0x30 0x3F 0 [
    hw_fld ''MSTIS'' 0 0x20 5 5 RO [],
    hw_fld ''RXFIS'' 0 0x10 4 4 RO [],
    hw_fld ''RXOIS'' 0 8 3 3 RO [],
    hw_fld ''RXUIS'' 0 4 2 2 RO [],
    hw_fld ''TXOIS'' 0 2 1 1 RO [],
    hw_fld ''TXEIS'' 0 1 0 0 RO []]"

definition SSI_RISR :: hw_reg where [ssi_defs]:
  "SSI_RISR = hw_register ''SSI_RISR'' 0x34 0x3F 0 [
    hw_fld ''MSTIR'' 0 0x20 5 5 RO [],
    hw_fld ''RXFIR'' 0 0x10 4 4 RO [],
    hw_fld ''RXOIR'' 0 8 3 3 RO [],
    hw_fld ''RXUIR'' 0 4 2 2 RO [],
    hw_fld ''TXOIR'' 0 2 1 1 RO [],
    hw_fld ''TXEIR'' 0 1 0 0 RO []]"

definition SSI_TXOICR :: hw_reg where [ssi_defs]:
  "SSI_TXOICR = hw_register ''SSI_TXOICR'' 0x38 1 0 [
    hw_fld '''' 0 1 0 0 RO []]"

definition SSI_RXOICR :: hw_reg where [ssi_defs]:
  "SSI_RXOICR = hw_register ''SSI_RXOICR'' 0x3C 1 0 [
    hw_fld '''' 0 1 0 0 RO []]"

definition SSI_RXUICR :: hw_reg where [ssi_defs]:
  "SSI_RXUICR = hw_register ''SSI_RXUICR'' 0x40 1 0 [
    hw_fld '''' 0 1 0 0 RO []]"

definition SSI_MSTICR :: hw_reg where [ssi_defs]:
  "SSI_MSTICR = hw_register ''SSI_MSTICR'' 0x44 1 0 [
    hw_fld '''' 0 1 0 0 RO []]"

definition SSI_ICR :: hw_reg where [ssi_defs]:
  "SSI_ICR = hw_register ''SSI_ICR'' 0x48 1 0 [
    hw_fld '''' 0 1 0 0 RO []]"

definition SSI_DMACR :: hw_reg where [ssi_defs]:
  "SSI_DMACR = hw_register ''SSI_DMACR'' 0x4C 3 0 [
    hw_fld ''TDMAE'' 0 2 1 1 RW [],
    hw_fld ''RDMAE'' 0 1 0 0 RW []]"

definition SSI_DMATDLR :: hw_reg where [ssi_defs]:
  "SSI_DMATDLR = hw_register ''SSI_DMATDLR'' 0x50 0xFF 0 [
    hw_fld ''DMATDL'' 0 0xFF 7 0 RW []]"

definition SSI_DMARDLR :: hw_reg where [ssi_defs]:
  "SSI_DMARDLR = hw_register ''SSI_DMARDLR'' 0x54 0xFF 0 [
    hw_fld ''DMARDL'' 0 0xFF 7 0 RW []]"

definition SSI_IDR :: hw_reg where [ssi_defs]:
  "SSI_IDR = hw_register ''SSI_IDR'' 0x58 0xFFFFFFFF 0x51535049 [
    hw_fld ''IDCODE'' 0x51535049 0xFFFFFFFF 31 0 RO []]"

definition SSI_SSI_VERSION_ID :: hw_reg where [ssi_defs]:
  "SSI_SSI_VERSION_ID = hw_register ''SSI_SSI_VERSION_ID'' 0x5C 0xFFFFFFFF 0x3430312A [
    hw_fld ''SSI_COMP_VERSION'' 0x3430312A 0xFFFFFFFF 31 0 RO []]"

definition SSI_DR0 :: hw_reg where [ssi_defs]:
  "SSI_DR0 = hw_register ''SSI_DR0'' 0x60 0xFFFFFFFF 0 [
    hw_fld ''DR'' 0 0xFFFFFFFF 31 0 RW []]"

definition SSI_RX_SAMPLE_DLY :: hw_reg where [ssi_defs]:
  "SSI_RX_SAMPLE_DLY = hw_register ''SSI_RX_SAMPLE_DLY'' 0xF0 0xFF 0 [
    hw_fld ''RSD'' 0 0xFF 7 0 RW []]"

definition SSI_SPI_CTRLR0 :: hw_reg where [ssi_defs]:
  "SSI_SPI_CTRLR0 = hw_register ''SSI_SPI_CTRLR0'' 0xF4 0xFF07FB3F 0x3000000 [
    hw_fld ''XIP_CMD'' 3 0xFF000000 31 24 RW [],
    hw_fld ''SPI_RXDS_EN'' 0 0x40000 18 18 RW [],
    hw_fld ''INST_DDR_EN'' 0 0x20000 17 17 RW [],
    hw_fld ''SPI_DDR_EN'' 0 0x10000 16 16 RW [],
    hw_fld ''WAIT_CYCLES'' 0 0xF800 15 11 RW [],
    hw_fld ''INST_L'' 0 0x300 9 8 RW [(''NONE'', 0), (''4B'', 1), (''8B'', 2), (''16B'', 3)],
    hw_fld ''ADDR_L'' 0 0x3C 5 2 RW [],
    hw_fld ''TRANS_TYPE'' 0 3 1 0 RW [(''1C1A'', 0), (''1C2A'', 1), (''2C2A'', 2)]]"

definition SSI_TXD_DRIVE_EDGE :: hw_reg where [ssi_defs]:
  "SSI_TXD_DRIVE_EDGE = hw_register ''SSI_TXD_DRIVE_EDGE'' 0xF8 0xFF 0 [
    hw_fld ''TDE'' 0 0xFF 7 0 RW []]"

text \<open>The block, in the order of the header.\<close>

definition ssi_block :: "hw_reg list" where
  "ssi_block = [
    SSI_CTRLR0,
    SSI_CTRLR1,
    SSI_SSIENR,
    SSI_MWCR,
    SSI_SER,
    SSI_BAUDR,
    SSI_TXFTLR,
    SSI_RXFTLR,
    SSI_TXFLR,
    SSI_RXFLR,
    SSI_SR,
    SSI_IMR,
    SSI_ISR,
    SSI_RISR,
    SSI_TXOICR,
    SSI_RXOICR,
    SSI_RXUICR,
    SSI_MSTICR,
    SSI_ICR,
    SSI_DMACR,
    SSI_DMATDLR,
    SSI_DMARDLR,
    SSI_IDR,
    SSI_SSI_VERSION_ID,
    SSI_DR0,
    SSI_RX_SAMPLE_DLY,
    SSI_SPI_CTRLR0,
    SSI_TXD_DRIVE_EDGE]"

end
