(* ===== verification/RegsPadsQspi.thy ===== *)
theory RegsPadsQspi
  imports HwReg
begin

text \<open>The QSPI pad control registers of \<^verbatim>\<open>runtime/boot2/hardware/regs/pads_qspi.h\<close>.\<close>

named_theorems pads_qspi_defs \<open>the register descriptions of this block\<close>

definition PADS_QSPI_VOLTAGE_SELECT :: hw_reg where [pads_qspi_defs]:
  "PADS_QSPI_VOLTAGE_SELECT = hw_register ''PADS_QSPI_VOLTAGE_SELECT'' 0 1 0 [
    hw_fld '''' 0 1 0 0 RW [(''3V3'', 0), (''1V8'', 1)]]"

definition PADS_QSPI_GPIO_QSPI_SCLK :: hw_reg where [pads_qspi_defs]:
  "PADS_QSPI_GPIO_QSPI_SCLK = hw_register ''PADS_QSPI_GPIO_QSPI_SCLK'' 4 0xFF 0x56 [
    hw_fld ''OD'' 0 0x80 7 7 RW [],
    hw_fld ''IE'' 1 0x40 6 6 RW [],
    hw_fld ''DRIVE'' 1 0x30 5 4 RW [(''2MA'', 0), (''4MA'', 1), (''8MA'', 2), (''12MA'', 3)],
    hw_fld ''PUE'' 0 8 3 3 RW [],
    hw_fld ''PDE'' 1 4 2 2 RW [],
    hw_fld ''SCHMITT'' 1 2 1 1 RW [],
    hw_fld ''SLEWFAST'' 0 1 0 0 RW []]"

definition PADS_QSPI_GPIO_QSPI_SD0 :: hw_reg where [pads_qspi_defs]:
  "PADS_QSPI_GPIO_QSPI_SD0 = hw_register ''PADS_QSPI_GPIO_QSPI_SD0'' 8 0xFF 0x52 [
    hw_fld ''OD'' 0 0x80 7 7 RW [],
    hw_fld ''IE'' 1 0x40 6 6 RW [],
    hw_fld ''DRIVE'' 1 0x30 5 4 RW [(''2MA'', 0), (''4MA'', 1), (''8MA'', 2), (''12MA'', 3)],
    hw_fld ''PUE'' 0 8 3 3 RW [],
    hw_fld ''PDE'' 0 4 2 2 RW [],
    hw_fld ''SCHMITT'' 1 2 1 1 RW [],
    hw_fld ''SLEWFAST'' 0 1 0 0 RW []]"

definition PADS_QSPI_GPIO_QSPI_SD1 :: hw_reg where [pads_qspi_defs]:
  "PADS_QSPI_GPIO_QSPI_SD1 = hw_register ''PADS_QSPI_GPIO_QSPI_SD1'' 0xC 0xFF 0x52 [
    hw_fld ''OD'' 0 0x80 7 7 RW [],
    hw_fld ''IE'' 1 0x40 6 6 RW [],
    hw_fld ''DRIVE'' 1 0x30 5 4 RW [(''2MA'', 0), (''4MA'', 1), (''8MA'', 2), (''12MA'', 3)],
    hw_fld ''PUE'' 0 8 3 3 RW [],
    hw_fld ''PDE'' 0 4 2 2 RW [],
    hw_fld ''SCHMITT'' 1 2 1 1 RW [],
    hw_fld ''SLEWFAST'' 0 1 0 0 RW []]"

definition PADS_QSPI_GPIO_QSPI_SD2 :: hw_reg where [pads_qspi_defs]:
  "PADS_QSPI_GPIO_QSPI_SD2 = hw_register ''PADS_QSPI_GPIO_QSPI_SD2'' 0x10 0xFF 0x52 [
    hw_fld ''OD'' 0 0x80 7 7 RW [],
    hw_fld ''IE'' 1 0x40 6 6 RW [],
    hw_fld ''DRIVE'' 1 0x30 5 4 RW [(''2MA'', 0), (''4MA'', 1), (''8MA'', 2), (''12MA'', 3)],
    hw_fld ''PUE'' 0 8 3 3 RW [],
    hw_fld ''PDE'' 0 4 2 2 RW [],
    hw_fld ''SCHMITT'' 1 2 1 1 RW [],
    hw_fld ''SLEWFAST'' 0 1 0 0 RW []]"

definition PADS_QSPI_GPIO_QSPI_SD3 :: hw_reg where [pads_qspi_defs]:
  "PADS_QSPI_GPIO_QSPI_SD3 = hw_register ''PADS_QSPI_GPIO_QSPI_SD3'' 0x14 0xFF 0x52 [
    hw_fld ''OD'' 0 0x80 7 7 RW [],
    hw_fld ''IE'' 1 0x40 6 6 RW [],
    hw_fld ''DRIVE'' 1 0x30 5 4 RW [(''2MA'', 0), (''4MA'', 1), (''8MA'', 2), (''12MA'', 3)],
    hw_fld ''PUE'' 0 8 3 3 RW [],
    hw_fld ''PDE'' 0 4 2 2 RW [],
    hw_fld ''SCHMITT'' 1 2 1 1 RW [],
    hw_fld ''SLEWFAST'' 0 1 0 0 RW []]"

definition PADS_QSPI_GPIO_QSPI_SS :: hw_reg where [pads_qspi_defs]:
  "PADS_QSPI_GPIO_QSPI_SS = hw_register ''PADS_QSPI_GPIO_QSPI_SS'' 0x18 0xFF 0x5A [
    hw_fld ''OD'' 0 0x80 7 7 RW [],
    hw_fld ''IE'' 1 0x40 6 6 RW [],
    hw_fld ''DRIVE'' 1 0x30 5 4 RW [(''2MA'', 0), (''4MA'', 1), (''8MA'', 2), (''12MA'', 3)],
    hw_fld ''PUE'' 1 8 3 3 RW [],
    hw_fld ''PDE'' 0 4 2 2 RW [],
    hw_fld ''SCHMITT'' 1 2 1 1 RW [],
    hw_fld ''SLEWFAST'' 0 1 0 0 RW []]"

text \<open>The block, in the order of the header.\<close>

definition pads_qspi_block :: "hw_reg list" where
  "pads_qspi_block = [
    PADS_QSPI_VOLTAGE_SELECT,
    PADS_QSPI_GPIO_QSPI_SCLK,
    PADS_QSPI_GPIO_QSPI_SD0,
    PADS_QSPI_GPIO_QSPI_SD1,
    PADS_QSPI_GPIO_QSPI_SD2,
    PADS_QSPI_GPIO_QSPI_SD3,
    PADS_QSPI_GPIO_QSPI_SS]"

end
