(* ===== verification/RegsM0plus.thy ===== *)
theory RegsM0plus
  imports HwReg
begin

text \<open>The Cortex-M0+ system registers of \<^verbatim>\<open>runtime/boot2/hardware/regs/m0plus.h\<close>:
  SysTick, the interrupt controller, the system control block and the memory protection unit.\<close>

named_theorems m0plus_defs \<open>the register descriptions of this block\<close>

definition M0PLUS_SYST_CSR :: hw_reg where [m0plus_defs]:
  "M0PLUS_SYST_CSR = hw_register ''M0PLUS_SYST_CSR'' 0xE010 0x10007 0 [
    hw_fld ''COUNTFLAG'' 0 0x10000 16 16 RO [],
    hw_fld ''CLKSOURCE'' 0 4 2 2 RW [],
    hw_fld ''TICKINT'' 0 2 1 1 RW [],
    hw_fld ''ENABLE'' 0 1 0 0 RW []]"

definition M0PLUS_SYST_RVR :: hw_reg where [m0plus_defs]:
  "M0PLUS_SYST_RVR = hw_register ''M0PLUS_SYST_RVR'' 0xE014 0xFFFFFF 0 [
    hw_fld ''RELOAD'' 0 0xFFFFFF 23 0 RW []]"

definition M0PLUS_SYST_CVR :: hw_reg where [m0plus_defs]:
  "M0PLUS_SYST_CVR = hw_register ''M0PLUS_SYST_CVR'' 0xE018 0xFFFFFF 0 [
    hw_fld ''CURRENT'' 0 0xFFFFFF 23 0 RW []]"

definition M0PLUS_SYST_CALIB :: hw_reg where [m0plus_defs]:
  "M0PLUS_SYST_CALIB = hw_register ''M0PLUS_SYST_CALIB'' 0xE01C 0xC0FFFFFF 0 [
    hw_fld ''NOREF'' 0 0x80000000 31 31 RO [],
    hw_fld ''SKEW'' 0 0x40000000 30 30 RO [],
    hw_fld ''TENMS'' 0 0xFFFFFF 23 0 RO []]"

definition M0PLUS_NVIC_ISER :: hw_reg where [m0plus_defs]:
  "M0PLUS_NVIC_ISER = hw_register ''M0PLUS_NVIC_ISER'' 0xE100 0xFFFFFFFF 0 [
    hw_fld ''SETENA'' 0 0xFFFFFFFF 31 0 RW []]"

definition M0PLUS_NVIC_ICER :: hw_reg where [m0plus_defs]:
  "M0PLUS_NVIC_ICER = hw_register ''M0PLUS_NVIC_ICER'' 0xE180 0xFFFFFFFF 0 [
    hw_fld ''CLRENA'' 0 0xFFFFFFFF 31 0 RW []]"

definition M0PLUS_NVIC_ISPR :: hw_reg where [m0plus_defs]:
  "M0PLUS_NVIC_ISPR = hw_register ''M0PLUS_NVIC_ISPR'' 0xE200 0xFFFFFFFF 0 [
    hw_fld ''SETPEND'' 0 0xFFFFFFFF 31 0 RW []]"

definition M0PLUS_NVIC_ICPR :: hw_reg where [m0plus_defs]:
  "M0PLUS_NVIC_ICPR = hw_register ''M0PLUS_NVIC_ICPR'' 0xE280 0xFFFFFFFF 0 [
    hw_fld ''CLRPEND'' 0 0xFFFFFFFF 31 0 RW []]"

definition M0PLUS_NVIC_IPR0 :: hw_reg where [m0plus_defs]:
  "M0PLUS_NVIC_IPR0 = hw_register ''M0PLUS_NVIC_IPR0'' 0xE400 0xC0C0C0C0 0 [
    hw_fld ''IP_3'' 0 0xC0000000 31 30 RW [],
    hw_fld ''IP_2'' 0 0xC00000 23 22 RW [],
    hw_fld ''IP_1'' 0 0xC000 15 14 RW [],
    hw_fld ''IP_0'' 0 0xC0 7 6 RW []]"

definition M0PLUS_NVIC_IPR1 :: hw_reg where [m0plus_defs]:
  "M0PLUS_NVIC_IPR1 = hw_register ''M0PLUS_NVIC_IPR1'' 0xE404 0xC0C0C0C0 0 [
    hw_fld ''IP_7'' 0 0xC0000000 31 30 RW [],
    hw_fld ''IP_6'' 0 0xC00000 23 22 RW [],
    hw_fld ''IP_5'' 0 0xC000 15 14 RW [],
    hw_fld ''IP_4'' 0 0xC0 7 6 RW []]"

definition M0PLUS_NVIC_IPR2 :: hw_reg where [m0plus_defs]:
  "M0PLUS_NVIC_IPR2 = hw_register ''M0PLUS_NVIC_IPR2'' 0xE408 0xC0C0C0C0 0 [
    hw_fld ''IP_11'' 0 0xC0000000 31 30 RW [],
    hw_fld ''IP_10'' 0 0xC00000 23 22 RW [],
    hw_fld ''IP_9'' 0 0xC000 15 14 RW [],
    hw_fld ''IP_8'' 0 0xC0 7 6 RW []]"

definition M0PLUS_NVIC_IPR3 :: hw_reg where [m0plus_defs]:
  "M0PLUS_NVIC_IPR3 = hw_register ''M0PLUS_NVIC_IPR3'' 0xE40C 0xC0C0C0C0 0 [
    hw_fld ''IP_15'' 0 0xC0000000 31 30 RW [],
    hw_fld ''IP_14'' 0 0xC00000 23 22 RW [],
    hw_fld ''IP_13'' 0 0xC000 15 14 RW [],
    hw_fld ''IP_12'' 0 0xC0 7 6 RW []]"

definition M0PLUS_NVIC_IPR4 :: hw_reg where [m0plus_defs]:
  "M0PLUS_NVIC_IPR4 = hw_register ''M0PLUS_NVIC_IPR4'' 0xE410 0xC0C0C0C0 0 [
    hw_fld ''IP_19'' 0 0xC0000000 31 30 RW [],
    hw_fld ''IP_18'' 0 0xC00000 23 22 RW [],
    hw_fld ''IP_17'' 0 0xC000 15 14 RW [],
    hw_fld ''IP_16'' 0 0xC0 7 6 RW []]"

definition M0PLUS_NVIC_IPR5 :: hw_reg where [m0plus_defs]:
  "M0PLUS_NVIC_IPR5 = hw_register ''M0PLUS_NVIC_IPR5'' 0xE414 0xC0C0C0C0 0 [
    hw_fld ''IP_23'' 0 0xC0000000 31 30 RW [],
    hw_fld ''IP_22'' 0 0xC00000 23 22 RW [],
    hw_fld ''IP_21'' 0 0xC000 15 14 RW [],
    hw_fld ''IP_20'' 0 0xC0 7 6 RW []]"

definition M0PLUS_NVIC_IPR6 :: hw_reg where [m0plus_defs]:
  "M0PLUS_NVIC_IPR6 = hw_register ''M0PLUS_NVIC_IPR6'' 0xE418 0xC0C0C0C0 0 [
    hw_fld ''IP_27'' 0 0xC0000000 31 30 RW [],
    hw_fld ''IP_26'' 0 0xC00000 23 22 RW [],
    hw_fld ''IP_25'' 0 0xC000 15 14 RW [],
    hw_fld ''IP_24'' 0 0xC0 7 6 RW []]"

definition M0PLUS_NVIC_IPR7 :: hw_reg where [m0plus_defs]:
  "M0PLUS_NVIC_IPR7 = hw_register ''M0PLUS_NVIC_IPR7'' 0xE41C 0xC0C0C0C0 0 [
    hw_fld ''IP_31'' 0 0xC0000000 31 30 RW [],
    hw_fld ''IP_30'' 0 0xC00000 23 22 RW [],
    hw_fld ''IP_29'' 0 0xC000 15 14 RW [],
    hw_fld ''IP_28'' 0 0xC0 7 6 RW []]"

definition M0PLUS_CPUID :: hw_reg where [m0plus_defs]:
  "M0PLUS_CPUID = hw_register ''M0PLUS_CPUID'' 0xED00 0xFFFFFFFF 0x410CC601 [
    hw_fld ''IMPLEMENTER'' 0x41 0xFF000000 31 24 RO [],
    hw_fld ''VARIANT'' 0 0xF00000 23 20 RO [],
    hw_fld ''ARCHITECTURE'' 0xC 0xF0000 19 16 RO [],
    hw_fld ''PARTNO'' 0xC60 0xFFF0 15 4 RO [],
    hw_fld ''REVISION'' 1 0xF 3 0 RO []]"

definition M0PLUS_ICSR :: hw_reg where [m0plus_defs]:
  "M0PLUS_ICSR = hw_register ''M0PLUS_ICSR'' 0xED04 0x9EDFF1FF 0 [
    hw_fld ''NMIPENDSET'' 0 0x80000000 31 31 RW [],
    hw_fld ''PENDSVSET'' 0 0x10000000 28 28 RW [],
    hw_fld ''PENDSVCLR'' 0 0x8000000 27 27 RW [],
    hw_fld ''PENDSTSET'' 0 0x4000000 26 26 RW [],
    hw_fld ''PENDSTCLR'' 0 0x2000000 25 25 RW [],
    hw_fld ''ISRPREEMPT'' 0 0x800000 23 23 RO [],
    hw_fld ''ISRPENDING'' 0 0x400000 22 22 RO [],
    hw_fld ''VECTPENDING'' 0 0x1FF000 20 12 RO [],
    hw_fld ''VECTACTIVE'' 0 0x1FF 8 0 RO []]"

definition M0PLUS_VTOR :: hw_reg where [m0plus_defs]:
  "M0PLUS_VTOR = hw_register ''M0PLUS_VTOR'' 0xED08 0xFFFFFF00 0 [
    hw_fld ''TBLOFF'' 0 0xFFFFFF00 31 8 RW []]"

definition M0PLUS_AIRCR :: hw_reg where [m0plus_defs]:
  "M0PLUS_AIRCR = hw_register ''M0PLUS_AIRCR'' 0xED0C 0xFFFF8006 0 [
    hw_fld ''VECTKEY'' 0 0xFFFF0000 31 16 RW [],
    hw_fld ''ENDIANESS'' 0 0x8000 15 15 RO [],
    hw_fld ''SYSRESETREQ'' 0 4 2 2 RW [],
    hw_fld ''VECTCLRACTIVE'' 0 2 1 1 RW []]"

definition M0PLUS_SCR :: hw_reg where [m0plus_defs]:
  "M0PLUS_SCR = hw_register ''M0PLUS_SCR'' 0xED10 0x16 0 [
    hw_fld ''SEVONPEND'' 0 0x10 4 4 RW [],
    hw_fld ''SLEEPDEEP'' 0 4 2 2 RW [],
    hw_fld ''SLEEPONEXIT'' 0 2 1 1 RW []]"

definition M0PLUS_CCR :: hw_reg where [m0plus_defs]:
  "M0PLUS_CCR = hw_register ''M0PLUS_CCR'' 0xED14 0x208 0 [
    hw_fld ''STKALIGN'' 0 0x200 9 9 RO [],
    hw_fld ''UNALIGN_TRP'' 0 8 3 3 RO []]"

definition M0PLUS_SHPR2 :: hw_reg where [m0plus_defs]:
  "M0PLUS_SHPR2 = hw_register ''M0PLUS_SHPR2'' 0xED1C 0xC0000000 0 [
    hw_fld ''PRI_11'' 0 0xC0000000 31 30 RW []]"

definition M0PLUS_SHPR3 :: hw_reg where [m0plus_defs]:
  "M0PLUS_SHPR3 = hw_register ''M0PLUS_SHPR3'' 0xED20 0xC0C00000 0 [
    hw_fld ''PRI_15'' 0 0xC0000000 31 30 RW [],
    hw_fld ''PRI_14'' 0 0xC00000 23 22 RW []]"

definition M0PLUS_SHCSR :: hw_reg where [m0plus_defs]:
  "M0PLUS_SHCSR = hw_register ''M0PLUS_SHCSR'' 0xED24 0x8000 0 [
    hw_fld ''SVCALLPENDED'' 0 0x8000 15 15 RW []]"

definition M0PLUS_MPU_TYPE :: hw_reg where [m0plus_defs]:
  "M0PLUS_MPU_TYPE = hw_register ''M0PLUS_MPU_TYPE'' 0xED90 0xFFFF01 0x800 [
    hw_fld ''IREGION'' 0 0xFF0000 23 16 RO [],
    hw_fld ''DREGION'' 8 0xFF00 15 8 RO [],
    hw_fld ''SEPARATE'' 0 1 0 0 RO []]"

definition M0PLUS_MPU_CTRL :: hw_reg where [m0plus_defs]:
  "M0PLUS_MPU_CTRL = hw_register ''M0PLUS_MPU_CTRL'' 0xED94 7 0 [
    hw_fld ''PRIVDEFENA'' 0 4 2 2 RW [],
    hw_fld ''HFNMIENA'' 0 2 1 1 RW [],
    hw_fld ''ENABLE'' 0 1 0 0 RW []]"

definition M0PLUS_MPU_RNR :: hw_reg where [m0plus_defs]:
  "M0PLUS_MPU_RNR = hw_register ''M0PLUS_MPU_RNR'' 0xED98 0xF 0 [
    hw_fld ''REGION'' 0 0xF 3 0 RW []]"

definition M0PLUS_MPU_RBAR :: hw_reg where [m0plus_defs]:
  "M0PLUS_MPU_RBAR = hw_register ''M0PLUS_MPU_RBAR'' 0xED9C 0xFFFFFF1F 0 [
    hw_fld ''ADDR'' 0 0xFFFFFF00 31 8 RW [],
    hw_fld ''VALID'' 0 0x10 4 4 RW [],
    hw_fld ''REGION'' 0 0xF 3 0 RW []]"

definition M0PLUS_MPU_RASR :: hw_reg where [m0plus_defs]:
  "M0PLUS_MPU_RASR = hw_register ''M0PLUS_MPU_RASR'' 0xEDA0 0xFFFFFF3F 0 [
    hw_fld ''ATTRS'' 0 0xFFFF0000 31 16 RW [],
    hw_fld ''SRD'' 0 0xFF00 15 8 RW [],
    hw_fld ''SIZE'' 0 0x3E 5 1 RW [],
    hw_fld ''ENABLE'' 0 1 0 0 RW []]"

text \<open>The block, in the order of the header.\<close>

definition m0plus_block :: "hw_reg list" where
  "m0plus_block = [
    M0PLUS_SYST_CSR,
    M0PLUS_SYST_RVR,
    M0PLUS_SYST_CVR,
    M0PLUS_SYST_CALIB,
    M0PLUS_NVIC_ISER,
    M0PLUS_NVIC_ICER,
    M0PLUS_NVIC_ISPR,
    M0PLUS_NVIC_ICPR,
    M0PLUS_NVIC_IPR0,
    M0PLUS_NVIC_IPR1,
    M0PLUS_NVIC_IPR2,
    M0PLUS_NVIC_IPR3,
    M0PLUS_NVIC_IPR4,
    M0PLUS_NVIC_IPR5,
    M0PLUS_NVIC_IPR6,
    M0PLUS_NVIC_IPR7,
    M0PLUS_CPUID,
    M0PLUS_ICSR,
    M0PLUS_VTOR,
    M0PLUS_AIRCR,
    M0PLUS_SCR,
    M0PLUS_CCR,
    M0PLUS_SHPR2,
    M0PLUS_SHPR3,
    M0PLUS_SHCSR,
    M0PLUS_MPU_TYPE,
    M0PLUS_MPU_CTRL,
    M0PLUS_MPU_RNR,
    M0PLUS_MPU_RBAR,
    M0PLUS_MPU_RASR]"

end
