(* ===== verification/AddressMap.thy ===== *)
theory AddressMap
  imports Prelude
begin

text \<open>
  The address map of \<^verbatim>\<open>runtime/boot2/hardware/regs/addressmap.h\<close>: the base address of
  every peripheral and memory of the RP2040, and the offsets of the atomic register aliases.
\<close>

named_theorems addressmap \<open>the base addresses of the RP2040\<close>

definition REG_ALIAS_RW_BITS :: u32 where [addressmap]: "REG_ALIAS_RW_BITS = push_bit 12 0x0"
definition REG_ALIAS_XOR_BITS :: u32 where [addressmap]: "REG_ALIAS_XOR_BITS = push_bit 12 0x1"
definition REG_ALIAS_SET_BITS :: u32 where [addressmap]: "REG_ALIAS_SET_BITS = push_bit 12 0x2"
definition REG_ALIAS_CLR_BITS :: u32 where [addressmap]: "REG_ALIAS_CLR_BITS = push_bit 12 0x3"
definition ROM_BASE :: u32 where [addressmap]: "ROM_BASE = 0"
definition XIP_BASE :: u32 where [addressmap]: "XIP_BASE = 0x10000000"
definition XIP_MAIN_BASE :: u32 where [addressmap]: "XIP_MAIN_BASE = 0x10000000"
definition XIP_NOALLOC_BASE :: u32 where [addressmap]: "XIP_NOALLOC_BASE = 0x11000000"
definition XIP_NOCACHE_BASE :: u32 where [addressmap]: "XIP_NOCACHE_BASE = 0x12000000"
definition XIP_NOCACHE_NOALLOC_BASE :: u32 where [addressmap]: "XIP_NOCACHE_NOALLOC_BASE = 0x13000000"
definition XIP_CTRL_BASE :: u32 where [addressmap]: "XIP_CTRL_BASE = 0x14000000"
definition XIP_SRAM_BASE :: u32 where [addressmap]: "XIP_SRAM_BASE = 0x15000000"
definition XIP_SRAM_END :: u32 where [addressmap]: "XIP_SRAM_END = 0x15004000"
definition XIP_SSI_BASE :: u32 where [addressmap]: "XIP_SSI_BASE = 0x18000000"
definition SRAM_BASE :: u32 where [addressmap]: "SRAM_BASE = 0x20000000"
definition SRAM_STRIPED_BASE :: u32 where [addressmap]: "SRAM_STRIPED_BASE = 0x20000000"
definition SRAM_STRIPED_END :: u32 where [addressmap]: "SRAM_STRIPED_END = 0x20040000"
definition SRAM4_BASE :: u32 where [addressmap]: "SRAM4_BASE = 0x20040000"
definition SRAM5_BASE :: u32 where [addressmap]: "SRAM5_BASE = 0x20041000"
definition SRAM_END :: u32 where [addressmap]: "SRAM_END = 0x20042000"
definition SRAM0_BASE :: u32 where [addressmap]: "SRAM0_BASE = 0x21000000"
definition SRAM1_BASE :: u32 where [addressmap]: "SRAM1_BASE = 0x21010000"
definition SRAM2_BASE :: u32 where [addressmap]: "SRAM2_BASE = 0x21020000"
definition SRAM3_BASE :: u32 where [addressmap]: "SRAM3_BASE = 0x21030000"
definition SYSINFO_BASE :: u32 where [addressmap]: "SYSINFO_BASE = 0x40000000"
definition SYSCFG_BASE :: u32 where [addressmap]: "SYSCFG_BASE = 0x40004000"
definition CLOCKS_BASE :: u32 where [addressmap]: "CLOCKS_BASE = 0x40008000"
definition RESETS_BASE :: u32 where [addressmap]: "RESETS_BASE = 0x4000c000"
definition PSM_BASE :: u32 where [addressmap]: "PSM_BASE = 0x40010000"
definition IO_BANK0_BASE :: u32 where [addressmap]: "IO_BANK0_BASE = 0x40014000"
definition IO_QSPI_BASE :: u32 where [addressmap]: "IO_QSPI_BASE = 0x40018000"
definition PADS_BANK0_BASE :: u32 where [addressmap]: "PADS_BANK0_BASE = 0x4001c000"
definition PADS_QSPI_BASE :: u32 where [addressmap]: "PADS_QSPI_BASE = 0x40020000"
definition XOSC_BASE :: u32 where [addressmap]: "XOSC_BASE = 0x40024000"
definition PLL_SYS_BASE :: u32 where [addressmap]: "PLL_SYS_BASE = 0x40028000"
definition PLL_USB_BASE :: u32 where [addressmap]: "PLL_USB_BASE = 0x4002c000"
definition BUSCTRL_BASE :: u32 where [addressmap]: "BUSCTRL_BASE = 0x40030000"
definition UART0_BASE :: u32 where [addressmap]: "UART0_BASE = 0x40034000"
definition UART1_BASE :: u32 where [addressmap]: "UART1_BASE = 0x40038000"
definition SPI0_BASE :: u32 where [addressmap]: "SPI0_BASE = 0x4003c000"
definition SPI1_BASE :: u32 where [addressmap]: "SPI1_BASE = 0x40040000"
definition I2C0_BASE :: u32 where [addressmap]: "I2C0_BASE = 0x40044000"
definition I2C1_BASE :: u32 where [addressmap]: "I2C1_BASE = 0x40048000"
definition ADC_BASE :: u32 where [addressmap]: "ADC_BASE = 0x4004c000"
definition PWM_BASE :: u32 where [addressmap]: "PWM_BASE = 0x40050000"
definition TIMER_BASE :: u32 where [addressmap]: "TIMER_BASE = 0x40054000"
definition WATCHDOG_BASE :: u32 where [addressmap]: "WATCHDOG_BASE = 0x40058000"
definition RTC_BASE :: u32 where [addressmap]: "RTC_BASE = 0x4005c000"
definition ROSC_BASE :: u32 where [addressmap]: "ROSC_BASE = 0x40060000"
definition VREG_AND_CHIP_RESET_BASE :: u32 where [addressmap]: "VREG_AND_CHIP_RESET_BASE = 0x40064000"
definition TBMAN_BASE :: u32 where [addressmap]: "TBMAN_BASE = 0x4006c000"
definition DMA_BASE :: u32 where [addressmap]: "DMA_BASE = 0x50000000"
definition USBCTRL_DPRAM_BASE :: u32 where [addressmap]: "USBCTRL_DPRAM_BASE = 0x50100000"
definition USBCTRL_BASE :: u32 where [addressmap]: "USBCTRL_BASE = 0x50100000"
definition USBCTRL_REGS_BASE :: u32 where [addressmap]: "USBCTRL_REGS_BASE = 0x50110000"
definition PIO0_BASE :: u32 where [addressmap]: "PIO0_BASE = 0x50200000"
definition PIO1_BASE :: u32 where [addressmap]: "PIO1_BASE = 0x50300000"
definition XIP_AUX_BASE :: u32 where [addressmap]: "XIP_AUX_BASE = 0x50400000"
definition SIO_BASE :: u32 where [addressmap]: "SIO_BASE = 0xd0000000"
definition PPB_BASE :: u32 where [addressmap]: "PPB_BASE = 0xe0000000"

text \<open>The peripherals behind the APB and AHB bridges, in address order.\<close>

definition peripheral_bases :: "u32 list" where
  "peripheral_bases = [
     SYSINFO_BASE,
     SYSCFG_BASE,
     CLOCKS_BASE,
     RESETS_BASE,
     PSM_BASE,
     IO_BANK0_BASE,
     IO_QSPI_BASE,
     PADS_BANK0_BASE,
     PADS_QSPI_BASE,
     XOSC_BASE,
     PLL_SYS_BASE,
     PLL_USB_BASE,
     BUSCTRL_BASE,
     UART0_BASE,
     UART1_BASE,
     SPI0_BASE,
     SPI1_BASE,
     I2C0_BASE,
     I2C1_BASE,
     ADC_BASE,
     PWM_BASE,
     TIMER_BASE,
     WATCHDOG_BASE,
     RTC_BASE,
     ROSC_BASE,
     VREG_AND_CHIP_RESET_BASE,
     TBMAN_BASE]"

end
