(* ===== verification/RegBlocks.thy ===== *)
theory RegBlocks
  imports RegsSSI RegsPadsQspi RegsM0plus AddressMap
begin

text \<open>
  What the register headers promise as a whole: every description of the three blocks is
  coherent, and the shift-and-mask accesses its constants are made for keep the fields of a
  register apart.
\<close>

section \<open>Fields of one register\<close>

lemma field_bits:
  "field_wf f \<Longrightarrow> n < 32 \<Longrightarrow> bit (fld_bits f) n \<longleftrightarrow> fld_lsb f \<le> n \<and> n \<le> fld_msb f"
  by (auto simp: field_wf_def reg_field_width_def bit_simps)

lemma bit_get_field:
  "field_wf f \<Longrightarrow> bit (get_field f w) n \<longleftrightarrow> n < reg_field_width f \<and> bit w (fld_lsb f + n)"
proof -
  assume wf: "field_wf f"
  have "bit w (fld_lsb f + n) \<Longrightarrow> fld_lsb f + n < 32" by (auto dest: bit_imp_le_length)
  moreover have "n < reg_field_width f \<longleftrightarrow> fld_lsb f + n \<le> fld_msb f"
    using wf by (auto simp: reg_field_width_def field_wf_def)
  ultimately show ?thesis
    using field_bits [OF wf, of "fld_lsb f + n"] by (auto simp: get_field_def bit_simps)
qed

lemma bit_set_field:
  "field_wf f \<Longrightarrow> n < 32 \<Longrightarrow> bit (set_field f v w) n \<longleftrightarrow>
     (if fld_lsb f \<le> n \<and> n \<le> fld_msb f then bit v (n - fld_lsb f) else bit w n)"
  using field_bits [of f n] by (auto simp: set_field_def bit_simps)

lemma get_set_field:
  "field_wf f \<Longrightarrow> get_field f (set_field f v w) = v AND mask (reg_field_width f)"
proof (rule bit_word_eqI)
  fix n
  assume wf: "field_wf f"
  have "n < reg_field_width f \<longleftrightarrow> fld_lsb f + n \<le> fld_msb f" "fld_msb f < 32"
    using wf by (auto simp: reg_field_width_def field_wf_def)
  then show "bit (get_field f (set_field f v w)) n = bit (v AND mask (reg_field_width f)) n"
    using wf by (auto simp: bit_get_field bit_set_field bit_simps dest: bit_imp_le_length)
qed

lemma set_get_field: "field_wf f \<Longrightarrow> set_field f (get_field f w) w = w"
proof (rule bit_word_eqI)
  fix n
  assume wf: "field_wf f" and "n < LENGTH(32)"
  then show "bit (set_field f (get_field f w) w) n = bit w n"
    by (auto simp: bit_set_field bit_get_field reg_field_width_def)
qed

lemma get_set_other:
  assumes "field_wf f" "field_wf g" and "fld_bits f AND fld_bits g = 0"
  shows "get_field g (set_field f v w) = get_field g w"
proof (rule bit_word_eqI)
  fix n
  have "\<not> (bit (fld_bits f) k \<and> bit (fld_bits g) k)" for k
    using assms(3) by (metis bit_and_iff bit_0_eq bot_apply bot_bool_def)
  then have "\<not> (fld_lsb f \<le> k \<and> k \<le> fld_msb f \<and> fld_lsb g \<le> k \<and> k \<le> fld_msb g)" if "k < 32" for k
    using that field_bits [OF assms(1) that] field_bits [OF assms(2) that] by blast
  moreover have "n < reg_field_width g \<Longrightarrow> fld_lsb g + n \<le> fld_msb g" "fld_msb g < 32"
    using assms(2) by (auto simp: reg_field_width_def field_wf_def)
  ultimately have "n < reg_field_width g \<Longrightarrow>
      fld_lsb g + n < 32 \<and> \<not> (fld_lsb f \<le> fld_lsb g + n \<and> fld_lsb g + n \<le> fld_msb f)"
    by (meson le_add1 le_less_trans)
  then show "bit (get_field g (set_field f v w)) n = bit (get_field g w) n"
    using assms(1,2) by (auto simp: bit_get_field bit_set_field)
qed

lemma fields_apart_pair:
  "fields_apart fs \<Longrightarrow> f \<in> set fs \<Longrightarrow> g \<in> set fs \<Longrightarrow> f \<noteq> g \<Longrightarrow> fld_bits f AND fld_bits g = 0"
  by (induction fs) (auto simp: list_all_iff and.commute)

section \<open>The blocks\<close>

text \<open>
  Every description is coherent: a field's mask is its bit range, the fields of a register do
  not overlap and together are its mask, their reset values make up the register's, enumerated
  values fit their field, and the registers of a block have different, word-aligned offsets.
\<close>

definition all_registers :: "hw_reg list" where
  "all_registers = ssi_block @ pads_qspi_block @ m0plus_block"

lemma blocks_wf: "block_wf ssi_block" "block_wf pads_qspi_block" "block_wf m0plus_block"
  by code_simp+

lemma registers_wf: "r \<in> set all_registers \<Longrightarrow> reg_wf r"
  using blocks_wf by (auto simp: all_registers_def block_wf_def list_all_iff)

section \<open>Properties\<close>

text \<open>The headers' masks and shifts give independent fields: in every register of the three
  blocks, a field that was set reads back the value cut to the field's width, the other fields
  of the register keep their value, and setting a field to what it holds changes nothing.\<close>

theorem register_fields_independent:
  assumes "r \<in> set (ssi_block @ pads_qspi_block @ m0plus_block)" and "f \<in> set (reg_fields r)"
  shows "get_field f (set_field f v w) = v AND mask (reg_field_width f) \<and>
    set_field f (get_field f w) w = w \<and>
    (\<forall>g \<in> set (reg_fields r). g \<noteq> f \<longrightarrow> get_field g (set_field f v w) = get_field g w)"
proof -
  have "reg_wf r" using assms(1) registers_wf by (simp add: all_registers_def)
  then have "\<forall>f \<in> set (reg_fields r). field_wf f" "fields_apart (reg_fields r)"
    by (auto simp: reg_wf_def list_all_iff)
  then show ?thesis
    using assms(2) fields_apart_pair [of "reg_fields r" f]
    by (simp add: get_set_field set_get_field get_set_other)
qed

theorem register_fields_independent_witness:
  "get_field (hd (reg_fields SSI_BAUDR)) (set_field (hd (reg_fields SSI_BAUDR)) 0x12345 0) = 0x2345"
proof -
  have "SSI_BAUDR \<in> set (ssi_block @ pads_qspi_block @ m0plus_block)"
    by (simp add: ssi_block_def)
  moreover have "hd (reg_fields SSI_BAUDR) \<in> set (reg_fields SSI_BAUDR)"
    by (simp add: SSI_BAUDR_def hw_register_def)
  moreover have "0x12345 AND mask (reg_field_width (hd (reg_fields SSI_BAUDR))) = (0x2345 :: u32)"
    by code_simp
  ultimately show ?thesis
    using register_fields_independent [of SSI_BAUDR "hd (reg_fields SSI_BAUDR)" "0x12345" 0] by simp
qed

text \<open>The headers describe a usable address map: the peripherals reached through the atomic
  aliases are aligned so that an alias offset never runs into the next peripheral, and no two
  of them share a base.\<close>

theorem peripherals_alias_safe:
  "distinct peripheral_bases \<and> list_all (\<lambda>b. b AND 0x3FFF = 0) peripheral_bases \<and>
   {REG_ALIAS_RW_BITS, REG_ALIAS_XOR_BITS, REG_ALIAS_SET_BITS, REG_ALIAS_CLR_BITS} =
     {0, 0x1000, 0x2000, 0x3000}"
proof -
  have "distinct peripheral_bases" by code_simp
  moreover have "list_all (\<lambda>b. b AND 0x3FFF = 0) peripheral_bases" by code_simp
  ultimately show ?thesis by (simp add: addressmap)
qed
end
