(* ===== verification/Machine.thy ===== *)
theory Machine
  imports AddressMap "HOL-Library.Monad_Syntax"
begin

text \<open>
  The machine the programs run on. \<^verbatim>\<open>REG(a)\<close> is a volatile 32-bit access: inside the SRAM
  of \<^verbatim>\<open>addressmap.h\<close> it is a word of memory, everywhere else it is a device register. What a
  device register answers is not code of the repository, so the device is a parameter: a
  state of any type with a read and a write function, and a read may change the state (time
  passes, FIFOs pop). Two programs that agree for every device make the same volatile
  accesses in the same order.
\<close>

record 'd device =
  dread :: "'d \<Rightarrow> u32 \<Rightarrow> u32 \<times> 'd"
  dwrite :: "'d \<Rightarrow> u32 \<Rightarrow> u32 \<Rightarrow> 'd"

record 'd mach =
  ram :: mem
  dev :: 'd

definition in_sram :: "u32 \<Rightarrow> bool" where
  "in_sram a \<longleftrightarrow> SRAM_BASE \<le> a \<and> a < SRAM_END"

text \<open>\<^verbatim>\<open>#define REG(a) (*(volatile uint32_t *)(a))\<close> read and written.\<close>

definition rd :: "'d device \<Rightarrow> u32 \<Rightarrow> 'd mach \<Rightarrow> u32 \<times> 'd mach" where
  "rd D a s =
     (if in_sram a then (ram s a, s)
      else (let (v, d) = dread D (dev s) a in (v, s\<lparr>dev := d\<rparr>)))"

definition wr :: "'d device \<Rightarrow> u32 \<Rightarrow> u32 \<Rightarrow> 'd mach \<Rightarrow> 'd mach" where
  "wr D a v s =
     (if in_sram a then s\<lparr>ram := mem_put (ram s) a v\<rparr>
      else s\<lparr>dev := dwrite D (dev s) a v\<rparr>)"

text \<open>
  \<^verbatim>\<open>while (!p(REG(a))) {}\<close>: the loop ends with the first read that satisfies
  \<open>p\<close>, or never (\<open>None\<close>).
\<close>

partial_function (option) poll ::
  "'d device \<Rightarrow> u32 \<Rightarrow> (u32 \<Rightarrow> bool) \<Rightarrow> 'd mach \<Rightarrow> 'd mach option" where
  "poll D a p s = (let (v, t) = rd D a s in if p v then Some t else poll D a p t)"

section \<open>Memory and device accesses\<close>

lemma sram_eval:
  "in_sram a \<longleftrightarrow> 0x20000000 \<le> a \<and> a < 0x20042000"
  by (simp add: in_sram_def addressmap)

lemma rd_ram: "in_sram a \<Longrightarrow> rd D a s = (ram s a, s)"
  by (simp add: rd_def)

lemma rd_dev: "\<not> in_sram a \<Longrightarrow>
    rd D a s = (fst (dread D (dev s) a), s\<lparr>dev := snd (dread D (dev s) a)\<rparr>)"
  by (simp add: rd_def split_beta)

lemma wr_dev: "\<not> in_sram a \<Longrightarrow> wr D a v s = s\<lparr>dev := dwrite D (dev s) a v\<rparr>"
  by (simp add: wr_def)

lemma wr_ram: "in_sram a \<Longrightarrow> wr D a v s = s\<lparr>ram := (ram s)(a := v)\<rparr>"
  by (simp add: wr_def mem_put_def)

lemma ram_rd [simp]: "ram (snd (rd D a s)) = ram s"
  by (simp add: rd_def split_beta)

lemma ram_wr: "ram (wr D a v s) = (if in_sram a then (ram s)(a := v) else ram s)"
  by (simp add: wr_def mem_put_def)

lemma dev_wr: "dev (wr D a v s) = (if in_sram a then dev s else dwrite D (dev s) a v)"
  by (simp add: wr_def)

text \<open>Volatile stores to SRAM obey the laws of a word store.\<close>

interpretation sram: word_store "\<lambda>s. ram s" "\<lambda>s a v. wr D a v s" in_sram for D
  by unfold_locales (simp_all add: ram_wr)

section \<open>Polling a device register\<close>

text \<open>The device after, and the value of, the read number \<open>n\<close> of one register.\<close>

fun after_reads :: "'d device \<Rightarrow> u32 \<Rightarrow> nat \<Rightarrow> 'd \<Rightarrow> 'd" where
  "after_reads D a 0 d = d"
| "after_reads D a (Suc n) d = after_reads D a n (snd (dread D d a))"

definition nth_read :: "'d device \<Rightarrow> u32 \<Rightarrow> nat \<Rightarrow> 'd \<Rightarrow> u32" where
  "nth_read D a n d = fst (dread D (after_reads D a n d) a)"

lemma nth_read_0: "nth_read D a 0 d = fst (dread D d a)"
  by (simp add: nth_read_def)

lemma nth_read_Suc: "nth_read D a (Suc n) d = nth_read D a n (snd (dread D d a))"
  by (simp add: nth_read_def)

text \<open>
  A poll whose register answers after \<open>n\<close> refusals returns exactly then, and it changes
  nothing but the device.
\<close>

lemma poll_answer:
  assumes "\<not> in_sram a" and "p (nth_read D a n (dev s))"
    and "\<And>k. k < n \<Longrightarrow> \<not> p (nth_read D a k (dev s))"
  shows "poll D a p s = Some (s\<lparr>dev := after_reads D a (Suc n) (dev s)\<rparr>)"
  using assms(2,3)
proof (induction n arbitrary: s)
  case 0
  then show ?case
    using assms(1) by (subst poll.simps) (simp add: rd_dev nth_read_0)
next
  case (Suc n)
  let ?t = "s\<lparr>dev := snd (dread D (dev s) a)\<rparr>"
  from Suc.prems have "poll D a p ?t = Some (?t\<lparr>dev := after_reads D a (Suc n) (dev ?t)\<rparr>)"
    by (intro Suc.IH) (auto simp: nth_read_Suc [symmetric])
  moreover have "\<not> p (fst (dread D (dev s) a))"
    using Suc.prems(2) [of 0] by (simp add: nth_read_0)
  ultimately show ?case
    using assms(1) by (subst poll.simps) (simp add: rd_dev)
qed

lemma poll_returns:
  assumes "\<not> in_sram a" and "\<exists>n. p (nth_read D a n (dev s))"
  shows "\<exists>d. poll D a p s = Some (s\<lparr>dev := d\<rparr>)"
proof -
  let ?n = "LEAST n. p (nth_read D a n (dev s))"
  have "p (nth_read D a ?n (dev s))" using assms(2) by (rule LeastI_ex)
  moreover have "\<not> p (nth_read D a k (dev s))" if "k < ?n" for k
    using that by (rule not_less_Least)
  ultimately show ?thesis using poll_answer [OF assms(1)] by blast
qed

lemma poll_ram:
  assumes "poll D a p s = Some t"
  shows "ram t = ram s"
proof (rule poll.raw_induct [where P = "\<lambda>D a p s t. ram t = ram s", OF _ assms])
  fix f :: "'a device \<Rightarrow> u32 \<Rightarrow> (u32 \<Rightarrow> bool) \<Rightarrow> 'a mach \<Rightarrow> 'a mach option"
  fix D a p s t
  assume IH: "\<And>D a p s t. f D a p s = Some t \<Longrightarrow> ram t = ram s"
    and eq: "(let (v, t) = rd D a s in if p v then Some t else f D a p t) = Some t"
  obtain v u where u: "rd D a s = (v, u)" by fastforce
  then have "ram u = ram s" using ram_rd [of D a s] by simp
  with eq u IH [of D a p u t] show "ram t = ram s" by (auto split: if_splits)
qed

text \<open>A poll that returns has seen a value that satisfies it.\<close>

lemma poll_saw:
  assumes "poll D a p s = Some t" and "\<not> in_sram a"
  shows "\<exists>n. p (nth_read D a n (dev s)) \<and> t = s\<lparr>dev := after_reads D a (Suc n) (dev s)\<rparr>"
proof -
  have "\<not> in_sram a \<longrightarrow>
      (\<exists>n. p (nth_read D a n (dev s)) \<and> t = s\<lparr>dev := after_reads D a (Suc n) (dev s)\<rparr>)"
  proof (rule poll.raw_induct [where P = "\<lambda>D a p s t. \<not> in_sram a \<longrightarrow>
      (\<exists>n. p (nth_read D a n (dev s)) \<and> t = s\<lparr>dev := after_reads D a (Suc n) (dev s)\<rparr>)",
      OF _ assms(1)], rule impI)
    fix f :: "'a device \<Rightarrow> u32 \<Rightarrow> (u32 \<Rightarrow> bool) \<Rightarrow> 'a mach \<Rightarrow> 'a mach option"
    fix D a p s t
    assume IH: "\<And>D a p s t. f D a p s = Some t \<Longrightarrow> \<not> in_sram a \<longrightarrow>
        (\<exists>n. p (nth_read D a n (dev s)) \<and> t = s\<lparr>dev := after_reads D a (Suc n) (dev s)\<rparr>)"
      and eq: "(let (v, t) = rd D a s in if p v then Some t else f D a p t) = Some t"
      and a: "\<not> in_sram a"
    let ?u = "s\<lparr>dev := snd (dread D (dev s) a)\<rparr>"
    show "\<exists>n. p (nth_read D a n (dev s)) \<and> t = s\<lparr>dev := after_reads D a (Suc n) (dev s)\<rparr>"
    proof (cases "p (fst (dread D (dev s) a))")
      case True
      with eq a show ?thesis by (intro exI [of _ 0]) (simp add: rd_dev nth_read_0)
    next
      case False
      with eq a have "f D a p ?u = Some t" by (simp add: rd_dev)
      with IH [of D a p ?u t] a obtain n where "p (nth_read D a n (dev ?u))"
        and "t = ?u\<lparr>dev := after_reads D a (Suc n) (dev ?u)\<rparr>" by blast
      then show ?thesis by (intro exI [of _ "Suc n"]) (simp add: nth_read_Suc)
    qed
  qed
  then show ?thesis using assms(2) by simp
qed

section \<open>Devices that answer\<close>

text \<open>
  \<open>acks D w v a p\<close>: once \<open>v\<close> has been written to register \<open>w\<close>, polling register
  \<open>a\<close> finally sees a value that satisfies \<open>p\<close>. This is the documented behaviour of an
  oscillator, a clock multiplexer, a reset controller and a PLL, and what every bring-up loop
  relies on.
\<close>

definition acks :: "'d device \<Rightarrow> u32 \<Rightarrow> u32 \<Rightarrow> u32 \<Rightarrow> (u32 \<Rightarrow> bool) \<Rightarrow> bool" where
  "acks D w v a p \<longleftrightarrow> (\<forall>d. \<exists>n. p (nth_read D a n (dwrite D d w v)))"

lemma write_then_poll_returns:
  assumes "acks D w v a p" and "\<not> in_sram w" and "\<not> in_sram a"
  shows "\<exists>d. poll D a p (wr D w v s) = Some (s\<lparr>dev := d\<rparr>)"
proof -
  have "\<exists>d. poll D a p (wr D w v s) = Some ((wr D w v s)\<lparr>dev := d\<rparr>)"
    using assms by (intro poll_returns) (simp_all add: acks_def wr_dev)
  then show ?thesis using assms(2) by (simp add: wr_dev)
qed

end
