(* ===== verification/Trace.thy ===== *)
theory Trace
  imports Machine
begin

text \<open>
  Observing the volatile accesses of a program: a device wrapped so that it logs every read
  with its answer and every write, in order. An execution on the logged device is the same
  execution as on the bare one, and its log is what the order theorems speak about. Also the
  constant device, which answers every register with a fixed value: the simplest hardware on
  which a bring-up sequence can be run.
\<close>

datatype event = Read u32 u32 | Write u32 u32

definition logged :: "'d device \<Rightarrow> ('d \<times> event list) device" where
  "logged D =
     \<lparr>dread = \<lambda>(d, es) a. (let (v, d') = dread D d a in (v, (d', es @ [Read a v]))),
      dwrite = \<lambda>(d, es) a v. (dwrite D d a v, es @ [Write a v])\<rparr>"

text \<open>The log of a machine that runs on a logged device.\<close>

abbreviation log :: "('d \<times> event list) mach \<Rightarrow> event list" where
  "log s \<equiv> snd (dev s)"

text \<open>The accesses of a polling loop: reads of one register, of which the last and only the last
  satisfies the condition.\<close>

fun waits :: "u32 \<Rightarrow> (u32 \<Rightarrow> bool) \<Rightarrow> event list \<Rightarrow> bool" where
  "waits a p [] = False"
| "waits a p (Read b v # es) = (b = a \<and> (if p v then es = [] else waits a p es))"
| "waits a p (Write b v # es) = False"

lemma log_wr: "\<not> in_sram a \<Longrightarrow> log (wr (logged D) a v s) = log s @ [Write a v]"
  by (simp add: wr_dev logged_def split_beta)

lemma log_wr_ram: "in_sram a \<Longrightarrow> log (wr (logged D) a v s) = log s"
  by (simp add: wr_ram)

lemma log_rd:
  "\<not> in_sram a \<Longrightarrow> rd (logged D) a s = (v, t) \<Longrightarrow> log t = log s @ [Read a v] \<and> ram t = ram s"
  by (auto simp: rd_dev logged_def split_beta)

lemma log_poll:
  assumes "poll (logged D) a p s = Some t" and "\<not> in_sram a"
  shows "\<exists>es. log t = log s @ es \<and> waits a p es"
proof -
  obtain n where "p (nth_read (logged D) a n (dev s))"
    and t: "t = s\<lparr>dev := after_reads (logged D) a (Suc n) (dev s)\<rparr>"
    using poll_saw [OF assms] by blast
  define k where "k = (LEAST n. p (nth_read (logged D) a n (dev s)))"
  have k: "p (nth_read (logged D) a k (dev s))"
    unfolding k_def by (rule LeastI) fact
  have before: "\<not> p (nth_read (logged D) a i (dev s))" if "i < k" for i
    using that unfolding k_def by (rule not_less_Least)
  have "Some t = Some (s\<lparr>dev := after_reads (logged D) a (Suc k) (dev s)\<rparr>)"
    using poll_answer [where D = "logged D" and n = k, OF assms(2), of p s] k before assms(1) by simp
  moreover have "\<exists>es. snd (after_reads (logged D) a (Suc k) d) = snd d @ es \<and> waits a p es"
    if "p (nth_read (logged D) a k d)" "\<And>i. i < k \<Longrightarrow> \<not> p (nth_read (logged D) a i d)" for d
    using that
  proof (induction k arbitrary: d)
    case 0
    obtain v e where "dread D (fst d) a = (v, e)" by fastforce
    then show ?case
      using 0(1) by (intro exI [of _ "[Read a v]"])
        (simp add: nth_read_0 logged_def split_beta)
  next
    case (Suc k)
    let ?d = "snd (dread (logged D) d a)"
    let ?v = "fst (dread (logged D) d a)"
    have "p (nth_read (logged D) a k ?d)" using Suc.prems(1) by (simp add: nth_read_Suc)
    moreover have "\<not> p (nth_read (logged D) a i ?d)" if "i < k" for i
      using Suc.prems(2) [of "Suc i"] that by (simp add: nth_read_Suc)
    ultimately obtain es where "snd (after_reads (logged D) a (Suc k) ?d) = snd ?d @ es"
      and "waits a p es" using Suc.IH by blast
    moreover have "snd ?d = snd d @ [Read a ?v]" by (simp add: logged_def split_beta)
    moreover have "\<not> p ?v" using Suc.prems(2) [of 0] by (simp add: nth_read_0)
    ultimately show ?case by (intro exI [of _ "Read a ?v # es"]) simp
  qed
  ultimately show ?thesis using k before by simp
qed

section \<open>The constant device\<close>

definition const_device :: "(u32 \<Rightarrow> u32) \<Rightarrow> 'd device" where
  "const_device f = \<lparr>dread = \<lambda>d a. (f a, d), dwrite = \<lambda>d a v. d\<rparr>"

lemma acks_const: "acks (const_device f) w v a p \<longleftrightarrow> p (f a)"
  by (simp add: acks_def nth_read_def const_device_def)

end
