(* ===== verification/Rp2040Map.thy ===== *)
theory Rp2040Map
  imports Prelude
begin

text \<open>
  The register map of the Mojo SDK, \<^verbatim>\<open>src/pico/rp2040.mojo\<close>: every address and bit
  constant of the file. A name that \<^verbatim>\<open>addressmap.h\<close> also defines has the prefix
  \<open>pico_\<close> here.
\<close>

named_theorems rp2040_map \<open>the register map of the Mojo SDK\<close>

definition pico_RESETS_BASE :: u32 where [rp2040_map]: "pico_RESETS_BASE = 0x4000C000"
definition RESETS_RESET :: u32 where [rp2040_map]: "RESETS_RESET = pico_RESETS_BASE + 0x0"
definition RESETS_RESET_DONE :: u32 where [rp2040_map]: "RESETS_RESET_DONE = pico_RESETS_BASE + 0x8"
definition RESET_ADC :: u32 where [rp2040_map]: "RESET_ADC = push_bit 0 1"
definition RESET_IO_BANK0 :: u32 where [rp2040_map]: "RESET_IO_BANK0 = push_bit 5 1"
definition RESET_PADS_BANK0 :: u32 where [rp2040_map]: "RESET_PADS_BANK0 = push_bit 8 1"
definition RESET_PIO0 :: u32 where [rp2040_map]: "RESET_PIO0 = push_bit 10 1"
definition RESET_PIO1 :: u32 where [rp2040_map]: "RESET_PIO1 = push_bit 11 1"
definition RESET_PLL_SYS :: u32 where [rp2040_map]: "RESET_PLL_SYS = push_bit 12 1"
definition RESET_PWM :: u32 where [rp2040_map]: "RESET_PWM = push_bit 14 1"
definition RESET_TIMER :: u32 where [rp2040_map]: "RESET_TIMER = push_bit 21 1"
definition RESET_UART0 :: u32 where [rp2040_map]: "RESET_UART0 = push_bit 22 1"
definition pico_XOSC_BASE :: u32 where [rp2040_map]: "pico_XOSC_BASE = 0x40024000"
definition XOSC_CTRL :: u32 where [rp2040_map]: "XOSC_CTRL = pico_XOSC_BASE + 0x00"
definition XOSC_STATUS :: u32 where [rp2040_map]: "XOSC_STATUS = pico_XOSC_BASE + 0x04"
definition XOSC_STARTUP :: u32 where [rp2040_map]: "XOSC_STARTUP = pico_XOSC_BASE + 0x0C"
definition XOSC_CTRL_ENABLE :: u32 where [rp2040_map]: "XOSC_CTRL_ENABLE = push_bit 12 0xFAB"
definition XOSC_CTRL_RANGE_1_15MHZ :: u32 where [rp2040_map]: "XOSC_CTRL_RANGE_1_15MHZ = 0xAA0"
definition XOSC_STATUS_STABLE :: u32 where [rp2040_map]: "XOSC_STATUS_STABLE = push_bit 31 1"
definition XOSC_STARTUP_DELAY :: u32 where [rp2040_map]: "XOSC_STARTUP_DELAY = 47"
definition pico_CLOCKS_BASE :: u32 where [rp2040_map]: "pico_CLOCKS_BASE = 0x40008000"
definition CLK_REF_CTRL :: u32 where [rp2040_map]: "CLK_REF_CTRL = pico_CLOCKS_BASE + 0x30"
definition CLK_REF_SELECTED :: u32 where [rp2040_map]: "CLK_REF_SELECTED = pico_CLOCKS_BASE + 0x38"
definition CLK_SYS_CTRL :: u32 where [rp2040_map]: "CLK_SYS_CTRL = pico_CLOCKS_BASE + 0x3C"
definition CLK_SYS_SELECTED :: u32 where [rp2040_map]: "CLK_SYS_SELECTED = pico_CLOCKS_BASE + 0x44"
definition CLK_REF_SRC_XOSC :: u32 where [rp2040_map]: "CLK_REF_SRC_XOSC = 2"
definition CLK_SYS_SRC_CLK_REF :: u32 where [rp2040_map]: "CLK_SYS_SRC_CLK_REF = 0"
definition CLK_SYS_SRC_AUX :: u32 where [rp2040_map]: "CLK_SYS_SRC_AUX = 1"
definition CLK_SYS_AUXSRC_PLL_SYS :: u32 where [rp2040_map]: "CLK_SYS_AUXSRC_PLL_SYS = push_bit 5 0"
definition FC0_REF_KHZ :: u32 where [rp2040_map]: "FC0_REF_KHZ = pico_CLOCKS_BASE + 0x80"
definition FC0_MIN_KHZ :: u32 where [rp2040_map]: "FC0_MIN_KHZ = pico_CLOCKS_BASE + 0x84"
definition FC0_MAX_KHZ :: u32 where [rp2040_map]: "FC0_MAX_KHZ = pico_CLOCKS_BASE + 0x88"
definition FC0_INTERVAL :: u32 where [rp2040_map]: "FC0_INTERVAL = pico_CLOCKS_BASE + 0x90"
definition FC0_SRC :: u32 where [rp2040_map]: "FC0_SRC = pico_CLOCKS_BASE + 0x94"
definition FC0_STATUS :: u32 where [rp2040_map]: "FC0_STATUS = pico_CLOCKS_BASE + 0x98"
definition FC0_RESULT :: u32 where [rp2040_map]: "FC0_RESULT = pico_CLOCKS_BASE + 0x9C"
definition FC0_STATUS_DONE :: u32 where [rp2040_map]: "FC0_STATUS_DONE = push_bit 4 1"
definition FC0_STATUS_RUNNING :: u32 where [rp2040_map]: "FC0_STATUS_RUNNING = push_bit 8 1"
definition pico_PLL_SYS_BASE :: u32 where [rp2040_map]: "pico_PLL_SYS_BASE = 0x40028000"
definition PLL_SYS_CS :: u32 where [rp2040_map]: "PLL_SYS_CS = pico_PLL_SYS_BASE + 0x0"
definition PLL_SYS_PWR :: u32 where [rp2040_map]: "PLL_SYS_PWR = pico_PLL_SYS_BASE + 0x4"
definition PLL_SYS_FBDIV_INT :: u32 where [rp2040_map]: "PLL_SYS_FBDIV_INT = pico_PLL_SYS_BASE + 0x8"
definition PLL_SYS_PRIM :: u32 where [rp2040_map]: "PLL_SYS_PRIM = pico_PLL_SYS_BASE + 0xC"
definition PLL_CS_LOCK :: u32 where [rp2040_map]: "PLL_CS_LOCK = push_bit 31 1"
definition PLL_PWR_PD :: u32 where [rp2040_map]: "PLL_PWR_PD = push_bit 0 1"
definition PLL_PWR_DSMPD :: u32 where [rp2040_map]: "PLL_PWR_DSMPD = push_bit 2 1"
definition PLL_PWR_POSTDIVPD :: u32 where [rp2040_map]: "PLL_PWR_POSTDIVPD = push_bit 3 1"
definition PLL_PWR_VCOPD :: u32 where [rp2040_map]: "PLL_PWR_VCOPD = push_bit 5 1"
definition CLK_PERI_CTRL :: u32 where [rp2040_map]: "CLK_PERI_CTRL = pico_CLOCKS_BASE + 0x48"
definition CLK_ADC_CTRL :: u32 where [rp2040_map]: "CLK_ADC_CTRL = pico_CLOCKS_BASE + 0x60"
definition CLK_ENABLE :: u32 where [rp2040_map]: "CLK_ENABLE = push_bit 11 1"
definition CLK_ADC_AUXSRC_XOSC :: u32 where [rp2040_map]: "CLK_ADC_AUXSRC_XOSC = push_bit 5 3"
definition pico_WATCHDOG_BASE :: u32 where [rp2040_map]: "pico_WATCHDOG_BASE = 0x40058000"
definition WATCHDOG_TICK :: u32 where [rp2040_map]: "WATCHDOG_TICK = pico_WATCHDOG_BASE + 0x2C"
definition WATCHDOG_TICK_ENABLE :: u32 where [rp2040_map]: "WATCHDOG_TICK_ENABLE = push_bit 9 1"
definition pico_TIMER_BASE :: u32 where [rp2040_map]: "pico_TIMER_BASE = 0x40054000"
definition TIMER_TIMERAWL :: u32 where [rp2040_map]: "TIMER_TIMERAWL = pico_TIMER_BASE + 0x28"
definition TIMER_ALARM0 :: u32 where [rp2040_map]: "TIMER_ALARM0 = pico_TIMER_BASE + 0x10"
definition TIMER_ARMED :: u32 where [rp2040_map]: "TIMER_ARMED = pico_TIMER_BASE + 0x20"
definition TIMER_INTR :: u32 where [rp2040_map]: "TIMER_INTR = pico_TIMER_BASE + 0x34"
definition TIMER_INTE :: u32 where [rp2040_map]: "TIMER_INTE = pico_TIMER_BASE + 0x38"
definition PSM_FRCE_OFF :: u32 where [rp2040_map]: "PSM_FRCE_OFF = 0x40010004"
definition PSM_PROC1 :: u32 where [rp2040_map]: "PSM_PROC1 = push_bit 16 1"
definition pico_SIO_BASE :: u32 where [rp2040_map]: "pico_SIO_BASE = 0xD0000000"
definition SIO_FIFO_ST :: u32 where [rp2040_map]: "SIO_FIFO_ST = pico_SIO_BASE + 0x50"
definition SIO_FIFO_WR :: u32 where [rp2040_map]: "SIO_FIFO_WR = pico_SIO_BASE + 0x54"
definition SIO_FIFO_RD :: u32 where [rp2040_map]: "SIO_FIFO_RD = pico_SIO_BASE + 0x58"
definition SIO_SPINLOCK_ST :: u32 where [rp2040_map]: "SIO_SPINLOCK_ST = pico_SIO_BASE + 0x5C"
definition SIO_SPINLOCK0 :: u32 where [rp2040_map]: "SIO_SPINLOCK0 = pico_SIO_BASE + 0x100"
definition pico_PWM_BASE :: u32 where [rp2040_map]: "pico_PWM_BASE = 0x40050000"
definition pico_ADC_BASE :: u32 where [rp2040_map]: "pico_ADC_BASE = 0x4004C000"
definition ADC_CS :: u32 where [rp2040_map]: "ADC_CS = pico_ADC_BASE + 0x00"
definition ADC_RESULT :: u32 where [rp2040_map]: "ADC_RESULT = pico_ADC_BASE + 0x04"
definition ADC_CS_EN :: u32 where [rp2040_map]: "ADC_CS_EN = push_bit 0 1"
definition ADC_CS_TS_EN :: u32 where [rp2040_map]: "ADC_CS_TS_EN = push_bit 1 1"
definition ADC_CS_START_ONCE :: u32 where [rp2040_map]: "ADC_CS_START_ONCE = push_bit 2 1"
definition ADC_CS_READY :: u32 where [rp2040_map]: "ADC_CS_READY = push_bit 8 1"
definition ADC_CS_AINSEL_LSB :: u32 where [rp2040_map]: "ADC_CS_AINSEL_LSB = 12"
definition pico_UART0_BASE :: u32 where [rp2040_map]: "pico_UART0_BASE = 0x40034000"
definition UART0_DR :: u32 where [rp2040_map]: "UART0_DR = pico_UART0_BASE + 0x00"
definition UART0_FR :: u32 where [rp2040_map]: "UART0_FR = pico_UART0_BASE + 0x18"
definition UART0_IBRD :: u32 where [rp2040_map]: "UART0_IBRD = pico_UART0_BASE + 0x24"
definition UART0_FBRD :: u32 where [rp2040_map]: "UART0_FBRD = pico_UART0_BASE + 0x28"
definition UART0_LCR_H :: u32 where [rp2040_map]: "UART0_LCR_H = pico_UART0_BASE + 0x2C"
definition UART0_CR :: u32 where [rp2040_map]: "UART0_CR = pico_UART0_BASE + 0x30"
definition UART_FR_BUSY :: u32 where [rp2040_map]: "UART_FR_BUSY = push_bit 3 1"
definition UART_FR_RXFE :: u32 where [rp2040_map]: "UART_FR_RXFE = push_bit 4 1"
definition UART_FR_TXFF :: u32 where [rp2040_map]: "UART_FR_TXFF = push_bit 5 1"
definition UART_LCR_FEN :: u32 where [rp2040_map]: "UART_LCR_FEN = push_bit 4 1"
definition UART_LCR_WLEN8 :: u32 where [rp2040_map]: "UART_LCR_WLEN8 = push_bit 5 3"
definition UART_CR_UARTEN :: u32 where [rp2040_map]: "UART_CR_UARTEN = push_bit 0 1"
definition UART_CR_LBE :: u32 where [rp2040_map]: "UART_CR_LBE = push_bit 7 1"
definition UART_CR_TXE :: u32 where [rp2040_map]: "UART_CR_TXE = push_bit 8 1"
definition UART_CR_RXE :: u32 where [rp2040_map]: "UART_CR_RXE = push_bit 9 1"
definition SIO_GPIO_IN :: u32 where [rp2040_map]: "SIO_GPIO_IN = pico_SIO_BASE + 0x04"
definition SIO_GPIO_OUT :: u32 where [rp2040_map]: "SIO_GPIO_OUT = pico_SIO_BASE + 0x10"
definition SIO_GPIO_OUT_SET :: u32 where [rp2040_map]: "SIO_GPIO_OUT_SET = pico_SIO_BASE + 0x14"
definition SIO_GPIO_OUT_CLR :: u32 where [rp2040_map]: "SIO_GPIO_OUT_CLR = pico_SIO_BASE + 0x18"
definition SIO_GPIO_OUT_XOR :: u32 where [rp2040_map]: "SIO_GPIO_OUT_XOR = pico_SIO_BASE + 0x1C"
definition SIO_GPIO_OE_SET :: u32 where [rp2040_map]: "SIO_GPIO_OE_SET = pico_SIO_BASE + 0x24"
definition SIO_GPIO_OE :: u32 where [rp2040_map]: "SIO_GPIO_OE = pico_SIO_BASE + 0x20"
definition SIO_GPIO_OE_CLR :: u32 where [rp2040_map]: "SIO_GPIO_OE_CLR = pico_SIO_BASE + 0x28"
definition pico_IO_BANK0_BASE :: u32 where [rp2040_map]: "pico_IO_BANK0_BASE = 0x40014000"
definition FUNCSEL_SIO :: u32 where [rp2040_map]: "FUNCSEL_SIO = 5"
definition IO_BANK0_INTR0 :: u32 where [rp2040_map]: "IO_BANK0_INTR0 = pico_IO_BANK0_BASE + 0xF0"
definition IO_BANK0_PROC0_INTE0 :: u32 where [rp2040_map]: "IO_BANK0_PROC0_INTE0 = pico_IO_BANK0_BASE + 0x100"
definition IO_BANK0_PROC0_INTS0 :: u32 where [rp2040_map]: "IO_BANK0_PROC0_INTS0 = pico_IO_BANK0_BASE + 0x120"
definition pico_PADS_BANK0_BASE :: u32 where [rp2040_map]: "pico_PADS_BANK0_BASE = 0x4001C000"
definition PADS_SLEWFAST :: u32 where [rp2040_map]: "PADS_SLEWFAST = push_bit 0 1"
definition PADS_SCHMITT :: u32 where [rp2040_map]: "PADS_SCHMITT = push_bit 1 1"
definition PADS_PDE :: u32 where [rp2040_map]: "PADS_PDE = push_bit 2 1"
definition PADS_PUE :: u32 where [rp2040_map]: "PADS_PUE = push_bit 3 1"
definition PADS_DRIVE_LSB :: u32 where [rp2040_map]: "PADS_DRIVE_LSB = 4"
definition PADS_DRIVE_MASK :: u32 where [rp2040_map]: "PADS_DRIVE_MASK = push_bit 4 0x3"
definition PADS_IE :: u32 where [rp2040_map]: "PADS_IE = push_bit 6 1"
definition PADS_OD :: u32 where [rp2040_map]: "PADS_OD = push_bit 7 1"

end
