(* ===== verification/Chips.thy ===== *)
theory Chips
  imports Rp2040Map
begin

text \<open>
  The chip descriptors of \<^verbatim>\<open>src/pico/chips.mojo\<close>: the trait \<^verbatim>\<open>Chip\<close> as a record and
  its two instances. A driver that is generic in the chip takes the record as an argument and
  a \<^verbatim>\<open>comptime if\<close> is a case distinction on one of its fields.
\<close>

record chip =
  chip_NAME :: string
  chip_NUM_GPIOS :: nat
  chip_NUM_CORES :: nat
  chip_NUM_PIO_BLOCKS :: nat
  chip_SRAM_BYTES :: nat
  chip_HAS_PAD_ISO :: bool
  chip_USES_HW_TIMER :: bool
  chip_RESETS_RESET :: u32
  chip_RESETS_RESET_DONE :: u32
  chip_RESET_IO_BANK0 :: u32
  chip_RESET_PADS_BANK0 :: u32
  chip_IO_BANK0_BASE :: u32
  chip_PADS_BANK0_BASE :: u32
  chip_SIO_BASE :: u32
  chip_SIO_GPIO_IN :: u32
  chip_SIO_GPIO_OUT :: u32
  chip_SIO_GPIO_OUT_SET :: u32
  chip_SIO_GPIO_OUT_CLR :: u32
  chip_SIO_GPIO_OUT_XOR :: u32
  chip_SIO_GPIO_OE :: u32
  chip_SIO_GPIO_OE_SET :: u32
  chip_SIO_GPIO_OE_CLR :: u32
  chip_IS_RISCV :: bool
  chip_PSM_FRCE_OFF :: u32
  chip_PSM_PROC1 :: u32
  chip_SIO_FIFO_ST :: u32
  chip_SIO_FIFO_WR :: u32
  chip_SIO_FIFO_RD :: u32
  chip_PIO0_BASE :: u32
  chip_RESET_PIO0_SHIFT :: nat
  chip_XOSC_BASE :: u32
  chip_CLOCKS_BASE :: u32
  chip_CLK_ADC_CTRL_OFF :: u32
  chip_HAS_TICKS_BLOCK :: bool
  chip_TICKS_BASE :: u32
  chip_TIMER_BASE :: u32
  chip_TIMER_INTR_OFF :: u32
  chip_TIMER_INTE_OFF :: u32
  chip_RESET_TIMER :: u32
  chip_PWM_BASE :: u32
  chip_NUM_PWM_SLICES :: nat
  chip_RESET_PWM :: u32
  chip_ADC_BASE :: u32
  chip_RESET_ADC :: u32
  chip_UART0_BASE :: u32
  chip_RESET_UART0 :: u32

definition RP2040 :: chip where
  "RP2040 =
     \<lparr>chip_NAME = ''RP2040'',
      chip_NUM_GPIOS = 30,
      chip_NUM_CORES = 2,
      chip_NUM_PIO_BLOCKS = 2,
      chip_SRAM_BYTES = 264 * 1024,
      chip_HAS_PAD_ISO = False,
      chip_USES_HW_TIMER = True,
      chip_RESETS_RESET = 0x4000C000,
      chip_RESETS_RESET_DONE = 0x4000C008,
      chip_RESET_IO_BANK0 = push_bit 5 1,
      chip_RESET_PADS_BANK0 = push_bit 8 1,
      chip_IO_BANK0_BASE = 0x40014000,
      chip_PADS_BANK0_BASE = 0x4001C000,
      chip_SIO_BASE = 0xD0000000,
      chip_SIO_GPIO_IN = 0xD0000004,
      chip_SIO_GPIO_OUT = 0xD0000010,
      chip_SIO_GPIO_OUT_SET = 0xD0000014,
      chip_SIO_GPIO_OUT_CLR = 0xD0000018,
      chip_SIO_GPIO_OUT_XOR = 0xD000001C,
      chip_SIO_GPIO_OE = 0xD0000020,
      chip_SIO_GPIO_OE_SET = 0xD0000024,
      chip_SIO_GPIO_OE_CLR = 0xD0000028,
      chip_IS_RISCV = False,
      chip_PSM_FRCE_OFF = 0x40010004,
      chip_PSM_PROC1 = push_bit 16 1,
      chip_SIO_FIFO_ST = 0xD0000050,
      chip_SIO_FIFO_WR = 0xD0000054,
      chip_SIO_FIFO_RD = 0xD0000058,
      chip_PIO0_BASE = 0x50200000,
      chip_RESET_PIO0_SHIFT = 10,
      chip_XOSC_BASE = 0x40024000,
      chip_CLOCKS_BASE = 0x40008000,
      chip_CLK_ADC_CTRL_OFF = 0x60,
      chip_HAS_TICKS_BLOCK = False,
      chip_TICKS_BASE = 0,
      chip_TIMER_BASE = 0x40054000,
      chip_TIMER_INTR_OFF = 0x34,
      chip_TIMER_INTE_OFF = 0x38,
      chip_RESET_TIMER = push_bit 21 1,
      chip_PWM_BASE = 0x40050000,
      chip_NUM_PWM_SLICES = 8,
      chip_RESET_PWM = push_bit 14 1,
      chip_ADC_BASE = 0x4004C000,
      chip_RESET_ADC = push_bit 0 1,
      chip_UART0_BASE = 0x40034000,
      chip_RESET_UART0 = push_bit 22 1\<rparr>"

definition RP2350 :: chip where
  "RP2350 =
     \<lparr>chip_NAME = ''RP2350'',
      chip_NUM_GPIOS = 30,
      chip_NUM_CORES = 2,
      chip_NUM_PIO_BLOCKS = 3,
      chip_SRAM_BYTES = 520 * 1024,
      chip_HAS_PAD_ISO = True,
      chip_USES_HW_TIMER = False,
      chip_RESETS_RESET = 0x40020000,
      chip_RESETS_RESET_DONE = 0x40020008,
      chip_RESET_IO_BANK0 = push_bit 6 1,
      chip_RESET_PADS_BANK0 = push_bit 9 1,
      chip_IO_BANK0_BASE = 0x40028000,
      chip_PADS_BANK0_BASE = 0x40038000,
      chip_SIO_BASE = 0xD0000000,
      chip_SIO_GPIO_IN = 0xD0000004,
      chip_SIO_GPIO_OUT = 0xD0000010,
      chip_SIO_GPIO_OUT_SET = 0xD0000018,
      chip_SIO_GPIO_OUT_CLR = 0xD0000020,
      chip_SIO_GPIO_OUT_XOR = 0xD0000028,
      chip_SIO_GPIO_OE = 0xD0000030,
      chip_SIO_GPIO_OE_SET = 0xD0000038,
      chip_SIO_GPIO_OE_CLR = 0xD0000040,
      chip_IS_RISCV = True,
      chip_PSM_FRCE_OFF = 0x40018004,
      chip_PSM_PROC1 = push_bit 24 1,
      chip_SIO_FIFO_ST = 0xD0000050,
      chip_SIO_FIFO_WR = 0xD0000054,
      chip_SIO_FIFO_RD = 0xD0000058,
      chip_PIO0_BASE = 0x50200000,
      chip_RESET_PIO0_SHIFT = 11,
      chip_XOSC_BASE = 0x40048000,
      chip_CLOCKS_BASE = 0x40010000,
      chip_CLK_ADC_CTRL_OFF = 0x6C,
      chip_HAS_TICKS_BLOCK = True,
      chip_TICKS_BASE = 0x40108000,
      chip_TIMER_BASE = 0x400B0000,
      chip_TIMER_INTR_OFF = 0x3C,
      chip_TIMER_INTE_OFF = 0x40,
      chip_RESET_TIMER = push_bit 23 1,
      chip_PWM_BASE = 0x400A8000,
      chip_NUM_PWM_SLICES = 12,
      chip_RESET_PWM = push_bit 16 1,
      chip_ADC_BASE = 0x400A0000,
      chip_RESET_ADC = push_bit 0 1,
      chip_UART0_BASE = 0x40070000,
      chip_RESET_UART0 = push_bit 26 1\<rparr>"

text \<open>The two chips.\<close>

definition known_chip :: "chip \<Rightarrow> bool" where
  "known_chip C \<longleftrightarrow> C = RP2040 \<or> C = RP2350"

end
