(* ===== verification/Board.thy ===== *)
theory Board
  imports Trace Chips
begin

text \<open>
  Bringing the board up. The C programs carry their own copies of the start sequence
  (\<^verbatim>\<open>board_init\<close> in \<^verbatim>\<open>bench/bench.c\<close>, \<^verbatim>\<open>bench/blink.c\<close> and \<^verbatim>\<open>bench/irq_latency.c\<close>) and of the
  PLL and frequency counter routines, with literal addresses; the Mojo SDK has them in
  \<^verbatim>\<open>src/pico/board.mojo\<close> and \<^verbatim>\<open>src/pico/clocks.mojo\<close> with symbolic ones, generic in the chip.
  The comments promise that the sequences are identical. Each is modelled from its own
  text; equality for every device is equality of the access sequences.
\<close>

section \<open>The C sequences\<close>

text \<open>\<^verbatim>\<open>bench/bench.c\<close>\<close>

definition board_init :: "'d device \<Rightarrow> 'd mach \<Rightarrow> 'd mach option" where [init_defs]:
  "board_init D s = do {
     let s = wr D 0x4002400C 47 s;
     let s = wr D 0x40024000 (push_bit 12 0xFAB OR 0xAA0) s;
     s \<leftarrow> poll D 0x40024004 (\<lambda>v. v AND 0x80000000 \<noteq> 0) s;
     let s = wr D 0x40008030 2 s;
     s \<leftarrow> poll D 0x40008038 (\<lambda>v. v = push_bit 2 1) s;
     let s = wr D 0x4000803C 0 s;
     s \<leftarrow> poll D 0x40008044 (\<lambda>v. v = 1) s;
     let s = wr D (0x4000C000 + 0x3000) (push_bit 5 1 OR push_bit 8 1 OR push_bit 21 1) s;
     let mask = push_bit 5 1 OR push_bit 8 1 OR push_bit 21 1;
     s \<leftarrow> poll D 0x4000C008 (\<lambda>v. v AND mask = mask) s;
     Some (wr D 0x4005802C (push_bit 9 1 OR 12) s)
   }"

text \<open>\<^verbatim>\<open>bench/blink.c\<close>\<close>

definition blink_board_init :: "'d device \<Rightarrow> 'd mach \<Rightarrow> 'd mach option" where [init_defs]:
  "blink_board_init D s = do {
     let s = wr D 0x4002400C 47 s;
     let s = wr D 0x40024000 (push_bit 12 0xFAB OR 0xAA0) s;
     s \<leftarrow> poll D 0x40024004 (\<lambda>v. v AND 0x80000000 \<noteq> 0) s;
     let s = wr D 0x40008030 2 s;
     s \<leftarrow> poll D 0x40008038 (\<lambda>v. v = push_bit 2 1) s;
     let s = wr D 0x4000803C 0 s;
     s \<leftarrow> poll D 0x40008044 (\<lambda>v. v = 1) s;
     let s = wr D (0x4000C000 + 0x3000) (push_bit 5 1 OR push_bit 8 1 OR push_bit 21 1) s;
     let mask = push_bit 5 1 OR push_bit 8 1 OR push_bit 21 1;
     s \<leftarrow> poll D 0x4000C008 (\<lambda>v. v AND mask = mask) s;
     Some (wr D 0x4005802C (push_bit 9 1 OR 12) s)
   }"

text \<open>\<^verbatim>\<open>bench/irq_latency.c\<close>\<close>

definition irq_board_init :: "'d device \<Rightarrow> 'd mach \<Rightarrow> 'd mach option" where [init_defs]:
  "irq_board_init D s = do {
     let s = wr D 0x4002400C 47 s;
     let s = wr D 0x40024000 (push_bit 12 0xFAB OR 0xAA0) s;
     s \<leftarrow> poll D 0x40024004 (\<lambda>v. v AND 0x80000000 \<noteq> 0) s;
     let s = wr D 0x40008030 2 s;
     s \<leftarrow> poll D 0x40008038 (\<lambda>v. v = push_bit 2 1) s;
     let s = wr D 0x4000803C 0 s;
     s \<leftarrow> poll D 0x40008044 (\<lambda>v. v = 1) s;
     let s = wr D (0x4000C000 + 0x3000) (push_bit 5 1 OR push_bit 8 1 OR push_bit 21 1) s;
     let mask = push_bit 5 1 OR push_bit 8 1 OR push_bit 21 1;
     s \<leftarrow> poll D 0x4000C008 (\<lambda>v. v AND mask = mask) s;
     Some (wr D 0x4005802C (push_bit 9 1 OR 12) s)
   }"

definition sys_clock_125mhz :: "'d device \<Rightarrow> 'd mach \<Rightarrow> 'd mach option" where [init_defs]:
  "sys_clock_125mhz D s = do {
     let s = wr D (0x4000C000 + 0x2000) (push_bit 12 1) s;
     let s = wr D (0x4000C000 + 0x3000) (push_bit 12 1) s;
     s \<leftarrow> poll D 0x4000C008 (\<lambda>v. v AND push_bit 12 1 \<noteq> 0) s;
     let s = wr D 0x40028000 1 s;
     let s = wr D 0x40028008 125 s;
     let s = wr D (0x40028004 + 0x3000) (push_bit 0 1 OR push_bit 5 1) s;
     s \<leftarrow> poll D 0x40028000 (\<lambda>v. v AND 0x80000000 \<noteq> 0) s;
     let s = wr D 0x4002800C (push_bit 16 6 OR push_bit 12 2) s;
     let s = wr D (0x40028004 + 0x3000) (push_bit 3 1) s;
     let s = wr D 0x4000803C 0 s;
     let s = wr D (0x4000803C + 0x2000) 1 s;
     poll D 0x40008044 (\<lambda>v. v = push_bit 1 1) s
   }"

definition measure_khz :: "'d device \<Rightarrow> u32 \<Rightarrow> 'd mach \<Rightarrow> (u32 \<times> 'd mach) option" where [init_defs]:
  "measure_khz D src s = do {
     s \<leftarrow> poll D 0x40008098 (\<lambda>v. v AND push_bit 8 1 = 0) s;
     let s = wr D 0x40008080 12000 s;
     let s = wr D 0x40008090 10 s;
     let s = wr D 0x40008084 0 s;
     let s = wr D 0x40008088 0x1FFFFFF s;
     let s = wr D 0x40008094 src s;
     s \<leftarrow> poll D 0x40008098 (\<lambda>v. v AND push_bit 4 1 \<noteq> 0) s;
     let (v, s) = rd D 0x4000809C s;
     Some (drop_bit 5 v, s)
   }"

definition time_us :: "'d device \<Rightarrow> 'd mach \<Rightarrow> u32 \<times> 'd mach" where
  "time_us D s = rd D 0x40054028 s"

lemma time_us_ram [simp]: "ram (snd (time_us D s)) = ram s"
  by (simp add: time_us_def)

text \<open>\<^verbatim>\<open>while (time_us() - t0 < us) {}\<close>: the condition wraps around with the timer.\<close>

definition sleep_us :: "'d device \<Rightarrow> u32 \<Rightarrow> 'd mach \<Rightarrow> 'd mach option" where
  "sleep_us D us s = (let (t0, s) = time_us D s in poll D 0x40054028 (\<lambda>v. \<not> v - t0 < us) s)"

text \<open>\<^verbatim>\<open>time_us\<close> of \<^verbatim>\<open>src/pico/time.mojo\<close>; the cycle counter of the RISC-V core is not a memory
  register, so its read function is a parameter.\<close>

definition pico_time_us :: "chip \<Rightarrow> 'd device \<Rightarrow> 'd mach \<Rightarrow> u32 \<times> 'd mach" where
  "pico_time_us C D s = rd D (chip_TIMER_BASE C + 0x28) s"

definition read_mcycle :: "('d \<Rightarrow> u32 \<times> 'd) \<Rightarrow> 'd mach \<Rightarrow> u32 \<times> 'd mach" where
  "read_mcycle mc s = (let (v, d) = mc (dev s) in (v, s\<lparr>dev := d\<rparr>))"

lemma read_mcycle_ram [simp]: "ram (snd (read_mcycle mc s)) = ram s"
  by (simp add: read_mcycle_def split_beta)

section \<open>The Mojo sequences\<close>

text \<open>\<^verbatim>\<open>src/pico/mmio.mojo\<close>: the atomic aliases.\<close>

definition SET_ALIAS :: u32 where "SET_ALIAS = 0x2000"
definition CLR_ALIAS :: u32 where "CLR_ALIAS = 0x3000"

definition write32_set :: "'d device \<Rightarrow> u32 \<Rightarrow> u32 \<Rightarrow> 'd mach \<Rightarrow> 'd mach" where [init_defs]:
  "write32_set D a m s = wr D (a + SET_ALIAS) m s"

definition write32_clr :: "'d device \<Rightarrow> u32 \<Rightarrow> u32 \<Rightarrow> 'd mach \<Rightarrow> 'd mach" where [init_defs]:
  "write32_clr D a m s = wr D (a + CLR_ALIAS) m s"

text \<open>\<^verbatim>\<open>init[C]\<close> of \<^verbatim>\<open>src/pico/board.mojo\<close>\<close>

definition pico_init :: "chip \<Rightarrow> 'd device \<Rightarrow> 'd mach \<Rightarrow> 'd mach option" where [init_defs]:
  "pico_init C D s =
     (if chip_USES_HW_TIMER C then do {
        let s = wr D XOSC_STARTUP XOSC_STARTUP_DELAY s;
        let s = wr D XOSC_CTRL (XOSC_CTRL_ENABLE OR XOSC_CTRL_RANGE_1_15MHZ) s;
        s \<leftarrow> poll D XOSC_STATUS (\<lambda>v. \<not> v AND XOSC_STATUS_STABLE = 0) s;
        let s = wr D CLK_REF_CTRL CLK_REF_SRC_XOSC s;
        s \<leftarrow> poll D CLK_REF_SELECTED (\<lambda>v. v = push_bit (unat CLK_REF_SRC_XOSC) 1) s;
        let s = wr D CLK_SYS_CTRL CLK_SYS_SRC_CLK_REF s;
        s \<leftarrow> poll D CLK_SYS_SELECTED (\<lambda>v. v = push_bit (unat CLK_SYS_SRC_CLK_REF) 1) s;
        let mask = RESET_IO_BANK0 OR RESET_PADS_BANK0 OR RESET_TIMER;
        let s = write32_clr D RESETS_RESET mask s;
        s \<leftarrow> poll D RESETS_RESET_DONE (\<lambda>v. v AND mask = mask) s;
        Some (wr D WATCHDOG_TICK (WATCHDOG_TICK_ENABLE OR 12) s)
      }
      else do {
        let gpio_mask = chip_RESET_IO_BANK0 C OR chip_RESET_PADS_BANK0 C;
        let s = write32_clr D (chip_RESETS_RESET C) gpio_mask s;
        poll D (chip_RESETS_RESET_DONE C) (\<lambda>v. v AND gpio_mask = gpio_mask) s
      })"

text \<open>\<^verbatim>\<open>src/pico/clocks.mojo\<close>\<close>

definition pico_sys_clock_125mhz :: "'d device \<Rightarrow> 'd mach \<Rightarrow> 'd mach option" where [init_defs]:
  "pico_sys_clock_125mhz D s = do {
     let s = write32_set D RESETS_RESET RESET_PLL_SYS s;
     let s = write32_clr D RESETS_RESET RESET_PLL_SYS s;
     s \<leftarrow> poll D RESETS_RESET_DONE (\<lambda>v. \<not> v AND RESET_PLL_SYS = 0) s;
     let s = wr D PLL_SYS_CS 1 s;
     let s = wr D PLL_SYS_FBDIV_INT 125 s;
     let s = write32_clr D PLL_SYS_PWR (PLL_PWR_PD OR PLL_PWR_VCOPD) s;
     s \<leftarrow> poll D PLL_SYS_CS (\<lambda>v. \<not> v AND PLL_CS_LOCK = 0) s;
     let s = wr D PLL_SYS_PRIM (push_bit 16 6 OR push_bit 12 2) s;
     let s = write32_clr D PLL_SYS_PWR PLL_PWR_POSTDIVPD s;
     let s = wr D CLK_SYS_CTRL CLK_SYS_AUXSRC_PLL_SYS s;
     let s = write32_set D CLK_SYS_CTRL CLK_SYS_SRC_AUX s;
     poll D CLK_SYS_SELECTED (\<lambda>v. v = push_bit (unat CLK_SYS_SRC_AUX) 1) s
   }"

definition pico_sys_clock_12mhz :: "'d device \<Rightarrow> 'd mach \<Rightarrow> 'd mach option" where [init_defs]:
  "pico_sys_clock_12mhz D s = do {
     let s = write32_clr D CLK_SYS_CTRL CLK_SYS_SRC_AUX s;
     s \<leftarrow> poll D CLK_SYS_SELECTED (\<lambda>v. v = push_bit (unat CLK_SYS_SRC_CLK_REF) 1) s;
     Some (write32_set D PLL_SYS_PWR (PLL_PWR_PD OR PLL_PWR_VCOPD OR PLL_PWR_POSTDIVPD) s)
   }"

definition XOSC_KHZ :: u32 where [init_defs]: "XOSC_KHZ = 12000"
definition FC_CLK_SYS :: u32 where [init_defs]: "FC_CLK_SYS = 9"

definition pico_measure_khz :: "'d device \<Rightarrow> u32 \<Rightarrow> 'd mach \<Rightarrow> (u32 \<times> 'd mach) option" where [init_defs]:
  "pico_measure_khz D src s = do {
     s \<leftarrow> poll D FC0_STATUS (\<lambda>v. v AND FC0_STATUS_RUNNING = 0) s;
     let s = wr D FC0_REF_KHZ XOSC_KHZ s;
     let s = wr D FC0_INTERVAL 10 s;
     let s = wr D FC0_MIN_KHZ 0 s;
     let s = wr D FC0_MAX_KHZ 0x1FFFFFF s;
     let s = wr D FC0_SRC src s;
     s \<leftarrow> poll D FC0_STATUS (\<lambda>v. \<not> v AND FC0_STATUS_DONE = 0) s;
     let (v, s) = rd D FC0_RESULT s;
     Some (drop_bit 5 v, s)
   }"

section \<open>The hardware the sequences rely on\<close>

text \<open>
  The oscillator becomes stable once it is enabled, the clock multiplexers follow their
  control registers, the reset controller acknowledges.
\<close>

definition bringup_answers :: "'d device \<Rightarrow> bool" where
  "bringup_answers D \<longleftrightarrow>
     acks D 0x40024000 0xFABAA0 0x40024004 (\<lambda>v. v AND 0x80000000 \<noteq> 0) \<and>
     acks D 0x40008030 2 0x40008038 (\<lambda>v. v = 4) \<and>
     acks D 0x4000803C 0 0x40008044 (\<lambda>v. v = 1) \<and>
     acks D 0x4000F000 0x200120 0x4000C008 (\<lambda>v. v AND 0x200120 = 0x200120)"

text \<open>The PLL leaves reset and locks, and the system clock follows to its auxiliary source.\<close>

definition pll_answers :: "'d device \<Rightarrow> bool" where
  "pll_answers D \<longleftrightarrow>
     acks D 0x4000F000 0x1000 0x4000C008 (\<lambda>v. v AND 0x1000 \<noteq> 0) \<and>
     acks D 0x4002B004 0x21 0x40028000 (\<lambda>v. v AND 0x80000000 \<noteq> 0) \<and>
     acks D 0x4000A03C 1 0x40008044 (\<lambda>v. v = 2)"

text \<open>The frequency counter becomes idle, and finishes a measurement of the source.\<close>

definition counter_answers :: "'d device \<Rightarrow> u32 \<Rightarrow> bool" where
  "counter_answers D src \<longleftrightarrow>
     (\<forall>d. \<exists>n. nth_read D 0x40008098 n d AND 0x100 = 0) \<and>
     acks D 0x40008094 src 0x40008098 (\<lambda>v. v AND 0x10 \<noteq> 0)"

text \<open>The timer runs: polled long enough it passes every distance.\<close>

definition timer_runs :: "'d device \<Rightarrow> bool" where
  "timer_runs D \<longleftrightarrow> (\<forall>d t us. \<exists>n. us \<le> nth_read D 0x40054028 n d - t)"

section \<open>Sequences that return\<close>

text \<open>
  \<open>returns x s\<close>: the computation \<open>x\<close>, started in \<open>s\<close>, ends and has changed nothing but
  the device.
\<close>

definition returns :: "'d mach option \<Rightarrow> 'd mach \<Rightarrow> bool" where
  "returns x s \<longleftrightarrow> (\<exists>t. x = Some t \<and> ram t = ram s)"

lemma returns_Some: "ram t = ram s \<Longrightarrow> returns (Some t) s"
  by (simp add: returns_def)

lemma returns_bind: "returns x s \<Longrightarrow> (\<And>t. ram t = ram s \<Longrightarrow> returns (g t) s) \<Longrightarrow> returns (x \<bind> g) s"
  by (auto simp: returns_def)

lemma returns_seq: "returns x s \<Longrightarrow> (\<And>t. returns (g t) t) \<Longrightarrow> returns (x \<bind> g) s"
  by (fastforce simp: returns_def)

lemma returns_poll:
  assumes "acks D w v a p" and "\<not> in_sram w" and "\<not> in_sram a" and "ram u = ram s"
  shows "returns (poll D a p (wr D w v u)) s"
  using write_then_poll_returns [OF assms(1-3), of u] assms(4) by (auto simp: returns_def)

lemma returns_poll_settled:
  assumes "\<And>d. \<exists>n. p (nth_read D a n d)" and "\<not> in_sram a" and "ram u = ram s"
  shows "returns (poll D a p u) s"
  using poll_returns [OF assms(2), where p = p and D = D and s = u] assms(1,3)
  by (auto simp: returns_def)

text \<open>The constants the C code writes as shifts.\<close>

lemma init_consts:
  "push_bit 12 0xFAB OR 0xAA0 = (0xFABAA0 :: u32)"
  "push_bit 5 1 OR push_bit 8 1 OR push_bit 21 1 = (0x200120 :: u32)"
  "push_bit 9 1 OR 12 = (0x20C :: u32)" "push_bit 0 1 OR push_bit 5 1 = (0x21 :: u32)"
  "push_bit 16 6 OR push_bit 12 2 = (0x62000 :: u32)"
  "push_bit 1 1 = (2 :: u32)" "push_bit 2 1 = (4 :: u32)" "push_bit 3 1 = (8 :: u32)"
  "push_bit 4 1 = (0x10 :: u32)" "push_bit 8 1 = (0x100 :: u32)" "push_bit 12 1 = (0x1000 :: u32)"
  "0x4000C000 + 0x2000 = (0x4000E000 :: u32)" "0x4000C000 + 0x3000 = (0x4000F000 :: u32)"
  "0x40028004 + 0x3000 = (0x4002B004 :: u32)" "0x4000803C + 0x2000 = (0x4000A03C :: u32)"
  by simp_all

lemma board_init_returns: "bringup_answers D \<Longrightarrow> returns (board_init D s) s"
  unfolding board_init_def Let_def bringup_answers_def init_consts
  by (elim conjE, intro returns_bind returns_Some returns_poll; simp add: ram_wr sram_eval)

lemma sys_clock_125mhz_returns: "pll_answers D \<Longrightarrow> returns (sys_clock_125mhz D s) s"
  unfolding sys_clock_125mhz_def Let_def pll_answers_def init_consts
  by (elim conjE, intro returns_bind returns_poll; simp add: ram_wr sram_eval)

lemma sleep_us_returns: "timer_runs D \<Longrightarrow> returns (sleep_us D us s) s"
  unfolding sleep_us_def time_us_def Let_def split_beta
  by (rule returns_poll_settled) (auto simp: timer_runs_def sram_eval not_less)

section \<open>Hardware that answers\<close>

text \<open>
  A board on which every sequence can be run. Its state is the timer, which advances by one
  microsecond per read, and the source of the system clock, which follows the control
  register at once; every other status register already holds the value its loop waits for.
\<close>

definition ready_answer :: "u32 \<Rightarrow> u32 \<Rightarrow> u32" where
  "ready_answer src a =
     (if a = 0x40024004 \<or> a = 0x40028000 then 0x80000000
      else if a = 0x40008038 then 4
      else if a = 0x40008044 then (if src = 0 then 1 else 2)
      else if a = 0x4000C008 then 0xFFFFFFFF
      else if a = 0x40008098 then 0x10
      else 0)"

definition ready_device :: "(u32 \<times> u32) device" where
  "ready_device =
     \<lparr>dread = \<lambda>(d, src) a.
        if a = 0x40054028 then (d, (d + 1, src)) else (ready_answer src a, (d, src)),
      dwrite = \<lambda>(d, src) a v.
        (d, if a = 0x4000803C then v AND 1 else if a = 0x4000A03C then src OR (v AND 1) else src)\<rparr>"

lemma ready_reads:
  "a \<noteq> 0x40054028 \<Longrightarrow> nth_read ready_device a n (d, src) = ready_answer src a"
  by (induction n arbitrary: d) (simp_all add: nth_read_0 nth_read_Suc ready_device_def)

lemma ready_timer: "nth_read ready_device 0x40054028 n (d, src) = d + of_nat n"
  by (induction n arbitrary: d) (simp_all add: nth_read_0 nth_read_Suc ready_device_def add.commute)

lemma ready_write: "dwrite ready_device (d, src) a v =
    (d, if a = 0x4000803C then v AND 1 else if a = 0x4000A03C then src OR (v AND 1) else src)"
  by (simp add: ready_device_def)

lemma or_1_nonzero: "src OR 1 \<noteq> (0 :: u32)"
proof
  assume "src OR 1 = 0"
  then have "bit (src OR 1) 0 = bit (0 :: u32) 0" by simp
  then show False by (simp add: bit_or_iff)
qed

lemma ready_hardware:
  "bringup_answers ready_device" "pll_answers ready_device" "counter_answers ready_device src"
  by (auto simp: bringup_answers_def pll_answers_def counter_answers_def acks_def ready_write
      ready_reads ready_answer_def or_1_nonzero)

lemma ready_timer_runs: "timer_runs ready_device"
  unfolding timer_runs_def split_paired_All ready_timer
proof (intro allI)
  fix d src t us :: u32
  have "d + of_nat (unat (us + t - d)) - t = us" by simp
  then show "\<exists>n. us \<le> d + of_nat n - t" by (metis order_refl)
qed

text \<open>Logging the accesses does not change what a device answers.\<close>

lemma nth_read_logged: "nth_read (logged D) a n (d, es) = nth_read D a n d"
  by (induction n arbitrary: d es) (simp_all add: nth_read_0 nth_read_Suc logged_def split_beta)

lemma dwrite_logged: "dwrite (logged D) (d, es) a v = (dwrite D d a v, es @ [Write a v])"
  by (simp add: logged_def)

lemma acks_logged: "acks D w v a p \<Longrightarrow> acks (logged D) w v a p"
  by (simp add: acks_def dwrite_logged nth_read_logged)

section \<open>Properties\<close>

text \<open>C22: the start sequences of the three C programs, and the C copies of the clock
  routines, make exactly the volatile accesses of the Mojo SDK's \<^verbatim>\<open>init\<close> for the RP2040,
  \<^verbatim>\<open>sys_clock_125mhz\<close> and \<^verbatim>\<open>measure_khz\<close>, on every device and from every state.\<close>

theorem board_sequences_agree:
  "board_init D s = pico_init RP2040 D s \<and> blink_board_init D s = pico_init RP2040 D s \<and>
   irq_board_init D s = pico_init RP2040 D s \<and>
   sys_clock_125mhz D s = pico_sys_clock_125mhz D s \<and>
   measure_khz D src s = pico_measure_khz D src s"
  by (simp add: init_defs Let_def RP2040_def rp2040_map SET_ALIAS_def CLR_ALIAS_def)

text \<open>Bring-up accesses the hardware in the documented order and in no other way: the
  crystal is started and waited for before the reference clock is switched to it, that switch
  is waited for before the system clock is switched, that one before the resets are released,
  and the timer's tick is started only when the reset controller has acknowledged. Every wait
  is a run of reads of one status register of which exactly the last shows the condition.\<close>

theorem board_init_order:
  assumes "board_init (logged D) s = Some t"
  shows "\<exists>w1 w2 w3 w4. log t = log s @
      [Write (XOSC_BASE + 0x0C) 47, Write XOSC_BASE 0xFABAA0] @ w1 @
      [Write (CLOCKS_BASE + 0x30) 2] @ w2 @ [Write (CLOCKS_BASE + 0x3C) 0] @ w3 @
      [Write (RESETS_BASE + REG_ALIAS_CLR_BITS) 0x200120] @ w4 @
      [Write (WATCHDOG_BASE + 0x2C) 0x20C] \<and>
    waits (XOSC_BASE + 0x04) (\<lambda>v. v AND 0x80000000 \<noteq> 0) w1 \<and>
    waits (CLOCKS_BASE + 0x38) (\<lambda>v. v = 4) w2 \<and> waits (CLOCKS_BASE + 0x44) (\<lambda>v. v = 1) w3 \<and>
    waits (RESETS_BASE + 0x08) (\<lambda>v. v AND 0x200120 = 0x200120) w4"
proof -
  let ?D = "logged D"
  let ?s1 = "wr ?D 0x40024000 0xFABAA0 (wr ?D 0x4002400C 47 s)"
  from assms obtain t1 t2 t3 t4 where
    p1: "poll ?D 0x40024004 (\<lambda>v. v AND 0x80000000 \<noteq> 0) ?s1 = Some t1" and
    p2: "poll ?D 0x40008038 (\<lambda>v. v = 4) (wr ?D 0x40008030 2 t1) = Some t2" and
    p3: "poll ?D 0x40008044 (\<lambda>v. v = 1) (wr ?D 0x4000803C 0 t2) = Some t3" and
    p4: "poll ?D 0x4000C008 (\<lambda>v. v AND 0x200120 = 0x200120) (wr ?D 0x4000F000 0x200120 t3) = Some t4" and
    t: "t = wr ?D 0x4005802C 0x20C t4"
    unfolding board_init_def Let_def init_consts by (auto simp: bind_eq_Some_conv)
  note logs = log_poll [OF p1] log_poll [OF p2] log_poll [OF p3] log_poll [OF p4]
  from logs obtain w1 w2 w3 w4 where
    "log t1 = log ?s1 @ w1" "log t2 = log (wr ?D 0x40008030 2 t1) @ w2"
    "log t3 = log (wr ?D 0x4000803C 0 t2) @ w3" "log t4 = log (wr ?D 0x4000F000 0x200120 t3) @ w4"
    and "waits 0x40024004 (\<lambda>v. v AND 0x80000000 \<noteq> 0) w1" "waits 0x40008038 (\<lambda>v. v = 4) w2"
    "waits 0x40008044 (\<lambda>v. v = 1) w3" "waits 0x4000C008 (\<lambda>v. v AND 0x200120 = 0x200120) w4"
    by (auto simp: sram_eval)
  then show ?thesis
    by (intro exI [of _ w1] exI [of _ w2] exI [of _ w3] exI [of _ w4])
      (simp add: t log_wr sram_eval addressmap)
qed

theorem board_init_order_witness:
  "\<exists>t. board_init (logged ready_device) \<lparr>ram = \<lambda>_. 0, dev = ((0, 0), [])\<rparr> = Some t \<and>
     log t \<noteq> [] \<and> hd (log t) = Write (XOSC_BASE + 0x0C) 47"
proof -
  have "bringup_answers (logged ready_device)"
    using ready_hardware(1) by (simp add: bringup_answers_def acks_logged)
  then obtain t where t: "board_init (logged ready_device) \<lparr>ram = \<lambda>_. 0, dev = ((0, 0), [])\<rparr> = Some t"
    using board_init_returns unfolding returns_def by blast
  from board_init_order [OF this] show ?thesis by (auto simp: t)
qed

text \<open>On hardware that answers as documented, bring-up, the switch to 125 MHz and every
  sleep end, and they leave the memory alone.\<close>

theorem bring_up_returns:
  assumes "bringup_answers D" and "pll_answers D" and "timer_runs D"
  shows "\<exists>t. (do { s \<leftarrow> board_init D s; s \<leftarrow> sys_clock_125mhz D s; sleep_us D us s }) = Some t \<and>
    ram t = ram s"
proof -
  have "returns (do { s \<leftarrow> board_init D s; s \<leftarrow> sys_clock_125mhz D s; sleep_us D us s }) s"
    by (intro returns_seq board_init_returns [OF assms(1)] sys_clock_125mhz_returns [OF assms(2)]
        sleep_us_returns [OF assms(3)])
  then show ?thesis by (simp add: returns_def)
qed

theorem bring_up_returns_witness:
  "\<exists>t. board_init ready_device \<lparr>ram = \<lambda>_. 0, dev = (0, 0)\<rparr> = Some t"
  using bring_up_returns [OF ready_hardware(1,2) ready_timer_runs,
      where s = "\<lparr>ram = \<lambda>_. 0, dev = (0, 0)\<rparr>"]
  by (auto simp: bind_eq_Some_conv)

text \<open>A sleep reads the timer once and then until the elapsed time, computed modulo
  \<^verbatim>\<open>2^32\<close> so that a wrap-around of the timer does not matter, has reached the argument; it
  never returns earlier.\<close>

theorem sleep_us_waits:
  assumes "sleep_us (logged D) us s = Some t"
  shows "\<exists>t0 es. log t = log s @ Read (TIMER_BASE + 0x28) t0 # es \<and>
    waits (TIMER_BASE + 0x28) (\<lambda>v. us \<le> v - t0) es"
proof -
  obtain t0 u where u: "rd (logged D) 0x40054028 s = (t0, u)" by fastforce
  then have "poll (logged D) 0x40054028 (\<lambda>v. us \<le> v - t0) u = Some t"
    using assms by (simp add: sleep_us_def time_us_def not_less)
  from log_poll [OF this] obtain es where "log t = log u @ es"
    and "waits 0x40054028 (\<lambda>v. us \<le> v - t0) es" by (auto simp: sram_eval)
  moreover have "log u = log s @ [Read 0x40054028 t0]"
    using log_rd [OF _ u] by (simp add: sram_eval)
  ultimately show ?thesis by (intro exI [of _ t0] exI [of _ es]) (simp add: addressmap)
qed

theorem sleep_us_waits_witness:
  "\<exists>t t0 es. sleep_us (logged ready_device) 3 \<lparr>ram = \<lambda>_. 0, dev = ((0, 0), [])\<rparr> = Some t \<and>
     log t = Read (TIMER_BASE + 0x28) t0 # es \<and> waits (TIMER_BASE + 0x28) (\<lambda>v. 3 \<le> v - t0) es"
proof -
  have "timer_runs (logged ready_device)"
    using ready_timer_runs by (simp add: timer_runs_def nth_read_logged)
  then obtain t where "sleep_us (logged ready_device) 3 \<lparr>ram = \<lambda>_. 0, dev = ((0, 0), [])\<rparr> = Some t"
    using sleep_us_returns unfolding returns_def by blast
  moreover from sleep_us_waits [OF this] obtain t0 es where
    "log t = Read (TIMER_BASE + 0x28) t0 # es" "waits (TIMER_BASE + 0x28) (\<lambda>v. 3 \<le> v - t0) es"
    by auto
  ultimately show ?thesis by blast
qed

end
