(* ===== verification/IrqLatency.thy ===== *)
theory IrqLatency
  imports Board
begin

text \<open>
  \<^verbatim>\<open>bench/irq_latency.c\<close>: the interrupt latency gate. The main program raises a pin, waits
  until the interrupt handler has counted, takes the PIO's measurement and keeps running
  statistics; the handler runs between the main program's accesses. Both touch the word
  \<^verbatim>\<open>IRQ_COUNT\<close>. Whether the interrupt line is raised is a question to the device
  (\<open>q\<close>), asked before every access while the line is enabled in the interrupt controller.
\<close>

section \<open>Constants\<close>

named_theorems irq_layout \<open>the fixed addresses of the latency gate\<close>

definition PIN_A :: nat where [irq_layout]: "PIN_A = 15"
definition PIN_C :: nat where [irq_layout]: "PIN_C = 16"
definition IRQ_N :: nat where "IRQ_N = 10000"
definition IRQ_RUNS :: nat where "IRQ_RUNS = 3"
definition IRQ_MB :: u32 where [irq_layout]: "IRQ_MB = 0x20030000"
definition IRQ_MAGIC :: u32 where "IRQ_MAGIC = 0x4952514C"
definition SAMPLES :: u32 where [irq_layout]: "SAMPLES = 0x20010000"
definition IRQ_COUNT :: u32 where [irq_layout]: "IRQ_COUNT = 0x20024000"
definition IO_BANK0 :: u32 where [irq_layout]: "IO_BANK0 = 0x40014000"
definition INTR1 :: u32 where [irq_layout]: "INTR1 = IO_BANK0 + 0xF4"
definition INTE1 :: u32 where [irq_layout]: "INTE1 = IO_BANK0 + 0x104"
definition A_EDGE_HIGH :: u32 where [irq_layout]: "A_EDGE_HIGH = push_bit 31 1"
definition PIO0 :: u32 where [irq_layout]: "PIO0 = 0x50200000"

definition PROG :: "u16 list" where
  "PROG = [0x200F, 0x208F, 0xA02B, 0x00C5, 0x0043, 0x4020, 0x8020]"

section \<open>The handler\<close>

definition isr_irq13 :: "'d device \<Rightarrow> 'd mach \<Rightarrow> 'd mach" where
  "isr_irq13 D s =
     (let s = wr D 0xD0000014 (push_bit PIN_C 1) s;
          s = wr D INTR1 A_EDGE_HIGH s;
          (c, s) = rd D IRQ_COUNT s
      in wr D IRQ_COUNT (c + 1) s)"

text \<open>
  The handler runs as long as the line is raised; the main program's next access follows.
  A line that never falls keeps the main program from running (\<open>None\<close>).
\<close>

partial_function (option) service ::
  "('d \<Rightarrow> bool) \<Rightarrow> 'd device \<Rightarrow> 'd mach \<Rightarrow> 'd mach option" where
  "service q D s = (if q (dev s) then service q D (isr_irq13 D s) else Some s)"

text \<open>Accesses of the main program while interrupts are enabled.\<close>

definition ird :: "('d \<Rightarrow> bool) \<Rightarrow> 'd device \<Rightarrow> u32 \<Rightarrow> 'd mach \<Rightarrow> (u32 \<times> 'd mach) option" where
  "ird q D a s = do { s \<leftarrow> service q D s; Some (rd D a s) }"

definition iwr :: "('d \<Rightarrow> bool) \<Rightarrow> 'd device \<Rightarrow> u32 \<Rightarrow> u32 \<Rightarrow> 'd mach \<Rightarrow> 'd mach option" where
  "iwr q D a v s = do { s \<leftarrow> service q D s; Some (wr D a v s) }"

partial_function (option) ipoll ::
  "('d \<Rightarrow> bool) \<Rightarrow> 'd device \<Rightarrow> u32 \<Rightarrow> (u32 \<Rightarrow> bool) \<Rightarrow> 'd mach \<Rightarrow> 'd mach option" where
  "ipoll q D a p s =
     do { (v, t) \<leftarrow> ird q D a s; if p v then Some t else ipoll q D a p t }"

definition irq_sleep_us :: "('d \<Rightarrow> bool) \<Rightarrow> 'd device \<Rightarrow> u32 \<Rightarrow> 'd mach \<Rightarrow> 'd mach option" where
  "irq_sleep_us q D us s =
     do { (t0, s) \<leftarrow> ird q D 0x40054028 s; ipoll q D 0x40054028 (\<lambda>v. \<not> v - t0 < us) s }"

text \<open>
  \<^verbatim>\<open>while (!p(REG(a))) if (++spins > budget) fail();\<close>: the machine at the exit, on the left
  when the budget is exceeded.
\<close>

fun spin :: "('d \<Rightarrow> bool) \<Rightarrow> 'd device \<Rightarrow> u32 \<Rightarrow> (u32 \<Rightarrow> bool) \<Rightarrow> nat \<Rightarrow> 'd mach \<Rightarrow>
    ('d mach + 'd mach) option" where
  "spin q D a p budget s =
     do { (v, t) \<leftarrow> ird q D a s;
          if p v then Some (Inr t)
          else (case budget of 0 \<Rightarrow> Some (Inl t) | Suc b \<Rightarrow> spin q D a p b t) }"

declare spin.simps [simp del]

text \<open>\<^verbatim>\<open>fail\<close>, up to its endless loop: the program's outcome on the left.\<close>

definition fail :: "('d \<Rightarrow> bool) \<Rightarrow> 'd device \<Rightarrow> u32 \<Rightarrow> 'd mach \<Rightarrow> ('d mach + 'a) option" where
  "fail q D code s =
     do { s \<leftarrow> iwr q D (IRQ_MB + 0x20) code s; s \<leftarrow> iwr q D (IRQ_MB + 0x04) 3 s; Some (Inl s) }"

section \<open>The main program\<close>

text \<open>Up to the sleep after the interrupt is enabled; \<open>lang\<close> is \<^verbatim>\<open>LANG_ID\<close>.\<close>

definition irq_setup :: "u32 \<Rightarrow> 'd device \<Rightarrow> 'd mach \<Rightarrow> 'd mach option" where
  "irq_setup lang D s = do {
     s \<leftarrow> irq_board_init D s;
     let s = wr D (IRQ_MB + 0x00) IRQ_MAGIC s;
     let s = wr D (IRQ_MB + 0x04) 1 s;
     let s = wr D (IRQ_MB + 0x08) (of_nat IRQ_N) s;
     let s = wr D (IRQ_MB + 0x0C) (of_nat IRQ_RUNS) s;
     let s = wr D (IRQ_MB + 0x10) lang s;
     let s = wr D (IRQ_MB + 0x1C) 0 s;
     let s = wr D (IRQ_MB + 0x20) 0 s;
     s \<leftarrow> sys_clock_125mhz D s;
     (khz, s) \<leftarrow> measure_khz D 9 s;
     let s = wr D (IRQ_MB + 0x14) khz s;
     let s = wr D (IO_BANK0 + 8 * of_nat PIN_A + 4) 5 s;
     let s = wr D (IO_BANK0 + 8 * of_nat PIN_C + 4) 5 s;
     let s = wr D 0xD0000018 (push_bit PIN_A 1 OR push_bit PIN_C 1) s;
     let s = wr D 0xD0000024 (push_bit PIN_A 1 OR push_bit PIN_C 1) s;
     let s = wr D (0x4000C000 + 0x3000) (push_bit 10 1) s;
     s \<leftarrow> poll D 0x4000C008 (\<lambda>v. v AND push_bit 10 1 \<noteq> 0) s;
     let s = for_range 0 7 (\<lambda>i. wr D (PIO0 + 0x048 + 4 * of_nat i) (ucast (PROG ! i))) s;
     let s = wr D (PIO0 + 0x0CC) (push_bit 12 6) s;
     let s = wr D (PIO0 + 0x0C8) (push_bit 16 1) s;
     let (v, s) = rd D (PIO0 + 0x0CC) s;
     let s = wr D (PIO0 + 0x0CC) ((v AND NOT (push_bit 24 0x1F)) OR push_bit 24 (of_nat PIN_C)) s;
     let s = wr D (IRQ_MB + 0x60) 7 s;
     let s = for_range 0 7 (\<lambda>i. wr D (IRQ_MB + 0x64 + 4 * of_nat i) (ucast (PROG ! i))) s;
     let (v, s) = rd D (PIO0 + 0x000) s;
     let s = wr D (PIO0 + 0x000) (v OR 1) s;
     let s = wr D IRQ_COUNT 0 s;
     let s = wr D INTR1 (push_bit 28 0xF) s;
     let s = wr D (INTE1 + 0x2000) A_EDGE_HIGH s;
     Some (wr D 0xE000E100 (push_bit 13 1) s)
   }"

text \<open>
  One measurement, number \<open>i\<close> of run \<open>r\<close>, in three phases: raise the pin and wait for the
  handler, wait for the PIO's word, and take it, lower the pins, store the value and pause.
  The measured value is on the right.
\<close>

definition irq_record :: "('d \<Rightarrow> bool) \<Rightarrow> 'd device \<Rightarrow> nat \<Rightarrow> nat \<Rightarrow> 'd mach \<Rightarrow>
    ('d mach + (u32 \<times> 'd mach)) option" where
  "irq_record q D r i s = do {
     (v, s) \<leftarrow> ird q D (PIO0 + 0x020) s;
     let n = NOT v;
     s \<leftarrow> iwr q D 0xD0000018 (push_bit PIN_C 1) s;
     s \<leftarrow> iwr q D 0xD0000018 (push_bit PIN_A 1) s;
     s \<leftarrow> (if r = IRQ_RUNS - 1 then iwr q D (SAMPLES + 4 * of_nat i) n s else Some s);
     s \<leftarrow> (if r = 0 \<and> i = 0 then iwr q D (IRQ_MB + 0x18) n s else Some s);
     s \<leftarrow> irq_sleep_us q D 5 s;
     Some (Inr (n, s))
   }"

definition irq_collect :: "('d \<Rightarrow> bool) \<Rightarrow> 'd device \<Rightarrow> nat \<Rightarrow> nat \<Rightarrow> 'd mach \<Rightarrow>
    ('d mach + (u32 \<times> 'd mach)) option" where
  "irq_collect q D r i s = do {
     x \<leftarrow> spin q D (PIO0 + 0x004) (\<lambda>v. drop_bit 8 v AND 1 = 0) 1000000 s;
     (case x of Inl s \<Rightarrow> fail q D 2 s | Inr s \<Rightarrow> irq_record q D r i s)
   }"

definition irq_sample :: "('d \<Rightarrow> bool) \<Rightarrow> 'd device \<Rightarrow> nat \<Rightarrow> nat \<Rightarrow> u32 \<Rightarrow> 'd mach \<Rightarrow>
    ('d mach + (u32 \<times> 'd mach)) option" where
  "irq_sample q D r i tot s = do {
     s \<leftarrow> iwr q D 0xD0000014 (push_bit PIN_A 1) s;
     x \<leftarrow> spin q D IRQ_COUNT (\<lambda>v. v = tot) 1000000 s;
     (case x of Inl s \<Rightarrow> fail q D 1 s | Inr s \<Rightarrow> irq_collect q D r i s)
   }"

text \<open>The running statistics \<^verbatim>\<open>mn\<close>, \<^verbatim>\<open>mx\<close>, \<^verbatim>\<open>sum\<close>.\<close>

type_synonym irq_stats = "u32 \<times> u32 \<times> u32"

definition irq_stat :: "u32 \<Rightarrow> irq_stats \<Rightarrow> irq_stats" where
  "irq_stat n = (\<lambda>(mn, mx, sm).
     (if n < mn then n else mn, if n > mx then n else mx, sm + n))"

text \<open>The inner loop from measurement \<open>i\<close>, with \<open>k\<close> of them left.\<close>

fun irq_samples :: "('d \<Rightarrow> bool) \<Rightarrow> 'd device \<Rightarrow> nat \<Rightarrow> nat \<Rightarrow> nat \<Rightarrow> u32 \<Rightarrow> irq_stats \<Rightarrow> 'd mach \<Rightarrow>
    ('d mach + (u32 \<times> irq_stats \<times> 'd mach)) option" where
  "irq_samples q D r 0 i tot st s = Some (Inr (tot, st, s))"
| "irq_samples q D r (Suc k) i tot st s =
     do { x \<leftarrow> irq_sample q D r i (tot + 1) s;
          (case x of Inl s \<Rightarrow> Some (Inl s)
           | Inr (n, s) \<Rightarrow> irq_samples q D r k (Suc i) (tot + 1) (irq_stat n st) s) }"

text \<open>The results of run \<open>r\<close> go to the mailbox.\<close>

definition irq_store_stats :: "('d \<Rightarrow> bool) \<Rightarrow> 'd device \<Rightarrow> nat \<Rightarrow> irq_stats \<Rightarrow> 'd mach \<Rightarrow>
    'd mach option" where
  "irq_store_stats q D r st s =
     (case st of (mn, mx, sm) \<Rightarrow> do {
        let base = IRQ_MB + 0x30 + 12 * of_nat r;
        s \<leftarrow> iwr q D base mn s;
        s \<leftarrow> iwr q D (base + 4) mx s;
        iwr q D (base + 8) sm s
      })"

text \<open>The outer loop from run \<open>r\<close>, with \<open>k\<close> of them left.\<close>

fun irq_runs :: "('d \<Rightarrow> bool) \<Rightarrow> 'd device \<Rightarrow> nat \<Rightarrow> nat \<Rightarrow> u32 \<Rightarrow> 'd mach \<Rightarrow>
    ('d mach + (u32 \<times> 'd mach)) option" where
  "irq_runs q D 0 r tot s = Some (Inr (tot, s))"
| "irq_runs q D (Suc k) r tot s =
     do { x \<leftarrow> irq_samples q D r IRQ_N 0 tot (0xFFFFFFFF, 0, 0) s;
          (case x of Inl s \<Rightarrow> Some (Inl s)
           | Inr (tot, st, s) \<Rightarrow>
               do { s \<leftarrow> irq_store_stats q D r st s; irq_runs q D k (Suc r) tot s }) }"

text \<open>After the runs: disable the interrupt, report, prepare the blinking.\<close>

definition irq_finish :: "('d \<Rightarrow> bool) \<Rightarrow> 'd device \<Rightarrow> u32 \<Rightarrow> 'd mach \<Rightarrow> ('d mach + 'd mach) option" where
  "irq_finish q D tot s = do {
     s \<leftarrow> iwr q D 0xE000E180 (push_bit 13 1) s;
     let s = wr D (INTE1 + 0x3000) (push_bit 28 0xF) s;
     let s = wr D (IRQ_MB + 0x1C) tot s;
     let s = wr D (IRQ_MB + 0x04) 2 s;
     let s = wr D (IO_BANK0 + 8 * 25 + 4) 5 s;
     Some (Inr (wr D 0xD0000024 (push_bit 25 1) s))
   }"

text \<open>The measurement, from the enabled interrupt on.\<close>

definition irq_measure :: "('d \<Rightarrow> bool) \<Rightarrow> 'd device \<Rightarrow> 'd mach \<Rightarrow> ('d mach + 'd mach) option" where
  "irq_measure q D s = do {
     s \<leftarrow> irq_sleep_us q D 10 s;
     x \<leftarrow> irq_runs q D IRQ_RUNS 0 0 s;
     (case x of Inl s \<Rightarrow> Some (Inl s)
      | Inr (tot, s) \<Rightarrow> irq_finish q D tot s)
   }"

text \<open>\<^verbatim>\<open>mojo_main\<close> up to \<^verbatim>\<open>fail\<close>'s endless loop (left) or the final blinking (right).\<close>

definition irq_main :: "u32 \<Rightarrow> ('d \<Rightarrow> bool) \<Rightarrow> 'd device \<Rightarrow> 'd mach \<Rightarrow> ('d mach + 'd mach) option" where
  "irq_main lang q D s = do { s \<leftarrow> irq_setup lang D s; irq_measure q D s }"

text \<open>The final blinking, \<open>n\<close> rounds of it, with the interrupt disabled again.\<close>

fun irq_led_rounds :: "'d device \<Rightarrow> nat \<Rightarrow> 'd mach \<Rightarrow> 'd mach option" where
  "irq_led_rounds D 0 s = Some s"
| "irq_led_rounds D (Suc n) s =
     do { let s = wr D 0xD000001C (push_bit 25 1) s;
          s \<leftarrow> sleep_us D 250000 s;
          irq_led_rounds D n s }"

definition irq_blink :: "'d device \<Rightarrow> nat \<Rightarrow> 'd mach + 'd mach \<Rightarrow> ('d mach + 'd mach) option" where
  "irq_blink D n x =
     (case x of Inl s \<Rightarrow> Some (Inl s) | Inr s \<Rightarrow> do { s \<leftarrow> irq_led_rounds D n s; Some (Inr s) })"

definition irq_program :: "u32 \<Rightarrow> ('d \<Rightarrow> bool) \<Rightarrow> 'd device \<Rightarrow> nat \<Rightarrow> 'd mach \<Rightarrow>
    ('d mach + 'd mach) option" where
  "irq_program lang q D n s = do { x \<leftarrow> irq_main lang q D s; irq_blink D n x }"

section \<open>What the handler may touch\<close>

text \<open>
  \<open>agrees m s\<close>: the memory of \<open>s\<close> is \<open>m\<close> except for the interrupt counter, which the
  handler may have advanced at any point.
\<close>

definition agrees :: "mem \<Rightarrow> 'd mach \<Rightarrow> bool" where
  "agrees m s \<longleftrightarrow> (\<forall>c. c \<noteq> IRQ_COUNT \<longrightarrow> ram s c = m c)"

lemma agrees_refl [simp]: "agrees (ram s) s"
  by (simp add: agrees_def)

lemma isr_agrees: "agrees m s \<Longrightarrow> agrees m (isr_irq13 D s)"
proof -
  have "\<not> in_sram 0xD0000014" "\<not> in_sram INTR1" "in_sram IRQ_COUNT"
    by (simp_all add: sram_eval irq_layout)
  moreover assume "agrees m s"
  ultimately show ?thesis by (simp add: isr_irq13_def agrees_def split_beta Let_def ram_wr)
qed

lemma service_agrees:
  assumes "service q D s = Some t" and "agrees m s"
  shows "agrees m t"
proof -
  have "agrees m s \<longrightarrow> agrees m t"
    using assms(1)
  proof (rule service.raw_induct [where P = "\<lambda>q D s t. agrees m s \<longrightarrow> agrees m t", rotated])
    fix f :: "('a \<Rightarrow> bool) \<Rightarrow> 'a device \<Rightarrow> 'a mach \<Rightarrow> 'a mach option" and q D s t
    assume "\<And>q D s t. f q D s = Some t \<Longrightarrow> agrees m s \<longrightarrow> agrees m t"
      and "(if q (dev s) then f q D (isr_irq13 D s) else Some s) = Some t"
    then show "agrees m s \<longrightarrow> agrees m t"
      using isr_agrees [of m s D] by (metis option.inject)
  qed
  then show ?thesis using assms(2) by blast
qed

lemma ird_agrees: "ird q D a s = Some (v, t) \<Longrightarrow> agrees m s \<Longrightarrow> agrees m t"
proof -
  assume "ird q D a s = Some (v, t)" "agrees m s"
  then obtain u where "agrees m u" "rd D a u = (v, t)"
    by (auto simp: ird_def bind_eq_Some_conv dest: service_agrees)
  then show "agrees m t" using ram_rd [of D a u] by (simp add: agrees_def)
qed

lemma iwr_agrees:
  assumes "iwr q D a v s = Some t" and "agrees m s"
  shows "in_sram a \<Longrightarrow> agrees (m(a := v)) t" and "\<not> in_sram a \<Longrightarrow> agrees m t"
proof -
  obtain u where u: "agrees m u" "t = wr D a v u"
    using assms by (auto simp: iwr_def bind_eq_Some_conv dest: service_agrees)
  show "in_sram a \<Longrightarrow> agrees (m(a := v)) t" "\<not> in_sram a \<Longrightarrow> agrees m t"
    using u by (simp_all add: agrees_def ram_wr)
qed

lemma ipoll_agrees:
  assumes "ipoll q D a p s = Some t" and "agrees m s"
  shows "agrees m t"
proof -
  have "agrees m s \<longrightarrow> agrees m t"
    using assms(1)
  proof (rule ipoll.raw_induct [where P = "\<lambda>q D a p s t. agrees m s \<longrightarrow> agrees m t", rotated])
    fix f :: "('a \<Rightarrow> bool) \<Rightarrow> 'a device \<Rightarrow> u32 \<Rightarrow> (u32 \<Rightarrow> bool) \<Rightarrow> 'a mach \<Rightarrow> 'a mach option"
      and q D a p s t
    assume "\<And>q D a p s t. f q D a p s = Some t \<Longrightarrow> agrees m s \<longrightarrow> agrees m t"
      and "(do { (v, t) \<leftarrow> ird q D a s; if p v then Some t else f q D a p t }) = Some t"
    then show "agrees m s \<longrightarrow> agrees m t"
      by (auto simp: bind_eq_Some_conv split: if_splits dest: ird_agrees)
  qed
  then show ?thesis using assms(2) by blast
qed

lemma irq_sleep_agrees: "irq_sleep_us q D us s = Some t \<Longrightarrow> agrees m s \<Longrightarrow> agrees m t"
  by (auto simp: irq_sleep_us_def bind_eq_Some_conv dest: ird_agrees ipoll_agrees)

lemma spin_agrees:
  "spin q D a p b s = Some x \<Longrightarrow> agrees m s \<Longrightarrow> (case x of Inl t \<Rightarrow> agrees m t | Inr t \<Rightarrow> agrees m t)"
proof (induction q D a p b s rule: spin.induct)
  case (1 q D a p b s)
  from "1.prems"(1) obtain v t where rd: "ird q D a s = Some (v, t)" and
    x: "(if p v then Some (Inr t) else (case b of 0 \<Rightarrow> Some (Inl t) | Suc b \<Rightarrow> spin q D a p b t)) = Some x"
    by (subst (asm) spin.simps) (auto simp: bind_eq_Some_conv)
  have "agrees m t" using rd "1.prems"(2) by (rule ird_agrees)
  then show ?case using x "1.IH" [OF rd] by (auto split: if_splits nat.splits)
qed

text \<open>After \<^verbatim>\<open>fail\<close> the mailbox has the code and the error state.\<close>

lemma mailbox_sram: "k < 64 \<Longrightarrow> in_sram (idx IRQ_MB k)" "k < 64 \<Longrightarrow> idx IRQ_MB k \<noteq> IRQ_COUNT"
proof -
  have "fits IRQ_MB 64" by (simp add: fits_def irq_layout)
  then have u: "unat (idx IRQ_MB k) = 0x20030000 + 4 * k" if "k < 64"
    using that by (simp add: unat_idx IRQ_MB_def)
  show "in_sram (idx IRQ_MB k)" if "k < 64"
    using u [OF that] that by (simp add: sram_eval word_le_nat_alt word_less_nat_alt)
  show "idx IRQ_MB k \<noteq> IRQ_COUNT" if "k < 64"
  proof
    assume "idx IRQ_MB k = IRQ_COUNT"
    then show False using u [OF that] by (simp add: IRQ_COUNT_def)
  qed
qed

lemma sample_sram: "i < IRQ_N \<Longrightarrow> in_sram (idx SAMPLES i)" "i < IRQ_N \<Longrightarrow> idx SAMPLES i \<noteq> IRQ_COUNT"
  and sample_mailbox: "i < IRQ_N \<Longrightarrow> k < 64 \<Longrightarrow> idx SAMPLES i \<noteq> idx IRQ_MB k"
proof -
  have fits: "fits SAMPLES IRQ_N" by (simp add: fits_def irq_layout IRQ_N_def)
  then have u: "unat (idx SAMPLES i) = 0x20010000 + 4 * i" if "i < IRQ_N"
    using that by (simp add: unat_idx SAMPLES_def)
  show "in_sram (idx SAMPLES i)" if "i < IRQ_N"
    using u [OF that] that by (simp add: sram_eval word_le_nat_alt word_less_nat_alt IRQ_N_def)
  show "idx SAMPLES i \<noteq> IRQ_COUNT" if "i < IRQ_N"
  proof
    assume "idx SAMPLES i = IRQ_COUNT"
    then show False using u [OF that] that by (simp add: IRQ_COUNT_def IRQ_N_def)
  qed
  have "apart SAMPLES IRQ_N IRQ_MB 64" by (simp add: apart_def fits_def irq_layout IRQ_N_def)
  then show "idx SAMPLES i \<noteq> idx IRQ_MB k" if "i < IRQ_N" "k < 64"
    using that by (rule idx_apart)
qed

lemma mailbox_inject: "j < 64 \<Longrightarrow> k < 64 \<Longrightarrow> idx IRQ_MB j = idx IRQ_MB k \<longleftrightarrow> j = k"
  by (rule idx_inject) (simp_all add: fits_def irq_layout)

text \<open>The mailbox words by number.\<close>

lemma mailbox_idx:
  "IRQ_MB + 0x00 = idx IRQ_MB 0" "IRQ_MB + 0x04 = idx IRQ_MB 1" "IRQ_MB + 0x08 = idx IRQ_MB 2"
  "IRQ_MB + 0x0C = idx IRQ_MB 3" "IRQ_MB + 0x10 = idx IRQ_MB 4" "IRQ_MB + 0x14 = idx IRQ_MB 5"
  "IRQ_MB + 0x18 = idx IRQ_MB 6" "IRQ_MB + 0x1C = idx IRQ_MB 7" "IRQ_MB + 0x20 = idx IRQ_MB 8"
  by (simp_all add: idx_def)

lemma fail_agrees:
  "fail q D code s = Some x \<Longrightarrow> agrees m s \<Longrightarrow>
     \<exists>t. x = Inl t \<and> agrees (m(idx IRQ_MB 8 := code, idx IRQ_MB 1 := 3)) t"
proof -
  assume "fail q D code s = Some x" "agrees m s"
  moreover have "in_sram (idx IRQ_MB 8)" "in_sram (idx IRQ_MB 1)" by (rule mailbox_sram; simp)+
  ultimately show ?thesis
    unfolding fail_def mailbox_idx by (fastforce simp: bind_eq_Some_conv dest: iwr_agrees(1))
qed

section \<open>What a run leaves in memory\<close>

definition failed :: "'d mach \<Rightarrow> bool" where
  "failed t \<longleftrightarrow> ram t (idx IRQ_MB 1) = 3 \<and> ram t (idx IRQ_MB 8) \<in> {1, 2}"

lemma fail_failed:
  "fail q D code s = Some x \<Longrightarrow> agrees m s \<Longrightarrow> code \<in> {1, 2} \<Longrightarrow> \<exists>t. x = Inl t \<and> failed t"
  using fail_agrees [of q D code s x m] mailbox_sram(2) [of 1] mailbox_sram(2) [of 8]
    mailbox_inject [of 8 1]
  by (auto simp: failed_def agrees_def)

definition put_sample :: "nat \<Rightarrow> nat \<Rightarrow> u32 \<Rightarrow> mem \<Rightarrow> mem" where
  "put_sample r i n m =
     (let m = (if r = 2 then m(idx SAMPLES i := n) else m)
      in if r = 0 \<and> i = 0 then m(idx IRQ_MB 6 := n) else m)"

text \<open>What the outcome of a measurement says about memory.\<close>

definition sample_post :: "nat \<Rightarrow> nat \<Rightarrow> mem \<Rightarrow> 'd mach + (u32 \<times> 'd mach) \<Rightarrow> bool" where
  "sample_post r i m x =
     (case x of Inl t \<Rightarrow> failed t | Inr (n, t) \<Rightarrow> agrees (put_sample r i n m) t)"

lemma sio_dev: "\<not> in_sram 0xD0000014" "\<not> in_sram 0xD0000018"
  by (simp_all add: sram_eval)

lemma record_agrees:
  assumes "irq_record q D r i s = Some x" and "agrees m s" and "i < IRQ_N"
  shows "sample_post r i m x"
proof -
  from assms(1) obtain v t1 t2 t3 t4 t5 t6 where ops: "ird q D (PIO0 + 0x020) s = Some (v, t1)"
    "iwr q D 0xD0000018 (push_bit PIN_C 1) t1 = Some t2"
    "iwr q D 0xD0000018 (push_bit PIN_A 1) t2 = Some t3"
    "(if r = IRQ_RUNS - 1 then iwr q D (SAMPLES + 4 * of_nat i) (NOT v) t3 else Some t3) = Some t4"
    "(if r = 0 \<and> i = 0 then iwr q D (IRQ_MB + 0x18) (NOT v) t4 else Some t4) = Some t5"
    "irq_sleep_us q D 5 t5 = Some t6" and x: "x = Inr (NOT v, t6)"
    by (auto simp: irq_record_def bind_eq_Some_conv Let_def simp del: push_bit_of_1)
  have "agrees m t1" using ops(1) assms(2) by (rule ird_agrees)
  then have "agrees m t2" by (rule iwr_agrees(2) [OF ops(2) _ sio_dev(2)])
  then have t3: "agrees m t3" by (rule iwr_agrees(2) [OF ops(3) _ sio_dev(2)])
  have "SAMPLES + 4 * of_nat i = idx SAMPLES i" by (simp add: idx_def)
  then have "agrees (if r = 2 then m(idx SAMPLES i := NOT v) else m) t4"
    using ops(4) t3 iwr_agrees(1) [OF _ t3] sample_sram(1) [OF assms(3)]
    by (auto simp: IRQ_RUNS_def split: if_splits)
  then have "agrees (put_sample r i (NOT v) m) t5"
    using ops(5) iwr_agrees(1) mailbox_sram(1) [of 6]
    by (auto simp: put_sample_def Let_def mailbox_idx split: if_splits)
  then show ?thesis using irq_sleep_agrees [OF ops(6)] x by (simp add: sample_post_def)
qed

lemma collect_agrees:
  assumes "irq_collect q D r i s = Some x" and "agrees m s" and "i < IRQ_N"
  shows "sample_post r i m x"
proof -
  from assms(1) obtain y where
    y: "spin q D (PIO0 + 0x004) (\<lambda>v. drop_bit 8 v AND 1 = 0) 1000000 s = Some y"
    and rest: "(case y of Inl s \<Rightarrow> fail q D 2 s | Inr s \<Rightarrow> irq_record q D r i s) = Some x"
    by (auto simp: irq_collect_def bind_eq_Some_conv)
  from spin_agrees [OF y assms(2)] rest show ?thesis
    using record_agrees [OF _ _ assms(3)] fail_failed [of q D 2 _ x m]
    by (fastforce simp: sample_post_def split: sum.splits)
qed

lemma sample_agrees:
  assumes "irq_sample q D r i tot s = Some x" and "agrees m s" and "i < IRQ_N"
  shows "sample_post r i m x"
proof -
  from assms(1) obtain s1 y where s1: "iwr q D 0xD0000014 (push_bit PIN_A 1) s = Some s1"
    and y: "spin q D IRQ_COUNT (\<lambda>v. v = tot) 1000000 s1 = Some y"
    and rest: "(case y of Inl s \<Rightarrow> fail q D 1 s | Inr s \<Rightarrow> irq_collect q D r i s) = Some x"
    by (auto simp: irq_sample_def bind_eq_Some_conv simp del: push_bit_of_1)
  have "agrees m s1" using s1 assms(2) sio_dev(1) by (rule iwr_agrees(2))
  from spin_agrees [OF y this] rest show ?thesis
    using collect_agrees [OF _ _ assms(3)] fail_failed [of q D 1 _ x m]
    by (fastforce simp: sample_post_def split: sum.splits)
qed

text \<open>The samples of a run and the statistics over them.\<close>

fun put_samples :: "nat \<Rightarrow> nat \<Rightarrow> u32 list \<Rightarrow> mem \<Rightarrow> mem" where
  "put_samples r i [] m = m"
| "put_samples r i (n # ns) m = put_samples r (Suc i) ns (put_sample r i n m)"

lemma samples_agrees:
  "irq_samples q D r k i tot st s = Some x \<Longrightarrow> agrees m s \<Longrightarrow> i + k \<le> IRQ_N \<Longrightarrow>
     (case x of Inl t \<Rightarrow> failed t
      | Inr (tot', st', t) \<Rightarrow> \<exists>ns. length ns = k \<and> tot' = tot + of_nat k \<and> st' = fold irq_stat ns st \<and>
          agrees (put_samples r i ns m) t)"
proof (induction k arbitrary: i tot st s m)
  case 0
  then have "x = Inr (tot, st, s)" by simp
  then show ?case using 0 by (auto intro: exI [of _ "[]"])
next
  case (Suc k)
  then obtain y where y: "irq_sample q D r i (tot + 1) s = Some y"
    and rest: "(case y of Inl s \<Rightarrow> Some (Inl s)
      | Inr (n, s) \<Rightarrow> irq_samples q D r k (Suc i) (tot + 1) (irq_stat n st) s) = Some x"
    by (auto simp: bind_eq_Some_conv)
  have "i < IRQ_N" using Suc.prems(3) by simp
  note ay = sample_agrees [OF y Suc.prems(2) this]
  show ?case
  proof (cases y)
    case (Inl t)
    then show ?thesis using rest ay by (auto simp: sample_post_def)
  next
    case (Inr p)
    obtain n t where p: "p = (n, t)" by fastforce
    then have t: "agrees (put_sample r i n m) t" using ay Inr by (simp add: sample_post_def)
    have "irq_samples q D r k (Suc i) (tot + 1) (irq_stat n st) t = Some x"
      using rest Inr p by simp
    from Suc.IH [OF this t] Suc.prems(3) have IH: "case x of Inl t \<Rightarrow> failed t
      | Inr (tot', st', t) \<Rightarrow> \<exists>ns. length ns = k \<and> tot' = tot + 1 + of_nat k \<and>
          st' = fold irq_stat ns (irq_stat n st) \<and> agrees (put_samples r (Suc i) ns (put_sample r i n m)) t"
      by simp
    show ?thesis
    proof (cases x)
      case (Inl u)
      then show ?thesis using IH by simp
    next
      case xr: (Inr w)
      obtain tot' st' u where w: "w = (tot', st', u)" by (cases w)
      from IH obtain ns where "length ns = k" "tot' = tot + 1 + of_nat k"
        "st' = fold irq_stat ns (irq_stat n st)" "agrees (put_samples r (Suc i) ns (put_sample r i n m)) u"
        by (auto simp: xr w)
      then have "length (n # ns) = Suc k \<and> tot' = tot + of_nat (Suc k) \<and>
          st' = fold irq_stat (n # ns) st \<and> agrees (put_samples r i (n # ns) m) u" by simp
      then show ?thesis unfolding xr w by (simp only: sum.case prod.case) blast
    qed
  qed
qed

definition store_run :: "nat \<Rightarrow> u32 list \<Rightarrow> mem \<Rightarrow> mem" where
  "store_run r ns m =
     (case fold irq_stat ns (0xFFFFFFFF, 0, 0) of (mn, mx, sm) \<Rightarrow>
       (put_samples r 0 ns m)(idx IRQ_MB (12 + 3 * r) := mn, idx IRQ_MB (13 + 3 * r) := mx,
         idx IRQ_MB (14 + 3 * r) := sm))"

fun store_runs :: "nat \<Rightarrow> u32 list list \<Rightarrow> mem \<Rightarrow> mem" where
  "store_runs r [] m = m"
| "store_runs r (ns # nss) m = store_runs (Suc r) nss (store_run r ns m)"

lemma run_idx:
  "IRQ_MB + 0x30 + 12 * of_nat r = idx IRQ_MB (12 + 3 * r)"
  "idx IRQ_MB (12 + 3 * r) + 4 = idx IRQ_MB (13 + 3 * r)"
  "idx IRQ_MB (12 + 3 * r) + 8 = idx IRQ_MB (14 + 3 * r)"
  by (simp_all add: idx_def algebra_simps)

lemma store_stats_agrees:
  assumes "irq_store_stats q D r (fold irq_stat ns (0xFFFFFFFF, 0, 0)) s = Some t"
    and "agrees (put_samples r 0 ns m) s" and "r < 3"
  shows "agrees (store_run r ns m) t"
proof -
  obtain mn mx sm where st: "fold irq_stat ns (0xFFFFFFFF, 0, 0) = (mn, mx, sm)"
    by (metis prod_cases3)
  from assms(1) obtain t1 t2 where ops: "iwr q D (idx IRQ_MB (12 + 3 * r)) mn s = Some t1"
    "iwr q D (idx IRQ_MB (13 + 3 * r)) mx t1 = Some t2"
    "iwr q D (idx IRQ_MB (14 + 3 * r)) sm t2 = Some t"
    unfolding st irq_store_stats_def prod.case Let_def run_idx by (auto simp: bind_eq_Some_conv)
  show ?thesis
    unfolding store_run_def st prod.case
    by (intro iwr_agrees(1) [OF ops(3)] iwr_agrees(1) [OF ops(2)] iwr_agrees(1) [OF ops(1)]
        assms(2) mailbox_sram(1)) (use assms(3) in simp_all)
qed

lemma runs_agrees:
  "irq_runs q D k r tot s = Some x \<Longrightarrow> agrees m s \<Longrightarrow> r + k \<le> 3 \<Longrightarrow>
     (case x of Inl t \<Rightarrow> failed t
      | Inr (tot', t) \<Rightarrow> \<exists>nss. length nss = k \<and> (\<forall>ns \<in> set nss. length ns = IRQ_N) \<and>
          tot' = tot + of_nat (k * IRQ_N) \<and> agrees (store_runs r nss m) t)"
proof (induction k arbitrary: r tot s m)
  case 0
  then have "x = Inr (tot, s)" by simp
  then show ?case using 0 by (auto intro: exI [of _ "[]"])
next
  case (Suc k)
  then obtain y where y: "irq_samples q D r IRQ_N 0 tot (0xFFFFFFFF, 0, 0) s = Some y"
    and rest: "(case y of Inl s \<Rightarrow> Some (Inl s)
           | Inr (tot, st, s) \<Rightarrow>
               do { s \<leftarrow> irq_store_stats q D r st s; irq_runs q D k (Suc r) tot s }) = Some x"
    by (auto simp: bind_eq_Some_conv)
  have "0 + IRQ_N \<le> IRQ_N" by simp
  note ay = samples_agrees [OF y Suc.prems(2) this]
  show ?case
  proof (cases y)
    case (Inl t)
    then show ?thesis using rest ay by auto
  next
    case (Inr p)
    obtain tot1 st t where p: "p = (tot1, st, t)" by (cases p) auto
    from ay obtain ns where ns: "length ns = IRQ_N" "tot1 = tot + of_nat IRQ_N"
      "st = fold irq_stat ns (0xFFFFFFFF, 0, 0)" and t: "agrees (put_samples r 0 ns m) t"
      by (auto simp: Inr p)
    from rest obtain t3 where op: "irq_store_stats q D r st t = Some t3"
      and k: "irq_runs q D k (Suc r) tot1 t3 = Some x"
      by (auto simp: Inr p bind_eq_Some_conv)
    have "agrees (store_run r ns m) t3"
      using store_stats_agrees [OF op [unfolded ns(3)] t] Suc.prems(3) by simp
    from Suc.IH [OF k this] Suc.prems(3) have IH: "case x of Inl t \<Rightarrow> failed t
      | Inr (tot', t) \<Rightarrow> \<exists>nss. length nss = k \<and> (\<forall>ns \<in> set nss. length ns = IRQ_N) \<and>
          tot' = tot1 + of_nat (k * IRQ_N) \<and> agrees (store_runs (Suc r) nss (store_run r ns m)) t"
      by simp
    show ?thesis
    proof (cases x)
      case (Inl u)
      then show ?thesis using IH by simp
    next
      case xr: (Inr w)
      obtain tot' u where w: "w = (tot', u)" by (cases w)
      from IH obtain nss where "length nss = k" "\<forall>ns \<in> set nss. length ns = IRQ_N"
        "tot' = tot1 + of_nat (k * IRQ_N)" "agrees (store_runs (Suc r) nss (store_run r ns m)) u"
        by (auto simp: xr w)
      then have "length (ns # nss) = Suc k \<and> (\<forall>ns \<in> set (ns # nss). length ns = IRQ_N) \<and>
          tot' = tot + of_nat (Suc k * IRQ_N) \<and> agrees (store_runs r (ns # nss) m) u"
        using ns(1,2) by simp
      then show ?thesis unfolding xr w by (simp only: sum.case prod.case) blast
    qed
  qed
qed

section \<open>Reading the results\<close>

lemma fold_stat:
  "fold irq_stat ns (a, b, c) = (Min (insert a (set ns)), Max (insert b (set ns)), c + sum_list ns)"
proof (induction ns arbitrary: a b c)
  case Nil
  then show ?case by simp
next
  case (Cons n ns)
  have "irq_stat n (a, b, c) = (min n a, max n b, c + n)"
    by (auto simp: irq_stat_def min_def max_def)
  moreover have "Min (insert (min n a) (set ns)) = Min (insert a (insert n (set ns)))"
    by (cases "ns = []") (simp_all add: min.left_commute min.commute min.assoc)
  moreover have "Max (insert (max n b) (set ns)) = Max (insert b (insert n (set ns)))"
    by (cases "ns = []") (simp_all add: max.left_commute max.commute max.assoc)
  ultimately show ?case using Cons by (simp add: add.assoc)
qed

lemma word_top: "x \<le> 0xFFFFFFFF" for x :: u32
proof -
  have "(- 1 :: u32) = 0xFFFFFFFF" by simp
  then show ?thesis using word_order.extremum [of x] by (simp only:)
qed

lemma fold_stat_run:
  "ns \<noteq> [] \<Longrightarrow> fold irq_stat ns (0xFFFFFFFF, 0, 0) = (Min (set ns), Max (set ns), sum_list ns)"
proof -
  assume "ns \<noteq> []"
  have "Min (set ns) \<le> 0xFFFFFFFF" "0 \<le> Max (set ns)"
    by (simp_all add: word_top)
  then show ?thesis using \<open>ns \<noteq> []\<close> by (simp add: fold_stat min_absorb2 max_absorb2)
qed

lemma put_sample_mailbox:
  "i < IRQ_N \<Longrightarrow> k < 64 \<Longrightarrow> put_sample r i n m (idx IRQ_MB k) =
     (if k = 6 \<and> r = 0 \<and> i = 0 then n else m (idx IRQ_MB k))"
  using sample_mailbox [of i k] mailbox_inject [of k 6] by (auto simp: put_sample_def Let_def)

lemma put_samples_mailbox:
  "i + length ns \<le> IRQ_N \<Longrightarrow> k < 64 \<Longrightarrow> put_samples r i ns m (idx IRQ_MB k) =
     (if k = 6 \<and> r = 0 \<and> i = 0 \<and> ns \<noteq> [] then hd ns else m (idx IRQ_MB k))"
  by (induction ns arbitrary: i m) (auto simp: put_sample_mailbox)

lemma put_samples_keep:
  "i + length ns \<le> IRQ_N \<Longrightarrow> j < i \<Longrightarrow> put_samples r i ns m (idx SAMPLES j) = m (idx SAMPLES j)"
proof (induction ns arbitrary: i m)
  case (Cons n ns)
  have "fits SAMPLES IRQ_N" by (simp add: fits_def irq_layout IRQ_N_def)
  then have "idx SAMPLES j \<noteq> idx SAMPLES i" using Cons.prems by (simp add: idx_inject)
  moreover have "idx SAMPLES j \<noteq> idx IRQ_MB 6" using Cons.prems by (intro sample_mailbox) simp_all
  ultimately show ?case using Cons by (simp add: put_sample_def Let_def)
qed simp

lemma put_samples_last:
  "i + length ns \<le> IRQ_N \<Longrightarrow> j < length ns \<Longrightarrow> put_samples 2 i ns m (idx SAMPLES (i + j)) = ns ! j"
proof (induction ns arbitrary: i j m)
  case (Cons n ns)
  show ?case
  proof (cases j)
    case 0
    then show ?thesis using Cons.prems by (simp add: put_samples_keep put_sample_def)
  next
    case (Suc l)
    then show ?thesis using Cons.IH [of "Suc i" l] Cons.prems by simp
  qed
qed simp

section \<open>The mailbox after the setup\<close>

lemma irq_board_init_ram: "irq_board_init D s = Some t \<Longrightarrow> ram t = ram s"
  by (auto simp: irq_board_init_def Let_def bind_eq_Some_conv ram_wr sram_eval dest!: poll_ram)

lemma sys_clock_ram: "sys_clock_125mhz D s = Some t \<Longrightarrow> ram t = ram s"
  by (auto simp: sys_clock_125mhz_def Let_def bind_eq_Some_conv ram_wr sram_eval dest!: poll_ram)

lemma measure_khz_ram: "measure_khz D src s = Some (v, t) \<Longrightarrow> ram t = ram s"
  by (auto simp: measure_khz_def Let_def bind_eq_Some_conv ram_wr sram_eval split_beta dest!: poll_ram)

lemma prog_mem_ram:
  fixes s :: "'d mach"
  assumes "n \<le> 7"
  shows "ram (for_range 0 n (\<lambda>i. wr D (PIO0 + 0x048 + 4 * of_nat i) (f i)) s) = ram s"
proof (rule for_range_inv [where P = "\<lambda>_ t. ram t = ram s"])
  fix i and t :: "'d mach"
  assume "i < n" "ram t = ram s"
  moreover from this have "PIO0 + 0x048 + 4 * of_nat i = idx (PIO0 + 0x048) i" by (simp add: idx_def)
  moreover have "\<not> in_sram (idx (PIO0 + 0x048) i)"
  proof -
    have "fits (PIO0 + 0x048) 7" by (simp add: fits_def irq_layout)
    then have "unat (idx (PIO0 + 0x048) i) = 0x50200048 + 4 * i"
      using \<open>i < n\<close> assms by (simp add: unat_idx PIO0_def)
    then show ?thesis by (simp add: sram_eval word_le_nat_alt word_less_nat_alt)
  qed
  ultimately show "ram (wr D (PIO0 + 0x048 + 4 * of_nat i) (f i) t) = ram s" by (simp add: ram_wr)
qed simp_all

lemma prog_mailbox:
  fixes s :: "'d mach" and D :: "'d device" and f :: "nat \<Rightarrow> u32"
  defines "t \<equiv> for_range 0 7 (\<lambda>i. wr D (IRQ_MB + 0x64 + 4 * of_nat i) (f i)) s"
  shows "i < 7 \<Longrightarrow> ram t (idx IRQ_MB (25 + i)) = f i"
    and "k < 25 \<Longrightarrow> ram t (idx IRQ_MB k) = ram s (idx IRQ_MB k)"
    and "c \<notin> region IRQ_MB 64 \<Longrightarrow> ram t c = ram s c"
proof -
  have eq: "IRQ_MB + 0x64 + 4 * of_nat i = idx (idx IRQ_MB 25) i" for i by (simp add: idx_def)
  have part: "idx (idx IRQ_MB 25) i = idx IRQ_MB (25 + i)" for i
    by (simp add: idx_def algebra_simps)
  have fits: "fits (idx IRQ_MB 25) 7" by (simp add: fits_def irq_layout idx_def)
  have sram: "in_sram (idx (idx IRQ_MB 25) i)" if "i < 7" for i
    using that unfolding part by (intro mailbox_sram) simp
  note t = t_def [unfolded eq]
  show "ram t (idx IRQ_MB (25 + i)) = f i" if "i < 7"
    using sram.get_fill_idx [OF fits sram that] unfolding t part [symmetric] by simp
  have out: "ram t c = ram s c" if "c \<notin> region (idx IRQ_MB 25) 7" for c
    using sram.get_fill_other [OF sram that] unfolding t by simp
  show "ram t (idx IRQ_MB k) = ram s (idx IRQ_MB k)" if "k < 25"
  proof (rule out, rule notI)
    assume "idx IRQ_MB k \<in> region (idx IRQ_MB 25) 7"
    then obtain i where "i < 7" "idx IRQ_MB k = idx IRQ_MB (25 + i)"
      unfolding region_def part by auto
    then show False using mailbox_inject [of k "25 + i"] that by simp
  qed
  show "ram t c = ram s c" if "c \<notin> region IRQ_MB 64"
  proof (rule out, rule notI)
    assume "c \<in> region (idx IRQ_MB 25) 7"
    then obtain i where "i < 7" "c = idx IRQ_MB (25 + i)" unfolding region_def part by auto
    then have "c \<in> region IRQ_MB 64" by auto
    then show False using that by simp
  qed
qed

lemma dev_addrs:
  "\<not> in_sram (IO_BANK0 + 8 * of_nat PIN_A + 4)" "\<not> in_sram (IO_BANK0 + 8 * of_nat PIN_C + 4)"
  "\<not> in_sram 0xD0000018" "\<not> in_sram 0xD0000024" "\<not> in_sram 0x4000F000"
  "\<not> in_sram (PIO0 + 0x0CC)" "\<not> in_sram (PIO0 + 0x0C8)" "\<not> in_sram PIO0"
  "\<not> in_sram INTR1" "\<not> in_sram (INTE1 + 0x2000)" "\<not> in_sram 0xE000E100"
  "\<not> in_sram 0xE000E180" "\<not> in_sram (INTE1 + 0x3000)" "\<not> in_sram (IO_BANK0 + 8 * 25 + 4)"
  by (simp_all add: sram_eval irq_layout)

lemma count_sram: "in_sram IRQ_COUNT"
  by (simp add: sram_eval irq_layout)

lemma setup_mailbox:
  assumes "irq_setup lang D s = Some t"
  shows "ram t (idx IRQ_MB 0) = IRQ_MAGIC" "ram t (idx IRQ_MB 2) = 10000"
    "ram t (idx IRQ_MB 3) = 3" "ram t (idx IRQ_MB 4) = lang" "ram t (idx IRQ_MB 8) = 0"
    "ram t (idx IRQ_MB 24) = 7" "\<And>i. i < 7 \<Longrightarrow> ram t (idx IRQ_MB (25 + i)) = ucast (PROG ! i)"
    "ram t IRQ_COUNT = 0"
    "\<And>c. c \<notin> region IRQ_MB 64 \<Longrightarrow> c \<noteq> IRQ_COUNT \<Longrightarrow> ram t c = ram s c"
proof -
  from assms obtain s1 s2 khz s3 s4 where
    "irq_board_init D s = Some s1"
    "sys_clock_125mhz D (wr D (idx IRQ_MB 8) 0 (wr D (idx IRQ_MB 7) 0 (wr D (idx IRQ_MB 4) lang
      (wr D (idx IRQ_MB 3) (of_nat IRQ_RUNS) (wr D (idx IRQ_MB 2) (of_nat IRQ_N)
      (wr D (idx IRQ_MB 1) 1 (wr D (idx IRQ_MB 0) IRQ_MAGIC s1))))))) = Some s2"
    "measure_khz D 9 s2 = Some (khz, s3)"
    and p: "poll D 0x4000C008 (\<lambda>v. v AND push_bit 10 1 \<noteq> 0)
      (wr D (0x4000C000 + 0x3000) (push_bit 10 1)
      (wr D 0xD0000024 (push_bit PIN_A 1 OR push_bit PIN_C 1)
      (wr D 0xD0000018 (push_bit PIN_A 1 OR push_bit PIN_C 1)
      (wr D (IO_BANK0 + 8 * of_nat PIN_C + 4) 5 (wr D (IO_BANK0 + 8 * of_nat PIN_A + 4) 5
      (wr D (idx IRQ_MB 5) khz s3)))))) = Some s4"
    and last: "t = (let s = for_range 0 7 (\<lambda>i. wr D (PIO0 + 0x048 + 4 * of_nat i) (ucast (PROG ! i))) s4;
       s = wr D (PIO0 + 0x0CC) (push_bit 12 6) s;
       s = wr D (PIO0 + 0x0C8) (push_bit 16 1) s;
       (v, s) = rd D (PIO0 + 0x0CC) s;
       s = wr D (PIO0 + 0x0CC) ((v AND NOT (push_bit 24 0x1F)) OR push_bit 24 (of_nat PIN_C)) s;
       s = wr D (IRQ_MB + 0x60) 7 s;
       s = for_range 0 7 (\<lambda>i. wr D (IRQ_MB + 0x64 + 4 * of_nat i) (ucast (PROG ! i))) s;
       (v, s) = rd D (PIO0 + 0x000) s;
       s = wr D (PIO0 + 0x000) (v OR 1) s;
       s = wr D IRQ_COUNT 0 s;
       s = wr D INTR1 (push_bit 28 0xF) s;
       s = wr D (INTE1 + 0x2000) A_EDGE_HIGH s
     in wr D 0xE000E100 (push_bit 13 1) s)"
    unfolding irq_setup_def mailbox_idx Let_def split_beta
    by (auto simp: bind_eq_Some_conv simp del: push_bit_of_1)
  then have s3: "ram s3 = (ram s)(idx IRQ_MB 0 := IRQ_MAGIC, idx IRQ_MB 1 := 1, idx IRQ_MB 2 := 10000,
      idx IRQ_MB 3 := 3, idx IRQ_MB 4 := lang, idx IRQ_MB 7 := 0, idx IRQ_MB 8 := 0)"
    by (auto simp: ram_wr mailbox_sram IRQ_N_def IRQ_RUNS_def
        dest!: irq_board_init_ram sys_clock_ram measure_khz_ram)
  have s4: "ram s4 = (ram s3)(idx IRQ_MB 5 := khz)"
    using poll_ram [OF p] by (simp add: ram_wr dev_addrs mailbox_sram)
  have w24: "IRQ_MB + 0x60 = idx IRQ_MB 24" by (simp add: idx_def)
  define u where "u = (let s = for_range 0 7 (\<lambda>i. wr D (PIO0 + 0x048 + 4 * of_nat i) (ucast (PROG ! i))) s4;
       s = wr D (PIO0 + 0x0CC) (push_bit 12 6) s;
       s = wr D (PIO0 + 0x0C8) (push_bit 16 1) s;
       (v, s) = rd D (PIO0 + 0x0CC) s;
       s = wr D (PIO0 + 0x0CC) ((v AND NOT (push_bit 24 0x1F)) OR push_bit 24 (of_nat PIN_C)) s
     in wr D (IRQ_MB + 0x60) 7 s)"
  have u: "ram u = (ram s4)(idx IRQ_MB 24 := 7)"
    by (simp add: u_def Let_def split_beta ram_wr dev_addrs mailbox_sram w24 prog_mem_ram)
  have t: "ram t = (ram (for_range 0 7 (\<lambda>i. wr D (IRQ_MB + 0x64 + 4 * of_nat i) (ucast (PROG ! i))) u))
      (IRQ_COUNT := 0)"
    by (simp add: last u_def Let_def split_beta ram_wr dev_addrs count_sram)
  have keep: "ram t (idx IRQ_MB k) = ram u (idx IRQ_MB k)" if "k < 25" for k
    using that prog_mailbox(2) [of k] mailbox_sram(2) [of k] by (simp add: t)
  note old = keep u s4 s3 mailbox_inject
  show "ram t (idx IRQ_MB 0) = IRQ_MAGIC" "ram t (idx IRQ_MB 2) = 10000"
    "ram t (idx IRQ_MB 3) = 3" "ram t (idx IRQ_MB 4) = lang" "ram t (idx IRQ_MB 8) = 0"
    "ram t (idx IRQ_MB 24) = 7"
    by (simp_all add: old)
  show "ram t (idx IRQ_MB (25 + i)) = ucast (PROG ! i)" if "i < 7" for i
    using that prog_mailbox(1) [of i] mailbox_sram(2) [of "25 + i"] by (simp add: t)
  show "ram t IRQ_COUNT = 0" by (simp add: t)
  show "ram t c = ram s c" if "c \<notin> region IRQ_MB 64" "c \<noteq> IRQ_COUNT" for c
  proof -
    have "c \<noteq> idx IRQ_MB k" if "k < 64" for k using that \<open>c \<notin> region IRQ_MB 64\<close> by blast
    then show ?thesis using that(2) by (simp add: t u s4 s3 prog_mailbox(3) [OF that(1)])
  qed
qed

text \<open>What a program has in its mailbox when the measurement starts.\<close>

definition setup_done :: "u32 \<Rightarrow> 'd mach \<Rightarrow> bool" where
  "setup_done lang t \<longleftrightarrow> ram t (idx IRQ_MB 0) = IRQ_MAGIC \<and> ram t (idx IRQ_MB 2) = 10000 \<and>
     ram t (idx IRQ_MB 3) = 3 \<and> ram t (idx IRQ_MB 4) = lang \<and> ram t (idx IRQ_MB 8) = 0 \<and>
     ram t (idx IRQ_MB 24) = 7 \<and> (\<forall>i<7. ram t (idx IRQ_MB (25 + i)) = ucast (PROG ! i))"

lemma setup_done: "irq_setup lang D s = Some t \<Longrightarrow> setup_done lang t"
  unfolding setup_done_def by (simp add: setup_mailbox)

lemma setup_doneD:
  assumes "setup_done lang t"
  shows "ram t (idx IRQ_MB 0) = IRQ_MAGIC" "ram t (idx IRQ_MB 2) = 10000"
    "ram t (idx IRQ_MB 3) = 3" "ram t (idx IRQ_MB 4) = lang" "ram t (idx IRQ_MB 8) = 0"
    "ram t (idx IRQ_MB 24) = 7" "i < 7 \<Longrightarrow> ram t (idx IRQ_MB (25 + i)) = ucast (PROG ! i)"
  using assms by (simp_all add: setup_done_def)

section \<open>The results\<close>

lemma store_run_mailbox:
  assumes "length ns = IRQ_N" and "r < 3" and "k < 64"
  shows "store_run r ns m (idx IRQ_MB k) =
    (if k = 12 + 3 * r then Min (set ns) else if k = 13 + 3 * r then Max (set ns)
     else if k = 14 + 3 * r then sum_list ns else if k = 6 \<and> r = 0 then hd ns
     else m (idx IRQ_MB k))"
proof -
  have "ns \<noteq> []" using assms(1) by (auto simp: IRQ_N_def)
  then show ?thesis
    using assms put_samples_mailbox [of 0 ns k r m]
    by (simp add: store_run_def fold_stat_run mailbox_inject)
qed

lemma store_run_samples:
  assumes "length ns = IRQ_N" and "j < IRQ_N"
  shows "store_run 2 ns m (idx SAMPLES j) = ns ! j"
proof -
  have "ns \<noteq> []" using assms by auto
  moreover have "idx SAMPLES j \<noteq> idx IRQ_MB k" if "k < 64" for k
    using assms(2) that by (rule sample_mailbox)
  ultimately show ?thesis
    using assms put_samples_last [of 0 ns j m] by (simp add: store_run_def fold_stat_run)
qed

text \<open>What the host tool checks of a mailbox in state "done".\<close>

definition results_ok :: "u32 \<Rightarrow> u32 list list \<Rightarrow> mem \<Rightarrow> bool" where
  "results_ok lang nss m \<longleftrightarrow>
     length nss = 3 \<and> (\<forall>ns \<in> set nss. length ns = 10000) \<and>
     m IRQ_MB = 0x4952514C \<and> m (IRQ_MB + 0x04) = 2 \<and> m (IRQ_MB + 0x08) = 10000 \<and>
     m (IRQ_MB + 0x0C) = 3 \<and> m (IRQ_MB + 0x10) = lang \<and> m (IRQ_MB + 0x1C) = 30000 \<and>
     m (IRQ_MB + 0x20) = 0 \<and> m (IRQ_MB + 0x18) = hd (nss ! 0) \<and>
     (\<forall>r<3. m (IRQ_MB + 0x30 + 12 * of_nat r) = Min (set (nss ! r)) \<and>
            m (IRQ_MB + 0x34 + 12 * of_nat r) = Max (set (nss ! r)) \<and>
            m (IRQ_MB + 0x38 + 12 * of_nat r) = sum_list (nss ! r)) \<and>
     arr m SAMPLES 10000 = nss ! 2 \<and>
     m (IRQ_MB + 0x60) = 7 \<and> (\<forall>i<7. m (IRQ_MB + 0x64 + 4 * of_nat i) = ucast (PROG ! i))"

lemma results_words:
  "IRQ_MB = idx IRQ_MB 0" "IRQ_MB + 0x60 = idx IRQ_MB 24"
  "IRQ_MB + 0x30 + 12 * of_nat r = idx IRQ_MB (12 + 3 * r)"
  "IRQ_MB + 0x34 + 12 * of_nat r = idx IRQ_MB (13 + 3 * r)"
  "IRQ_MB + 0x38 + 12 * of_nat r = idx IRQ_MB (14 + 3 * r)"
  "IRQ_MB + 0x64 + 4 * of_nat i = idx IRQ_MB (25 + i)"
  by (simp_all add: idx_def algebra_simps)

lemma finish_ram:
  assumes "irq_finish q D tot s = Some x" and "agrees m s"
  shows "\<exists>t. x = Inr t \<and>
    (\<forall>c. c \<noteq> IRQ_COUNT \<longrightarrow> ram t c = (m(idx IRQ_MB 7 := tot, idx IRQ_MB 1 := 2)) c)"
proof -
  from assms(1) obtain v where v: "iwr q D 0xE000E180 (push_bit 13 1) s = Some v" and
    x: "x = Inr (wr D 0xD0000024 (push_bit 25 1) (wr D (IO_BANK0 + 8 * 25 + 4) 5
      (wr D (idx IRQ_MB 1) 2 (wr D (idx IRQ_MB 7) tot (wr D (INTE1 + 0x3000) (push_bit 28 0xF) v)))))"
    unfolding irq_finish_def Let_def mailbox_idx by (auto simp only: bind_eq_Some_conv option.inject)
  have "agrees m v" by (rule iwr_agrees(2) [OF v assms(2)]) (simp add: dev_addrs)
  moreover have "\<not> in_sram (204 + IO_BANK0)" by (simp add: sram_eval irq_layout)
  ultimately show ?thesis
    by (simp add: x ram_wr dev_addrs mailbox_sram agrees_def)
qed

lemma measure_run:
  assumes "setup_done lang s1" and "irq_measure q D s1 = Some x"
  shows "case x of Inl t \<Rightarrow> failed t | Inr t \<Rightarrow> \<exists>nss. results_ok lang nss (ram t)"
proof -
  from assms(2) obtain s2 y where s2: "irq_sleep_us q D 10 s1 = Some s2" and y: "irq_runs q D IRQ_RUNS 0 0 s2 = Some y"
    and rest: "(case y of Inl s \<Rightarrow> Some (Inl s)
      | Inr (tot, s) \<Rightarrow> irq_finish q D tot s) = Some x"
    by (auto simp: irq_measure_def bind_eq_Some_conv)
  have "agrees (ram s1) s2" using s2 by (rule irq_sleep_agrees) simp
  from runs_agrees [OF y this] have ay: "case y of Inl t \<Rightarrow> failed t
      | Inr (tot', t) \<Rightarrow> \<exists>nss. length nss = 3 \<and> (\<forall>ns \<in> set nss. length ns = IRQ_N) \<and>
          tot' = of_nat (3 * IRQ_N) \<and> agrees (store_runs 0 nss (ram s1)) t"
    by (simp add: IRQ_RUNS_def split: sum.splits prod.splits)
  show ?thesis
  proof (cases y)
    case (Inl t)
    then show ?thesis using rest ay by auto
  next
    case (Inr p)
    obtain tot u where p: "p = (tot, u)" by fastforce
    from ay obtain nss where nss: "length nss = 3" "\<forall>ns \<in> set nss. length ns = IRQ_N"
      "tot = of_nat (3 * IRQ_N)" "agrees (store_runs 0 nss (ram s1)) u"
      by (auto simp: Inr p)
    from nss(1) obtain a b c where abc: "nss = [a, b, c]"
      by (auto simp: numeral_3_eq_3 length_Suc_conv)
    have len: "length a = IRQ_N" "length b = IRQ_N" "length c = IRQ_N"
      using nss(2) by (simp_all add: abc)
    have tot: "tot = 30000" using nss(3) by (simp add: IRQ_N_def)
    have u: "agrees (store_runs 0 [a, b, c] (ram s1)) u" using nss(4) by (simp only: abc)
    define m where "m = store_run 2 c (store_run 1 b (store_run 0 a (ram s1)))"
    have "store_runs 0 [a, b, c] (ram s1) = m" by (simp add: m_def numeral_2_eq_2)
    with u have u: "agrees m u" by simp
    have "irq_finish q D tot u = Some x" using rest by (simp add: Inr p)
    from finish_ram [OF this u] obtain t where t: "x = Inr t"
      "\<And>c. c \<noteq> IRQ_COUNT \<Longrightarrow> ram t c = (m(idx IRQ_MB 7 := 30000, idx IRQ_MB 1 := 2)) c"
      by (auto simp: tot)
    have word: "ram t (idx IRQ_MB k) = m (idx IRQ_MB k)" if "k < 64" "k \<noteq> 1" "k \<noteq> 7" for k
      using that mailbox_sram(2) [of k] by (simp add: t(2) mailbox_inject)
    note m = word m_def store_run_mailbox [OF len(1)] store_run_mailbox [OF len(2)]
      store_run_mailbox [OF len(3)] setup_doneD [OF assms(1)]
    have samples: "arr (ram t) SAMPLES 10000 = c"
    proof (rule nth_equalityI)
      fix j
      assume "j < length (arr (ram t) SAMPLES 10000)"
      then have j: "j < IRQ_N" by (simp add: IRQ_N_def)
      then have "idx SAMPLES j \<noteq> idx IRQ_MB 7" "idx SAMPLES j \<noteq> idx IRQ_MB 1" "idx SAMPLES j \<noteq> IRQ_COUNT"
        by (simp_all add: sample_mailbox sample_sram)
      then have "ram t (idx SAMPLES j) = m (idx SAMPLES j)" by (simp add: t(2))
      then show "arr (ram t) SAMPLES 10000 ! j = c ! j"
        using j store_run_samples [OF len(3) j] by (simp add: m_def IRQ_N_def)
    qed (simp add: len IRQ_N_def)
    have "results_ok lang [a, b, c] (ram t)"
      unfolding results_ok_def
    proof (intro conjI)
      show "\<forall>r<3. ram t (IRQ_MB + 0x30 + 12 * of_nat r) = Min (set ([a, b, c] ! r)) \<and>
            ram t (IRQ_MB + 0x34 + 12 * of_nat r) = Max (set ([a, b, c] ! r)) \<and>
            ram t (IRQ_MB + 0x38 + 12 * of_nat r) = sum_list ([a, b, c] ! r)"
      proof (intro allI impI)
        fix r :: nat
        assume "r < 3"
        then have "r = 0 \<or> r = 1 \<or> r = 2" by linarith
        then show "ram t (IRQ_MB + 0x30 + 12 * of_nat r) = Min (set ([a, b, c] ! r)) \<and>
            ram t (IRQ_MB + 0x34 + 12 * of_nat r) = Max (set ([a, b, c] ! r)) \<and>
            ram t (IRQ_MB + 0x38 + 12 * of_nat r) = sum_list ([a, b, c] ! r)"
          unfolding results_words(3-5) by (elim disjE; simp add: m)
      qed
      show "\<forall>i<7. ram t (IRQ_MB + 0x64 + 4 * of_nat i) = ucast (PROG ! i)"
        unfolding results_words(6) by (simp add: m)
      show "ram t IRQ_MB = 0x4952514C"
        using m(1) [of 0] by (subst results_words(1)) (simp add: m IRQ_MAGIC_def)
      show "ram t (IRQ_MB + 0x60) = 7" unfolding results_words(2) by (simp add: m)
      show "ram t (IRQ_MB + 0x18) = hd ([a, b, c] ! 0)" unfolding mailbox_idx by (simp add: m)
    qed (simp_all add: samples len IRQ_N_def mailbox_idx(2-9) m t(2) mailbox_inject mailbox_sram(2))
    then show ?thesis unfolding t(1) by auto
  qed
qed

lemma main_run:
  "irq_main lang q D s = Some x \<Longrightarrow>
    (case x of Inl t \<Rightarrow> failed t | Inr t \<Rightarrow> \<exists>nss. results_ok lang nss (ram t))"
  by (auto simp: irq_main_def bind_eq_Some_conv dest!: setup_done intro: measure_run)

section \<open>The program ends\<close>

text \<open>
  The handler's acknowledgement clears the line: the documented behaviour of a latched edge
  event, and what keeps the handler from being entered forever.
\<close>

definition ack_clears :: "('d \<Rightarrow> bool) \<Rightarrow> 'd device \<Rightarrow> bool" where
  "ack_clears q D \<longleftrightarrow>
     (\<forall>d. \<not> q (dwrite D (dwrite D d 0xD0000014 0x10000) 0x400140F4 0x80000000))"

text \<open>The device as the main program sees it, the handler's accesses included.\<close>

definition served :: "('d \<Rightarrow> bool) \<Rightarrow> 'd device \<Rightarrow> 'd \<Rightarrow> 'd" where
  "served q D d =
     (if q d then dwrite D (dwrite D d 0xD0000014 0x10000) 0x400140F4 0x80000000 else d)"

definition irq_device :: "('d \<Rightarrow> bool) \<Rightarrow> 'd device \<Rightarrow> 'd device" where
  "irq_device q D =
     \<lparr>dread = \<lambda>d a. dread D (served q D d) a, dwrite = \<lambda>d a v. dwrite D (served q D d) a v\<rparr>"

lemma dev_isr: "dev (isr_irq13 D s) = dwrite D (dwrite D (dev s) 0xD0000014 0x10000) 0x400140F4 0x80000000"
proof -
  have "INTR1 = 0x400140F4" "A_EDGE_HIGH = 0x80000000" "push_bit PIN_C 1 = (0x10000 :: u32)"
    by (simp_all add: irq_layout)
  moreover have "dev (isr_irq13 D s) =
      dwrite D (dwrite D (dev s) 0xD0000014 (push_bit PIN_C 1)) INTR1 A_EDGE_HIGH"
    by (simp add: isr_irq13_def Let_def split_beta dev_wr rd_ram count_sram sio_dev dev_addrs
        del: push_bit_of_1)
  ultimately show ?thesis by (simp only:)
qed

lemma service_once:
  assumes "ack_clears q D"
  shows "service q D s = Some (if q (dev s) then isr_irq13 D s else s)"
proof (cases "q (dev s)")
  case True
  moreover have "\<not> q (dev (isr_irq13 D s))" using assms by (simp add: dev_isr ack_clears_def)
  ultimately show ?thesis by (simp add: service.simps [of q D s] service.simps [of q D "isr_irq13 D s"])
next
  case False
  then show ?thesis by (simp add: service.simps [of q D s])
qed

lemma service_served:
  "ack_clears q D \<Longrightarrow> \<exists>t. service q D s = Some t \<and> dev t = served q D (dev s)"
  by (simp add: service_once served_def dev_isr)

lemma ird_ends: "ack_clears q D \<Longrightarrow> \<exists>v t. ird q D a s = Some (v, t)"
  using service_served [of q D s] by (auto simp: ird_def)

lemma iwr_ends: "ack_clears q D \<Longrightarrow> \<exists>t. iwr q D a v s = Some t"
  using service_served [of q D s] by (auto simp: iwr_def)

lemma spin_ends: "ack_clears q D \<Longrightarrow> \<exists>x. spin q D a p b s = Some x"
proof (induction q D a p b s rule: spin.induct)
  case (1 q D a p b s)
  obtain v t where rd: "ird q D a s = Some (v, t)" using ird_ends [OF 1(2)] by blast
  have "\<exists>x. spin q D a p c t = Some x" if "\<not> p v" "b = Suc c" for c
    using "1.IH" [OF rd refl that] 1(2) by simp
  then show ?case by (subst spin.simps) (auto simp: rd split: nat.split)
qed

lemma ipoll_ends:
  assumes "ack_clears q D" and "\<not> in_sram a"
  shows "p (nth_read (irq_device q D) a n (dev s)) \<Longrightarrow> \<exists>t. ipoll q D a p s = Some t"
proof (induction n arbitrary: s)
  case (0 s)
  obtain u where u: "service q D s = Some u" "dev u = served q D (dev s)"
    using service_served [OF assms(1)] by blast
  then show ?case
    using 0 assms(2) by (subst ipoll.simps) (simp add: ird_def rd_dev nth_read_0 irq_device_def)
next
  case (Suc n s)
  obtain u where u: "service q D s = Some u" "dev u = served q D (dev s)"
    using service_served [OF assms(1)] by blast
  let ?t = "u\<lparr>dev := snd (dread D (dev u) a)\<rparr>"
  have "dev ?t = snd (dread (irq_device q D) (dev s) a)" by (simp add: irq_device_def u(2))
  then have "\<exists>t. ipoll q D a p ?t = Some t" using Suc.prems by (intro Suc.IH) (simp add: nth_read_Suc)
  then show ?case using assms(2) by (subst ipoll.simps) (simp add: ird_def rd_dev u(1))
qed

lemma irq_sleep_ends:
  assumes "ack_clears q D" and "timer_runs (irq_device q D)"
  shows "\<exists>t. irq_sleep_us q D us s = Some t"
proof -
  obtain t0 u where u: "ird q D 0x40054028 s = Some (t0, u)" using ird_ends [OF assms(1)] by blast
  obtain n where "us \<le> nth_read (irq_device q D) 0x40054028 n (dev u) - t0"
    using assms(2) unfolding timer_runs_def by blast
  then have "\<exists>t. ipoll q D 0x40054028 (\<lambda>v. \<not> v - t0 < us) u = Some t"
    using ipoll_ends [OF assms(1), of "0x40054028" "\<lambda>v. \<not> v - t0 < us" n u]
    by (simp add: sram_eval not_less)
  then show ?thesis by (auto simp: irq_sleep_us_def u)
qed

text \<open>A binding of computations that end ends.\<close>

lemma bind_ends: "\<exists>x. f = Some x \<Longrightarrow> (\<And>x. \<exists>y. g x = Some y) \<Longrightarrow> \<exists>y. f \<bind> g = Some y"
  by auto

lemma fail_ends: "ack_clears q D \<Longrightarrow> \<exists>x. fail q D code s = Some x"
  unfolding fail_def by (intro bind_ends iwr_ends) auto

lemma record_ends:
  assumes "ack_clears q D" and "timer_runs (irq_device q D)"
  shows "\<exists>x. irq_record q D r i s = Some x"
proof -
  obtain v t where "ird q D (PIO0 + 0x020) s = Some (v, t)" using ird_ends [OF assms(1)] by blast
  then show ?thesis
    unfolding irq_record_def Let_def
    by (simp del: push_bit_of_1)
       (intro bind_ends iwr_ends irq_sleep_ends; simp add: assms iwr_ends del: push_bit_of_1)
qed

lemma sample_ends:
  assumes "ack_clears q D" and "timer_runs (irq_device q D)"
  shows "\<exists>x. irq_sample q D r i tot s = Some x"
  unfolding irq_sample_def irq_collect_def
  by (intro bind_ends iwr_ends spin_ends assms)
     (auto split: sum.split intro!: bind_ends fail_ends spin_ends record_ends assms)

lemma samples_ends:
  assumes "ack_clears q D" and "timer_runs (irq_device q D)"
  shows "\<exists>x. irq_samples q D r k i tot st s = Some x"
proof (induction k arbitrary: i tot st s)
  case (Suc k)
  obtain y where y: "irq_sample q D r i (tot + 1) s = Some y" using sample_ends [OF assms] by blast
  show ?case
  proof (cases y)
    case (Inr p)
    then show ?thesis
      using y Suc.IH [of "Suc i" "tot + 1" "irq_stat (fst p) st" "snd p"] by (simp add: split_beta)
  qed (simp add: y)
qed simp

lemma runs_ends:
  assumes "ack_clears q D" and "timer_runs (irq_device q D)"
  shows "\<exists>x. irq_runs q D k r tot s = Some x"
proof (induction k arbitrary: r tot s)
  case (Suc k)
  have "\<exists>t. irq_store_stats q D r st s = Some t" for r st s
    unfolding irq_store_stats_def Let_def split_beta by (intro bind_ends iwr_ends assms)
  then show ?case
    using Suc samples_ends [OF assms, of r IRQ_N 0 tot "(0xFFFFFFFF, 0, 0)" s]
    by (auto split: sum.split simp: bind_ends)
qed simp

lemma measure_khz_ends:
  assumes "counter_answers D 9"
  shows "\<exists>v t. measure_khz D 9 s = Some (v, t)"
proof -
  have "returns (poll D 0x40008098 (\<lambda>v. v AND 0x100 = 0) s) s" for s
    by (rule returns_poll_settled) (use assms in \<open>auto simp: counter_answers_def sram_eval\<close>)
  moreover have "returns (poll D 0x40008098 (\<lambda>v. v AND 0x10 \<noteq> 0) (wr D 0x40008094 9 u)) u" for u
    by (rule returns_poll) (use assms in \<open>auto simp: counter_answers_def sram_eval\<close>)
  ultimately have "\<exists>x. measure_khz D 9 s = Some x"
    unfolding measure_khz_def Let_def init_consts split_beta
    by (intro bind_ends) (auto simp: returns_def)
  then show ?thesis by auto
qed

lemma setup_ends:
  assumes "bringup_answers D" "pll_answers D" "counter_answers D 9"
    and "acks D 0x4000F000 0x400 0x4000C008 (\<lambda>v. v AND 0x400 \<noteq> 0)"
  shows "\<exists>t. irq_setup lang D s = Some t"
proof -
  have "\<exists>t. irq_board_init D s = Some t" for s
    using board_init_returns [OF assms(1)] by (auto simp: returns_def init_defs)
  moreover have "\<exists>t. sys_clock_125mhz D s = Some t" for s
    using sys_clock_125mhz_returns [OF assms(2)] by (auto simp: returns_def)
  moreover have "\<exists>v t. measure_khz D 9 s = Some (v, t)" for s
    using measure_khz_ends [OF assms(3)] .
  moreover have "\<exists>t. poll D 0x4000C008 (\<lambda>v. v AND 0x400 \<noteq> 0) (wr D 0x4000F000 0x400 s) = Some t" for s
    using returns_poll [OF assms(4), of s s] by (auto simp: returns_def sram_eval)
  moreover have "push_bit 10 1 = (0x400 :: u32)" by simp
  ultimately show ?thesis
    unfolding irq_setup_def Let_def split_beta init_consts by (intro bind_ends) simp_all
qed

lemma finish_ends: "ack_clears q D \<Longrightarrow> \<exists>x. irq_finish q D tot s = Some x"
  unfolding irq_finish_def Let_def by (intro bind_ends iwr_ends) auto

lemma measure_ends:
  assumes "ack_clears q D" and "timer_runs (irq_device q D)"
  shows "\<exists>x. irq_measure q D s = Some x"
  unfolding irq_measure_def
  by (intro bind_ends irq_sleep_ends runs_ends assms)
     (auto split: sum.split intro: finish_ends assms)

lemma led_returns: "timer_runs D \<Longrightarrow> returns (irq_led_rounds D n s) s"
proof (induction n arbitrary: s)
  case (Suc n)
  have "returns (sleep_us D 250000 (wr D 0xD000001C (push_bit 25 1) s)) s"
    using sleep_us_returns [OF Suc.prems, of 250000 "wr D 0xD000001C (push_bit 25 1) s"]
    by (simp add: returns_def ram_wr sram_eval)
  then show ?case using Suc by (auto intro: returns_seq)
qed (simp add: returns_def)

text \<open>What a finished gate program leaves: an error report or the checked results.\<close>

definition gate_outcome :: "u32 \<Rightarrow> 'd mach + 'd mach \<Rightarrow> bool" where
  "gate_outcome lang x =
     (case x of Inl t \<Rightarrow> failed t | Inr t \<Rightarrow> \<exists>nss. results_ok lang nss (ram t))"

lemma measured_outcome:
  assumes "setup_done lang s" and "ack_clears q D" and "timer_runs (irq_device q D)" and "timer_runs D"
  shows "\<exists>x. irq_measure q D s \<bind> irq_blink D n = Some x \<and> gate_outcome lang x"
proof -
  obtain x where x: "irq_measure q D s = Some x" using measure_ends [OF assms(2,3)] by blast
  note run = measure_run [OF assms(1) x]
  show ?thesis
  proof (cases x)
    case (Inr t)
    obtain u where "irq_led_rounds D n t = Some u" "ram u = ram t"
      using led_returns [OF assms(4), of n t] by (auto simp: returns_def)
    then show ?thesis using x run by (simp add: Inr irq_blink_def gate_outcome_def)
  qed (use x run in \<open>simp add: irq_blink_def gate_outcome_def\<close>)
qed

lemma program_outcome:
  assumes "bringup_answers D" "pll_answers D" "counter_answers D 9"
    and "acks D 0x4000F000 0x400 0x4000C008 (\<lambda>v. v AND 0x400 \<noteq> 0)"
    and "ack_clears q D" and "timer_runs (irq_device q D)" and "timer_runs D"
  shows "\<exists>x. irq_program lang q D n s = Some x \<and> gate_outcome lang x"
proof -
  obtain t where "irq_setup lang D s = Some t" using setup_ends [OF assms(1-4)] by blast
  then show ?thesis
    using measured_outcome [OF setup_done assms(5-7)] by (simp add: irq_program_def irq_main_def)
qed

section \<open>A board with a handler that runs\<close>

text \<open>
  The board of the bring-up examples with the two peripherals of the measurement: the edge
  latch, which raising pin 15 sets and the handler's acknowledgement clears, and a PIO whose
  FIFO always holds the measurement 99.
\<close>

definition gate_board :: "((u32 \<times> u32) \<times> bool) device" where
  "gate_board =
     \<lparr>dread = \<lambda>(c, e) a.
        if a = 0x50200004 then (0, (c, e))
        else if a = 0x50200020 then (NOT 99, (c, e))
        else (let (v, c) = dread ready_device c a in (v, (c, e))),
      dwrite = \<lambda>(c, e) a v.
        (dwrite ready_device c a v,
         if a = 0xD0000014 \<and> bit v 15 then True else if a = 0x400140F4 \<and> bit v 31 then False else e)\<rparr>"

lemma gate_dwrite: "dwrite gate_board (c, e) a v =
    (dwrite ready_device c a v,
     if a = 0xD0000014 \<and> bit v 15 then True else if a = 0x400140F4 \<and> bit v 31 then False else e)"
  by (simp add: gate_board_def)

lemma gate_reads:
  "a \<noteq> 0x50200004 \<Longrightarrow> a \<noteq> 0x50200020 \<Longrightarrow> nth_read gate_board a n (c, e) = nth_read ready_device a n c"
  by (induction n arbitrary: c) (simp_all add: nth_read_0 nth_read_Suc gate_board_def split_beta)

lemma gate_acks:
  "acks ready_device w v a p \<Longrightarrow> a \<noteq> 0x50200004 \<Longrightarrow> a \<noteq> 0x50200020 \<Longrightarrow> acks gate_board w v a p"
  by (simp add: acks_def gate_dwrite gate_reads del: split_paired_All) (simp add: gate_dwrite gate_reads)

lemma gate_hardware:
  "bringup_answers gate_board" "pll_answers gate_board" "counter_answers gate_board src"
  "acks gate_board 0x4000F000 0x400 0x4000C008 (\<lambda>v. v AND 0x400 \<noteq> 0)"
  "ack_clears snd gate_board"
proof -
  have "acks ready_device 0x4000F000 0x400 0x4000C008 (\<lambda>v. v AND 0x400 \<noteq> 0)"
    by (auto simp: acks_def ready_write ready_reads ready_answer_def)
  then show "bringup_answers gate_board" "pll_answers gate_board" "counter_answers gate_board src"
    "acks gate_board 0x4000F000 0x400 0x4000C008 (\<lambda>v. v AND 0x400 \<noteq> 0)"
    using ready_hardware(1,2) ready_hardware(3) [of src]
    by (auto simp: bringup_answers_def pll_answers_def counter_answers_def gate_reads intro: gate_acks)
  have "\<not> bit (0x10000 :: u32) 15" "bit (0x80000000 :: u32) 31" by code_simp+
  then show "ack_clears snd gate_board" by (auto simp: ack_clears_def gate_dwrite)
qed

lemma gate_timer: "timer_runs (irq_device snd gate_board)"
proof -
  have served: "\<exists>e'. served snd gate_board (c, e) = (c, e')" for c e
    by (cases c) (auto simp: served_def gate_dwrite ready_write)
  have "nth_read (irq_device snd gate_board) 0x40054028 n (c, e) = nth_read ready_device 0x40054028 n c"
    for n c e
  proof (induction n arbitrary: c e)
    case 0
    obtain e' where "served snd gate_board (c, e) = (c, e')" using served by blast
    then show ?case by (simp add: nth_read_0 irq_device_def gate_board_def split_beta)
  next
    case (Suc n)
    obtain e' where "served snd gate_board (c, e) = (c, e')" using served by blast
    then show ?case using Suc by (simp add: nth_read_Suc irq_device_def gate_board_def split_beta)
  qed
  then show ?thesis using ready_timer_runs by (auto simp: timer_runs_def)
qed

text \<open>Between two interrupts the line is down and the counter stands still.\<close>

definition idle :: "u32 \<Rightarrow> ((u32 \<times> u32) \<times> bool) mach \<Rightarrow> bool" where
  "idle tot s \<longleftrightarrow> \<not> snd (dev s) \<and> ram s IRQ_COUNT = tot"

lemma idle_service: "idle tot s \<Longrightarrow> service snd gate_board s = Some s"
  by (simp add: service.simps [of snd gate_board s] idle_def)

lemma idle_ird:
  assumes "idle tot s"
  shows "\<exists>t. ird snd gate_board a s = Some (fst (rd gate_board a s), t) \<and> idle tot t"
proof -
  obtain c e where d: "dev s = (c, e)" by fastforce
  have "idle tot (snd (rd gate_board a s))"
    using assms ram_rd [of gate_board a s] unfolding idle_def
    by (cases "in_sram a") (auto simp: rd_ram rd_dev d gate_board_def split_beta)
  then show ?thesis by (simp add: ird_def idle_service [OF assms]) (metis prod.collapse)
qed

lemma idle_iwr:
  assumes "idle tot s" and "a \<noteq> IRQ_COUNT" and "a \<noteq> 0xD0000014"
  shows "\<exists>t. iwr snd gate_board a v s = Some t \<and> idle tot t"
proof -
  obtain c e where "dev s = (c, e)" by fastforce
  then have "idle tot (wr gate_board a v s)"
    using assms by (auto simp: idle_def ram_wr dev_wr gate_dwrite)
  then show ?thesis by (simp add: iwr_def idle_service [OF assms(1)])
qed

lemma idle_spin:
  assumes "idle tot s" and "p (fst (rd gate_board a s))"
  shows "\<exists>t. spin snd gate_board a p b s = Some (Inr t) \<and> idle tot t"
proof -
  obtain t where t: "ird snd gate_board a s = Some (fst (rd gate_board a s), t)" "idle tot t"
    using idle_ird [OF assms(1)] by blast
  then show ?thesis using assms(2) by (subst spin.simps) simp
qed

lemma idle_poll: "idle tot s \<Longrightarrow> ipoll snd gate_board a p s = Some t \<Longrightarrow> idle tot t"
proof -
  assume "idle tot s" and poll: "ipoll snd gate_board a p s = Some t"
  have "q = snd \<longrightarrow> D = gate_board \<longrightarrow> idle tot s \<longrightarrow> idle tot t" if "ipoll q D a p s = Some t" for q D a p s t
    using that
  proof (rule ipoll.raw_induct [where P = "\<lambda>q D a p s t. q = snd \<longrightarrow> D = gate_board \<longrightarrow>
      idle tot s \<longrightarrow> idle tot t", rotated], intro impI)
    fix f :: "((u32 \<times> u32) \<times> bool \<Rightarrow> bool) \<Rightarrow> ((u32 \<times> u32) \<times> bool) device \<Rightarrow> u32 \<Rightarrow>
      (u32 \<Rightarrow> bool) \<Rightarrow> ((u32 \<times> u32) \<times> bool) mach \<Rightarrow> ((u32 \<times> u32) \<times> bool) mach option"
      and q D a p s t
    assume IH: "\<And>q D a p s t. f q D a p s = Some t \<Longrightarrow> q = snd \<longrightarrow> D = gate_board \<longrightarrow>
        idle tot s \<longrightarrow> idle tot t"
      and eq: "(do { (v, t) \<leftarrow> ird q D a s; if p v then Some t else f q D a p t }) = Some t"
      and "q = snd" "D = gate_board" "idle tot s"
    then obtain u where "ird q D a s = Some (fst (rd gate_board a s), u)" "idle tot u"
      using idle_ird by blast
    then show "idle tot t"
      using eq IH [of q D a p u t] \<open>q = snd\<close> \<open>D = gate_board\<close> by (auto split: if_splits)
  qed
  from this [OF poll] show "idle tot t" using \<open>idle tot s\<close> by simp
qed

lemma idle_sleep:
  assumes "idle tot s"
  shows "\<exists>t. irq_sleep_us snd gate_board us s = Some t \<and> idle tot t"
proof -
  obtain t where t: "irq_sleep_us snd gate_board us s = Some t"
    using irq_sleep_ends [OF gate_hardware(5) gate_timer] by blast
  obtain v u where "ird snd gate_board 0x40054028 s = Some (v, u)" "idle tot u"
    using idle_ird [OF assms] by blast
  then show ?thesis using t idle_poll by (auto simp: irq_sleep_us_def)
qed

lemma gate_record:
  assumes "idle tot s" and "i < IRQ_N"
  shows "\<exists>n t. irq_record snd gate_board r i s = Some (Inr (n, t)) \<and> idle tot t"
proof -
  let ?q = "snd :: (u32 \<times> u32) \<times> bool \<Rightarrow> bool"
  obtain v t1 where t1: "ird ?q gate_board (PIO0 + 0x020) s = Some (v, t1)" "idle tot t1"
    using idle_ird [OF assms(1)] by blast
  have sio: "0xD0000018 \<noteq> IRQ_COUNT" "(0xD0000018 :: u32) \<noteq> 0xD0000014" by (simp_all add: irq_layout)
  obtain t2 where t2: "iwr ?q gate_board 0xD0000018 (push_bit PIN_C 1) t1 = Some t2" "idle tot t2"
    using idle_iwr [OF t1(2) sio] by blast
  obtain t3 where t3: "iwr ?q gate_board 0xD0000018 (push_bit PIN_A 1) t2 = Some t3" "idle tot t3"
    using idle_iwr [OF t2(2) sio] by blast
  have smp: "SAMPLES + 4 * of_nat i = idx SAMPLES i" by (simp add: idx_def)
  have "idx SAMPLES i \<noteq> 0xD0000014" "idx IRQ_MB 6 \<noteq> 0xD0000014"
    using sample_sram(1) [OF assms(2)] mailbox_sram(1) [of 6] sio_dev(1) by auto
  note addr = this sample_sram(2) [OF assms(2)] mailbox_sram(2) [of 6]
  obtain t4 where t4: "(if r = IRQ_RUNS - 1 then iwr ?q gate_board (SAMPLES + 4 * of_nat i) (NOT v) t3
      else Some t3) = Some t4" "idle tot t4"
    using idle_iwr [OF t3(2) addr(3,1)] t3(2) unfolding smp by (cases "r = IRQ_RUNS - 1") auto
  obtain t5 where t5: "(if r = 0 \<and> i = 0 then iwr ?q gate_board (IRQ_MB + 0x18) (NOT v) t4
      else Some t4) = Some t5" "idle tot t5"
    using idle_iwr [OF t4(2) addr(4,2)] t4(2) unfolding mailbox_idx by (cases "r = 0 \<and> i = 0") auto
  obtain t6 where "irq_sleep_us ?q gate_board 5 t5 = Some t6" "idle tot t6"
    using idle_sleep [OF t5(2)] by blast
  then show ?thesis
    unfolding irq_record_def Let_def using t1(1) t2(1) t3(1) t4(1) t5(1)
    by (simp del: push_bit_of_1)
qed

lemma gate_sample:
  assumes "idle tot s" and "i < IRQ_N"
  shows "\<exists>n t. irq_sample snd gate_board r i (tot + 1) s = Some (Inr (n, t)) \<and> idle (tot + 1) t"
proof -
  let ?q = "snd :: (u32 \<times> u32) \<times> bool \<Rightarrow> bool"
  obtain c e where d: "dev s = (c, e)" by fastforce
  define s1 where "s1 = wr gate_board 0xD0000014 (push_bit PIN_A 1) s"
  have up: "iwr ?q gate_board 0xD0000014 (push_bit PIN_A 1) s = Some s1"
    by (simp add: iwr_def idle_service [OF assms(1)] s1_def)
  have "bit (push_bit PIN_A 1 :: u32) 15" by (simp add: PIN_A_def bit_push_bit_iff)
  then have high: "?q (dev s1)" and "ram s1 = ram s"
    using sio_dev(1) by (simp_all add: s1_def dev_wr ram_wr d gate_dwrite del: push_bit_of_1)
  define s2 where "s2 = isr_irq13 gate_board s1"
  have "ram s2 IRQ_COUNT = ram s1 IRQ_COUNT + 1"
    by (simp add: s2_def isr_irq13_def Let_def split_beta ram_wr rd_ram count_sram sio_dev dev_addrs
        del: push_bit_of_1)
  moreover have "\<not> ?q (dev s2)"
    using gate_hardware(5) by (simp add: s2_def dev_isr ack_clears_def del: split_paired_All)
  ultimately have s2: "idle (tot + 1) s2"
    using assms(1) \<open>ram s1 = ram s\<close> by (simp add: idle_def)
  have "service ?q gate_board s1 = Some s2"
    using service_once [OF gate_hardware(5), of s1] high by (simp add: s2_def)
  then have "ird ?q gate_board IRQ_COUNT s1 = Some (tot + 1, s2)"
    using s2 by (simp add: ird_def rd_ram count_sram idle_def)
  then have first: "spin ?q gate_board IRQ_COUNT (\<lambda>v. v = tot + 1) 1000000 s1 = Some (Inr s2)"
    by (subst spin.simps) simp
  have "PIO0 + 0x004 = 0x50200004" "\<not> in_sram 0x50200004" by (simp_all add: irq_layout sram_eval)
  moreover have "fst (dread gate_board d 0x50200004) = 0" for d
    by (cases d) (simp add: gate_board_def)
  ultimately have "fst (rd gate_board (PIO0 + 0x004) s2) = 0"
    by (metis rd_dev fst_conv)
  then obtain s3 where second: "spin ?q gate_board (PIO0 + 0x004) (\<lambda>v. drop_bit 8 v AND 1 = 0) 1000000 s2 =
      Some (Inr s3)" "idle (tot + 1) s3"
    using idle_spin [OF s2, of "\<lambda>v. drop_bit 8 v AND 1 = 0" "PIO0 + 0x004" 1000000] by auto
  from gate_record [OF second(2) assms(2)] show ?thesis
    by (simp add: irq_sample_def irq_collect_def up first second(1) del: push_bit_of_1)
qed

lemma gate_samples:
  "idle tot s \<Longrightarrow> i + k \<le> IRQ_N \<Longrightarrow>
     \<exists>st' t. irq_samples snd gate_board r k i tot st s = Some (Inr (tot + of_nat k, st', t)) \<and>
       idle (tot + of_nat k) t"
proof (induction k arbitrary: i tot st s)
  case 0
  then show ?case by (cases st) simp
next
  case (Suc k)
  have "i < IRQ_N" using Suc.prems(2) by simp
  from gate_sample [OF Suc.prems(1) this] obtain n u where
    "irq_sample snd gate_board r i (tot + 1) s = Some (Inr (n, u))" "idle (tot + 1) u" by blast
  then show ?case
    using Suc.IH [of "tot + 1" u "Suc i" "irq_stat n st"] Suc.prems(2) by (simp add: add.assoc)
qed

lemma gate_runs:
  "idle tot s \<Longrightarrow> r + k \<le> 3 \<Longrightarrow>
     \<exists>tot' t. irq_runs snd gate_board k r tot s = Some (Inr (tot', t)) \<and> idle tot' t"
proof (induction k arbitrary: r tot s)
  case (Suc k)
  let ?q = "snd :: (u32 \<times> u32) \<times> bool \<Rightarrow> bool"
  have "0 + IRQ_N \<le> IRQ_N" by simp
  from gate_samples [OF Suc.prems(1) this] obtain st u where
    u: "irq_samples ?q gate_board r IRQ_N 0 tot (0xFFFFFFFF, 0, 0) s =
      Some (Inr (tot + of_nat IRQ_N, st, u))" "idle (tot + of_nat IRQ_N) u" by blast
  have addr: "idx IRQ_MB j \<noteq> IRQ_COUNT" "idx IRQ_MB j \<noteq> 0xD0000014" if "j < 64" for j
    using mailbox_sram [OF that] sio_dev(1) by auto
  obtain mn mx sm where st: "st = (mn, mx, sm)" by (cases st)
  let ?tot = "tot + of_nat IRQ_N"
  have k: "12 + 3 * r < 64" "13 + 3 * r < 64" "14 + 3 * r < 64" using Suc.prems(2) by simp_all
  obtain a where a: "iwr ?q gate_board (idx IRQ_MB (12 + 3 * r)) mn u = Some a" "idle ?tot a"
    using idle_iwr [OF u(2) addr [OF k(1)]] by blast
  obtain b where b: "iwr ?q gate_board (idx IRQ_MB (13 + 3 * r)) mx a = Some b" "idle ?tot b"
    using idle_iwr [OF a(2) addr [OF k(2)]] by blast
  obtain c where c: "iwr ?q gate_board (idx IRQ_MB (14 + 3 * r)) sm b = Some c" "idle ?tot c"
    using idle_iwr [OF b(2) addr [OF k(3)]] by blast
  have "irq_store_stats ?q gate_board r st u = Some c"
    unfolding st irq_store_stats_def prod.case Let_def run_idx by (simp add: a b c)
  then show ?case using u(1) Suc.IH [OF c(2), of "Suc r"] Suc.prems(2) by simp
qed simp

lemma setup_last:
  "irq_setup lang D s = Some t \<Longrightarrow> \<exists>u. t = wr D 0xE000E100 (push_bit 13 1)
     (wr D (INTE1 + 0x2000) A_EDGE_HIGH (wr D INTR1 (push_bit 28 0xF) u))"
  unfolding irq_setup_def Let_def split_beta by (fastforce simp only: bind_eq_Some_conv option.inject)

lemma gate_succeeds:
  "\<exists>t. irq_main 2 snd gate_board \<lparr>ram = \<lambda>_. 0, dev = ((0, 0), False)\<rparr> = Some (Inr t)"
proof -
  let ?q = "snd :: (u32 \<times> u32) \<times> bool \<Rightarrow> bool"
  obtain s1 where s1: "irq_setup 2 gate_board \<lparr>ram = \<lambda>_. 0, dev = ((0, 0), False)\<rparr> = Some s1"
    using setup_ends [OF gate_hardware(1-4)] by blast
  from setup_last [OF this] obtain u where u: "s1 = wr gate_board 0xE000E100 (push_bit 13 1)
     (wr gate_board (INTE1 + 0x2000) A_EDGE_HIGH (wr gate_board INTR1 (push_bit 28 0xF) u))" by blast
  obtain c e where d: "dev u = (c, e)" by fastforce
  have "bit (push_bit 28 0xF :: u32) 31" by code_simp
  moreover have "INTR1 = 0x400140F4" "INTE1 + 0x2000 \<noteq> 0xD0000014" by (simp_all add: irq_layout)
  ultimately have "\<not> ?q (dev s1)"
    using dev_addrs by (simp add: u dev_wr d gate_dwrite)
  then have "idle 0 s1" using setup_mailbox(8) [OF s1] by (simp add: idle_def)
  from idle_sleep [OF this] obtain s2 where s2: "irq_sleep_us ?q gate_board 10 s1 = Some s2" "idle 0 s2"
    by blast
  have "0 + IRQ_RUNS \<le> 3" by (simp add: IRQ_RUNS_def)
  from gate_runs [OF s2(2) this] obtain tot s3 where
    s3: "irq_runs ?q gate_board IRQ_RUNS 0 0 s2 = Some (Inr (tot, s3))" by blast
  obtain x where x: "irq_finish ?q gate_board tot s3 = Some x"
    using finish_ends [OF gate_hardware(5)] by blast
  obtain t where "x = Inr t" using finish_ram [OF x agrees_refl] by blast
  then show ?thesis by (simp add: irq_main_def irq_measure_def s1 s2(1) s3 x)
qed

section \<open>Properties\<close>

text \<open>C13: when the latency gate ends, its mailbox can be trusted. In its error loop the mailbox has
  state 3 and error code 1 or 2. Otherwise it has state 2, no error, the total 30000 of
  interrupts waited for, the PIO program, and there are three runs of 10000 measured values
  such that each run's minimum, maximum and sum in the mailbox are theirs, the sample buffer
  is the last run, and the first value is the first: exactly what the host recomputes. The
  handler may run between any two accesses, any number of times.\<close>

theorem irq_gate_outcome:
  assumes "irq_main lang q D s = Some x"
  shows "case x of
    Inl t \<Rightarrow> ram t (IRQ_MB + 0x04) = 3 \<and> ram t (IRQ_MB + 0x20) \<in> {1, 2}
  | Inr t \<Rightarrow> \<exists>nss. results_ok lang nss (ram t)"
  using main_run [OF assms] by (auto simp: failed_def mailbox_idx split: sum.splits)

theorem irq_gate_outcome_witness:
  "\<exists>t nss. irq_main 2 snd gate_board \<lparr>ram = \<lambda>_. 0, dev = ((0, 0), False)\<rparr> = Some (Inr t) \<and>
     results_ok 2 nss (ram t)"
proof -
  obtain t where "irq_main 2 snd gate_board \<lparr>ram = \<lambda>_. 0, dev = ((0, 0), False)\<rparr> = Some (Inr t)"
    using gate_succeeds by blast
  with irq_gate_outcome [OF this] show ?thesis by auto
qed

end
