(* ===== verification/AliasReg.thy ===== *)
theory AliasReg
  imports Board
begin

text \<open>
  Registers with atomic aliases. Every register of the chip's peripherals appears four times:
  a write to the address itself replaces the value, and writes to the three aliases of
  \<^verbatim>\<open>src/pico/mmio.mojo\<close> combine the word written with it inside the hardware. That is documented
  behaviour of the chip, so it is a predicate on the device (\<open>alias_bank\<close>) which the theorems
  about the drivers assume; \<open>alias_device\<close> is a device that has it.
\<close>

section \<open>The aliases\<close>

definition XOR_ALIAS :: u32 where "XOR_ALIAS = 0x1000"

definition write32_xor :: "'d device \<Rightarrow> u32 \<Rightarrow> u32 \<Rightarrow> 'd mach \<Rightarrow> 'd mach" where
  "write32_xor D a m s = wr D (a + XOR_ALIAS) m s"

lemmas alias_defs = XOR_ALIAS_def SET_ALIAS_def CLR_ALIAS_def

text \<open>
  The registers \<open>R\<close> of the device, as \<open>view\<close> shows them: what is written to one of them or to
  one of its aliases changes this register only, and reading one shows it and changes none.
\<close>

definition alias_bank :: "'d device \<Rightarrow> u32 set \<Rightarrow> ('d \<Rightarrow> u32 \<Rightarrow> u32) \<Rightarrow> bool" where
  "alias_bank D R view \<longleftrightarrow>
     (\<forall>a\<in>R. \<forall>d v.
        view (dwrite D d a v) = (view d)(a := v) \<and>
        view (dwrite D d (a + XOR_ALIAS) v) = (view d)(a := view d a XOR v) \<and>
        view (dwrite D d (a + SET_ALIAS) v) = (view d)(a := view d a OR v) \<and>
        view (dwrite D d (a + CLR_ALIAS) v) = (view d)(a := view d a AND NOT v) \<and>
        fst (dread D d a) = view d a \<and> view (snd (dread D d a)) = view d)"

text \<open>A register address whose aliases are all outside the memory.\<close>

definition reg_addr :: "u32 \<Rightarrow> bool" where
  "reg_addr a \<longleftrightarrow> \<not> in_sram a \<and> \<not> in_sram (a + XOR_ALIAS) \<and> \<not> in_sram (a + SET_ALIAS) \<and>
     \<not> in_sram (a + CLR_ALIAS)"

lemma reg_addr_range: "0x40000000 \<le> unat a \<Longrightarrow> unat a < 0xF0000000 \<Longrightarrow> reg_addr a"
  by (simp add: reg_addr_def sram_eval alias_defs word_le_nat_alt word_less_nat_alt unat_word_ariths)

lemma bank_ops:
  assumes "alias_bank D R view" and "a \<in> R" and "reg_addr a"
  shows "view (dev (wr D a v s)) = (view (dev s))(a := v)"
    and "view (dev (write32_xor D a v s)) = (view (dev s))(a := view (dev s) a XOR v)"
    and "view (dev (write32_set D a v s)) = (view (dev s))(a := view (dev s) a OR v)"
    and "view (dev (write32_clr D a v s)) = (view (dev s))(a := view (dev s) a AND NOT v)"
    and "fst (rd D a s) = view (dev s) a" and "view (dev (snd (rd D a s))) = view (dev s)"
  using assms
  by (auto simp: alias_bank_def reg_addr_def wr_dev rd_dev write32_xor_def write32_set_def
      write32_clr_def)

lemma bank_ram:
  assumes "reg_addr a"
  shows "ram (wr D a v s) = ram s" and "ram (write32_xor D a v s) = ram s"
    and "ram (write32_set D a v s) = ram s" and "ram (write32_clr D a v s) = ram s"
  using assms
  by (auto simp: reg_addr_def wr_dev write32_xor_def write32_set_def write32_clr_def)

lemma bank_subset: "alias_bank D R view \<Longrightarrow> S \<subseteq> R \<Longrightarrow> alias_bank D S view"
  by (auto simp: alias_bank_def)

section \<open>A device with aliases\<close>

text \<open>The base address of a register is its address without the two alias bits.\<close>

definition alias_base :: "u32 \<Rightarrow> u32" where
  "alias_base a = a AND NOT 0x3000"

definition alias_apply :: "u32 \<Rightarrow> u32 \<Rightarrow> u32 \<Rightarrow> u32" where
  "alias_apply a old v =
     (if a AND 0x3000 = 0x1000 then old XOR v
      else if a AND 0x3000 = 0x2000 then old OR v
      else if a AND 0x3000 = 0x3000 then old AND NOT v
      else v)"

definition alias_device :: "(u32 \<Rightarrow> u32) device" where
  "alias_device =
     \<lparr>dread = \<lambda>d a. (d (alias_base a), d),
      dwrite = \<lambda>d a v. d(alias_base a := alias_apply a (d (alias_base a)) v)\<rparr>"

lemma and_not_disjoint:
  fixes a k :: "'a::len word"
  assumes "a AND k = 0"
  shows "a AND NOT k = a"
proof -
  have "a = (a AND k) OR (a AND NOT k)" by (simp add: bit.conj_disj_distrib [symmetric])
  then show ?thesis using assms by simp
qed

lemma alias_bits:
  fixes a :: u32
  assumes "a AND 0x3000 = 0"
  shows "(a + 0x1000) AND 0x3000 = 0x1000" "(a + 0x1000) AND NOT 0x3000 = a"
    "(a + 0x2000) AND 0x3000 = 0x2000" "(a + 0x2000) AND NOT 0x3000 = a"
    "(a + 0x3000) AND 0x3000 = 0x3000" "(a + 0x3000) AND NOT 0x3000 = a"
    "a AND NOT 0x3000 = a"
proof -
  have a: "a AND NOT 0x3000 = a" using assms by (rule and_not_disjoint)
  then show "a AND NOT 0x3000 = a" .
  have plus: "(a + k) AND 0x3000 = k \<and> (a + k) AND NOT 0x3000 = a"
    if k: "k AND 0x3000 = k" for k :: u32
  proof -
    have "k AND NOT 0x3000 = (k AND 0x3000) AND NOT 0x3000" using k by (simp only:)
    then have k0: "k AND NOT 0x3000 = 0" by (simp only: and.assoc bit.conj_cancel_right) simp
    have "a AND k = (a AND 0x3000) AND k" using k by (metis and.assoc and.commute)
    then have "a + k = a OR k" using assms word_plus_and_or [of a k] by simp
    then show ?thesis
      using assms a k k0 by (simp only: bit.conj_disj_distrib2 or.left_neutral or.right_neutral)
  qed
  show "(a + 0x1000) AND 0x3000 = 0x1000" "(a + 0x1000) AND NOT 0x3000 = a"
    using plus [of "0x1000"] by simp_all
  show "(a + 0x2000) AND 0x3000 = 0x2000" "(a + 0x2000) AND NOT 0x3000 = a"
    using plus [of "0x2000"] by simp_all
  show "(a + 0x3000) AND 0x3000 = 0x3000" "(a + 0x3000) AND NOT 0x3000 = a"
    using plus [of "0x3000"] by simp_all
qed

lemma alias_device_bankI:
  "(\<And>a. a \<in> R \<Longrightarrow> a AND 0x3000 = 0) \<Longrightarrow> alias_bank alias_device R (\<lambda>d. d)"
  by (simp add: alias_bank_def alias_device_def alias_base_def alias_apply_def alias_defs
      alias_bits [simplified] fun_eq_iff)

lemma alias_device_bank:
  "list_all (\<lambda>a. a AND 0x3000 = 0) as \<Longrightarrow> alias_bank alias_device (set as) (\<lambda>d. d)"
  by (rule alias_device_bankI) (simp add: list_all_iff)

section \<open>Fields of a word\<close>

text \<open>
  \<open>fget k n w\<close> is the field of \<open>n\<close> bits at position \<open>k\<close>, \<open>fput\<close> replaces it and leaves the
  rest: the read-modify-write of the drivers, which they write out with masks and shifts.
\<close>

definition fget :: "nat \<Rightarrow> nat \<Rightarrow> u32 \<Rightarrow> u32" where
  "fget k n w = take_bit n (drop_bit k w)"

definition fput :: "nat \<Rightarrow> nat \<Rightarrow> u32 \<Rightarrow> u32 \<Rightarrow> u32" where
  "fput k n v w = (w AND NOT (push_bit k (mask n))) OR push_bit k (take_bit n v)"

lemma bit_fget: "bit (fget k n w) j \<longleftrightarrow> j < n \<and> bit w (k + j)"
  by (simp only: fget_def bit_take_bit_iff bit_drop_bit_eq o_def)

lemma bit_fput:
  "bit (fput k n v w) j \<longleftrightarrow> (if k \<le> j \<and> j < k + n then j < 32 \<and> bit v (j - k) else bit w j)"
  unfolding fput_def bit_or_iff bit_and_iff bit_not_iff bit_push_bit_iff bit_take_bit_iff bit_mask_iff
  by (auto dest: bit_imp_le_length)

lemma fget_fput_same [simp]: "k + n \<le> 32 \<Longrightarrow> fget k n (fput k n v w) = take_bit n v"
  by (rule bit_word_eqI) (auto simp: bit_fget bit_fput bit_take_bit_iff)

lemma fget_fput_other [simp]:
  "k + n \<le> i \<or> i + m \<le> k \<Longrightarrow> fget i m (fput k n v w) = fget i m w"
  by (rule bit_word_eqI) (auto simp: bit_fget bit_fput)

lemma fput_fget [simp]: "fput k n (fget k n w) w = w"
  by (rule bit_word_eqI) (auto simp: bit_fget bit_fput)

lemma fput_fput [simp]: "fput k n v (fput k n u w) = fput k n v w"
  by (rule bit_word_eqI) (auto simp: bit_fput)

lemma fget_zero [simp]: "fget k n 0 = 0"
  by (simp add: fget_def)

text \<open>A word is its fields.\<close>

lemma fget_one_bit: "fget k 1 w = of_bool (bit w k)"
  by (rule bit_word_eqI) (auto simp: bit_fget bit_of_bool_iff)

end
