(* ===== verification/PioAsm.thy ===== *)
theory PioAsm
  imports Prelude "HOL-Library.Monad_Syntax"
begin

text \<open>
  The PIO assembler of \<^verbatim>\<open>src/pico/pio.mojo\<close>: a program of at most 32 instructions under
  construction, one method per instruction, labels as plain addresses, and forward labels
  that are declared, jumped to and bound later, when the jumps already emitted are patched.
  An array access out of range, and a negative shift amount, is \<open>None\<close>. Against the one-pass
  assembler stands a two-pass reference.
\<close>

section \<open>The state\<close>

record asm =
  code :: "u16 list"
  alen :: nat
  side_count :: nat
  side_opt :: bool
  side_pindirs :: bool
  fw_addr :: "int list"
  fw_used :: nat
  fixup :: "int list"
  pending :: int

definition MAX_FUTURES :: nat where
  "MAX_FUTURES = 8"

definition asm_init :: asm where
  "asm_init =
     \<lparr>code = replicate 32 0, alen = 0, side_count = 0, side_opt = False, side_pindirs = False,
      fw_addr = replicate MAX_FUTURES (- 1), fw_used = 0, fixup = replicate 32 0, pending = 0\<rparr>"

section \<open>Emitting\<close>

definition side_set :: "int \<Rightarrow> bool \<Rightarrow> bool \<Rightarrow> asm \<Rightarrow> asm" where
  "side_set n opt pindirs a =
     a\<lparr>side_count := nat (n AND 0x7), side_opt := opt, side_pindirs := pindirs\<rparr>"

definition label :: "asm \<Rightarrow> int" where
  "label a = int (alen a)"

definition future :: "asm \<Rightarrow> int \<times> asm" where
  "future a = (- (int (fw_used a) + 1), a\<lparr>fw_used := fw_used a + 1\<rparr>)"

text \<open>Bits 12 to 8 of an instruction: an enable bit, the side-set value, the delay.\<close>

definition side_bits :: "asm \<Rightarrow> nat" where
  "side_bits a = side_count a + (if side_opt a then 1 else 0)"

definition delay_field :: "asm \<Rightarrow> int \<Rightarrow> int \<Rightarrow> int" where
  "delay_field a delay side =
     (let field = delay AND (push_bit (5 - side_bits a) 1 - 1)
      in if 0 < side_count a \<and> 0 \<le> side
         then (let sv = side AND (push_bit (side_count a) 1 - 1)
               in if side_opt a then field OR (0x10 OR push_bit (4 - side_count a) sv)
                  else field OR push_bit (5 - side_count a) sv)
         else field)"

definition emit :: "u16 \<Rightarrow> int \<Rightarrow> int \<Rightarrow> asm \<Rightarrow> asm option" where
  "emit instr delay side a =
     (if side_bits a \<le> 5 \<and> alen a < 32
      then Some (a\<lparr>code := (code a)[alen a :=
             instr OR push_bit 8 (of_int (delay_field a delay side AND 0x1F))],
           alen := alen a + 1\<rparr>)
      else None)"

text \<open>A jump target is an address, a bound handle, or an unbound one that leaves a fixup.\<close>

definition jmp_target :: "int \<Rightarrow> asm \<Rightarrow> (u16 \<times> asm) option" where
  "jmp_target target a =
     (if target < 0
      then (let i = nat (- target - 1)
            in if MAX_FUTURES \<le> i then None
               else if 0 \<le> fw_addr a ! i then Some (of_int (fw_addr a ! i AND 0x1F), a)
               else if alen a < 32
               then Some (0, a\<lparr>fixup := (fixup a)[alen a := int i + 1], pending := pending a + 1\<rparr>)
               else None)
      else Some (of_int (target AND 0x1F), a))"

text \<open>The loop of \<^verbatim>\<open>bind\<close> over the emitted instructions.\<close>

definition patch :: "nat \<Rightarrow> nat \<Rightarrow> asm \<Rightarrow> asm" where
  "patch i k a =
     (if fixup a ! k = int i + 1
      then a\<lparr>code := (code a)[k := (code a ! k AND NOT 0x1F) OR of_nat (alen a AND 0x1F)],
             fixup := (fixup a)[k := 0], pending := pending a - 1\<rparr>
      else a)"

definition bind_label :: "int \<Rightarrow> asm \<Rightarrow> asm option" where
  "bind_label handle a =
     (let i = - handle - 1
      in if i < 0 \<or> int MAX_FUTURES \<le> i then None
         else Some (for_range 0 (alen a) (patch (nat i))
           (a\<lparr>fw_addr := (fw_addr a)[nat i := int (alen a)]\<rparr>)))"

definition unresolved :: "asm \<Rightarrow> int" where
  "unresolved a = pending a"

section \<open>The instructions\<close>

named_theorems pio_ops \<open>the instruction methods of the assembler\<close>

definition arg5 :: "int \<Rightarrow> u16" where [pio_ops]: "arg5 v = of_int (v AND 0x1F)"

definition set_pins :: "int \<Rightarrow> int \<Rightarrow> int \<Rightarrow> asm \<Rightarrow> asm option" where [pio_ops]:
  "set_pins v = emit (0xE000 OR arg5 v)"

definition set_pindirs :: "int \<Rightarrow> int \<Rightarrow> int \<Rightarrow> asm \<Rightarrow> asm option" where [pio_ops]:
  "set_pindirs v = emit (0xE080 OR arg5 v)"

definition set_x :: "int \<Rightarrow> int \<Rightarrow> int \<Rightarrow> asm \<Rightarrow> asm option" where [pio_ops]:
  "set_x v = emit (0xE020 OR arg5 v)"

definition set_y :: "int \<Rightarrow> int \<Rightarrow> int \<Rightarrow> asm \<Rightarrow> asm option" where [pio_ops]:
  "set_y v = emit (0xE040 OR arg5 v)"

text \<open>The six jumps share their body and differ in the condition bits.\<close>

definition jmp_cond :: "u16 \<Rightarrow> int \<Rightarrow> int \<Rightarrow> int \<Rightarrow> asm \<Rightarrow> asm option" where [pio_ops]:
  "jmp_cond cond target delay side a =
     do { (t, a) \<leftarrow> jmp_target target a; emit (cond OR t) delay side a }"

definition jmp :: "int \<Rightarrow> int \<Rightarrow> int \<Rightarrow> asm \<Rightarrow> asm option" where [pio_ops]:
  "jmp = jmp_cond 0x0000"

definition jmp_not_x :: "int \<Rightarrow> int \<Rightarrow> int \<Rightarrow> asm \<Rightarrow> asm option" where [pio_ops]:
  "jmp_not_x = jmp_cond 0x0020"

definition jmp_x_dec :: "int \<Rightarrow> int \<Rightarrow> int \<Rightarrow> asm \<Rightarrow> asm option" where [pio_ops]:
  "jmp_x_dec = jmp_cond 0x0040"

definition jmp_not_y :: "int \<Rightarrow> int \<Rightarrow> int \<Rightarrow> asm \<Rightarrow> asm option" where [pio_ops]:
  "jmp_not_y = jmp_cond 0x0060"

definition jmp_y_dec :: "int \<Rightarrow> int \<Rightarrow> int \<Rightarrow> asm \<Rightarrow> asm option" where [pio_ops]:
  "jmp_y_dec = jmp_cond 0x0080"

definition jmp_pin :: "int \<Rightarrow> int \<Rightarrow> int \<Rightarrow> asm \<Rightarrow> asm option" where [pio_ops]:
  "jmp_pin = jmp_cond 0x00C0"

definition wait_gpio :: "int \<Rightarrow> int \<Rightarrow> int \<Rightarrow> int \<Rightarrow> asm \<Rightarrow> asm option" where [pio_ops]:
  "wait_gpio polarity gpio =
     emit (0x2000 OR push_bit 7 (of_int (polarity AND 1)) OR arg5 gpio)"

definition in_x :: "int \<Rightarrow> int \<Rightarrow> int \<Rightarrow> asm \<Rightarrow> asm option" where [pio_ops]:
  "in_x n = emit (0x4020 OR arg5 n)"

definition push_block :: "int \<Rightarrow> int \<Rightarrow> asm \<Rightarrow> asm option" where [pio_ops]:
  "push_block = emit 0x8020"

definition out_pins :: "int \<Rightarrow> int \<Rightarrow> int \<Rightarrow> asm \<Rightarrow> asm option" where [pio_ops]:
  "out_pins n = emit (0x6000 OR arg5 n)"

definition out_x :: "int \<Rightarrow> int \<Rightarrow> int \<Rightarrow> asm \<Rightarrow> asm option" where [pio_ops]:
  "out_x n = emit (0x6020 OR arg5 n)"

definition pull_block :: "int \<Rightarrow> int \<Rightarrow> asm \<Rightarrow> asm option" where [pio_ops]:
  "pull_block = emit 0x80A0"

definition pull_noblock :: "int \<Rightarrow> int \<Rightarrow> asm \<Rightarrow> asm option" where [pio_ops]:
  "pull_noblock = emit 0x8080"

definition mov_pins_x :: "int \<Rightarrow> int \<Rightarrow> asm \<Rightarrow> asm option" where [pio_ops]:
  "mov_pins_x = emit 0xA001"

definition mov_x_pins :: "int \<Rightarrow> int \<Rightarrow> asm \<Rightarrow> asm option" where [pio_ops]:
  "mov_x_pins = emit 0xA020"

definition mov_x_not_null :: "int \<Rightarrow> int \<Rightarrow> asm \<Rightarrow> asm option" where [pio_ops]:
  "mov_x_not_null = emit 0xA02B"

definition nop :: "int \<Rightarrow> int \<Rightarrow> asm \<Rightarrow> asm option" where [pio_ops]:
  "nop = emit 0xA042"

text \<open>\<^verbatim>\<open>reference_program\<close> of \<^verbatim>\<open>tools/irq_latency.mojo\<close>, with the default delay and side-set.\<close>

definition reference_program :: "asm option" where
  "reference_program = do {
     a \<leftarrow> wait_gpio 0 15 0 (- 1) asm_init;
     a \<leftarrow> wait_gpio 1 15 0 (- 1) a;
     a \<leftarrow> mov_x_not_null 0 (- 1) a;
     let loop = label a;
     let (finish, a) = future a;
     a \<leftarrow> jmp_pin finish 0 (- 1) a;
     a \<leftarrow> jmp_x_dec loop 0 (- 1) a;
     a \<leftarrow> bind_label finish a;
     a \<leftarrow> in_x 32 0 (- 1) a;
     push_block 0 (- 1) a
   }"

section \<open>The two-pass reference\<close>

text \<open>
  A program as a list: plain instructions, jumps with their condition bits, and the places
  where handle \<open>i\<close> is bound. Its one-pass assembly calls the methods in order.
\<close>

datatype item = Ins u16 int int | Jump u16 int int int | Bind nat

fun assemble :: "item list \<Rightarrow> asm \<Rightarrow> asm option" where
  "assemble [] a = Some a"
| "assemble (Ins instr delay side # xs) a = do { a \<leftarrow> emit instr delay side a; assemble xs a }"
| "assemble (Jump cond target delay side # xs) a =
     do { a \<leftarrow> jmp_cond cond target delay side a; assemble xs a }"
| "assemble (Bind i # xs) a = do { a \<leftarrow> bind_label (- int i - 1) a; assemble xs a }"

text \<open>First pass: the table of addresses. Second pass: encode with the complete table.\<close>

fun table :: "nat \<Rightarrow> item list \<Rightarrow> (nat \<rightharpoonup> nat) \<Rightarrow> (nat \<rightharpoonup> nat)" where
  "table p [] tab = tab"
| "table p (Bind i # xs) tab = table p xs (tab(i \<mapsto> p))"
| "table p (Ins c d s # xs) tab = table (Suc p) xs tab"
| "table p (Jump c t d s # xs) tab = table (Suc p) xs tab"

definition target_bits :: "(nat \<rightharpoonup> nat) \<Rightarrow> int \<Rightarrow> u16" where
  "target_bits tab t =
     (if 0 \<le> t then of_int (t AND 0x1F)
      else (case tab (nat (- t - 1)) of None \<Rightarrow> 0 | Some p \<Rightarrow> of_nat (p AND 0x1F)))"

definition field_bits :: "asm \<Rightarrow> int \<Rightarrow> int \<Rightarrow> u16" where
  "field_bits a delay side = push_bit 8 (of_int (delay_field a delay side AND 0x1F))"

fun encode :: "asm \<Rightarrow> (nat \<rightharpoonup> nat) \<Rightarrow> item \<Rightarrow> u16" where
  "encode a tab (Ins instr delay side) = instr OR field_bits a delay side"
| "encode a tab (Jump cond t delay side) = cond OR target_bits tab t OR field_bits a delay side"
| "encode a tab (Bind i) = 0"

fun emits :: "item \<Rightarrow> bool" where
  "emits (Bind i) = False"
| "emits _ = True"

definition two_pass :: "asm \<Rightarrow> item list \<Rightarrow> u16 list" where
  "two_pass a xs = map (encode a (table 0 xs Map.empty)) (filter emits xs)"

text \<open>Which handle a jump still waits for, in the numbering of the fixup table.\<close>

fun waiting :: "(nat \<rightharpoonup> nat) \<Rightarrow> item \<Rightarrow> int" where
  "waiting tab (Jump cond t delay side) =
     (if t < 0 \<and> tab (nat (- t - 1)) = None then int (nat (- t - 1)) + 1 else 0)"
| "waiting tab _ = 0"

text \<open>
  Sensible programs: condition bits leave the target field free, handles exist, and no handle
  is bound twice.
\<close>

fun item_ok :: "item \<Rightarrow> bool" where
  "item_ok (Jump cond t delay side) = (cond AND 0x1F = 0 \<and> - 8 \<le> t)"
| "item_ok (Bind i) = (i < 8)"
| "item_ok (Ins instr delay side) = True"

fun bound :: "item list \<Rightarrow> nat list" where
  "bound [] = []"
| "bound (Bind i # xs) = i # bound xs"
| "bound (x # xs) = bound xs"

section \<open>The invariant of the assembler\<close>

text \<open>
  With \<open>es\<close> the instructions emitted so far: instruction \<open>k\<close> is encoded with the table
  \<open>tb k\<close>, its fixup says what it waits for under that table, and the pending counter counts
  the open fixups. Outside \<open>bind\<close> all instructions have the same table.
\<close>

definition open_jump :: "(nat \<rightharpoonup> nat) \<Rightarrow> item \<Rightarrow> int" where
  "open_jump tab x = (if waiting tab x = 0 then 0 else 1)"

definition asm_inv :: "asm \<Rightarrow> item list \<Rightarrow> (nat \<Rightarrow> nat \<rightharpoonup> nat) \<Rightarrow> (nat \<rightharpoonup> nat) \<Rightarrow> asm \<Rightarrow> bool" where
  "asm_inv c es tb tab a \<longleftrightarrow>
     side_count a = side_count c \<and> side_opt a = side_opt c \<and> side_pindirs a = side_pindirs c \<and>
     alen a = length es \<and> length es \<le> 32 \<and> list_all item_ok es \<and> list_all emits es \<and>
     length (code a) = 32 \<and> length (fixup a) = 32 \<and> length (fw_addr a) = 8 \<and>
     (\<forall>k<length es. code a ! k = encode c (tb k) (es ! k)) \<and>
     (\<forall>k<length es. fixup a ! k = waiting (tb k) (es ! k)) \<and>
     (\<forall>k<32. length es \<le> k \<longrightarrow> fixup a ! k = 0) \<and>
     (\<forall>i<8. fw_addr a ! i = (case tab i of None \<Rightarrow> - 1 | Some p \<Rightarrow> int p)) \<and>
     pending a = (\<Sum>k<length es. open_jump (tb k) (es ! k))"

lemma delay_field_config:
  "side_count a = side_count c \<Longrightarrow> side_opt a = side_opt c \<Longrightarrow> delay_field a = delay_field c"
  by (simp add: delay_field_def side_bits_def fun_eq_iff Let_def)

text \<open>A jump may leave a fixup before its instruction is emitted.\<close>

definition with_fixup :: "int \<Rightarrow> asm \<Rightarrow> asm" where
  "with_fixup w a =
     (if w = 0 then a else a\<lparr>fixup := (fixup a)[alen a := w], pending := pending a + 1\<rparr>)"

lemma emit_fixup_inv:
  assumes "asm_inv c es (\<lambda>_. tab) tab a" and "side_bits c \<le> 5" and "length es < 32"
    and "emits x" "item_ok x" and "instr OR field_bits c delay side = encode c tab x"
  shows "\<exists>b. emit instr delay side (with_fixup (waiting tab x) a) = Some b \<and>
    asm_inv c (es @ [x]) (\<lambda>_. tab) tab b"
proof -
  note inv = assms(1) [unfolded asm_inv_def]
  let ?a = "with_fixup (waiting tab x) a"
  have same: "alen ?a = alen a" "code ?a = code a" "side_count ?a = side_count a" "side_opt ?a = side_opt a"
    "fw_addr ?a = fw_addr a" by (simp_all add: with_fixup_def)
  have df: "delay_field ?a = delay_field c" using inv by (intro delay_field_config) (simp_all add: same)
  have sb: "side_bits ?a = side_bits c" using inv by (simp add: side_bits_def same)
  let ?b = "?a\<lparr>code := (code a)[alen a := instr OR push_bit 8 (of_int (delay_field ?a delay side AND 0x1F))],
      alen := alen a + 1\<rparr>"
  have "emit instr delay side ?a = Some ?b" using inv assms(2,3) by (simp add: emit_def sb same)
  moreover have "asm_inv c (es @ [x]) (\<lambda>_. tab) tab ?b"
    using inv assms(3-6) unfolding asm_inv_def df
    by (auto simp: with_fixup_def field_bits_def nth_append less_Suc_eq nth_list_update open_jump_def)
  ultimately show ?thesis by blast
qed

lemma and_not_free: "x AND m = 0 \<Longrightarrow> x AND NOT m = x" for x m :: u16
proof (rule bit_word_eqI)
  fix n
  assume "x AND m = 0"
  then have "\<not> (bit x n \<and> bit m n)" by (metis bit_and_iff bit_0_eq bot_apply bot_bool_def)
  moreover assume "n < LENGTH(16)"
  ultimately show "bit (x AND NOT m) n = bit x n" by (auto simp: bit_and_iff bit_not_iff)
qed

lemma field_bits_low: "field_bits c d s AND 0x1F = 0"
proof -
  have "push_bit 8 x AND mask 5 = 0" for x :: u16
    by (rule bit_word_eqI) (auto simp: bit_simps)
  then show ?thesis by (simp add: field_bits_def mask_eq_exp_minus_1)
qed

lemma encode_bind:
  assumes "item_ok x" and "waiting tab x = int i + 1"
  shows "encode c (tab(i \<mapsto> p)) x = (encode c tab x AND NOT 0x1F) OR of_nat (p AND 0x1F)"
    and "waiting (tab(i \<mapsto> p)) x = 0"
proof -
  from assms obtain cond t d s where x: "x = Jump cond t d s" and t: "t < 0" "nat (- t - 1) = i" "tab i = None"
    by (cases x) (auto split: if_splits)
  have "(cond OR field_bits c d s) AND 0x1F = 0"
    using assms(1) field_bits_low by (simp add: x bit.conj_disj_distrib2)
  then have "(cond OR field_bits c d s) AND NOT 0x1F = cond OR field_bits c d s" by (rule and_not_free)
  moreover have "encode c tab x = cond OR field_bits c d s" using t by (simp add: x target_bits_def)
  moreover have "encode c (tab(i \<mapsto> p)) x = cond OR of_nat (p AND 0x1F) OR field_bits c d s"
    using t by (simp add: x target_bits_def)
  ultimately show "encode c (tab(i \<mapsto> p)) x = (encode c tab x AND NOT 0x1F) OR of_nat (p AND 0x1F)"
    by (simp only: or.assoc or.commute or.left_commute)
  show "waiting (tab(i \<mapsto> p)) x = 0" using t by (simp add: x)
qed

lemma encode_other:
  assumes "waiting tab x \<noteq> int i + 1" and "tab i = None"
  shows "encode c (tab(i \<mapsto> p)) x = encode c tab x" and "waiting (tab(i \<mapsto> p)) x = waiting tab x"
proof -
  have "t < 0 \<Longrightarrow> nat (- t - 1) \<noteq> i" if "x = Jump cond t d s" for cond t d s
    using assms that by auto
  then show "encode c (tab(i \<mapsto> p)) x = encode c tab x" "waiting (tab(i \<mapsto> p)) x = waiting tab x"
    by (cases x; auto simp: target_bits_def)+
qed

lemma jmp_target_inv:
  assumes "asm_inv c es (\<lambda>_. tab) tab a" and "length es < 32" and "item_ok (Jump cond t d s)"
  shows "jmp_target t a = Some (target_bits tab t, with_fixup (waiting tab (Jump cond t d s)) a)"
proof (cases "t < 0")
  case True
  let ?i = "nat (- t - 1)"
  have "?i < 8" using assms(3) True by auto
  then have fw: "fw_addr a ! ?i = (case tab ?i of None \<Rightarrow> - 1 | Some p \<Rightarrow> int p)"
    using assms(1) by (simp add: asm_inv_def)
  have "of_int (int p AND 0x1F) = (of_nat (p AND 0x1F) :: u16)" for p
    using of_nat_and_eq [of p 31, where 'a = int] by (metis of_int_of_nat_eq of_nat_numeral)
  then show ?thesis
    using True assms(1,2) \<open>?i < 8\<close> fw
    by (auto simp: jmp_target_def MAX_FUTURES_def target_bits_def with_fixup_def Let_def asm_inv_def
        split: option.splits)
next
  case False
  then show ?thesis by (simp add: jmp_target_def target_bits_def with_fixup_def)
qed

lemma patch_inv:
  assumes "asm_inv c es (\<lambda>k. if k < n then tab(i \<mapsto> length es) else tab) tab' a"
    and "n < length es" and "tab i = None"
  shows "asm_inv c es (\<lambda>k. if k < Suc n then tab(i \<mapsto> length es) else tab) tab' (patch i n a)"
proof -
  note inv = assms(1) [unfolded asm_inv_def]
  let ?new = "tab(i \<mapsto> length es)"
  have n: "n < 32" "fixup a ! n = waiting tab (es ! n)" "code a ! n = encode c tab (es ! n)"
    "item_ok (es ! n)" "length (code a) = 32" "length (fixup a) = 32"
    using inv assms(2) by (auto simp: list_all_length)
  have split: "(\<Sum>k<length es. open_jump (if k < Suc n then ?new else tab) (es ! k)) =
      (\<Sum>k<length es. open_jump (if k < n then ?new else tab) (es ! k)) +
      (open_jump ?new (es ! n) - open_jump tab (es ! n) :: int)"
  proof -
    have "(\<Sum>k<length es. open_jump (if k < Suc n then ?new else tab) (es ! k) -
        open_jump (if k < n then ?new else tab) (es ! k) :: int) =
      (\<Sum>k\<in>{n}. open_jump (if k < Suc n then ?new else tab) (es ! k) -
        open_jump (if k < n then ?new else tab) (es ! k))"
      by (rule sum.mono_neutral_right) (use assms(2) in \<open>auto simp: less_Suc_eq\<close>)
    then show ?thesis by (simp add: sum_subtractf)
  qed
  show ?thesis
  proof (cases "waiting tab (es ! n) = int i + 1")
    case True
    note new = encode_bind(1) [OF n(4) True, where c = c and p = "length es"]
      encode_bind(2) [OF n(4) True, where p = "length es"]
    have "alen a = length es" using inv by simp
    then have "patch i n a = a\<lparr>code := (code a)[n := encode c ?new (es ! n)], fixup := (fixup a)[n := 0],
        pending := pending a - 1\<rparr>"
      using n True by (simp add: patch_def new(1))
    then show ?thesis
      using inv n new(2) True unfolding asm_inv_def split
      by (auto simp: nth_list_update less_Suc_eq open_jump_def)
  next
    case False
    note same = encode_other(1) [OF False assms(3), where c = c and p = "length es"]
      encode_other(2) [OF False assms(3), where p = "length es"]
    have "patch i n a = a" using n False by (simp add: patch_def)
    then show ?thesis
      using inv n same unfolding asm_inv_def split by (auto simp: less_Suc_eq open_jump_def)
  qed
qed

lemma bind_inv:
  assumes "asm_inv c es (\<lambda>_. tab) tab a" and "i < 8" and "tab i = None"
  shows "\<exists>b. bind_label (- int i - 1) a = Some b \<and>
    asm_inv c es (\<lambda>_. tab(i \<mapsto> length es)) (tab(i \<mapsto> length es)) b"
proof -
  let ?new = "tab(i \<mapsto> length es)"
  let ?a = "a\<lparr>fw_addr := (fw_addr a)[i := int (alen a)]\<rparr>"
  let ?b = "for_range 0 (alen a) (patch i) ?a"
  have len: "alen a = length es" using assms(1) by (simp add: asm_inv_def)
  have start: "asm_inv c es (\<lambda>k. if k < 0 then ?new else tab) ?new ?a"
    using assms(1,2) by (auto simp: asm_inv_def nth_list_update)
  have "asm_inv c es (\<lambda>k. if k < length es then ?new else tab) ?new ?b"
    unfolding len
    by (rule for_range_inv [where P = "\<lambda>n b. asm_inv c es (\<lambda>k. if k < n then ?new else tab) ?new b"])
       (use start assms(3) patch_inv len in auto)
  then have "asm_inv c es (\<lambda>_. ?new) ?new ?b" by (auto simp: asm_inv_def)
  moreover have "bind_label (- int i - 1) a = Some ?b"
    using assms(2) by (simp add: bind_label_def MAX_FUTURES_def Let_def)
  ultimately show ?thesis by blast
qed

lemma assemble_inv:
  assumes "asm_inv c es (\<lambda>_. tab) tab a" and "side_bits c \<le> 5" and "list_all item_ok xs"
    and "distinct (bound xs)" and "list_all (\<lambda>i. tab i = None) (bound xs)"
    and "length es + length (filter emits xs) \<le> 32"
  shows "\<exists>b. assemble xs a = Some b \<and>
    asm_inv c (es @ filter emits xs) (\<lambda>_. table (length es) xs tab) (table (length es) xs tab) b"
  using assms
proof (induction xs arbitrary: es tab a)
  case (Cons x xs)
  note hyps = Cons.prems
  show ?case
  proof (cases x)
    case (Ins instr d s)
    from emit_fixup_inv [OF hyps(1,2), of x instr d s] hyps(3,6) obtain a1
      where "emit instr d s a = Some a1" "asm_inv c (es @ [x]) (\<lambda>_. tab) tab a1"
      by (auto simp: Ins with_fixup_def)
    with Cons.IH [of "es @ [x]" tab a1] hyps show ?thesis by (simp add: Ins)
  next
    case (Jump cond t d s)
    have "length es < 32" using hyps(6) by (simp add: Jump)
    moreover from this have "jmp_target t a = Some (target_bits tab t, with_fixup (waiting tab x) a)"
      unfolding Jump by (intro jmp_target_inv [OF hyps(1)]) (use hyps(3) in \<open>simp_all add: Jump\<close>)
    moreover from emit_fixup_inv [OF hyps(1,2) \<open>length es < 32\<close>, of x "cond OR target_bits tab t" d s] hyps(3)
    obtain a1 where "emit (cond OR target_bits tab t) d s (with_fixup (waiting tab x) a) = Some a1"
        "asm_inv c (es @ [x]) (\<lambda>_. tab) tab a1"
      by (auto simp: Jump or.assoc)
    ultimately show ?thesis using Cons.IH [of "es @ [x]" tab a1] hyps
      by (simp add: Jump jmp_cond_def)
  next
    case (Bind i)
    from bind_inv [OF hyps(1), of i] hyps(3,5) obtain a1
      where "bind_label (- int i - 1) a = Some a1"
        "asm_inv c es (\<lambda>_. tab(i \<mapsto> length es)) (tab(i \<mapsto> length es)) a1"
      by (auto simp: Bind)
    moreover have "list_all (\<lambda>j. (tab(i \<mapsto> length es)) j = None) (bound xs)"
      using hyps(4,5) by (auto simp: Bind list_all_iff)
    ultimately show ?thesis using Cons.IH [of es "tab(i \<mapsto> length es)" a1] hyps
      by (simp add: Bind del: fun_upd_apply)
  qed
qed simp

text \<open>Counting by the sum over positions is counting by a filter.\<close>

lemma open_count:
  "(\<Sum>k<length es. open_jump tab (es ! k)) = int (length (filter (\<lambda>x. waiting tab x \<noteq> 0) es))"
  by (induction es rule: rev_induct) (auto simp: open_jump_def nth_append)

lemma start_inv: "asm_inv (side_set n opt pd asm_init) [] (\<lambda>_. Map.empty) Map.empty (side_set n opt pd asm_init)"
  by (simp add: asm_inv_def side_set_def asm_init_def MAX_FUTURES_def)

lemma one_pass_run:
  assumes "side_bits (side_set n opt pd asm_init) \<le> 5" and "list_all item_ok xs"
    and "distinct (bound xs)" and "length (filter emits xs) \<le> 32"
  shows "\<exists>b. assemble xs (side_set n opt pd asm_init) = Some b \<and>
    asm_inv (side_set n opt pd asm_init) (filter emits xs) (\<lambda>_. table 0 xs Map.empty)
      (table 0 xs Map.empty) b \<and>
    take (alen b) (code b) = two_pass (side_set n opt pd asm_init) xs \<and>
    unresolved b =
      int (length (filter (\<lambda>x. waiting (table 0 xs Map.empty) x \<noteq> 0) (filter emits xs)))"
proof -
  let ?c = "side_set n opt pd asm_init" and ?t = "table 0 xs Map.empty"
  from assemble_inv [OF start_inv assms(1-3)] assms(4) obtain b
    where b: "assemble xs ?c = Some b" and inv: "asm_inv ?c (filter emits xs) (\<lambda>_. ?t) ?t b"
    by (auto simp: list_all_iff)
  from inv have "take (alen b) (code b) = two_pass ?c xs"
    by (intro nth_equalityI) (auto simp: asm_inv_def two_pass_def)
  moreover from inv have "unresolved b =
      int (length (filter (\<lambda>x. waiting ?t x \<noteq> 0) (filter emits xs)))"
    unfolding unresolved_def open_count [symmetric] by (simp add: asm_inv_def)
  ultimately show ?thesis using b inv by blast
qed

text \<open>C27: The one-pass assembler with its fixup table computes what a two-pass assembler
  computes. Take any side-set configuration that fits in the five delay bits, and any list of
  at most 32 instructions, jumps to addresses or to handles, and bindings that bind no handle
  twice. Then no call fails; the code is the two-pass encoding, in which every jump to a
  handle carries the address the handle is bound to, wherever in the program the binding
  stands; and \<open>unresolved\<close> is exactly the number of jumps whose handle is never bound.\<close>

theorem one_pass_is_two_pass:
  assumes "side_bits (side_set n opt pd asm_init) \<le> 5" and "list_all item_ok xs"
    and "distinct (bound xs)" and "length (filter emits xs) \<le> 32"
  shows "\<exists>b. assemble xs (side_set n opt pd asm_init) = Some b \<and>
    take (alen b) (code b) = two_pass (side_set n opt pd asm_init) xs \<and>
    unresolved b =
      int (length (filter (\<lambda>x. waiting (table 0 xs Map.empty) x \<noteq> 0) (filter emits xs)))"
  using one_pass_run [OF assms] by blast

lemma one_pass_is_two_pass_witness:
  "\<exists>b. assemble [Jump 0x00C0 (- 1) 0 (- 1), Jump 0x40 0 0 (- 1), Bind 0, Ins 0x8020 0 (- 1)]
       (side_set 0 False False asm_init) = Some b \<and>
    take (alen b) (code b) = [0x00C2, 0x0040, 0x8020] \<and> unresolved b = 0"
proof -
  let ?xs = "[Jump 0x00C0 (- 1) 0 (- 1), Jump 0x40 0 0 (- 1), Bind 0, Ins 0x8020 0 (- 1)]"
  have "two_pass (side_set 0 False False asm_init) ?xs = [0x00C2, 0x0040, 0x8020]"
    by (simp add: two_pass_def target_bits_def field_bits_def delay_field_def side_set_def asm_init_def
        flip: numeral_2_eq_2)
  then show ?thesis
    using one_pass_is_two_pass [of 0 False False ?xs]
    by (simp add: side_bits_def side_set_def asm_init_def)
qed

section \<open>The delay and side-set field\<close>

lemma delay_field_bit:
  assumes "side_bits a \<le> 5"
  shows "bit (delay_field a delay side) m \<longleftrightarrow>
    m < 5 - side_bits a \<and> bit delay m \<or>
    (0 < side_count a \<and> 0 \<le> side \<and>
     (side_opt a \<and> m = 4 \<or>
      5 - side_bits a \<le> m \<and> m - (5 - side_bits a) < side_count a \<and> bit side (m - (5 - side_bits a))))"
proof -
  have low: "x AND (push_bit n 1 - 1) = take_bit n x" for x :: int and n
    by (simp add: take_bit_eq_mask mask_eq_exp_minus_1)
  have four: "bit (16::int) m \<longleftrightarrow> m = 4" for m
    using bit_exp_iff [where 'a = int, of 4 m] by auto
  note bits = bit_or_iff bit_take_bit_iff bit_push_bit_iff_int four
  let ?k = "5 - side_bits a" and ?sv = "take_bit (side_count a) side"
  show ?thesis
  proof (cases "0 < side_count a \<and> 0 \<le> side")
    case True
    have "delay_field a delay side =
        (if side_opt a then take_bit ?k delay OR (16 OR push_bit ?k ?sv)
         else take_bit ?k delay OR push_bit ?k ?sv)"
      using True by (simp add: delay_field_def Let_def low side_bits_def del: push_bit_of_1)
    then show ?thesis using True by (simp only: bits split: if_split) auto
  next
    case False
    then have "delay_field a delay side = take_bit ?k delay"
      by (auto simp: delay_field_def low Let_def simp del: push_bit_of_1)
    then show ?thesis using False by (simp only: bits) auto
  qed
qed

lemma emitted_word:
  assumes "emit instr delay side a = Some b" and "length (code a) = 32"
  shows "bit (code b ! alen a) n \<longleftrightarrow>
    bit instr n \<or> 8 \<le> n \<and> n < 13 \<and> bit (delay_field a delay side) (n - 8)"
proof -
  have "bit (31::int) m \<longleftrightarrow> m < 5" for m
    using bit_mask_iff [where 'a = int, of 5 m] by (simp add: mask_eq_exp_minus_1)
  note thirtyone = this
  have "code b ! alen a = instr OR push_bit 8 (of_int (delay_field a delay side AND 0x1F))"
    using assms by (auto simp: emit_def split: if_splits)
  moreover have "n < 16" if "bit x n" for x :: u16
    using bit_imp_le_length [OF that] by simp
  ultimately show ?thesis
    by (auto simp: bit_or_iff bit_push_bit_iff bit_of_int_iff bit_and_iff thirtyone)
qed

text \<open>The five bits an instruction shares between delay and side-set can be read back:
  whatever the instruction, the rest of its word is unchanged, the low bits of the field are
  the delay modulo their number, and above them stand the side-set value modulo its width and,
  for an optional side-set, the enable bit; an instruction without \<open>side\<close> leaves them zero.\<close>

theorem emit_fields:
  assumes "emit instr delay side a = Some b" and "instr AND 0x1F00 = 0" and "length (code a) = 32"
  shows "let w = code b ! alen a; k = 5 - side_bits a; driven = (0 < side_count a \<and> 0 \<le> side)
    in w AND NOT 0x1F00 = instr \<and>
       uint (take_bit k (drop_bit 8 w)) = delay mod 2 ^ k \<and>
       uint (take_bit (side_count a) (drop_bit (8 + k) w)) =
         (if driven then side mod 2 ^ side_count a else 0) \<and>
       (side_opt a \<longrightarrow> bit w 12 = driven)"
proof -
  let ?w = "code b ! alen a"
  have sb: "side_bits a \<le> 5" using assms(1) by (auto simp: emit_def split: if_splits)
  have field: "bit (0x1F00::u16) n \<longleftrightarrow> 8 \<le> n \<and> n < 13" for n
  proof -
    have *: "(0x1F00::u16) = push_bit 8 (mask 5)" by (simp add: mask_eq_exp_minus_1)
    show ?thesis unfolding * by (auto simp: bit_push_bit_iff bit_mask_iff)
  qed
  have free: "\<not> bit instr n" if "8 \<le> n" "n < 13" for n
    using arg_cong [OF assms(2), where f = "\<lambda>x. bit x n"] that
    by (simp only: bit_and_iff field bit_0_eq) simp
  note w = emitted_word [OF assms(1,3)] delay_field_bit [OF sb, of delay side]
  have "?w AND NOT 0x1F00 = instr"
    by (rule bit_word_eqI) (simp only: bit_and_iff bit_not_iff field w, auto simp: free)
  moreover have "uint (take_bit (5 - side_bits a) (drop_bit 8 ?w)) = delay mod 2 ^ (5 - side_bits a)"
    unfolding take_bit_eq_mod [symmetric]
    by (rule bit_eqI) (use sb in \<open>auto simp: bit_uint_iff bit_take_bit_iff bit_drop_bit_eq w free side_bits_def\<close>)
  moreover have "uint (take_bit (side_count a) (drop_bit (8 + (5 - side_bits a)) ?w)) =
      (if 0 < side_count a \<and> 0 \<le> side then side mod 2 ^ side_count a else 0)"
    unfolding take_bit_eq_mod [symmetric]
    by (rule bit_eqI)
       (use sb in \<open>auto simp: bit_uint_iff bit_take_bit_iff bit_drop_bit_eq w free side_bits_def
          split: if_splits\<close>)
  moreover have "side_opt a \<longrightarrow> bit ?w 12 = (0 < side_count a \<and> 0 \<le> side)"
    using sb by (auto simp: w free side_bits_def)
  ultimately show ?thesis by (simp add: Let_def)
qed

lemma emit_fields_witness:
  "let w = code (the (emit 0xE081 6 1 (side_set 1 True False asm_init))) ! 0
   in w AND NOT 0x1F00 = 0xE081 \<and> uint (take_bit 3 (drop_bit 8 w)) = 6 \<and>
      uint (take_bit 1 (drop_bit 11 w)) = 1 \<and> bit w 12"
proof -
  let ?a = "side_set 1 True False asm_init"
  have "emit 0xE081 6 1 ?a = Some (the (emit 0xE081 6 1 ?a))" "length (code ?a) = 32"
    by (simp_all add: emit_def side_bits_def side_set_def asm_init_def)
  from emit_fields [OF this(1) _ this(2)] show ?thesis
    by (simp add: side_bits_def side_set_def asm_init_def Let_def)
qed

end
