(* ===== verification/PioSm.thy ===== *)
theory PioSm
  imports AliasReg PioAsm
begin

text \<open>
  The state machine driver of \<^verbatim>\<open>src/pico/pio.mojo\<close> (\<^verbatim>\<open>StateMachine\<close>): loading an assembled
  program, the pin and clock settings, start and stop, and the FIFOs. The registers of a block
  are a predicate on the device (\<open>pio_block\<close>). The setters refine updates of a decoded
  configuration, and assembling followed by loading puts the two-pass encoding of the program
  into the instruction memory.
\<close>

section \<open>Registers\<close>

named_theorems pio_regs \<open>the register offsets within a PIO block\<close>

definition PIO_CTRL :: u32 where [pio_regs]: "PIO_CTRL = 0x000"
definition PIO_FSTAT :: u32 where [pio_regs]: "PIO_FSTAT = 0x004"
definition PIO_TXF0 :: u32 where [pio_regs]: "PIO_TXF0 = 0x010"
definition PIO_RXF0 :: u32 where [pio_regs]: "PIO_RXF0 = 0x020"
definition PIO_INSTR_MEM0 :: u32 where [pio_regs]: "PIO_INSTR_MEM0 = 0x048"
definition PIO_SM0_CLKDIV :: u32 where [pio_regs]: "PIO_SM0_CLKDIV = 0x0C8"
definition PIO_SM_STRIDE :: u32 where [pio_regs]: "PIO_SM_STRIDE = 0x18"
definition PIO_CLKDIV :: u32 where [pio_regs]: "PIO_CLKDIV = 0x0"
definition PIO_EXECCTRL :: u32 where [pio_regs]: "PIO_EXECCTRL = 0x4"
definition PIO_SHIFTCTRL :: u32 where [pio_regs]: "PIO_SHIFTCTRL = 0x8"
definition PIO_ADDR :: u32 where [pio_regs]: "PIO_ADDR = 0xC"
definition PIO_INSTR :: u32 where [pio_regs]: "PIO_INSTR = 0x10"
definition PIO_PINCTRL :: u32 where [pio_regs]: "PIO_PINCTRL = 0x14"

definition pio_base :: "chip \<Rightarrow> nat \<Rightarrow> u32" where
  "pio_base C P = chip_PIO0_BASE C + of_nat P * 0x100000"

definition sm_reg :: "chip \<Rightarrow> nat \<Rightarrow> nat \<Rightarrow> u32 \<Rightarrow> u32" where
  "sm_reg C P SM off = pio_base C P + PIO_SM0_CLKDIV + of_nat SM * PIO_SM_STRIDE + off"

section \<open>Operations\<close>

definition sm_init :: "chip \<Rightarrow> 'd device \<Rightarrow> nat \<Rightarrow> 'd mach \<Rightarrow> 'd mach option" where
  "sm_init C D P s =
     (let reset_mask = push_bit (chip_RESET_PIO0_SHIFT C + P) 1;
          s = write32_clr D (chip_RESETS_RESET C) reset_mask s
      in poll D (chip_RESETS_RESET_DONE C) (\<lambda>v. \<not> v AND reset_mask = 0) s)"

text \<open>
  \<^verbatim>\<open>load\<close>. The length of a program is an \<^verbatim>\<open>Int\<close>, and \<^verbatim>\<open>UInt32(len - 1)\<close> wraps for the empty
  one.
\<close>

definition exec_word :: "asm \<Rightarrow> u32" where
  "exec_word a =
     (let top = of_int (int (alen a) - 1) AND 0x1F;
          ex = push_bit 12 top;
          ex = (if side_opt a then ex OR push_bit 30 1 else ex)
      in if side_pindirs a then ex OR push_bit 29 1 else ex)"

definition load_code :: "chip \<Rightarrow> 'd device \<Rightarrow> nat \<Rightarrow> asm \<Rightarrow> 'd mach \<Rightarrow> 'd mach" where
  "load_code C D P a =
     for_range 0 (alen a)
       (\<lambda>i. wr D (pio_base C P + PIO_INSTR_MEM0 + of_nat (i * 4)) (ucast (code a ! i)))"

definition sm_load :: "chip \<Rightarrow> 'd device \<Rightarrow> nat \<Rightarrow> nat \<Rightarrow> asm \<Rightarrow> 'd mach \<Rightarrow> 'd mach" where
  "sm_load C D P SM a s =
     (let s = load_code C D P a s;
          s = wr D (sm_reg C P SM PIO_EXECCTRL) (exec_word a) s;
          s_bits = of_nat (side_count a + (if side_opt a then 1 else 0));
          (cur, s) = rd D (sm_reg C P SM PIO_PINCTRL) s
      in wr D (sm_reg C P SM PIO_PINCTRL) ((cur AND NOT (push_bit 29 7)) OR push_bit 29 s_bits) s)"

definition set_clkdiv :: "chip \<Rightarrow> 'd device \<Rightarrow> nat \<Rightarrow> nat \<Rightarrow> u32 \<Rightarrow> u32 \<Rightarrow> 'd mach \<Rightarrow> 'd mach" where
  "set_clkdiv C D P SM int_part frac s =
     wr D (sm_reg C P SM PIO_CLKDIV) (push_bit 16 int_part OR push_bit 8 (frac AND 0xFF)) s"

definition set_set_pins :: "chip \<Rightarrow> 'd device \<Rightarrow> nat \<Rightarrow> nat \<Rightarrow> int \<Rightarrow> int \<Rightarrow> 'd mach \<Rightarrow> 'd mach" where
  "set_set_pins C D P SM base cnt s =
     (let (cur, s) = rd D (sm_reg C P SM PIO_PINCTRL) s;
          m = push_bit 26 7 OR push_bit 5 0x1F;
          v = (cur AND NOT m) OR push_bit 26 (of_int (cnt AND 0x7)) OR push_bit 5 (of_int (base AND 0x1F))
      in wr D (sm_reg C P SM PIO_PINCTRL) v s)"

definition set_out_pins :: "chip \<Rightarrow> 'd device \<Rightarrow> nat \<Rightarrow> nat \<Rightarrow> int \<Rightarrow> int \<Rightarrow> 'd mach \<Rightarrow> 'd mach" where
  "set_out_pins C D P SM base cnt s =
     (let (cur, s) = rd D (sm_reg C P SM PIO_PINCTRL) s;
          v = (cur AND NOT 0x3F0001F) OR push_bit 20 (of_int (cnt AND 0x3F)) OR of_int (base AND 0x1F)
      in wr D (sm_reg C P SM PIO_PINCTRL) v s)"

definition set_jmp_pin :: "chip \<Rightarrow> 'd device \<Rightarrow> nat \<Rightarrow> nat \<Rightarrow> int \<Rightarrow> 'd mach \<Rightarrow> 'd mach" where
  "set_jmp_pin C D P SM gpio s =
     (let (cur, s) = rd D (sm_reg C P SM PIO_EXECCTRL) s
      in wr D (sm_reg C P SM PIO_EXECCTRL)
           ((cur AND NOT (push_bit 24 0x1F)) OR push_bit 24 (of_int (gpio AND 0x1F))) s)"

definition set_sideset_pins :: "chip \<Rightarrow> 'd device \<Rightarrow> nat \<Rightarrow> nat \<Rightarrow> int \<Rightarrow> 'd mach \<Rightarrow> 'd mach" where
  "set_sideset_pins C D P SM base s =
     (let (cur, s) = rd D (sm_reg C P SM PIO_PINCTRL) s;
          v = (cur AND NOT (push_bit 10 0x1F)) OR push_bit 10 (of_int (base AND 0x1F))
      in wr D (sm_reg C P SM PIO_PINCTRL) v s)"

definition sm_exec :: "chip \<Rightarrow> 'd device \<Rightarrow> nat \<Rightarrow> nat \<Rightarrow> u16 \<Rightarrow> 'd mach \<Rightarrow> 'd mach" where
  "sm_exec C D P SM instr s = wr D (sm_reg C P SM PIO_INSTR) (ucast instr) s"

definition sm_enable :: "chip \<Rightarrow> 'd device \<Rightarrow> nat \<Rightarrow> nat \<Rightarrow> 'd mach \<Rightarrow> 'd mach" where
  "sm_enable C D P SM s =
     (let ctrl = pio_base C P + PIO_CTRL; (v, s) = rd D ctrl s in wr D ctrl (v OR push_bit SM 1) s)"

definition sm_disable :: "chip \<Rightarrow> 'd device \<Rightarrow> nat \<Rightarrow> nat \<Rightarrow> 'd mach \<Rightarrow> 'd mach" where
  "sm_disable C D P SM s =
     (let ctrl = pio_base C P + PIO_CTRL; (v, s) = rd D ctrl s
      in wr D ctrl (v AND NOT (push_bit SM 1)) s)"

definition sm_restart :: "chip \<Rightarrow> 'd device \<Rightarrow> nat \<Rightarrow> nat \<Rightarrow> 'd mach \<Rightarrow> 'd mach" where
  "sm_restart C D P SM s =
     (let ctrl = pio_base C P + PIO_CTRL; (v, s) = rd D ctrl s
      in wr D ctrl (v OR push_bit (SM + 4) 1) s)"

definition tx_push :: "chip \<Rightarrow> 'd device \<Rightarrow> nat \<Rightarrow> nat \<Rightarrow> u32 \<Rightarrow> 'd mach \<Rightarrow> 'd mach" where
  "tx_push C D P SM v s = wr D (pio_base C P + PIO_TXF0 + of_nat (SM * 4)) v s"

definition rx_empty :: "chip \<Rightarrow> 'd device \<Rightarrow> nat \<Rightarrow> nat \<Rightarrow> 'd mach \<Rightarrow> bool \<times> 'd mach" where
  "rx_empty C D P SM s =
     (let (v, s) = rd D (pio_base C P + PIO_FSTAT) s in (drop_bit (8 + SM) v AND 1 \<noteq> 0, s))"

definition rx_pull :: "chip \<Rightarrow> 'd device \<Rightarrow> nat \<Rightarrow> nat \<Rightarrow> 'd mach \<Rightarrow> u32 \<times> 'd mach" where
  "rx_pull C D P SM s = rd D (pio_base C P + PIO_RXF0 + of_nat (SM * 4)) s"

definition sm_pc :: "chip \<Rightarrow> 'd device \<Rightarrow> nat \<Rightarrow> nat \<Rightarrow> 'd mach \<Rightarrow> u32 \<times> 'd mach" where
  "sm_pc C D P SM s = (let (v, s) = rd D (sm_reg C P SM PIO_ADDR) s in (v AND 0x1F, s))"

section \<open>Values as field updates\<close>

lemma of_int_mask:
  "(of_int (x AND 0x7) :: u32) = take_bit 3 (of_int x)"
  "(of_int (x AND 0x1F) :: u32) = take_bit 5 (of_int x)"
  "(of_int (x AND 0x3F) :: u32) = take_bit 6 (of_int x)"
proof -
  have "x AND 0x7 = take_bit 3 x" "x AND 0x1F = take_bit 5 x" "x AND 0x3F = take_bit 6 x"
    by (simp_all add: take_bit_eq_mask mask_eq_exp_minus_1)
  then show "(of_int (x AND 0x7) :: u32) = take_bit 3 (of_int x)"
    "(of_int (x AND 0x1F) :: u32) = take_bit 5 (of_int x)"
    "(of_int (x AND 0x3F) :: u32) = take_bit 6 (of_int x)"
    by (simp_all only: take_bit_of_int)
qed

lemma mask_numerals: "(7 :: u32) = mask 3" "(0x1F :: u32) = mask 5" "(0x3F :: u32) = mask 6"
    "(0xFF :: u32) = mask 8" "(0x3F0001F :: u32) = push_bit 20 (mask 6) OR mask 5"
  by (simp_all add: mask_eq_exp_minus_1)

lemma pin_words:
  "(w AND NOT (push_bit 26 7 OR push_bit 5 0x1F)) OR push_bit 26 (of_int (c AND 0x7)) OR
     push_bit 5 (of_int (b AND 0x1F)) = fput 5 5 (of_int b) (fput 26 3 (of_int c) w)"
  "(w AND NOT 0x3F0001F) OR push_bit 20 (of_int (c AND 0x3F)) OR of_int (b AND 0x1F) =
     fput 0 5 (of_int b) (fput 20 6 (of_int c) w)"
  "(w AND NOT (push_bit 24 0x1F)) OR push_bit 24 (of_int (b AND 0x1F)) = fput 24 5 (of_int b) w"
  "(w AND NOT (push_bit 10 0x1F)) OR push_bit 10 (of_int (b AND 0x1F)) = fput 10 5 (of_int b) w"
  "(w AND NOT (push_bit 29 7)) OR push_bit 29 v = fput 29 3 v w"
  for w :: u32
  unfolding of_int_mask mask_numerals
  by (rule bit_word_eqI; simp only: bit_or_iff bit_and_iff bit_not_iff bit_push_bit_iff bit_mask_iff
      bit_take_bit_iff bit_fput; auto)+

section \<open>The registers of a block\<close>

text \<open>
  The configuration registers of the four state machines hold what is written, and the
  instruction memory holds the words written to its 32 places, which cannot be read back.
  The low eight bits of the control register: bits 0 to 3 run the state machines and can be
  read back; a one written to bits 4 to 7 restarts a state machine, and these bits clear
  themselves. \<open>en\<close> is the set of state machines that run, \<open>rst\<close> counts the restarts.
\<close>

definition pio_cfg_regs :: "chip \<Rightarrow> nat \<Rightarrow> u32 list" where
  "pio_cfg_regs C P = concat (map (\<lambda>SM. map (sm_reg C P SM) [PIO_CLKDIV, PIO_EXECCTRL, PIO_PINCTRL]) [0..<4])"

definition pio_block ::
  "chip \<Rightarrow> 'd device \<Rightarrow> nat \<Rightarrow> ('d \<Rightarrow> u32 \<Rightarrow> u32) \<Rightarrow> ('d \<Rightarrow> nat \<Rightarrow> u32) \<Rightarrow> ('d \<Rightarrow> nat set) \<Rightarrow>
     ('d \<Rightarrow> nat \<Rightarrow> nat) \<Rightarrow> bool" where
  "pio_block C D P cfg imem en rst \<longleftrightarrow>
     (\<forall>a\<in>set (pio_cfg_regs C P). \<forall>d v.
        cfg (dwrite D d a v) = (cfg d)(a := v) \<and> imem (dwrite D d a v) = imem d \<and>
        en (dwrite D d a v) = en d \<and> rst (dwrite D d a v) = rst d \<and>
        fst (dread D d a) = cfg d a \<and> cfg (snd (dread D d a)) = cfg d \<and> imem (snd (dread D d a)) = imem d \<and>
        en (snd (dread D d a)) = en d \<and> rst (snd (dread D d a)) = rst d) \<and>
     (\<forall>k<32. \<forall>d v. let d' = dwrite D d (pio_base C P + PIO_INSTR_MEM0 + of_nat (k * 4)) v in
        cfg d' = cfg d \<and> imem d' = (imem d)(k := v) \<and> en d' = en d \<and> rst d' = rst d) \<and>
     (\<forall>d v. let d' = dwrite D d (pio_base C P + PIO_CTRL) v in
        cfg d' = cfg d \<and> imem d' = imem d \<and> en d' = {n. n < 4 \<and> bit v n} \<and>
        rst d' = (\<lambda>n. if n < 4 \<and> bit v (n + 4) then rst d n + 1 else rst d n)) \<and>
     (\<forall>d. let (v, d') = dread D d (pio_base C P + PIO_CTRL) in
        cfg d' = cfg d \<and> imem d' = imem d \<and> en d' = en d \<and> rst d' = rst d \<and>
        (\<forall>n<8. bit v n = (n \<in> en d)) \<and> en d \<subseteq> {..<4})"

text \<open>A block of a known chip.\<close>

definition pio_of :: "chip \<Rightarrow> nat \<Rightarrow> bool" where
  "pio_of C P \<longleftrightarrow> known_chip C \<and> P < chip_NUM_PIO_BLOCKS C"

lemma pio_base_eval:
  "pio_of C P \<Longrightarrow> pio_base C P = 0x50200000 \<or> pio_base C P = 0x50300000 \<or> pio_base C P = 0x50400000"
proof -
  assume "pio_of C P"
  then have "P = 0 \<or> P = 1 \<or> P = 2" "chip_PIO0_BASE C = 0x50200000"
    by (auto simp: pio_of_def known_chip_def RP2040_def RP2350_def)
  then show ?thesis by (auto simp: pio_base_def)
qed

lemma sm_cases: "n < 4 \<Longrightarrow> n = 0 \<or> n = 1 \<or> n = 2 \<or> n = 3" for n :: nat
  by linarith

lemma sm_reg_facts:
  assumes "pio_of C P" and "SM < 4"
  shows "sm_reg C P SM PIO_CLKDIV \<in> set (pio_cfg_regs C P)"
    and "sm_reg C P SM PIO_EXECCTRL \<in> set (pio_cfg_regs C P)"
    and "sm_reg C P SM PIO_PINCTRL \<in> set (pio_cfg_regs C P)"
    and "\<not> in_sram (sm_reg C P SM PIO_CLKDIV)" and "\<not> in_sram (sm_reg C P SM PIO_EXECCTRL)"
    and "\<not> in_sram (sm_reg C P SM PIO_PINCTRL)"
proof -
  show "sm_reg C P SM PIO_CLKDIV \<in> set (pio_cfg_regs C P)"
    "sm_reg C P SM PIO_EXECCTRL \<in> set (pio_cfg_regs C P)"
    "sm_reg C P SM PIO_PINCTRL \<in> set (pio_cfg_regs C P)"
    using assms(2) by (auto simp: pio_cfg_regs_def)
  show "\<not> in_sram (sm_reg C P SM PIO_CLKDIV)" "\<not> in_sram (sm_reg C P SM PIO_EXECCTRL)"
    "\<not> in_sram (sm_reg C P SM PIO_PINCTRL)"
    using sm_cases [OF assms(2)] pio_base_eval [OF assms(1)]
    by (auto simp: sm_reg_def pio_regs sram_eval)
qed

lemma sm_reg_distinct:
  assumes "SM < 4" and "n < 4"
  shows "sm_reg C P SM PIO_CLKDIV = sm_reg C P n PIO_CLKDIV \<longleftrightarrow> SM = n"
    and "sm_reg C P SM PIO_EXECCTRL = sm_reg C P n PIO_EXECCTRL \<longleftrightarrow> SM = n"
    and "sm_reg C P SM PIO_PINCTRL = sm_reg C P n PIO_PINCTRL \<longleftrightarrow> SM = n"
    and "sm_reg C P SM PIO_CLKDIV \<noteq> sm_reg C P n PIO_EXECCTRL"
    and "sm_reg C P SM PIO_CLKDIV \<noteq> sm_reg C P n PIO_PINCTRL"
    and "sm_reg C P SM PIO_EXECCTRL \<noteq> sm_reg C P n PIO_PINCTRL"
  using sm_cases [OF assms(1)] sm_cases [OF assms(2)]
  by (auto simp: sm_reg_def pio_regs add.assoc)

section \<open>The configuration decoded\<close>

record sm_cfg =
  sc_div_int :: u32
  sc_div_frac :: u32
  sc_wrap_top :: u32
  sc_wrap_bottom :: u32
  sc_jmp_pin :: u32
  sc_side_opt :: bool
  sc_side_pindirs :: bool
  sc_side_count :: u32
  sc_set_count :: u32
  sc_out_count :: u32
  sc_in_base :: u32
  sc_side_base :: u32
  sc_set_base :: u32
  sc_out_base :: u32

definition sm_cfg_of :: "u32 \<Rightarrow> u32 \<Rightarrow> u32 \<Rightarrow> sm_cfg" where
  "sm_cfg_of clk ex pin =
     \<lparr>sc_div_int = fget 16 16 clk, sc_div_frac = fget 8 8 clk,
      sc_wrap_top = fget 12 5 ex, sc_wrap_bottom = fget 7 5 ex, sc_jmp_pin = fget 24 5 ex,
      sc_side_opt = bit ex 30, sc_side_pindirs = bit ex 29,
      sc_side_count = fget 29 3 pin, sc_set_count = fget 26 3 pin, sc_out_count = fget 20 6 pin,
      sc_in_base = fget 15 5 pin, sc_side_base = fget 10 5 pin, sc_set_base = fget 5 5 pin,
      sc_out_base = fget 0 5 pin\<rparr>"

definition sm_cfgs :: "chip \<Rightarrow> nat \<Rightarrow> (u32 \<Rightarrow> u32) \<Rightarrow> sm_cfg list" where
  "sm_cfgs C P regs = map (\<lambda>n. sm_cfg_of (regs (sm_reg C P n PIO_CLKDIV))
     (regs (sm_reg C P n PIO_EXECCTRL)) (regs (sm_reg C P n PIO_PINCTRL))) [0..<4]"

datatype sm_op =
  Load asm | ClkDiv u32 u32 | SetPins int int | OutPins int int | JmpPin int | SidePins int |
  Enable | Disable | Restart

fun sm_run :: "chip \<Rightarrow> 'd device \<Rightarrow> nat \<Rightarrow> nat \<times> sm_op \<Rightarrow> 'd mach \<Rightarrow> 'd mach" where
  "sm_run C D P (n, Load a) = sm_load C D P n a"
| "sm_run C D P (n, ClkDiv i f) = set_clkdiv C D P n i f"
| "sm_run C D P (n, SetPins b c) = set_set_pins C D P n b c"
| "sm_run C D P (n, OutPins b c) = set_out_pins C D P n b c"
| "sm_run C D P (n, JmpPin g) = set_jmp_pin C D P n g"
| "sm_run C D P (n, SidePins b) = set_sideset_pins C D P n b"
| "sm_run C D P (n, Enable) = sm_enable C D P n"
| "sm_run C D P (n, Disable) = sm_disable C D P n"
| "sm_run C D P (n, Restart) = sm_restart C D P n"

text \<open>What an operation does to the configuration of its state machine, and to the memory.\<close>

fun sm_step :: "sm_op \<Rightarrow> sm_cfg \<Rightarrow> sm_cfg" where
  "sm_step (Load a) c =
     c\<lparr>sc_wrap_top := take_bit 5 (of_int (int (alen a) - 1)), sc_wrap_bottom := 0, sc_jmp_pin := 0,
       sc_side_opt := side_opt a, sc_side_pindirs := side_pindirs a,
       sc_side_count := take_bit 3 (of_nat (side_bits a))\<rparr>"
| "sm_step (ClkDiv i f) c = c\<lparr>sc_div_int := take_bit 16 i, sc_div_frac := take_bit 8 f\<rparr>"
| "sm_step (SetPins b n) c = c\<lparr>sc_set_count := take_bit 3 (of_int n), sc_set_base := take_bit 5 (of_int b)\<rparr>"
| "sm_step (OutPins b n) c = c\<lparr>sc_out_count := take_bit 6 (of_int n), sc_out_base := take_bit 5 (of_int b)\<rparr>"
| "sm_step (JmpPin g) c = c\<lparr>sc_jmp_pin := take_bit 5 (of_int g)\<rparr>"
| "sm_step (SidePins b) c = c\<lparr>sc_side_base := take_bit 5 (of_int b)\<rparr>"
| "sm_step _ c = c"

fun imem_step :: "sm_op \<Rightarrow> (nat \<Rightarrow> u32) \<Rightarrow> nat \<Rightarrow> u32" where
  "imem_step (Load a) m = (\<lambda>k. if k < alen a then ucast (code a ! k) else m k)"
| "imem_step _ m = m"

text \<open>And to the state machines that run, and the number of restarts of each.\<close>

definition run_step :: "nat \<Rightarrow> sm_op \<Rightarrow> nat set \<Rightarrow> nat set" where
  "run_step n p e = (case p of Enable \<Rightarrow> insert n e | Disable \<Rightarrow> e - {n} | _ \<Rightarrow> e)"

definition restart_step :: "nat \<Rightarrow> sm_op \<Rightarrow> (nat \<Rightarrow> nat) \<Rightarrow> nat \<Rightarrow> nat" where
  "restart_step n p r = (case p of Restart \<Rightarrow> r(n := r n + 1) | _ \<Rightarrow> r)"

fun op_fits :: "sm_op \<Rightarrow> bool" where
  "op_fits (Load a) = (alen a \<le> 32)"
| "op_fits _ = True"

lemma exec_fields:
  "fget 12 5 (exec_word a) = take_bit 5 (of_int (int (alen a) - 1))"
  "fget 7 5 (exec_word a) = 0" "fget 24 5 (exec_word a) = 0"
  "bit (exec_word a) 30 = side_opt a" "bit (exec_word a) 29 = side_pindirs a"
proof -
  define t where "t = (of_int (int (alen a) - 1) :: u32)"
  have bits: "bit (exec_word a) j \<longleftrightarrow>
      12 \<le> j \<and> j < 17 \<and> bit t (j - 12) \<or> j = 30 \<and> side_opt a \<or> j = 29 \<and> side_pindirs a" for j
    unfolding exec_word_def Let_def mask_numerals t_def [symmetric]
    by (auto simp only: bit_or_iff bit_and_iff bit_push_bit_iff bit_mask_iff bit_1_iff if_bool_eq_disj split: if_splits)
      (auto dest: bit_imp_le_length)
  show "fget 12 5 (exec_word a) = take_bit 5 (of_int (int (alen a) - 1))"
    unfolding t_def [symmetric] by (rule bit_word_eqI) (auto simp: bit_fget bits bit_take_bit_iff)
  show "fget 7 5 (exec_word a) = 0" "fget 24 5 (exec_word a) = 0"
    by (rule bit_word_eqI; auto simp: bit_fget bits)+
  show "bit (exec_word a) 30 = side_opt a" "bit (exec_word a) 29 = side_pindirs a"
    by (simp_all add: bits)
qed

definition div_word :: "u32 \<Rightarrow> u32 \<Rightarrow> u32" where
  "div_word i f = push_bit 16 i OR push_bit 8 (f AND 0xFF)"

lemma clkdiv_fields:
  "fget 16 16 (div_word i f) = take_bit 16 i"
  "fget 8 8 (div_word i f) = take_bit 8 f"
  unfolding div_word_def mask_numerals
  by (rule bit_word_eqI; simp only: bit_fget bit_or_iff bit_and_iff bit_push_bit_iff bit_mask_iff
      bit_take_bit_iff; auto)+


section \<open>One operation\<close>

lemma length_sm_cfgs [simp]: "length (sm_cfgs C P regs) = 4"
  by (simp add: sm_cfgs_def)

lemma sm_cfgs_nth [simp]:
  "n < 4 \<Longrightarrow> sm_cfgs C P regs ! n = sm_cfg_of (regs (sm_reg C P n PIO_CLKDIV))
     (regs (sm_reg C P n PIO_EXECCTRL)) (regs (sm_reg C P n PIO_PINCTRL))"
  by (simp add: sm_cfgs_def)

lemma sm_cfgs_update:
  assumes "SM < 4"
  shows "sm_cfgs C P (regs(sm_reg C P SM PIO_CLKDIV := w)) = (sm_cfgs C P regs)[SM := sm_cfg_of w
      (regs (sm_reg C P SM PIO_EXECCTRL)) (regs (sm_reg C P SM PIO_PINCTRL))]"
    and "sm_cfgs C P (regs(sm_reg C P SM PIO_EXECCTRL := w)) = (sm_cfgs C P regs)[SM := sm_cfg_of
      (regs (sm_reg C P SM PIO_CLKDIV)) w (regs (sm_reg C P SM PIO_PINCTRL))]"
    and "sm_cfgs C P (regs(sm_reg C P SM PIO_PINCTRL := w)) = (sm_cfgs C P regs)[SM := sm_cfg_of
      (regs (sm_reg C P SM PIO_CLKDIV)) (regs (sm_reg C P SM PIO_EXECCTRL)) w]"
  using assms
  by (intro nth_equalityI; simp add: nth_list_update sm_reg_distinct sm_reg_distinct [symmetric])+

lemma imem_addr:
  assumes "pio_of C P" and "k < 32"
  shows "\<not> in_sram (pio_base C P + PIO_INSTR_MEM0 + of_nat (k * 4))"
proof -
  have "unat (pio_base C P + PIO_INSTR_MEM0) \<ge> 0x50200048"
    "unat (pio_base C P + PIO_INSTR_MEM0) \<le> 0x50400048"
    using pio_base_eval [OF assms(1)] by (auto simp: pio_regs)
  then have "unat (pio_base C P + PIO_INSTR_MEM0 + of_nat (k * 4)) \<ge> 0x50200048"
    using assms(2) by (simp add: unat_word_ariths unat_of_nat)
  then show ?thesis by (simp add: sram_eval word_le_nat_alt word_less_nat_alt)
qed

lemma load_code_block:
  fixes s :: "'d mach"
  assumes "pio_block C D P cfg imem en rst" and "pio_of C P" and "alen a \<le> 32"
  shows "cfg (dev (load_code C D P a s)) = cfg (dev s)"
    and "imem (dev (load_code C D P a s)) k = (if k < alen a then ucast (code a ! k) else imem (dev s) k)"
    and "ram (load_code C D P a s) = ram s"
    and "en (dev (load_code C D P a s)) = en (dev s)" and "rst (dev (load_code C D P a s)) = rst (dev s)"
proof -
  define view where "view t = (cfg (dev t), ram t, en (dev t), rst (dev t))" for t :: "'d mach"
  have "view (load_code C D P a s) = view s \<and>
      imem (dev (load_code C D P a s)) = (\<lambda>k. if k < alen a then ucast (code a ! k) else imem (dev s) k)"
    unfolding load_code_def
  proof (rule for_range_inv [where P = "\<lambda>i t. view t = view s \<and>
      imem (dev t) = (\<lambda>k. if k < i then ucast (code a ! k) else imem (dev s) k)"])
    fix i and t :: "'d mach"
    let ?u = "wr D (pio_base C P + PIO_INSTR_MEM0 + of_nat (i * 4)) (ucast (code a ! i)) t"
    assume "i < alen a" and IH: "view t = view s \<and>
      imem (dev t) = (\<lambda>k. if k < i then ucast (code a ! k) else imem (dev s) k)"
    then have "i < 32" using assms(3) by simp
    then have "view ?u = view t" "imem (dev ?u) = (imem (dev t))(i := ucast (code a ! i))"
      using assms(1) imem_addr [OF assms(2), of i]
      by (simp_all add: wr_dev pio_block_def Let_def view_def del: of_nat_mult)
    with IH show "view ?u = view s \<and> imem (dev ?u) = (\<lambda>k. if k < Suc i then ucast (code a ! k) else imem (dev s) k)"
      by (auto simp: fun_eq_iff less_Suc_eq)
  qed auto
  then show "cfg (dev (load_code C D P a s)) = cfg (dev s)" "ram (load_code C D P a s) = ram s"
    "imem (dev (load_code C D P a s)) k = (if k < alen a then ucast (code a ! k) else imem (dev s) k)"
    "en (dev (load_code C D P a s)) = en (dev s)" "rst (dev (load_code C D P a s)) = rst (dev s)"
    by (simp_all add: view_def)
qed

lemma sm_access:
  assumes "pio_block C D P cfg imem en rst" and "pio_of C P" and "n < 4"
    and "r = PIO_CLKDIV \<or> r = PIO_EXECCTRL \<or> r = PIO_PINCTRL"
  shows "cfg (dev (wr D (sm_reg C P n r) v s)) = (cfg (dev s))(sm_reg C P n r := v)"
    and "imem (dev (wr D (sm_reg C P n r) v s)) = imem (dev s)"
    and "ram (wr D (sm_reg C P n r) v s) = ram s"
    and "fst (rd D (sm_reg C P n r) s) = cfg (dev s) (sm_reg C P n r)"
    and "cfg (dev (snd (rd D (sm_reg C P n r) s))) = cfg (dev s)"
    and "imem (dev (snd (rd D (sm_reg C P n r) s))) = imem (dev s)"
    and "en (dev (wr D (sm_reg C P n r) v s)) = en (dev s)" "rst (dev (wr D (sm_reg C P n r) v s)) = rst (dev s)"
    and "en (dev (snd (rd D (sm_reg C P n r) s))) = en (dev s)"
      "rst (dev (snd (rd D (sm_reg C P n r) s))) = rst (dev s)"
  using assms(1,4) sm_reg_facts [OF assms(2,3)] by (auto simp: pio_block_def wr_dev rd_dev)

lemma ctrl_access:
  fixes s :: "'d mach"
  assumes "pio_block C D P cfg imem en rst" and "pio_of C P"
  defines "ctrl \<equiv> pio_base C P + PIO_CTRL"
  shows "cfg (dev (wr D ctrl v s)) = cfg (dev s)" "imem (dev (wr D ctrl v s)) = imem (dev s)"
    and "ram (wr D ctrl v s) = ram s" "en (dev (wr D ctrl v s)) = {n. n < 4 \<and> bit v n}"
    and "rst (dev (wr D ctrl v s)) = (\<lambda>n. if n < 4 \<and> bit v (n + 4) then rst (dev s) n + 1 else rst (dev s) n)"
    and "cfg (dev (snd (rd D ctrl s))) = cfg (dev s)" "imem (dev (snd (rd D ctrl s))) = imem (dev s)"
    and "en (dev (snd (rd D ctrl s))) = en (dev s)" "rst (dev (snd (rd D ctrl s))) = rst (dev s)"
    and "n < 8 \<Longrightarrow> bit (fst (rd D ctrl s)) n = (n \<in> en (dev s))" "en (dev s) \<subseteq> {..<4}"
proof -
  have "\<not> in_sram ctrl" using pio_base_eval [OF assms(2)] by (auto simp: ctrl_def pio_regs sram_eval)
  then show "cfg (dev (wr D ctrl v s)) = cfg (dev s)" "imem (dev (wr D ctrl v s)) = imem (dev s)"
    "ram (wr D ctrl v s) = ram s" "en (dev (wr D ctrl v s)) = {n. n < 4 \<and> bit v n}"
    "rst (dev (wr D ctrl v s)) = (\<lambda>n. if n < 4 \<and> bit v (n + 4) then rst (dev s) n + 1 else rst (dev s) n)"
    "cfg (dev (snd (rd D ctrl s))) = cfg (dev s)" "imem (dev (snd (rd D ctrl s))) = imem (dev s)"
    "en (dev (snd (rd D ctrl s))) = en (dev s)" "rst (dev (snd (rd D ctrl s))) = rst (dev s)"
    "n < 8 \<Longrightarrow> bit (fst (rd D ctrl s)) n = (n \<in> en (dev s))" "en (dev s) \<subseteq> {..<4}"
    using assms(1) by (simp_all add: pio_block_def wr_dev rd_dev ctrl_def Let_def split_beta)
qed

lemmas sm_defs = set_clkdiv_def [folded div_word_def] set_set_pins_def [unfolded Let_def split_beta pin_words]
  set_out_pins_def [unfolded Let_def split_beta pin_words]
  set_jmp_pin_def [unfolded Let_def split_beta pin_words]
  set_sideset_pins_def [unfolded Let_def split_beta pin_words]
  sm_load_def [unfolded Let_def split_beta pin_words]

lemma ctrl_calls:
  assumes "pio_block C D P cfg imem en rst" and "pio_of C P" and "n < 4"
    and "p = Enable \<or> p = Disable \<or> p = Restart"
  shows "en (dev (sm_run C D P (n, p) s)) = run_step n p (en (dev s))"
    and "rst (dev (sm_run C D P (n, p) s)) = restart_step n p (rst (dev s))"
    and "cfg (dev (sm_run C D P (n, p) s)) = cfg (dev s)"
    and "imem (dev (sm_run C D P (n, p) s)) = imem (dev s)"
    and "ram (sm_run C D P (n, p) s) = ram s"
proof -
  note acc = ctrl_access [OF assms(1,2)]
  have old: "bit (fst (rd D (pio_base C P + PIO_CTRL) s)) m = (m \<in> en (dev s))" if "m < 8" for m
    using acc(10) [OF that] .
  have low: "m < 4" "m < 32" "bit (fst (rd D (pio_base C P + PIO_CTRL) s)) m" if "m \<in> en (dev s)" for m
  proof -
    show "m < 4" using acc(11) that by blast
    then show "m < 32" "bit (fst (rd D (pio_base C P + PIO_CTRL) s)) m" using old [of m] that by auto
  qed
  have shift: "bit (push_bit k 1 :: u32) m \<longleftrightarrow> m = k" if "k < 8" for k m
    using that by (simp only: bit_push_bit_iff bit_1_iff) auto
  note eval = sm_enable_def sm_disable_def sm_restart_def run_step_def restart_step_def split_beta Let_def acc(1-9)
    bit_or_iff bit_and_iff bit_not_iff
  from assms(4) show "en (dev (sm_run C D P (n, p) s)) = run_step n p (en (dev s))"
    by (elim disjE) (use assms(3) low in \<open>auto simp: eval shift old simp del: push_bit_of_1\<close>)
  have "\<not> m + 4 \<in> en (dev s)" for m using low(1) [of "m + 4"] by auto
  then show "rst (dev (sm_run C D P (n, p) s)) = restart_step n p (rst (dev s))"
    using assms(4) by (elim disjE)
      (use assms(3) in \<open>auto simp: eval shift old fun_eq_iff simp del: push_bit_of_1\<close>)
  show "cfg (dev (sm_run C D P (n, p) s)) = cfg (dev s)" "imem (dev (sm_run C D P (n, p) s)) = imem (dev s)"
    "ram (sm_run C D P (n, p) s) = ram s"
    using assms(4) by (auto simp: eval)
qed

lemma sm_run_step:
  assumes "pio_block C D P cfg imem en rst" and "pio_of C P" and "n < 4" and "op_fits p"
  shows "sm_cfgs C P (cfg (dev (sm_run C D P (n, p) s))) =
      (sm_cfgs C P (cfg (dev s)))[n := sm_step p (sm_cfgs C P (cfg (dev s)) ! n)]"
    and "imem (dev (sm_run C D P (n, p) s)) = imem_step p (imem (dev s))"
    and "ram (sm_run C D P (n, p) s) = ram s"
    and "en (dev (sm_run C D P (n, p) s)) = run_step n p (en (dev s))"
    and "rst (dev (sm_run C D P (n, p) s)) = restart_step n p (rst (dev s))"
proof -
  note acc = sm_access [OF assms(1,2,3)]
  note load = load_code_block [OF assms(1,2)]
  show "sm_cfgs C P (cfg (dev (sm_run C D P (n, p) s))) =
      (sm_cfgs C P (cfg (dev s)))[n := sm_step p (sm_cfgs C P (cfg (dev s)) ! n)]"
  proof (cases "p = Enable \<or> p = Disable \<or> p = Restart")
    case True
    then have "sm_step p (sm_cfgs C P (cfg (dev s)) ! n) = sm_cfgs C P (cfg (dev s)) ! n" by auto
    with True show ?thesis using ctrl_calls(3) [OF assms(1-3) True] by (simp del: sm_cfgs_nth)
  next
    case False
    then show ?thesis
      using assms(3,4) load(1)
      by (cases p) (simp_all add: sm_defs acc sm_cfgs_update sm_reg_distinct
          sm_reg_distinct(4-6) [symmetric]
          sm_cfg_of_def exec_fields clkdiv_fields side_bits_def bit_fput)
  qed
  show "imem (dev (sm_run C D P (n, p) s)) = imem_step p (imem (dev s))"
    using assms(4) load(2) ctrl_calls(4) [OF assms(1-3), of p s]
    by (cases p) (auto simp: sm_defs acc fun_eq_iff)
  show "ram (sm_run C D P (n, p) s) = ram s"
    using assms(4) load(3) ctrl_calls(5) [OF assms(1-3), of p s]
    by (cases p) (simp_all add: sm_defs acc)
  show "en (dev (sm_run C D P (n, p) s)) = run_step n p (en (dev s))"
    using assms(4) load(4) ctrl_calls(1) [OF assms(1-3), of p s]
    by (cases p) (simp_all add: sm_defs acc run_step_def)
  show "rst (dev (sm_run C D P (n, p) s)) = restart_step n p (rst (dev s))"
    using assms(4) load(5) ctrl_calls(2) [OF assms(1-3), of p s]
    by (cases p) (simp_all add: sm_defs acc restart_step_def)
qed

text \<open>The state of a block: the four configurations, the memory, what runs and the restarts.\<close>

type_synonym pio_state = "sm_cfg list \<times> (nat \<Rightarrow> u32) \<times> nat set \<times> (nat \<Rightarrow> nat)"

definition sms_step :: "nat \<times> sm_op \<Rightarrow> pio_state \<Rightarrow> pio_state" where
  "sms_step = (\<lambda>(n, p) (cs, m, e, r).
     (cs[n := sm_step p (cs ! n)], imem_step p m, run_step n p e, restart_step n p r))"

definition pio_view ::
  "chip \<Rightarrow> nat \<Rightarrow> ('d \<Rightarrow> u32 \<Rightarrow> u32) \<Rightarrow> ('d \<Rightarrow> nat \<Rightarrow> u32) \<Rightarrow> ('d \<Rightarrow> nat set) \<Rightarrow> ('d \<Rightarrow> nat \<Rightarrow> nat) \<Rightarrow>
     'd \<Rightarrow> pio_state" where
  "pio_view C P cfg imem en rst d = (sm_cfgs C P (cfg d), imem d, en d, rst d)"

lemma sm_runs:
  assumes "pio_block C D P cfg imem en rst" and "pio_of C P"
  shows "list_all (\<lambda>(n, p). n < 4 \<and> op_fits p) ops \<Longrightarrow>
     pio_view C P cfg imem en rst (dev (fold (sm_run C D P) ops s)) =
     fold sms_step ops (pio_view C P cfg imem en rst (dev s))"
    and "list_all (\<lambda>(n, p). n < 4 \<and> op_fits p) ops \<Longrightarrow> ram (fold (sm_run C D P) ops s) = ram s"
proof (induction ops arbitrary: s)
  case (Cons q ops)
  obtain n p where q: "q = (n, p)" by (cases q)
  {
    case 1
    then have "n < 4" "op_fits p" by (simp_all add: q)
    from sm_run_step [OF assms this, of s] 1 show ?case
      using Cons.IH(1) [of "sm_run C D P q s"] by (simp add: q sms_step_def pio_view_def)
  next
    case 2
    then show ?case using Cons.IH(2) by (auto simp: q sm_run_step(3) [OF assms])
  }
qed simp_all

section \<open>A block to run on\<close>

text \<open>Registers, instruction memory, the control bits that run state machines, and restart counts.\<close>

definition pio_device ::
  "chip \<Rightarrow> nat \<Rightarrow> ((u32 \<Rightarrow> u32) \<times> (nat \<Rightarrow> u32) \<times> u32 \<times> (nat \<Rightarrow> nat)) device" where
  "pio_device C P =
     \<lparr>dread = \<lambda>(r, m, c, k) a. (if a = pio_base C P then c AND 0xF else r a, (r, m, c, k)),
      dwrite = \<lambda>(r, m, c, k) a v.
        if a = pio_base C P then (r, m, v, \<lambda>n. if n < 4 \<and> bit v (n + 4) then k n + 1 else k n)
        else if a - pio_base C P < 0xC8 then (r, m(unat (a - pio_base C P - PIO_INSTR_MEM0) div 4 := v), c, k)
        else (r(a := v), m, c, k)\<rparr>"

definition running :: "(u32 \<Rightarrow> u32) \<times> (nat \<Rightarrow> u32) \<times> u32 \<times> (nat \<Rightarrow> nat) \<Rightarrow> nat set" where
  "running d = {n. n < 4 \<and> bit (fst (snd (snd d))) n}"

lemma pio_device_block: "pio_block C (pio_device C P) P fst (fst \<circ> snd) running (snd \<circ> snd \<circ> snd)"
proof -
  have cfg: "\<not> a - pio_base C P < 0xC8" "a \<noteq> pio_base C P" if "a \<in> set (pio_cfg_regs C P)" for a
  proof -
    have "[0..<4] = [0, 1, 2, 3 :: nat]" by code_simp
    then show "\<not> a - pio_base C P < 0xC8" using that by (auto simp: pio_cfg_regs_def sm_reg_def pio_regs)
    then show "a \<noteq> pio_base C P" by auto
  qed
  have mem: "unat (0x48 + of_nat (k * 4) :: u32) = 0x48 + k * 4" "unat (of_nat (k * 4) :: u32) = k * 4"
    if "k < 32" for k
    using that by (simp_all add: unat_word_ariths unat_of_nat)
  have lt: "(0x48 + of_nat (k * 4) :: u32) < 0xC8" "(0x48 + of_nat (k * 4) :: u32) \<noteq> 0" if "k < 32" for k
    using that mem [OF that] by (simp_all add: word_less_nat_alt word_unat_eq_iff)
  have "(0xF :: u32) = mask 4" by (simp add: mask_eq_exp_minus_1)
  then have low: "bit (c AND 0xF) n \<longleftrightarrow> n < 4 \<and> bit c n" for c :: u32 and n
    by (simp only: bit_and_iff bit_mask_iff) auto
  have imem: "pio_base C P + PIO_INSTR_MEM0 + of_nat (k * 4) - pio_base C P < 0xC8"
    "pio_base C P + PIO_INSTR_MEM0 + of_nat (k * 4) \<noteq> pio_base C P"
    "unat (pio_base C P + PIO_INSTR_MEM0 + of_nat (k * 4) - pio_base C P - PIO_INSTR_MEM0) div 4 = k" if "k < 32" for k
    using lt [OF that] mem [OF that] by (simp_all add: pio_regs add.assoc del: of_nat_mult)
  have ctrl: "pio_base C P + PIO_CTRL = pio_base C P" by (simp add: pio_regs)
  show ?thesis
    unfolding pio_block_def ctrl
  proof (intro conjI ballI allI impI)
    fix k :: nat and d :: "(u32 \<Rightarrow> u32) \<times> (nat \<Rightarrow> u32) \<times> u32 \<times> (nat \<Rightarrow> nat)" and v :: u32
    assume "k < 32"
    note imem [OF this]
    then show "let d' = dwrite (pio_device C P) d (pio_base C P + PIO_INSTR_MEM0 + of_nat (k * 4)) v in
        fst d' = fst d \<and> (fst \<circ> snd) d' = ((fst \<circ> snd) d)(k := v) \<and> running d' = running d \<and>
        (snd \<circ> snd \<circ> snd) d' = (snd \<circ> snd \<circ> snd) d"
      by (simp add: pio_device_def split_beta running_def Let_def del: of_nat_mult)
  qed (use cfg in \<open>auto simp: pio_device_def split_beta running_def low Let_def\<close>)
qed

section \<open>Properties\<close>

text \<open>C29: The state machine calls implement a configuration: any sequence of \<^verbatim>\<open>load\<close>,
  \<^verbatim>\<open>set_clkdiv\<close>, pin calls, \<^verbatim>\<open>enable\<close>, \<^verbatim>\<open>disable\<close> and \<^verbatim>\<open>restart\<close> on the four state machines of a
  block leaves each of them with exactly the clock divider, wrap range, jump pin and pin groups
  the calls say, one record update each, the shared instruction memory with the programs
  loaded, exactly the state machines running that were enabled and not disabled since, and each
  restarted as often as asked. In particular a call keeps the fields it does not name and the
  other state machines, and \<^verbatim>\<open>load\<close> sets the jump pin back to 0, so it has to come before
  \<^verbatim>\<open>set_jmp_pin\<close>.\<close>

theorem sm_calls_refine_config:
  assumes "pio_block C D P cfg imem en rst" and "pio_of C P"
    and "list_all (\<lambda>(n, p). n < 4 \<and> op_fits p) ops"
  shows "pio_view C P cfg imem en rst (dev (fold (sm_run C D P) ops s)) =
      fold sms_step ops (pio_view C P cfg imem en rst (dev s)) \<and>
    ram (fold (sm_run C D P) ops s) = ram s"
  using sm_runs [OF assms(1,2)] assms(3) by blast

theorem sm_calls_refine_config_witness:
  "let d = dev (fold (sm_run RP2350 (pio_device RP2350 2) 2)
     [(1, SetPins 15 1), (1, JmpPin 14), (1, Load asm_init), (0, SetPins 3 1), (0, Enable), (1, Restart),
      (1, Enable), (3, Disable), (0, Disable)]
     \<lparr>ram = \<lambda>_. 0, dev = (\<lambda>_. 0, \<lambda>_. 0, 0xC, \<lambda>_. 0)\<rparr>)
   in sc_set_base (sm_cfgs RP2350 2 (fst d) ! 1) = 15 \<and> running d = {1, 2}"
proof -
  let ?d = "(\<lambda>_. 0, \<lambda>_. 0, 0xC, \<lambda>_. 0) :: (u32 \<Rightarrow> u32) \<times> (nat \<Rightarrow> u32) \<times> u32 \<times> (nat \<Rightarrow> nat)"
  have "pio_of RP2350 2" by (simp add: pio_of_def known_chip_def RP2350_def)
  let ?ops = "[(1, SetPins 15 1), (1, JmpPin 14), (1, Load asm_init), (0, SetPins 3 1), (0, Enable), (1, Restart),
      (1, Enable), (3, Disable), (0, Disable)]"
  define d where "d = dev (fold (sm_run RP2350 (pio_device RP2350 2) 2) ?ops \<lparr>ram = \<lambda>_. 0, dev = ?d\<rparr>)"
  have "pio_view RP2350 2 fst (fst \<circ> snd) running (snd \<circ> snd \<circ> snd) d =
      fold sms_step ?ops (pio_view RP2350 2 fst (fst \<circ> snd) running (snd \<circ> snd \<circ> snd) ?d)"
    using sm_calls_refine_config [OF pio_device_block \<open>pio_of RP2350 2\<close>, of ?ops "\<lparr>ram = \<lambda>_. 0, dev = ?d\<rparr>"]
    by (simp only: d_def) (simp add: asm_init_def)
  moreover have "\<forall>n \<in> set [0..<4]. bit (0xC :: u32) n = (n = 2 \<or> n = 3)" by code_simp
  then have "running ?d = {2, 3}" by (auto simp: running_def)
  ultimately have "sm_cfgs RP2350 2 (fst d) ! 1 = fst (fold sms_step ?ops
      (sm_cfgs RP2350 2 (\<lambda>_. 0), \<lambda>_. 0, {2, 3}, \<lambda>_. 0)) ! 1"
    "running d = fst (snd (snd (fold sms_step ?ops (sm_cfgs RP2350 2 (\<lambda>_. 0), \<lambda>_. 0, {2, 3}, \<lambda>_. 0))))"
    by (simp_all only: pio_view_def prod.inject fst_conv snd_conv o_apply) (metis fst_conv snd_conv)+
  moreover have "{Suc 0, 0, 2, 3} - {3} - {0} = {1, 2 :: nat}" by auto
  ultimately show ?thesis
    unfolding Let_def d_def [symmetric]
    by (simp add: sms_step_def run_step_def del: sm_cfgs_nth)
qed

lemma and_seven: "n AND 7 = (n mod 8 :: int)"
proof -
  have "n AND 7 = take_bit 3 n" by (simp add: take_bit_eq_mask mask_eq_exp_minus_1)
  then show ?thesis by (simp add: take_bit_eq_mod)
qed

text \<open>C28: From source to silicon: assembling a program of at most 32 instructions and loading it puts
  its two-pass encoding, zero-extended, into the instruction memory from place 0, leaves the
  other places as they were, makes the state machine wrap around exactly this program, and
  configures the side-set that the program was written for: its width with the enable bit,
  whether it is optional and whether it drives directions. The
  empty program is the exception: its length minus one wraps, and the state machine would run
  through all 32 places.\<close>

theorem loaded_program_is_encoding:
  fixes s :: "'d mach"
  assumes "pio_block C D P cfg imem en rst" and "pio_of C P" and "SM < 4"
    and "side_bits (side_set n opt pd asm_init) \<le> 5" and "list_all item_ok xs"
    and "distinct (bound xs)" and "length (filter emits xs) \<le> 32"
  defines "prog \<equiv> two_pass (side_set n opt pd asm_init) xs"
  shows "\<exists>b. assemble xs (side_set n opt pd asm_init) = Some b \<and>
    imem (dev (sm_load C D P SM b s)) =
      (\<lambda>k. if k < length prog then ucast (prog ! k) else imem (dev s) k) \<and>
    (let c = sm_cfgs C P (cfg (dev (sm_load C D P SM b s))) ! SM in
       unat (sc_wrap_top c) = (if prog = [] then 31 else length prog - 1) \<and> sc_wrap_bottom c = 0 \<and>
       unat (sc_side_count c) = nat (n mod 8) + (if opt then 1 else 0) \<and>
       sc_side_opt c = opt \<and> sc_side_pindirs c = pd)"
proof -
  obtain b where b: "assemble xs (side_set n opt pd asm_init) = Some b"
    and inv: "asm_inv (side_set n opt pd asm_init) (filter emits xs) (\<lambda>_. table 0 xs Map.empty)
      (table 0 xs Map.empty) b"
    and prog: "take (alen b) (code b) = prog"
    using one_pass_run [OF assms(4-7)] by (auto simp: prog_def)
  have side: "side_opt b = opt" "side_pindirs b = pd" "side_bits b = nat (n mod 8) + (if opt then 1 else 0)"
    using inv and_seven [of n] by (auto simp: asm_inv_def side_set_def side_bits_def)
  moreover have "side_bits b \<le> 5" using assms(4) inv by (simp add: asm_inv_def side_bits_def)
  then have "unat (take_bit 3 (of_nat (side_bits b)) :: u32) = side_bits b"
    by (simp add: unsigned_take_bit_eq unat_of_nat take_bit_nat_eq_self)
  ultimately have count: "unat (take_bit 3 (of_nat (side_bits b)) :: u32) = nat (n mod 8) + (if opt then 1 else 0)"
    by simp
  have len: "alen b \<le> 32" "length prog = alen b" "length (code b) = 32"
    using inv prog by (auto simp: asm_inv_def)
  have "prog ! k = code b ! k" if "k < alen b" for k using that prog by (metis nth_take)
  then have code: "(if k < alen b then ucast (code b ! k) else m k) =
      (if k < length prog then ucast (prog ! k) else m k)" for k and m :: "nat \<Rightarrow> u32"
    using len(2) by simp
  have "op_fits (Load b)" using len(1) by simp
  note run = sm_run_step [OF assms(1-3) this, of s, unfolded sm_run.simps]
  have cfgs: "sm_cfgs C P (cfg (dev (sm_load C D P SM b s))) ! SM =
      sm_step (Load b) (sm_cfgs C P (cfg (dev s)) ! SM)"
    using assms(3) by (simp add: run(1) del: sm_cfgs_nth sm_step.simps)
  have "unat (take_bit 5 (of_int (int (alen b) - 1)) :: u32) = (if prog = [] then 31 else alen b - 1)"
  proof (cases "alen b")
    case 0
    then show ?thesis using len(2) by (simp add: take_bit_minus_one_eq_mask mask_eq_exp_minus_1)
  next
    case (Suc j)
    then have "j < 32" "prog \<noteq> []" using len by auto
    then show ?thesis by (simp add: Suc unsigned_take_bit_eq unat_of_nat take_bit_nat_eq_self)
  qed
  then show ?thesis
    using b len(2) side count by (simp add: cfgs run(2) code fun_eq_iff Let_def del: sm_cfgs_nth)
qed


theorem loaded_program_is_encoding_witness:
  "\<exists>b. assemble [Jump 0x00C0 (- 1) 0 (- 1), Bind 0, Ins 0x8020 0 (- 1)] (side_set 0 False False asm_init) = Some b \<and>
    fst (snd (dev (sm_load RP2040 (pio_device RP2040 1) 1 3 b
      \<lparr>ram = \<lambda>_. 0, dev = (\<lambda>_. 0, \<lambda>_. 0, 0, \<lambda>_. 0)\<rparr>))) 0 = 0xC1"
proof -
  let ?xs = "[Jump 0x00C0 (- 1) 0 (- 1), Bind 0, Ins 0x8020 0 (- 1)]"
  have pio: "pio_of RP2040 1" by (simp add: pio_of_def known_chip_def RP2040_def)
  have "two_pass (side_set 0 False False asm_init) ?xs = [0x00C1, 0x8020]"
    by (simp add: two_pass_def target_bits_def field_bits_def delay_field_def side_set_def asm_init_def)
  moreover have "(3 :: nat) < 4" by simp
  ultimately show ?thesis
    using loaded_program_is_encoding [OF pio_device_block pio, of 3 0 False False ?xs
      "\<lparr>ram = \<lambda>_. 0, dev = (\<lambda>_. 0, \<lambda>_. 0, 0, \<lambda>_. 0)\<rparr>"]
    by (auto simp: side_bits_def side_set_def asm_init_def)
qed

end
