(* ===== verification/Blink.thy ===== *)
theory Blink
  imports Board
begin

text \<open>
  \<^verbatim>\<open>bench/blink.c\<close> and the Mojo program it is the counterpart of, \<^verbatim>\<open>src/main.mojo\<close> with the
  drivers it uses: the pin of \<^verbatim>\<open>src/pico/gpio.mojo\<close> and the sleeps of \<^verbatim>\<open>src/pico/time.mojo\<close>.
  The endless loops are modelled by their first \<open>n\<close> rounds.
\<close>

section \<open>The C program\<close>

definition blink_setup :: "'d device \<Rightarrow> 'd mach \<Rightarrow> 'd mach option" where
  "blink_setup D s = do {
     s \<leftarrow> blink_board_init D s;
     let s = wr D 0x400140CC 5 s;
     Some (wr D 0xD0000024 (push_bit 25 1) s)
   }"

definition blink_round :: "'d device \<Rightarrow> 'd mach \<Rightarrow> 'd mach option" where
  "blink_round D s =
     (let s = wr D 0xD000001C (push_bit 25 1) s;
          (t0, s) = time_us D s
      in poll D 0x40054028 (\<lambda>v. \<not> v - t0 < 250000) s)"

fun blink_rounds :: "'d device \<Rightarrow> nat \<Rightarrow> 'd mach \<Rightarrow> 'd mach option" where
  "blink_rounds D 0 s = Some s"
| "blink_rounds D (Suc n) s = do { s \<leftarrow> blink_round D s; blink_rounds D n s }"

definition blink_main :: "'d device \<Rightarrow> nat \<Rightarrow> 'd mach \<Rightarrow> 'd mach option" where
  "blink_main D n s = do { s \<leftarrow> blink_setup D s; blink_rounds D n s }"

section \<open>The Mojo program\<close>

text \<open>\<^verbatim>\<open>Pin[N, C]\<close>: the pin number is a parameter of every operation.\<close>

definition pin_mask :: "nat \<Rightarrow> u32" where
  "pin_mask N = push_bit N 1"

definition pin_ctrl :: "chip \<Rightarrow> nat \<Rightarrow> u32" where
  "pin_ctrl C N = chip_IO_BANK0_BASE C + of_nat (8 * N + 4)"

definition pin_pad :: "chip \<Rightarrow> nat \<Rightarrow> u32" where
  "pin_pad C N = chip_PADS_BANK0_BASE C + of_nat (4 + 4 * N)"

definition pin_init :: "chip \<Rightarrow> 'd device \<Rightarrow> nat \<Rightarrow> 'd mach \<Rightarrow> 'd mach" where
  "pin_init C D N s = wr D (pin_ctrl C N) FUNCSEL_SIO s"

definition make_output :: "chip \<Rightarrow> 'd device \<Rightarrow> nat \<Rightarrow> 'd mach \<Rightarrow> 'd mach" where
  "make_output C D N s =
     (let s = wr D (chip_SIO_GPIO_OE_SET C) (pin_mask N) s
      in if chip_HAS_PAD_ISO C then write32_clr D (pin_pad C N) (push_bit 8 1) s else s)"

definition toggle :: "chip \<Rightarrow> 'd device \<Rightarrow> nat \<Rightarrow> 'd mach \<Rightarrow> 'd mach" where
  "toggle C D N s = wr D (chip_SIO_GPIO_OUT_XOR C) (pin_mask N) s"

text \<open>\<^verbatim>\<open>sleep_us\<close> and \<^verbatim>\<open>sleep_ms\<close> of \<^verbatim>\<open>time.mojo\<close>.\<close>

definition pico_sleep_us :: "chip \<Rightarrow> 'd device \<Rightarrow> u32 \<Rightarrow> 'd mach \<Rightarrow> 'd mach option" where
  "pico_sleep_us C D us s =
     (let (start, s) = pico_time_us C D s
      in poll D (chip_TIMER_BASE C + 0x28) (\<lambda>v. \<not> v - start < us) s)"

definition SPIN_SCRATCH :: u32 where "SPIN_SCRATCH = 0x20040000"
definition SPIN_ITERS_PER_MS :: u32 where "SPIN_ITERS_PER_MS = 8000"

text \<open>The busy loop's bound may be any 32-bit value, and the counter never passes it.\<close>

definition pico_sleep_ms :: "chip \<Rightarrow> 'd device \<Rightarrow> u32 \<Rightarrow> 'd mach \<Rightarrow> 'd mach option" where
  "pico_sleep_ms C D ms s =
     (if chip_USES_HW_TIMER C then pico_sleep_us C D (ms * 1000) s
      else Some (for_range 0 (unat (ms * SPIN_ITERS_PER_MS))
        (\<lambda>i. wr D SPIN_SCRATCH (of_nat i)) s))"

definition LED :: nat where "LED = 25"

fun mojo_blink_rounds :: "chip \<Rightarrow> 'd device \<Rightarrow> nat \<Rightarrow> 'd mach \<Rightarrow> 'd mach option" where
  "mojo_blink_rounds C D 0 s = Some s"
| "mojo_blink_rounds C D (Suc n) s =
     do { let s = toggle C D LED s; s \<leftarrow> pico_sleep_ms C D 250 s; mojo_blink_rounds C D n s }"

definition mojo_blink :: "chip \<Rightarrow> 'd device \<Rightarrow> nat \<Rightarrow> 'd mach \<Rightarrow> 'd mach option" where
  "mojo_blink C D n s = do {
     s \<leftarrow> pico_init C D s;
     let s = pin_init C D LED s;
     let s = make_output C D LED s;
     mojo_blink_rounds C D n s
   }"

section \<open>The Rust program\<close>

text \<open>\<^verbatim>\<open>bench/blink.rs\<close>; its only arithmetic is a wrapping subtraction.\<close>

definition rs_blink_init :: "'d device \<Rightarrow> 'd mach \<Rightarrow> 'd mach option" where
  "rs_blink_init D s = do {
     let s = wr D 0x4002400C 47 s;
     let s = wr D 0x40024000 (push_bit 12 0xFAB OR 0xAA0) s;
     s \<leftarrow> poll D 0x40024004 (\<lambda>v. \<not> v AND 0x80000000 = 0) s;
     let s = wr D 0x40008030 2 s;
     s \<leftarrow> poll D 0x40008038 (\<lambda>v. v = push_bit 2 1) s;
     let s = wr D 0x4000803C 0 s;
     s \<leftarrow> poll D 0x40008044 (\<lambda>v. v = 1) s;
     let s = wr D (0x4000C000 + 0x3000) (push_bit 5 1 OR push_bit 8 1 OR push_bit 21 1) s;
     let msk = push_bit 5 1 OR push_bit 8 1 OR push_bit 21 1;
     s \<leftarrow> poll D 0x4000C008 (\<lambda>v. v AND msk = msk) s;
     Some (wr D 0x4005802C (push_bit 9 1 OR 12) s)
   }"

fun rs_blink_rounds :: "'d device \<Rightarrow> nat \<Rightarrow> 'd mach \<Rightarrow> 'd mach option" where
  "rs_blink_rounds D 0 s = Some s"
| "rs_blink_rounds D (Suc n) s =
     do { let s = wr D 0xD000001C (push_bit 25 1) s;
          let (t0, s) = rd D 0x40054028 s;
          s \<leftarrow> poll D 0x40054028 (\<lambda>v. \<not> v - t0 < 250000) s;
          rs_blink_rounds D n s }"

definition rs_blink :: "'d device \<Rightarrow> nat \<Rightarrow> 'd mach \<Rightarrow> 'd mach option" where
  "rs_blink D n s = do {
     s \<leftarrow> rs_blink_init D s;
     let s = wr D 0x400140CC 5 s;
     let s = wr D 0xD0000024 (push_bit 25 1) s;
     rs_blink_rounds D n s
   }"

section \<open>The three programs\<close>

lemma rs_blink_rounds: "rs_blink_rounds D n s = blink_rounds D n s"
proof (induction n arbitrary: s)
  case (Suc n)
  then have "rs_blink_rounds D n = blink_rounds D n" by (intro ext)
  then show ?case by (simp add: blink_round_def time_us_def Let_def split_beta)
qed simp

lemma rs_blink: "rs_blink D n s = blink_main D n s"
proof -
  have "rs_blink_init D s = blink_board_init D s"
    by (simp add: rs_blink_init_def init_defs Let_def)
  moreover have "rs_blink_rounds D n = blink_rounds D n" by (intro ext rs_blink_rounds)
  ultimately show ?thesis
    by (simp add: rs_blink_def blink_main_def blink_setup_def Let_def)
qed

lemma blink_round_mojo:
  "blink_round D s = do { let s = toggle RP2040 D LED s; pico_sleep_ms RP2040 D 250 s }"
  by (simp add: blink_round_def toggle_def pico_sleep_ms_def pico_sleep_us_def pico_time_us_def
      time_us_def Let_def split_beta RP2040_def pin_mask_def LED_def)

lemma blink_rounds_mojo: "blink_rounds D n = mojo_blink_rounds RP2040 D n"
proof (induction n)
  case (Suc n)
  then show ?case by (intro ext) (simp add: blink_round_mojo)
qed (simp add: fun_eq_iff)

lemma blink_setup_mojo:
  "blink_setup D s = do {
     s \<leftarrow> pico_init RP2040 D s;
     let s = pin_init RP2040 D LED s;
     Some (make_output RP2040 D LED s) }"
proof -
  have "blink_board_init D s = pico_init RP2040 D s"
    by (simp add: init_defs Let_def RP2040_def rp2040_map CLR_ALIAS_def)
  then show ?thesis
    by (simp add: blink_setup_def pin_init_def make_output_def pin_ctrl_def pin_mask_def LED_def
        RP2040_def rp2040_map Let_def)
qed

lemma blink_mojo: "blink_main D n s = mojo_blink RP2040 D n s"
  by (simp add: blink_main_def mojo_blink_def blink_setup_mojo blink_rounds_mojo Let_def)

section \<open>What the pin sees\<close>

text \<open>
  The accesses of \<open>n\<close> rounds: one toggle each, then the first timer read and the reads until
  250 ms have passed since it.
\<close>

inductive blink_trace :: "nat \<Rightarrow> event list \<Rightarrow> bool" where
  none: "blink_trace 0 []"
| round: "waits 0x40054028 (\<lambda>v. 250000 \<le> v - t0) w \<Longrightarrow> blink_trace n es \<Longrightarrow>
    blink_trace (Suc n) (Write 0xD000001C 0x2000000 # Read 0x40054028 t0 # w @ es)"

lemma waits_no_write: "waits a p es \<Longrightarrow> filter (\<lambda>e. e = Write b v) es = []"
  by (induction es rule: waits.induct[of _ a p]) (auto split: if_splits)

lemma blink_trace_toggles:
  "blink_trace n es \<Longrightarrow> length (filter (\<lambda>e. e = Write 0xD000001C 0x2000000) es) = n"
  by (induction rule: blink_trace.induct) (simp_all add: waits_no_write)

lemma blink_round_trace:
  assumes "blink_round (logged D) s = Some t"
  shows "\<exists>t0 w. log t = log s @ Write 0xD000001C 0x2000000 # Read 0x40054028 t0 # w \<and>
    waits 0x40054028 (\<lambda>v. 250000 \<le> v - t0) w"
proof -
  let ?u = "wr (logged D) 0xD000001C 0x2000000 s"
  obtain t0 u where u: "rd (logged D) 0x40054028 ?u = (t0, u)" by fastforce
  then have "poll (logged D) 0x40054028 (\<lambda>v. 250000 \<le> v - t0) u = Some t"
    using assms by (simp add: blink_round_def time_us_def not_less)
  from log_poll [OF this] obtain w where "log t = log u @ w" "waits 0x40054028 (\<lambda>v. 250000 \<le> v - t0) w"
    by (auto simp: sram_eval)
  moreover have "log u = log ?u @ [Read 0x40054028 t0]" using log_rd [OF _ u] by (simp add: sram_eval)
  moreover have "log ?u = log s @ [Write 0xD000001C 0x2000000]" by (simp add: log_wr sram_eval)
  ultimately show ?thesis by auto
qed

lemma blink_rounds_trace:
  "blink_rounds (logged D) n s = Some t \<Longrightarrow> \<exists>es. log t = log s @ es \<and> blink_trace n es"
proof (induction n arbitrary: s)
  case 0
  then show ?case by (auto intro: none)
next
  case (Suc n)
  then obtain u where u: "blink_round (logged D) s = Some u" "blink_rounds (logged D) n u = Some t"
    by (auto simp: bind_eq_Some_conv)
  from Suc.IH [OF u(2)] obtain es where es: "log t = log u @ es" "blink_trace n es" by blast
  from blink_round_trace [OF u(1)] obtain t0 w where
    "log u = log s @ Write 0xD000001C 0x2000000 # Read 0x40054028 t0 # w"
    "waits 0x40054028 (\<lambda>v. 250000 \<le> v - t0) w" by blast
  with es show ?case by (auto intro: round)
qed

lemma blink_rounds_return:
  "timer_runs D \<Longrightarrow> returns (blink_rounds D n s) s"
proof (induction n arbitrary: s)
  case (Suc n)
  have "returns (blink_round D s) s"
    unfolding blink_round_def time_us_def Let_def split_beta
    by (rule returns_poll_settled)
       (use Suc.prems in \<open>auto simp: timer_runs_def sram_eval not_less ram_wr\<close>)
  then show ?case using Suc by (auto intro: returns_seq)
qed (simp add: returns_def)

lemma blink_main_returns:
  "bringup_answers D \<Longrightarrow> timer_runs D \<Longrightarrow> returns (blink_main D n s) s"
proof -
  assume "bringup_answers D" "timer_runs D"
  then have "returns (blink_board_init D s) s" for s
    using board_init_returns [of D s] by (simp add: init_defs)
  then have "returns (blink_setup D s) s" for s
    unfolding blink_setup_def Let_def
    by (intro returns_bind returns_Some) (simp_all add: ram_wr sram_eval)
  then show ?thesis
    unfolding blink_main_def using blink_rounds_return [OF \<open>timer_runs D\<close>] by (intro returns_seq)
qed

section \<open>Properties\<close>

text \<open>C37: the LED keeps blinking: on hardware that answers and with a running timer every number
  of rounds is completed, memory untouched, and each round is exactly one toggle of the LED pin
  followed by a wait of at least 250 ms by the timer, so \<open>n\<close> rounds toggle it \<open>n\<close> times. The
  Mojo and the Rust program make the same accesses.\<close>

theorem blink_rate:
  assumes "bringup_answers (logged D)" and "timer_runs (logged D)"
  shows "\<exists>t u es. blink_setup (logged D) s = Some u \<and> blink_main (logged D) n s = Some t \<and>
    ram t = ram s \<and> log t = log u @ es \<and> blink_trace n es \<and>
    length (filter (\<lambda>e. e = Write 0xD000001C 0x2000000) es) = n \<and>
    mojo_blink RP2040 (logged D) n s = Some t \<and> rs_blink (logged D) n s = Some t"
proof -
  obtain t where t: "blink_main (logged D) n s = Some t" "ram t = ram s"
    using blink_main_returns [OF assms] by (auto simp: returns_def)
  then obtain u where u: "blink_setup (logged D) s = Some u" "blink_rounds (logged D) n u = Some t"
    by (auto simp: blink_main_def bind_eq_Some_conv)
  from blink_rounds_trace [OF u(2)] obtain es where "log t = log u @ es" "blink_trace n es" by blast
  moreover have "mojo_blink RP2040 (logged D) n s = Some t" "rs_blink (logged D) n s = Some t"
    using t(1) by (simp_all add: blink_mojo [symmetric] rs_blink)
  ultimately show ?thesis
    using t u(1) blink_trace_toggles by blast
qed

theorem blink_rate_witness:
  "\<exists>t. blink_main (logged ready_device) 3 \<lparr>ram = \<lambda>_. 0, dev = ((0, 0), [])\<rparr> = Some t"
proof -
  have "bringup_answers (logged ready_device)" "timer_runs (logged ready_device)"
    using ready_hardware(1) ready_timer_runs
    by (auto simp: bringup_answers_def acks_logged timer_runs_def nth_read_logged)
  from blink_rate [OF this] show ?thesis by blast
qed

text \<open>The SDK's millisecond sleep multiplies in 32 bits: on a chip with the timer,
  \<^verbatim>\<open>sleep_ms(ms)\<close> is the sleep of \<^verbatim>\<open>1000 * ms\<close> microseconds modulo \<^verbatim>\<open>2^32\<close>, so it is
  exact up to 4294967 ms, and one millisecond more is a sleep of 704 microseconds.\<close>

theorem sleep_ms_range:
  assumes "chip_USES_HW_TIMER C"
  shows "(unat ms \<le> 4294967 \<longrightarrow>
      (\<exists>us. unat us = 1000 * unat ms \<and> pico_sleep_ms C D ms s = pico_sleep_us C D us s)) \<and>
    pico_sleep_ms C D 4294968 s = pico_sleep_us C D 704 s"
proof -
  have "unat (ms * 1000) = 1000 * unat ms" if "unat ms \<le> 4294967"
    using that by (simp add: unat_word_ariths)
  moreover have "4294968 * 1000 = (704 :: u32)" by code_simp
  then have "pico_sleep_ms C D 4294968 s = pico_sleep_us C D 704 s"
    using assms by (simp only: pico_sleep_ms_def if_True)
  ultimately show ?thesis using assms by (auto simp: pico_sleep_ms_def)
qed

theorem sleep_ms_range_witness:
  "pico_sleep_ms RP2040 ready_device 4294968 \<lparr>ram = \<lambda>_. 0, dev = (0, 0)\<rparr> =
     pico_sleep_us RP2040 ready_device 704 \<lparr>ram = \<lambda>_. 0, dev = (0, 0)\<rparr>"
proof -
  have "chip_USES_HW_TIMER RP2040" by (simp add: RP2040_def)
  from sleep_ms_range [OF this] show ?thesis by blast
qed

end
