(* ===== verification/Gpio.thy ===== *)
theory Gpio
  imports AliasReg Blink
begin

text \<open>
  The rest of the pin driver \<^verbatim>\<open>src/pico/gpio.mojo\<close>: function select, direction and level through
  the SIO block, the electrical settings of the pad, and the event interrupts. The pads and the
  interrupt enables are registers with atomic aliases; the SIO block and the event registers
  have their own documented behaviour (\<open>sio_block\<close>, \<open>event_bank\<close>). Each group of operations
  refines an abstract one on decoded pin settings.
\<close>

section \<open>Addresses\<close>

definition pin_intr :: "chip \<Rightarrow> nat \<Rightarrow> u32" where
  "pin_intr C N = chip_IO_BANK0_BASE C + 0xF0 + of_nat (4 * (N div 8))"

definition event_shift :: "nat \<Rightarrow> nat" where
  "event_shift N = 4 * (N mod 8)"

definition pin_inte :: "chip \<Rightarrow> nat \<Rightarrow> u32" where
  "pin_inte C N = chip_IO_BANK0_BASE C + 0x100 + of_nat (4 * (N div 8))"

definition pin_ints :: "chip \<Rightarrow> nat \<Rightarrow> u32" where
  "pin_ints C N = chip_IO_BANK0_BASE C + 0x120 + of_nat (4 * (N div 8))"

definition EVENT_ALL :: u32 where "EVENT_ALL = 0xF"

section \<open>Function, direction and level\<close>

definition set_function :: "chip \<Rightarrow> 'd device \<Rightarrow> nat \<Rightarrow> u32 \<Rightarrow> 'd mach \<Rightarrow> 'd mach" where
  "set_function C D N f s = wr D (pin_ctrl C N) f s"

definition get_function :: "chip \<Rightarrow> 'd device \<Rightarrow> nat \<Rightarrow> 'd mach \<Rightarrow> u32 \<times> 'd mach" where
  "get_function C D N s = (let (v, s) = rd D (pin_ctrl C N) s in (v AND 0x1F, s))"

definition input_enable :: "chip \<Rightarrow> 'd device \<Rightarrow> nat \<Rightarrow> bool \<Rightarrow> 'd mach \<Rightarrow> 'd mach" where
  "input_enable C D N enable s =
     (if enable then write32_set D (pin_pad C N) PADS_IE s
      else write32_clr D (pin_pad C N) PADS_IE s)"

definition make_input :: "chip \<Rightarrow> 'd device \<Rightarrow> nat \<Rightarrow> 'd mach \<Rightarrow> 'd mach" where
  "make_input C D N s =
     (let s = wr D (chip_SIO_GPIO_OE_CLR C) (pin_mask N) s
      in input_enable C D N True s)"

definition is_output :: "chip \<Rightarrow> 'd device \<Rightarrow> nat \<Rightarrow> 'd mach \<Rightarrow> bool \<times> 'd mach" where
  "is_output C D N s =
     (let (v, s) = rd D (chip_SIO_GPIO_OE C) s in (v AND pin_mask N \<noteq> 0, s))"

definition pin_high :: "chip \<Rightarrow> 'd device \<Rightarrow> nat \<Rightarrow> 'd mach \<Rightarrow> 'd mach" where
  "pin_high C D N s = wr D (chip_SIO_GPIO_OUT_SET C) (pin_mask N) s"

definition pin_low :: "chip \<Rightarrow> 'd device \<Rightarrow> nat \<Rightarrow> 'd mach \<Rightarrow> 'd mach" where
  "pin_low C D N s = wr D (chip_SIO_GPIO_OUT_CLR C) (pin_mask N) s"

definition pin_write :: "chip \<Rightarrow> 'd device \<Rightarrow> nat \<Rightarrow> bool \<Rightarrow> 'd mach \<Rightarrow> 'd mach" where
  "pin_write C D N level s = (if level then pin_high C D N s else pin_low C D N s)"

definition read_output :: "chip \<Rightarrow> 'd device \<Rightarrow> nat \<Rightarrow> 'd mach \<Rightarrow> bool \<times> 'd mach" where
  "read_output C D N s =
     (let (v, s) = rd D (chip_SIO_GPIO_OUT C) s in (v AND pin_mask N \<noteq> 0, s))"

definition pin_read :: "chip \<Rightarrow> 'd device \<Rightarrow> nat \<Rightarrow> 'd mach \<Rightarrow> bool \<times> 'd mach" where
  "pin_read C D N s =
     (let (v, s) = rd D (chip_SIO_GPIO_IN C) s in (v AND pin_mask N \<noteq> 0, s))"

section \<open>Pad settings\<close>

definition pull_up :: "chip \<Rightarrow> 'd device \<Rightarrow> nat \<Rightarrow> 'd mach \<Rightarrow> 'd mach" where
  "pull_up C D N s =
     (let s = write32_set D (pin_pad C N) PADS_PUE s in write32_clr D (pin_pad C N) PADS_PDE s)"

definition pull_down :: "chip \<Rightarrow> 'd device \<Rightarrow> nat \<Rightarrow> 'd mach \<Rightarrow> 'd mach" where
  "pull_down C D N s =
     (let s = write32_set D (pin_pad C N) PADS_PDE s in write32_clr D (pin_pad C N) PADS_PUE s)"

definition pull_none :: "chip \<Rightarrow> 'd device \<Rightarrow> nat \<Rightarrow> 'd mach \<Rightarrow> 'd mach" where
  "pull_none C D N s = write32_clr D (pin_pad C N) (PADS_PUE OR PADS_PDE) s"

definition bus_keep :: "chip \<Rightarrow> 'd device \<Rightarrow> nat \<Rightarrow> 'd mach \<Rightarrow> 'd mach" where
  "bus_keep C D N s = write32_set D (pin_pad C N) (PADS_PUE OR PADS_PDE) s"

definition set_drive :: "chip \<Rightarrow> 'd device \<Rightarrow> nat \<Rightarrow> u32 \<Rightarrow> 'd mach \<Rightarrow> 'd mach" where
  "set_drive C D N strength s =
     (let s = write32_clr D (pin_pad C N) PADS_DRIVE_MASK s
      in write32_set D (pin_pad C N)
           (push_bit (unat PADS_DRIVE_LSB) strength AND PADS_DRIVE_MASK) s)"

definition schmitt :: "chip \<Rightarrow> 'd device \<Rightarrow> nat \<Rightarrow> bool \<Rightarrow> 'd mach \<Rightarrow> 'd mach" where
  "schmitt C D N enable s =
     (if enable then write32_set D (pin_pad C N) PADS_SCHMITT s
      else write32_clr D (pin_pad C N) PADS_SCHMITT s)"

definition slew_fast :: "chip \<Rightarrow> 'd device \<Rightarrow> nat \<Rightarrow> bool \<Rightarrow> 'd mach \<Rightarrow> 'd mach" where
  "slew_fast C D N enable s =
     (if enable then write32_set D (pin_pad C N) PADS_SLEWFAST s
      else write32_clr D (pin_pad C N) PADS_SLEWFAST s)"

definition output_disable :: "chip \<Rightarrow> 'd device \<Rightarrow> nat \<Rightarrow> bool \<Rightarrow> 'd mach \<Rightarrow> 'd mach" where
  "output_disable C D N disable s =
     (if disable then write32_set D (pin_pad C N) PADS_OD s
      else write32_clr D (pin_pad C N) PADS_OD s)"

definition pad_config :: "chip \<Rightarrow> 'd device \<Rightarrow> nat \<Rightarrow> 'd mach \<Rightarrow> u32 \<times> 'd mach" where
  "pad_config C D N s = rd D (pin_pad C N) s"

section \<open>Events\<close>

definition pin_events :: "chip \<Rightarrow> 'd device \<Rightarrow> nat \<Rightarrow> 'd mach \<Rightarrow> u32 \<times> 'd mach" where
  "pin_events C D N s =
     (let (v, s) = rd D (pin_intr C N) s in (drop_bit (event_shift N) v AND EVENT_ALL, s))"

definition ack_events :: "chip \<Rightarrow> 'd device \<Rightarrow> nat \<Rightarrow> u32 \<Rightarrow> 'd mach \<Rightarrow> 'd mach" where
  "ack_events C D N m s = wr D (pin_intr C N) (push_bit (event_shift N) (m AND EVENT_ALL)) s"

definition irq_enable :: "chip \<Rightarrow> 'd device \<Rightarrow> nat \<Rightarrow> u32 \<Rightarrow> 'd mach \<Rightarrow> 'd mach" where
  "irq_enable C D N m s =
     write32_set D (pin_inte C N) (push_bit (event_shift N) (m AND EVENT_ALL)) s"

definition irq_disable :: "chip \<Rightarrow> 'd device \<Rightarrow> nat \<Rightarrow> u32 \<Rightarrow> 'd mach \<Rightarrow> 'd mach" where
  "irq_disable C D N m s =
     write32_clr D (pin_inte C N) (push_bit (event_shift N) (m AND EVENT_ALL)) s"

definition irq_status :: "chip \<Rightarrow> 'd device \<Rightarrow> nat \<Rightarrow> 'd mach \<Rightarrow> u32 \<times> 'd mach" where
  "irq_status C D N s =
     (let (v, s) = rd D (pin_ints C N) s in (drop_bit (event_shift N) v AND EVENT_ALL, s))"

section \<open>The pad register decoded\<close>

record pad_cfg =
  pc_slew_fast :: bool
  pc_schmitt :: bool
  pc_pull_down :: bool
  pc_pull_up :: bool
  pc_drive :: u32
  pc_input :: bool
  pc_output_off :: bool
  pc_isolated :: bool

definition pad_of :: "u32 \<Rightarrow> pad_cfg" where
  "pad_of w =
     \<lparr>pc_slew_fast = bit w 0, pc_schmitt = bit w 1, pc_pull_down = bit w 2, pc_pull_up = bit w 3,
      pc_drive = take_bit 2 (drop_bit 4 w), pc_input = bit w 6, pc_output_off = bit w 7,
      pc_isolated = bit w 8\<rparr>"

datatype pad_op =
    PullUp | PullDown | PullNone | BusKeep | SetDrive u32
  | Schmitt bool | SlewFast bool | InputEnable bool | OutputDisable bool

text \<open>The driver call of an operation, and what it does to the settings of the pin.\<close>

fun pad_run :: "chip \<Rightarrow> 'd device \<Rightarrow> nat \<times> pad_op \<Rightarrow> 'd mach \<Rightarrow> 'd mach" where
  "pad_run C D (N, PullUp) = pull_up C D N"
| "pad_run C D (N, PullDown) = pull_down C D N"
| "pad_run C D (N, PullNone) = pull_none C D N"
| "pad_run C D (N, BusKeep) = bus_keep C D N"
| "pad_run C D (N, SetDrive v) = set_drive C D N v"
| "pad_run C D (N, Schmitt b) = schmitt C D N b"
| "pad_run C D (N, SlewFast b) = slew_fast C D N b"
| "pad_run C D (N, InputEnable b) = input_enable C D N b"
| "pad_run C D (N, OutputDisable b) = output_disable C D N b"

fun pad_step :: "pad_op \<Rightarrow> pad_cfg \<Rightarrow> pad_cfg" where
  "pad_step PullUp p = p\<lparr>pc_pull_up := True, pc_pull_down := False\<rparr>"
| "pad_step PullDown p = p\<lparr>pc_pull_down := True, pc_pull_up := False\<rparr>"
| "pad_step PullNone p = p\<lparr>pc_pull_up := False, pc_pull_down := False\<rparr>"
| "pad_step BusKeep p = p\<lparr>pc_pull_up := True, pc_pull_down := True\<rparr>"
| "pad_step (SetDrive v) p = p\<lparr>pc_drive := take_bit 2 v\<rparr>"
| "pad_step (Schmitt b) p = p\<lparr>pc_schmitt := b\<rparr>"
| "pad_step (SlewFast b) p = p\<lparr>pc_slew_fast := b\<rparr>"
| "pad_step (InputEnable b) p = p\<lparr>pc_input := b\<rparr>"
| "pad_step (OutputDisable b) p = p\<lparr>pc_output_off := b\<rparr>"

text \<open>Setting and clearing bits, seen through the decoding.\<close>

lemmas pad_bits = PADS_SLEWFAST_def PADS_SCHMITT_def PADS_PDE_def PADS_PUE_def PADS_IE_def
  PADS_OD_def

lemma bit_set_one: "bit (w OR push_bit k 1) n \<longleftrightarrow> bit w n \<or> n = k \<and> k < 32" for w :: u32
  by (auto simp add: bit_or_iff bit_push_bit_iff bit_1_iff simp del: push_bit_of_1)

lemma bit_clr_one: "bit (w AND NOT (push_bit k 1)) n \<longleftrightarrow> bit w n \<and> n \<noteq> k" for w :: u32
  by (auto simp add: bit_and_iff bit_not_iff bit_push_bit_iff bit_1_iff simp del: push_bit_of_1
      dest: bit_imp_le_length)

lemma bit_three: "bit (3 :: u32) n \<longleftrightarrow> n < 2"
proof -
  have "(3 :: u32) = mask 2" by (simp add: mask_eq_exp_minus_1)
  then show ?thesis by (simp only: bit_mask_iff) auto
qed

text \<open>The drive strength field is out of the way of the single bits.\<close>

lemma drive_keep:
  fixes w :: u32
  assumes "k \<noteq> 4" "k \<noteq> 5"
  shows "take_bit 2 (drop_bit 4 (w OR push_bit k 1)) = take_bit 2 (drop_bit 4 w)"
    and "take_bit 2 (drop_bit 4 (w AND NOT (push_bit k 1))) = take_bit 2 (drop_bit 4 w)"
proof -
  have keep: "n < 2 \<Longrightarrow> 4 + n \<noteq> k" for n using assms by (auto simp: less_2_cases_iff)
  show "take_bit 2 (drop_bit 4 (w OR push_bit k 1)) = take_bit 2 (drop_bit 4 w)"
    "take_bit 2 (drop_bit 4 (w AND NOT (push_bit k 1))) = take_bit 2 (drop_bit 4 w)"
    by (intro bit_word_eqI, simp only: bit_take_bit_iff bit_drop_bit_eq o_def bit_set_one
        bit_clr_one, use keep in blast)+
qed

lemma drive_bits:
  "take_bit 2 (drop_bit 4 (w OR push_bit 0 1)) = take_bit 2 (drop_bit 4 w)"
  "take_bit 2 (drop_bit 4 (w OR push_bit 1 1)) = take_bit 2 (drop_bit 4 w)"
  "take_bit 2 (drop_bit 4 (w AND NOT (push_bit 0 1))) = take_bit 2 (drop_bit 4 w)"
  "take_bit 2 (drop_bit 4 (w AND NOT (push_bit 1 1))) = take_bit 2 (drop_bit 4 w)" for w :: u32
  by (rule drive_keep; simp)+

lemma pad_of_set [simp]:
  "pad_of (w OR PADS_SLEWFAST) = (pad_of w)\<lparr>pc_slew_fast := True\<rparr>"
  "pad_of (w OR PADS_SCHMITT) = (pad_of w)\<lparr>pc_schmitt := True\<rparr>"
  "pad_of (w OR PADS_PDE) = (pad_of w)\<lparr>pc_pull_down := True\<rparr>"
  "pad_of (w OR PADS_PUE) = (pad_of w)\<lparr>pc_pull_up := True\<rparr>"
  "pad_of (w OR PADS_IE) = (pad_of w)\<lparr>pc_input := True\<rparr>"
  "pad_of (w OR PADS_OD) = (pad_of w)\<lparr>pc_output_off := True\<rparr>"
  unfolding pad_of_def pad_bits bit_set_one drive_bits
  by (simp_all add: drive_keep del: push_bit_of_1 take_bit_or take_bit_and drop_bit_or drop_bit_and)

lemma pad_of_clr [simp]:
  "pad_of (w AND NOT PADS_SLEWFAST) = (pad_of w)\<lparr>pc_slew_fast := False\<rparr>"
  "pad_of (w AND NOT PADS_SCHMITT) = (pad_of w)\<lparr>pc_schmitt := False\<rparr>"
  "pad_of (w AND NOT PADS_PDE) = (pad_of w)\<lparr>pc_pull_down := False\<rparr>"
  "pad_of (w AND NOT PADS_PUE) = (pad_of w)\<lparr>pc_pull_up := False\<rparr>"
  "pad_of (w AND NOT PADS_IE) = (pad_of w)\<lparr>pc_input := False\<rparr>"
  "pad_of (w AND NOT PADS_OD) = (pad_of w)\<lparr>pc_output_off := False\<rparr>"
  unfolding pad_of_def pad_bits bit_clr_one drive_bits
  by (simp_all add: drive_keep del: push_bit_of_1 take_bit_or take_bit_and drop_bit_or drop_bit_and)

lemma pad_of_pulls [simp]:
  "pad_of (w OR (PADS_PUE OR PADS_PDE)) = (pad_of w)\<lparr>pc_pull_up := True, pc_pull_down := True\<rparr>"
  "pad_of (w AND NOT (PADS_PUE OR PADS_PDE)) =
     (pad_of w)\<lparr>pc_pull_up := False, pc_pull_down := False\<rparr>"
  by (simp_all add: or.assoc [symmetric] and.assoc [symmetric] bit.de_Morgan_disj)

lemma bit_drive_mask: "bit PADS_DRIVE_MASK n \<longleftrightarrow> n = 4 \<or> n = 5"
  unfolding PADS_DRIVE_MASK_def bit_push_bit_iff bit_three by auto

lemma pad_of_drive [simp]:
  "pad_of ((w AND NOT PADS_DRIVE_MASK) OR (push_bit (unat PADS_DRIVE_LSB) v AND PADS_DRIVE_MASK)) =
     (pad_of w)\<lparr>pc_drive := take_bit 2 v\<rparr>"
proof -
  have "take_bit 2 (drop_bit 4 ((w AND NOT PADS_DRIVE_MASK) OR
      (push_bit (unat PADS_DRIVE_LSB) v AND PADS_DRIVE_MASK))) = take_bit 2 v"
    by (intro bit_word_eqI) (auto simp: bit_take_bit_iff bit_drop_bit_eq bit_or_iff bit_and_iff
        bit_not_iff bit_push_bit_iff bit_drive_mask less_2_cases_iff PADS_DRIVE_LSB_def)
  then show ?thesis
    by (simp add: pad_of_def bit_or_iff bit_and_iff bit_not_iff bit_drive_mask)
qed

section \<open>Pads refine pin settings\<close>

text \<open>Over the addresses of a known chip, by evaluation.\<close>

definition pads :: "chip \<Rightarrow> u32 list" where
  "pads C = map (pin_pad C) [0..<30]"

lemma length_pads [simp]: "length (pads C) = 30"
  by (simp add: pads_def)

lemma nth_pads [simp]: "N < 30 \<Longrightarrow> pads C ! N = pin_pad C N"
  by (simp add: pads_def)

lemma pads_list:
  "known_chip C \<Longrightarrow> pads C = map (\<lambda>N. chip_PADS_BANK0_BASE C + N)
     [0x4, 0x8, 0xC, 0x10, 0x14, 0x18, 0x1C, 0x20, 0x24, 0x28, 0x2C, 0x30, 0x34, 0x38, 0x3C, 0x40,
      0x44, 0x48, 0x4C, 0x50, 0x54, 0x58, 0x5C, 0x60, 0x64, 0x68, 0x6C, 0x70, 0x74, 0x78]"
proof -
  have "[0..<30] = [0, 1, 2, 3, 4, 5, 6, 7, 8, 9, 10, 11, 12, 13, 14, 15, 16, 17, 18, 19, 20, 21, 22,
    23, 24, 25, 26, 27, 28, 29]" by code_simp
  then show ?thesis by (simp add: pads_def pin_pad_def)
qed

lemma pads_base: "known_chip C \<Longrightarrow>
    chip_PADS_BANK0_BASE C = 0x4001C000 \<or> chip_PADS_BANK0_BASE C = 0x40038000"
  by (auto simp: known_chip_def RP2040_def RP2350_def)

lemma pads_distinct: "known_chip C \<Longrightarrow> distinct (pads C)"
  unfolding pads_list distinct_map by (simp add: inj_on_def)

lemma pads_reg: "known_chip C \<Longrightarrow> list_all reg_addr (pads C)"
  by (frule pads_base, elim disjE) (simp_all add: pads_list reg_addr_range)

lemma pads_base_addr: "known_chip C \<Longrightarrow> list_all (\<lambda>a. a AND 0x3000 = 0) (pads C)"
  by (frule pads_base, elim disjE) (simp_all add: pads_list)

text \<open>The settings of all pads.\<close>

definition pad_cfgs :: "chip \<Rightarrow> (u32 \<Rightarrow> u32) \<Rightarrow> pad_cfg list" where
  "pad_cfgs C regs = map (\<lambda>a. pad_of (regs a)) (pads C)"

lemma length_pad_cfgs [simp]: "length (pad_cfgs C regs) = 30"
  by (simp add: pad_cfgs_def)

lemma nth_pad_cfgs [simp]: "N < 30 \<Longrightarrow> pad_cfgs C regs ! N = pad_of (regs (pin_pad C N))"
  by (simp add: pad_cfgs_def)

lemma pad_cfgs_update:
  assumes "known_chip C" and "N < 30"
  shows "pad_cfgs C (regs(pin_pad C N := w)) = (pad_cfgs C regs)[N := pad_of w]"
proof (rule nth_equalityI)
  fix k
  assume k: "k < length (pad_cfgs C (regs(pin_pad C N := w)))"
  have "pin_pad C k = pin_pad C N \<longleftrightarrow> k = N"
    using nth_eq_iff_index_eq [OF pads_distinct [OF assms(1)], of k N] k assms(2) by simp
  then show "pad_cfgs C (regs(pin_pad C N := w)) ! k = (pad_cfgs C regs)[N := pad_of w] ! k"
    using k assms(2) by (simp add: nth_list_update)
qed simp

lemma pad_member:
  assumes "known_chip C" and "N < 30"
  shows "pin_pad C N \<in> set (pads C)" and "reg_addr (pin_pad C N)"
proof -
  show inR: "pin_pad C N \<in> set (pads C)"
    using assms(2) nth_mem [of N "pads C"] by simp
  then show "reg_addr (pin_pad C N)" using pads_reg [OF assms(1)] by (simp add: list_all_iff)
qed

text \<open>One operation.\<close>

lemma pad_run_step:
  assumes "alias_bank D (set (pads C)) regs" and "known_chip C" and "N < 30"
  shows "pad_cfgs C (regs (dev (pad_run C D (N, p) s))) =
      (pad_cfgs C (regs (dev s)))[N := pad_step p (pad_cfgs C (regs (dev s)) ! N)]"
    and "ram (pad_run C D (N, p) s) = ram s"
proof -
  note pad = pad_member [OF assms(2,3)]
  note ops = bank_ops [OF assms(1) pad] bank_ram [OF pad(2)] pad_cfgs_update [OF assms(2,3)]
    pull_up_def pull_down_def pull_none_def bus_keep_def set_drive_def
    schmitt_def slew_fast_def input_enable_def output_disable_def
  show "pad_cfgs C (regs (dev (pad_run C D (N, p) s))) =
      (pad_cfgs C (regs (dev s)))[N := pad_step p (pad_cfgs C (regs (dev s)) ! N)]"
    using assms(3) by (cases p) (simp_all add: ops Let_def del: bit.de_Morgan_disj)
  show "ram (pad_run C D (N, p) s) = ram s"
    by (cases p) (simp_all add: ops Let_def)
qed

definition pads_step :: "nat \<times> pad_op \<Rightarrow> pad_cfg list \<Rightarrow> pad_cfg list" where
  "pads_step = (\<lambda>(N, p) ps. ps[N := pad_step p (ps ! N)])"

lemma pad_runs_ram:
  "alias_bank D (set (pads C)) regs \<Longrightarrow> known_chip C \<Longrightarrow> list_all (\<lambda>(N, p). N < 30) ops \<Longrightarrow>
     ram (fold (pad_run C D) ops s) = ram s"
  by (induction ops arbitrary: s) (auto simp: pad_run_step(2))

lemma pad_runs_cfgs:
  "alias_bank D (set (pads C)) regs \<Longrightarrow> known_chip C \<Longrightarrow> list_all (\<lambda>(N, p). N < 30) ops \<Longrightarrow>
     pad_cfgs C (regs (dev (fold (pad_run C D) ops s))) =
     fold pads_step ops (pad_cfgs C (regs (dev s)))"
  by (induction ops arbitrary: s) (auto simp: pad_run_step(1) pads_step_def)

section \<open>Direction and level\<close>

text \<open>
  The SIO block: an output and an output-enable register, each with addresses that set, clear
  and toggle bits. Writes to the pads leave both alone.
\<close>

definition sio_block :: "chip \<Rightarrow> 'd device \<Rightarrow> ('d \<Rightarrow> u32) \<Rightarrow> ('d \<Rightarrow> u32) \<Rightarrow> bool" where
  "sio_block C D out oe \<longleftrightarrow>
     (\<forall>d v. out (dwrite D d (chip_SIO_GPIO_OUT_SET C) v) = out d OR v \<and>
        out (dwrite D d (chip_SIO_GPIO_OUT_CLR C) v) = out d AND NOT v \<and>
        out (dwrite D d (chip_SIO_GPIO_OUT_XOR C) v) = out d XOR v \<and>
        oe (dwrite D d (chip_SIO_GPIO_OE_SET C) v) = oe d OR v \<and>
        oe (dwrite D d (chip_SIO_GPIO_OE_CLR C) v) = oe d AND NOT v) \<and>
     (\<forall>d v. \<forall>a\<in>{chip_SIO_GPIO_OUT_SET C, chip_SIO_GPIO_OUT_CLR C, chip_SIO_GPIO_OUT_XOR C}.
        oe (dwrite D d a v) = oe d) \<and>
     (\<forall>d v. \<forall>a\<in>{chip_SIO_GPIO_OE_SET C, chip_SIO_GPIO_OE_CLR C}. out (dwrite D d a v) = out d) \<and>
     (\<forall>d v. \<forall>a\<in>set (pads C). \<forall>k\<in>{SET_ALIAS, CLR_ALIAS}.
        out (dwrite D d (a + k) v) = out d \<and> oe (dwrite D d (a + k) v) = oe d) \<and>
     (\<forall>d. fst (dread D d (chip_SIO_GPIO_OUT C)) = out d \<and> fst (dread D d (chip_SIO_GPIO_OE C)) = oe d)"

datatype sio_op = High | Low | Toggle | Level bool | MakeOutput | MakeInput

fun sio_run :: "chip \<Rightarrow> 'd device \<Rightarrow> nat \<times> sio_op \<Rightarrow> 'd mach \<Rightarrow> 'd mach" where
  "sio_run C D (N, High) = pin_high C D N"
| "sio_run C D (N, Low) = pin_low C D N"
| "sio_run C D (N, Toggle) = toggle C D N"
| "sio_run C D (N, Level b) = pin_write C D N b"
| "sio_run C D (N, MakeOutput) = make_output C D N"
| "sio_run C D (N, MakeInput) = make_input C D N"

text \<open>The level driven on a pin and whether it is an output.\<close>

fun sio_step :: "sio_op \<Rightarrow> bool \<times> bool \<Rightarrow> bool \<times> bool" where
  "sio_step High (l, e) = (True, e)"
| "sio_step Low (l, e) = (False, e)"
| "sio_step Toggle (l, e) = (\<not> l, e)"
| "sio_step (Level b) (l, e) = (b, e)"
| "sio_step MakeOutput (l, e) = (l, True)"
| "sio_step MakeInput (l, e) = (l, False)"

definition pin_state :: "u32 \<Rightarrow> u32 \<Rightarrow> nat \<Rightarrow> bool \<times> bool" where
  "pin_state out oe N = (bit out N, bit oe N)"

lemma pin_mask_bit:
  "bit (w OR pin_mask N) k \<longleftrightarrow> bit w k \<or> k = N \<and> N < 32"
  "bit (w AND NOT (pin_mask N)) k \<longleftrightarrow> bit w k \<and> k \<noteq> N"
  "bit (w XOR pin_mask N) k \<longleftrightarrow> bit w k \<noteq> (k = N \<and> N < 32)"
  "w AND pin_mask N \<noteq> 0 \<longleftrightarrow> bit w N"
proof -
  show "bit (w XOR pin_mask N) k \<longleftrightarrow> bit w k \<noteq> (k = N \<and> N < 32)"
    unfolding pin_mask_def by (simp only: bit_xor_iff bit_push_bit_iff bit_1_iff) auto
  show "w AND pin_mask N \<noteq> 0 \<longleftrightarrow> bit w N"
    unfolding pin_mask_def by (simp only: bit_iff_and_push_bit_not_eq_0)
  show "bit (w OR pin_mask N) k \<longleftrightarrow> bit w k \<or> k = N \<and> N < 32"
    "bit (w AND NOT (pin_mask N)) k \<longleftrightarrow> bit w k \<and> k \<noteq> N"
    unfolding pin_mask_def bit_set_one bit_clr_one by auto
qed

lemma sio_regs:
  assumes "known_chip C"
  shows "\<not> in_sram (chip_SIO_GPIO_OUT_SET C)" "\<not> in_sram (chip_SIO_GPIO_OUT_CLR C)"
    "\<not> in_sram (chip_SIO_GPIO_OUT_XOR C)" "\<not> in_sram (chip_SIO_GPIO_OE_SET C)"
    "\<not> in_sram (chip_SIO_GPIO_OE_CLR C)" "\<not> in_sram (chip_SIO_GPIO_OUT C)"
    "\<not> in_sram (chip_SIO_GPIO_OE C)"
  using assms by (auto simp: known_chip_def RP2040_def RP2350_def sram_eval)

lemma sio_run_step:
  assumes "sio_block C D out oe" and "known_chip C" and "N < 30" and "M < 30"
  shows "pin_state (out (dev (sio_run C D (N, p) s))) (oe (dev (sio_run C D (N, p) s))) M =
      (if M = N then sio_step p else id) (pin_state (out (dev s)) (oe (dev s)) M)"
    and "ram (sio_run C D (N, p) s) = ram s"
proof -
  note pad = pad_member [OF assms(2,3)]
  note defs = pin_high_def pin_low_def toggle_def pin_write_def make_output_def make_input_def
    input_enable_def write32_set_def write32_clr_def
  show "pin_state (out (dev (sio_run C D (N, p) s))) (oe (dev (sio_run C D (N, p) s))) M =
      (if M = N then sio_step p else id) (pin_state (out (dev s)) (oe (dev s)) M)"
    using assms(1,3,4) pad sio_regs [OF assms(2)] unfolding sio_block_def
    by (cases p) (simp_all add: defs Let_def wr_dev reg_addr_def pin_state_def pin_mask_bit)
  show "ram (sio_run C D (N, p) s) = ram s"
    using pad sio_regs [OF assms(2)]
    by (cases p) (simp_all add: defs Let_def wr_dev reg_addr_def)
qed

definition pin_states :: "u32 \<Rightarrow> u32 \<Rightarrow> (bool \<times> bool) list" where
  "pin_states out oe = map (pin_state out oe) [0..<30]"

definition pins_step :: "nat \<times> sio_op \<Rightarrow> (bool \<times> bool) list \<Rightarrow> (bool \<times> bool) list" where
  "pins_step = (\<lambda>(N, p) ps. ps[N := sio_step p (ps ! N)])"

lemma sio_runs:
  assumes "sio_block C D out oe" and "known_chip C"
  shows "list_all (\<lambda>(N, p). N < 30) ops \<Longrightarrow>
     pin_states (out (dev (fold (sio_run C D) ops s))) (oe (dev (fold (sio_run C D) ops s))) =
     fold pins_step ops (pin_states (out (dev s)) (oe (dev s)))"
    and "list_all (\<lambda>(N, p). N < 30) ops \<Longrightarrow> ram (fold (sio_run C D) ops s) = ram s"
proof (induction ops arbitrary: s)
  case (Cons q ops)
  obtain N p where q: "q = (N, p)" by (cases q)
  {
    case 1
    then have "N < 30" by (simp add: q)
    then have "pin_states (out (dev (sio_run C D q s))) (oe (dev (sio_run C D q s))) =
        pins_step q (pin_states (out (dev s)) (oe (dev s)))"
      unfolding q by (intro nth_equalityI)
        (simp_all add: pin_states_def pins_step_def sio_run_step [OF assms] nth_list_update)
    then show ?case using Cons.IH(1) 1 by simp
  next
    case 2
    then show ?case using Cons.IH(2) by (auto simp: q sio_run_step(2) [OF assms])
  }
qed simp_all

section \<open>Events of one pin\<close>

text \<open>
  The event registers hold four bits for each of eight pins. A write to the raw register clears
  the latched edge bits it names, the enable register has the atomic aliases, and the status
  register is the raw one masked by the enables.
\<close>

definition event_bank ::
  "chip \<Rightarrow> 'd device \<Rightarrow> ('d \<Rightarrow> nat \<Rightarrow> u32) \<Rightarrow> ('d \<Rightarrow> nat \<Rightarrow> u32) \<Rightarrow> bool" where
  "event_bank C D raw en \<longleftrightarrow>
     (\<forall>N<30. \<forall>d v.
        raw (dwrite D d (pin_intr C N) v) = (raw d)(N div 8 := raw d (N div 8) AND NOT (v AND 0xCCCCCCCC)) \<and>
        en (dwrite D d (pin_intr C N) v) = en d \<and>
        en (dwrite D d (pin_inte C N + SET_ALIAS) v) = (en d)(N div 8 := en d (N div 8) OR v) \<and>
        raw (dwrite D d (pin_inte C N + SET_ALIAS) v) = raw d \<and>
        en (dwrite D d (pin_inte C N + CLR_ALIAS) v) = (en d)(N div 8 := en d (N div 8) AND NOT v) \<and>
        raw (dwrite D d (pin_inte C N + CLR_ALIAS) v) = raw d \<and>
        fst (dread D d (pin_intr C N)) = raw d (N div 8) \<and>
        fst (dread D d (pin_ints C N)) = raw d (N div 8) AND en d (N div 8))"

text \<open>The four bits of pin \<open>N\<close>.\<close>

definition pin_bits :: "(nat \<Rightarrow> u32) \<Rightarrow> nat \<Rightarrow> u32" where
  "pin_bits regs N = take_bit 4 (drop_bit (event_shift N) (regs (N div 8)))"

lemma bit_pin_bits: "bit (pin_bits regs N) j \<longleftrightarrow> j < 4 \<and> bit (regs (N div 8)) (4 * (N mod 8) + j)"
  by (auto simp: pin_bits_def bit_take_bit_iff bit_drop_bit_eq event_shift_def)

lemma event_all: "x AND EVENT_ALL = take_bit 4 x"
proof -
  have "EVENT_ALL = mask 4" by (simp add: EVENT_ALL_def mask_eq_exp_minus_1)
  then show ?thesis by (simp add: take_bit_eq_mask)
qed

lemma bit_event_mask:
  "bit (push_bit (event_shift N) (m AND EVENT_ALL)) k \<longleftrightarrow>
     4 * (N mod 8) \<le> k \<and> k < 4 * (N mod 8) + 4 \<and> bit m (k - 4 * (N mod 8))"
proof -
  have "4 * (N mod 8) + 4 \<le> 32" by presburger
  then show ?thesis
    by (auto simp add: event_all bit_push_bit_iff bit_take_bit_iff event_shift_def)
qed

lemma edge_bits: "j < 32 \<Longrightarrow> bit (0xCCCCCCCC :: u32) j \<longleftrightarrow> 2 \<le> j mod 4"
proof -
  have "list_all (\<lambda>j. bit (0xCCCCCCCC :: u32) j = (2 \<le> j mod 4)) [0..<32]" by code_simp
  then show "j < 32 \<Longrightarrow> ?thesis" by (simp add: list_all_iff)
qed

text \<open>Two pins share a register only with different places in it.\<close>

lemma pin_bits_update:
  "pin_bits (regs(N div 8 := regs (N div 8) OR push_bit (event_shift N) (m AND EVENT_ALL))) M =
     (if M = N then pin_bits regs M OR take_bit 4 m else pin_bits regs M)"
  "pin_bits (regs(N div 8 := regs (N div 8) AND NOT (push_bit (event_shift N) (m AND EVENT_ALL)))) M =
     (if M = N then pin_bits regs M AND NOT m else pin_bits regs M)"
  "pin_bits (regs(N div 8 := regs (N div 8) AND
        NOT (push_bit (event_shift N) (m AND EVENT_ALL) AND 0xCCCCCCCC))) M =
     (if M = N then pin_bits regs M AND NOT (m AND 0xC) else pin_bits regs M)"
proof -
  define e where "e = push_bit (event_shift N) (m AND EVENT_ALL)"
  note e = bit_event_mask [of N m, folded e_def]
  have other: "\<not> (4 * (N mod 8) \<le> 4 * (M mod 8) + j \<and> 4 * (M mod 8) + j < 4 * (N mod 8) + 4)"
    if "M \<noteq> N" "M div 8 = N div 8" "j < 4" for j
  proof -
    have "M mod 8 \<noteq> N mod 8" using that(1,2) by (metis div_mult_mod_eq)
    then show ?thesis using that(3) by linarith
  qed
  have in32: "4 * (M mod 8) + j < 32" if "j < 4" for j using that by presburger
  have edges: "bit (0xCCCCCCCC :: u32) (4 * (N mod 8) + j) = bit (0xC :: u32) j" if "j < 4" for j
  proof -
    have "N mod 8 \<le> 7" by simp
    then have "4 * (N mod 8) + j < 32" using that by linarith
    moreover have "(4 * (N mod 8) + j) mod 4 = j" using that by simp
    moreover have "list_all (\<lambda>j. bit (0xC :: u32) j = (2 \<le> j)) [0..<4]" by code_simp
    ultimately show ?thesis
      using that edge_bits [of "4 * (N mod 8) + j"] by (simp add: list_all_iff)
  qed
  show "pin_bits (regs(N div 8 := regs (N div 8) OR push_bit (event_shift N) (m AND EVENT_ALL))) M =
     (if M = N then pin_bits regs M OR take_bit 4 m else pin_bits regs M)"
    unfolding e_def [symmetric] by (rule bit_word_eqI)
       (use other in32 in \<open>auto simp: bit_pin_bits bit_or_iff e bit_take_bit_iff\<close>)
  show "pin_bits (regs(N div 8 := regs (N div 8) AND NOT (push_bit (event_shift N) (m AND EVENT_ALL)))) M =
     (if M = N then pin_bits regs M AND NOT m else pin_bits regs M)"
    unfolding e_def [symmetric] by (rule bit_word_eqI)
       (use other in32 in \<open>auto simp: bit_pin_bits bit_and_iff bit_not_iff e\<close>)
  show "pin_bits (regs(N div 8 := regs (N div 8) AND
        NOT (push_bit (event_shift N) (m AND EVENT_ALL) AND 0xCCCCCCCC))) M =
     (if M = N then pin_bits regs M AND NOT (m AND 0xC) else pin_bits regs M)"
    unfolding e_def [symmetric] by (rule bit_word_eqI)
       (use other in32 edges in \<open>auto simp add: bit_pin_bits bit_and_iff bit_not_iff e
          simp del: bit.de_Morgan_conj\<close>)
qed

lemma event_regs:
  assumes "N < 30"
  shows "\<not> in_sram (pin_intr RP2040 N)" "\<not> in_sram (pin_ints RP2040 N)"
    "\<not> in_sram (pin_inte RP2040 N + SET_ALIAS)" "\<not> in_sram (pin_inte RP2040 N + CLR_ALIAS)"
proof -
  have "N div 8 \<in> {0, 1, 2, 3}" using assms by auto
  then show "\<not> in_sram (pin_intr RP2040 N)" "\<not> in_sram (pin_ints RP2040 N)"
    "\<not> in_sram (pin_inte RP2040 N + SET_ALIAS)" "\<not> in_sram (pin_inte RP2040 N + CLR_ALIAS)"
    by (auto simp: pin_intr_def pin_ints_def pin_inte_def RP2040_def sram_eval alias_defs)
qed

lemma event_ops:
  assumes "event_bank RP2040 D raw en" and "N < 30"
  shows "fst (pin_events RP2040 D N s) = pin_bits (raw (dev s)) N"
    and "fst (irq_status RP2040 D N s) = pin_bits (raw (dev s)) N AND pin_bits (en (dev s)) N"
    and "pin_bits (en (dev (irq_enable RP2040 D N m s))) M =
      (if M = N then pin_bits (en (dev s)) M OR take_bit 4 m else pin_bits (en (dev s)) M)"
    and "pin_bits (en (dev (irq_disable RP2040 D N m s))) M =
      (if M = N then pin_bits (en (dev s)) M AND NOT m else pin_bits (en (dev s)) M)"
    and "pin_bits (raw (dev (ack_events RP2040 D N m s))) M =
      (if M = N then pin_bits (raw (dev s)) M AND NOT (m AND 0xC) else pin_bits (raw (dev s)) M)"
    and "en (dev (ack_events RP2040 D N m s)) = en (dev s)"
    and "raw (dev (irq_enable RP2040 D N m s)) = raw (dev s)"
    and "raw (dev (irq_disable RP2040 D N m s)) = raw (dev s)"
proof -
  note bank = assms(1) [unfolded event_bank_def, rule_format, OF assms(2)]
  note regs = event_regs [OF assms(2)]
  show "fst (pin_events RP2040 D N s) = pin_bits (raw (dev s)) N"
    "fst (irq_status RP2040 D N s) = pin_bits (raw (dev s)) N AND pin_bits (en (dev s)) N"
    using bank regs by (simp_all add: pin_events_def irq_status_def rd_dev event_all pin_bits_def)
  have e: "en (dev (irq_enable RP2040 D N m s)) = (en (dev s))
      (N div 8 := en (dev s) (N div 8) OR push_bit (event_shift N) (m AND EVENT_ALL))"
    and d: "en (dev (irq_disable RP2040 D N m s)) = (en (dev s))
      (N div 8 := en (dev s) (N div 8) AND NOT (push_bit (event_shift N) (m AND EVENT_ALL)))"
    and a: "raw (dev (ack_events RP2040 D N m s)) = (raw (dev s))(N div 8 := raw (dev s) (N div 8) AND
      NOT (push_bit (event_shift N) (m AND EVENT_ALL) AND 0xCCCCCCCC))"
    using bank regs
    by (simp_all add: irq_enable_def irq_disable_def ack_events_def write32_set_def write32_clr_def
        wr_dev)
  show "pin_bits (en (dev (irq_enable RP2040 D N m s))) M =
      (if M = N then pin_bits (en (dev s)) M OR take_bit 4 m else pin_bits (en (dev s)) M)"
    unfolding e by (rule pin_bits_update)
  show "pin_bits (en (dev (irq_disable RP2040 D N m s))) M =
      (if M = N then pin_bits (en (dev s)) M AND NOT m else pin_bits (en (dev s)) M)"
    unfolding d by (rule pin_bits_update)
  show "pin_bits (raw (dev (ack_events RP2040 D N m s))) M =
      (if M = N then pin_bits (raw (dev s)) M AND NOT (m AND 0xC) else pin_bits (raw (dev s)) M)"
    unfolding a by (rule pin_bits_update)
  show "en (dev (ack_events RP2040 D N m s)) = en (dev s)"
    "raw (dev (irq_enable RP2040 D N m s)) = raw (dev s)"
    "raw (dev (irq_disable RP2040 D N m s)) = raw (dev s)"
    using bank regs
    by (simp_all add: irq_enable_def irq_disable_def ack_events_def write32_set_def write32_clr_def
        wr_dev)
qed

text \<open>An event block to run on: the raw and the enable registers.\<close>

definition event_device :: "((nat \<Rightarrow> u32) \<times> (nat \<Rightarrow> u32)) device" where
  "event_device =
     \<lparr>dread = \<lambda>(r, e) a.
        (if 0x400140F0 \<le> a \<and> a < 0x40014100 then r (unat (a - 0x400140F0) div 4)
         else r (unat (a - 0x40014120) div 4) AND e (unat (a - 0x40014120) div 4), (r, e)),
      dwrite = \<lambda>(r, e) a v.
        if 0x400140F0 \<le> a \<and> a < 0x40014100
        then (let k = unat (a - 0x400140F0) div 4 in (r(k := r k AND NOT (v AND 0xCCCCCCCC)), e))
        else if 0x40016100 \<le> a \<and> a < 0x40016110
        then (let k = unat (a - 0x40016100) div 4 in (r, e(k := e k OR v)))
        else (let k = unat (a - 0x40017100) div 4 in (r, e(k := e k AND NOT v)))\<rparr>"

lemma event_device_bank: "event_bank RP2040 event_device fst snd"
  unfolding event_bank_def
proof (intro allI impI)
  fix N :: nat and d :: "(nat \<Rightarrow> u32) \<times> (nat \<Rightarrow> u32)" and v :: u32
  assume "N < 30"
  then have "N div 8 < 4" by simp
  then consider "N div 8 = 0" | "N div 8 = 1" | "N div 8 = 2" | "N div 8 = 3" by linarith
  then show "fst (dwrite event_device d (pin_intr RP2040 N) v) =
       (fst d)(N div 8 := fst d (N div 8) AND NOT (v AND 0xCCCCCCCC)) \<and>
     snd (dwrite event_device d (pin_intr RP2040 N) v) = snd d \<and>
     snd (dwrite event_device d (pin_inte RP2040 N + SET_ALIAS) v) =
       (snd d)(N div 8 := snd d (N div 8) OR v) \<and>
     fst (dwrite event_device d (pin_inte RP2040 N + SET_ALIAS) v) = fst d \<and>
     snd (dwrite event_device d (pin_inte RP2040 N + CLR_ALIAS) v) =
       (snd d)(N div 8 := snd d (N div 8) AND NOT v) \<and>
     fst (dwrite event_device d (pin_inte RP2040 N + CLR_ALIAS) v) = fst d \<and>
     fst (dread event_device d (pin_intr RP2040 N)) = fst d (N div 8) \<and>
     fst (dread event_device d (pin_ints RP2040 N)) = fst d (N div 8) AND snd d (N div 8)"
    by cases (simp_all add: event_device_def pin_intr_def pin_inte_def pin_ints_def RP2040_def
        alias_defs Let_def split_beta)
qed

section \<open>Properties\<close>

text \<open>C30: The pad calls implement pin settings: on registers with the atomic aliases, any sequence of
  pull, drive, Schmitt, slew, input-enable and output-disable calls on any pins leaves every pin
  with exactly the settings the calls say, one record update each, in the order of the calls; no
  call touches a setting it does not name, another pin or the memory.\<close>

theorem pad_calls_refine_settings:
  assumes "alias_bank D (set (pads C)) regs" and "known_chip C"
    and "list_all (\<lambda>(N, p). N < 30) ops"
  shows "pad_cfgs C (regs (dev (fold (pad_run C D) ops s))) =
      fold pads_step ops (pad_cfgs C (regs (dev s))) \<and>
    ram (fold (pad_run C D) ops s) = ram s"
  using pad_runs_cfgs [OF assms] pad_runs_ram [OF assms] by simp

theorem pad_calls_refine_settings_witness:
  "pad_cfgs RP2350 (dev (fold (pad_run RP2350 alias_device)
     [(15, PullUp), (15, SetDrive 3), (2, PullNone), (15, PullDown)] \<lparr>ram = \<lambda>_. 0, dev = \<lambda>_. 0x5A\<rparr>)) ! 15
   = pad_of 0x76"
proof -
  have "alias_bank alias_device (set (pads RP2350)) (\<lambda>d. d)"
    by (rule alias_device_bank) (rule pads_base_addr, simp add: known_chip_def)
  from pad_calls_refine_settings [OF this, of "[(15, PullUp), (15, SetDrive 3), (2, PullNone),
    (15, PullDown)]" "\<lparr>ram = \<lambda>_. 0, dev = \<lambda>_. 0x5A\<rparr>"]
  show ?thesis by (simp add: known_chip_def pads_step_def pad_of_def)
qed

text \<open>C35: Each pin has its own events: enabling, disabling and acknowledging events of one pin changes
  that pin's four bits exactly as asked, never those of a pin that shares the register; the status
  of a pin is its raw events masked by its enables; and an acknowledge clears only latched edges,
  the level bits and the enables stay.\<close>

theorem events_per_pin:
  assumes "event_bank RP2040 D raw en" and "N < 30"
  shows "fst (pin_events RP2040 D N s) = pin_bits (raw (dev s)) N \<and>
    fst (irq_status RP2040 D N s) = pin_bits (raw (dev s)) N AND pin_bits (en (dev s)) N \<and>
    pin_bits (en (dev (irq_enable RP2040 D N m s))) M =
      (if M = N then pin_bits (en (dev s)) M OR take_bit 4 m else pin_bits (en (dev s)) M) \<and>
    pin_bits (en (dev (irq_disable RP2040 D N m s))) M =
      (if M = N then pin_bits (en (dev s)) M AND NOT m else pin_bits (en (dev s)) M) \<and>
    pin_bits (raw (dev (ack_events RP2040 D N m s))) M =
      (if M = N then pin_bits (raw (dev s)) M AND NOT (m AND 0xC) else pin_bits (raw (dev s)) M) \<and>
    en (dev (ack_events RP2040 D N m s)) = en (dev s)"
  by (intro conjI event_ops [OF assms])

theorem events_per_pin_witness:
  "fst (irq_status RP2040 event_device 15
     \<lparr>ram = \<lambda>_. 0, dev = (\<lambda>_. 0xFFFFFFFF, \<lambda>_. 0x80000000)\<rparr>) = 8"
  using events_per_pin [OF event_device_bank, of 15
      "\<lparr>ram = \<lambda>_. 0, dev = (\<lambda>_. 0xFFFFFFFF, \<lambda>_. 0x80000000)\<rparr>" 0 0]
  by (simp add: pin_bits_def event_shift_def)

text \<open>The SIO calls implement pin levels and directions: any sequence of \<^verbatim>\<open>high\<close>, \<^verbatim>\<open>low\<close>,
  \<^verbatim>\<open>toggle\<close>, \<^verbatim>\<open>write\<close>, \<^verbatim>\<open>make_output\<close> and \<^verbatim>\<open>make_input\<close> calls on any pins leaves every pin with
  the level and the direction the calls say and the other pins alone, and \<^verbatim>\<open>read_output\<close> and
  \<^verbatim>\<open>is_output\<close> report exactly them.\<close>

theorem sio_calls_refine_pins:
  fixes s :: "'d mach"
  assumes "sio_block C D out oe" and "known_chip C" and "list_all (\<lambda>(N, p). N < 30) ops" and "N < 30"
  defines "t \<equiv> fold (sio_run C D) ops s"
  defines "ps \<equiv> fold pins_step ops (pin_states (out (dev s)) (oe (dev s)))"
  shows "pin_states (out (dev t)) (oe (dev t)) = ps \<and>
    fst (read_output C D N t) = fst (ps ! N) \<and> fst (is_output C D N t) = snd (ps ! N) \<and>
    ram t = ram s"
proof -
  have ps: "pin_states (out (dev t)) (oe (dev t)) = ps" and r: "ram t = ram s"
    unfolding t_def ps_def using sio_runs [OF assms(1,2,3)] by blast+
  have "ps ! N = (bit (out (dev t)) N, bit (oe (dev t)) N)"
    using assms(4) by (simp add: ps [symmetric] pin_states_def pin_state_def)
  moreover have "fst (read_output C D N t) = bit (out (dev t)) N"
    "fst (is_output C D N t) = bit (oe (dev t)) N"
    using assms(1) sio_regs [OF assms(2)]
    by (simp_all add: read_output_def is_output_def rd_dev Let_def pin_mask_bit sio_block_def)
  ultimately show ?thesis using ps r by simp
qed

text \<open>An SIO block to run on.\<close>

definition sio_device :: "chip \<Rightarrow> (u32 \<times> u32) device" where
  "sio_device C =
     \<lparr>dread = \<lambda>(l, e) a. (if a = chip_SIO_GPIO_OUT C then l else e, (l, e)),
      dwrite = \<lambda>(l, e) a v.
        if a = chip_SIO_GPIO_OUT_SET C then (l OR v, e)
        else if a = chip_SIO_GPIO_OUT_CLR C then (l AND NOT v, e)
        else if a = chip_SIO_GPIO_OUT_XOR C then (l XOR v, e)
        else if a = chip_SIO_GPIO_OE_SET C then (l, e OR v)
        else if a = chip_SIO_GPIO_OE_CLR C then (l, e AND NOT v)
        else (l, e)\<rparr>"

lemma pads_below: "known_chip C \<Longrightarrow> list_all (\<lambda>a. a < 0x40039000) (pads C)"
  by (frule pads_base, elim disjE) (simp_all add: pads_list)

lemma sio_device_block: "known_chip C \<Longrightarrow> sio_block C (sio_device C) fst snd"
proof -
  assume C: "known_chip C"
  then have sio: "0xD0000000 \<le> chip_SIO_GPIO_OUT_SET C" "0xD0000000 \<le> chip_SIO_GPIO_OUT_CLR C"
    "0xD0000000 \<le> chip_SIO_GPIO_OUT_XOR C" "0xD0000000 \<le> chip_SIO_GPIO_OE_SET C"
    "0xD0000000 \<le> chip_SIO_GPIO_OE_CLR C"
    and ne: "distinct [chip_SIO_GPIO_OUT_SET C, chip_SIO_GPIO_OUT_CLR C, chip_SIO_GPIO_OUT_XOR C,
      chip_SIO_GPIO_OE_SET C, chip_SIO_GPIO_OE_CLR C]" "chip_SIO_GPIO_OUT C \<noteq> chip_SIO_GPIO_OE C"
    by (auto simp: known_chip_def RP2040_def RP2350_def)
  have pad: "a + k < 0xD0000000" if "a \<in> set (pads C)" "k \<in> {SET_ALIAS, CLR_ALIAS}" for a k
  proof -
    have "unat a < 0x40039000"
      using pads_below [OF C] that(1) by (simp add: list_all_iff word_less_nat_alt)
    then show ?thesis using that(2) by (auto simp: word_less_nat_alt unat_word_ariths alias_defs)
  qed
  have "dwrite (sio_device C) d (a + k) v = d" if "a \<in> set (pads C)" "k \<in> {SET_ALIAS, CLR_ALIAS}" for a k d v
    using pad [OF that] sio by (auto simp: sio_device_def split_beta)
  then show ?thesis
    using ne by (auto simp: sio_block_def sio_device_def split_beta)
qed

theorem sio_calls_refine_pins_witness:
  "fst (read_output RP2350 (sio_device RP2350) 25 (fold (sio_run RP2350 (sio_device RP2350))
     [(25, MakeOutput), (25, Toggle), (24, High), (24, Low)] \<lparr>ram = \<lambda>_. 0, dev = (0, 0)\<rparr>))"
proof -
  have C: "known_chip RP2350" by (simp add: known_chip_def)
  have "[0..<30] ! 25 = (25 :: nat)" "[0..<30] ! 24 = (24 :: nat)" by simp_all
  with sio_calls_refine_pins [OF sio_device_block [OF C] C, of
    "[(25, MakeOutput), (25, Toggle), (24, High), (24, Low)]" 25 "\<lparr>ram = \<lambda>_. 0, dev = (0, 0)\<rparr>"]
  show ?thesis by (simp add: pins_step_def pin_states_def pin_state_def)
qed

text \<open>Pad isolation on the RP2350: \<^verbatim>\<open>make_output\<close> connects the pad, but \<^verbatim>\<open>make_input\<close> only switches
  the input buffer on. A pad that is still isolated, as every pad is after power-up, stays
  isolated, so the pin does not see its input.\<close>

theorem make_input_keeps_isolation:
  fixes s :: "'d mach"
  assumes "alias_bank D (set (pads RP2350)) regs"
    and "\<And>d v. pad_cfgs RP2350 (regs (dwrite D d (chip_SIO_GPIO_OE_CLR RP2350) v)) = pad_cfgs RP2350 (regs d)"
    and "N < 30"
  defines "t \<equiv> make_input RP2350 D N s"
  shows "pc_isolated (pad_of (regs (dev t) (pin_pad RP2350 N))) =
      pc_isolated (pad_of (regs (dev s) (pin_pad RP2350 N))) \<and>
    pc_input (pad_of (regs (dev t) (pin_pad RP2350 N))) \<and>
    \<not> pc_isolated (pad_of (regs (dev (make_output RP2350 D N s)) (pin_pad RP2350 N)))"
proof -
  have C: "known_chip RP2350" by (simp add: known_chip_def)
  note pad = pad_member [OF C assms(3)]
  define u where "u = wr D (chip_SIO_GPIO_OE_CLR RP2350) (pin_mask N) s"
  have "pad_cfgs RP2350 (regs (dev u)) ! N = pad_cfgs RP2350 (regs (dev s)) ! N"
    using sio_regs [OF C] by (simp add: u_def wr_dev assms(2))
  then have u: "pad_of (regs (dev u) (pin_pad RP2350 N)) = pad_of (regs (dev s) (pin_pad RP2350 N))"
    using assms(3) by simp
  have t: "t = write32_set D (pin_pad RP2350 N) PADS_IE u"
    by (simp add: t_def make_input_def input_enable_def u_def)
  have "\<not> bit (w AND NOT (push_bit 8 1)) 8" for w :: u32
    by (simp only: bit_clr_one) simp
  then have "\<not> pc_isolated (pad_of (w AND NOT (push_bit 8 1)))" for w
    by (simp only: pad_of_def pad_cfg.simps not_False_eq_True)
  then show ?thesis
    using u by (simp add: t bank_ops [OF assms(1) pad] make_output_def RP2350_def [THEN arg_cong [of _ _ chip_HAS_PAD_ISO]]
        del: push_bit_of_1)
qed

theorem make_input_keeps_isolation_witness:
  "pc_isolated (pad_of (dev (make_input RP2350 alias_device 15
     \<lparr>ram = \<lambda>_. 0, dev = \<lambda>_. 0x116\<rparr>) (pin_pad RP2350 15)))"
proof -
  have C: "known_chip RP2350" by (simp add: known_chip_def)
  have "alias_bank alias_device (set (pads RP2350)) (\<lambda>d. d)"
    by (rule alias_device_bank) (rule pads_base_addr [OF C])
  moreover have "pad_cfgs RP2350 (dwrite alias_device d (chip_SIO_GPIO_OE_CLR RP2350) v) =
      pad_cfgs RP2350 d" for d v
  proof -
    have "a < 0x40039000" if "a \<in> set (pads RP2350)" for a
      using pads_below [OF C] that by (simp add: list_all_iff)
    then have "alias_base 0xD0000040 \<notin> set (pads RP2350)" by (force simp: alias_base_def)
    then show ?thesis by (auto simp: pad_cfgs_def alias_device_def RP2350_def)
  qed
  ultimately show ?thesis
    using make_input_keeps_isolation [of alias_device "\<lambda>d. d" 15 "\<lparr>ram = \<lambda>_. 0, dev = \<lambda>_. 0x116\<rparr>"]
    by (simp add: pad_of_def)
qed

end
