(* ===== verification/Timer.thy ===== *)
theory Timer
  imports AliasReg Blink
begin

text \<open>
  The rest of \<^verbatim>\<open>src/pico/time.mojo\<close>, the 1 us timebase of the RP2350 and the alarm, and the
  interrupt controller calls of \<^verbatim>\<open>src/pico/irq.mojo\<close>. That a timer counts, an alarm has a target
  and the controller has an enable and a pending bit per line are predicates on the device.
\<close>

section \<open>Timebase and alarm\<close>

definition time_init :: "chip \<Rightarrow> 'd device \<Rightarrow> 'd mach \<Rightarrow> 'd mach option" where
  "time_init C D s =
     (if chip_HAS_TICKS_BLOCK C
      then do {
        let s = wr D (chip_XOSC_BASE C + 0x0C) XOSC_STARTUP_DELAY s;
        let s = wr D (chip_XOSC_BASE C + 0x00) (XOSC_CTRL_ENABLE OR XOSC_CTRL_RANGE_1_15MHZ) s;
        s \<leftarrow> poll D (chip_XOSC_BASE C + 0x04) (\<lambda>v. \<not> v AND XOSC_STATUS_STABLE = 0) s;
        let s = wr D (chip_CLOCKS_BASE C + 0x30) CLK_REF_SRC_XOSC s;
        s \<leftarrow> poll D (chip_CLOCKS_BASE C + 0x38) (\<lambda>v. v = push_bit (unat CLK_REF_SRC_XOSC) 1) s;
        let s = wr D (chip_CLOCKS_BASE C + 0x3C) CLK_SYS_SRC_CLK_REF s;
        s \<leftarrow> poll D (chip_CLOCKS_BASE C + 0x44) (\<lambda>v. v = 1) s;
        let s = write32_clr D (chip_RESETS_RESET C) (chip_RESET_TIMER C) s;
        s \<leftarrow> poll D (chip_RESETS_RESET_DONE C) (\<lambda>v. \<not> v AND chip_RESET_TIMER C = 0) s;
        let s = wr D (chip_TICKS_BASE C + 0x1C) 12 s;
        Some (wr D (chip_TICKS_BASE C + 0x18) 1 s)
      }
      else Some s)"

definition alarm0_arm :: "chip \<Rightarrow> 'd device \<Rightarrow> u32 \<Rightarrow> 'd mach \<Rightarrow> 'd mach" where
  "alarm0_arm C D us_from_now s =
     (let s = write32_set D (chip_TIMER_BASE C + chip_TIMER_INTE_OFF C) 1 s;
          (now, s) = pico_time_us C D s
      in wr D (chip_TIMER_BASE C + 0x10) (now + us_from_now) s)"

definition alarm0_ack :: "chip \<Rightarrow> 'd device \<Rightarrow> 'd mach \<Rightarrow> 'd mach" where
  "alarm0_ack C D s = wr D (chip_TIMER_BASE C + chip_TIMER_INTR_OFF C) 1 s"

section \<open>The interrupt controller\<close>

definition NVIC_ISER :: u32 where "NVIC_ISER = 0xE000E100"
definition NVIC_ICER :: u32 where "NVIC_ICER = 0xE000E180"
definition NVIC_ISPR :: u32 where "NVIC_ISPR = 0xE000E200"
definition NVIC_ICPR :: u32 where "NVIC_ICPR = 0xE000E280"

lemmas nvic_regs = NVIC_ISER_def NVIC_ICER_def NVIC_ISPR_def NVIC_ICPR_def

definition nvic_enable :: "'d device \<Rightarrow> nat \<Rightarrow> 'd mach \<Rightarrow> 'd mach" where
  "nvic_enable D irq s = wr D NVIC_ISER (push_bit irq 1) s"

definition nvic_disable :: "'d device \<Rightarrow> nat \<Rightarrow> 'd mach \<Rightarrow> 'd mach" where
  "nvic_disable D irq s = wr D NVIC_ICER (push_bit irq 1) s"

definition nvic_is_enabled :: "'d device \<Rightarrow> nat \<Rightarrow> 'd mach \<Rightarrow> bool \<times> 'd mach" where
  "nvic_is_enabled D irq s = (let (v, s) = rd D NVIC_ISER s in (v AND push_bit irq 1 \<noteq> 0, s))"

definition nvic_pend :: "'d device \<Rightarrow> nat \<Rightarrow> 'd mach \<Rightarrow> 'd mach" where
  "nvic_pend D irq s = wr D NVIC_ISPR (push_bit irq 1) s"

definition nvic_clear_pending :: "'d device \<Rightarrow> nat \<Rightarrow> 'd mach \<Rightarrow> 'd mach" where
  "nvic_clear_pending D irq s = wr D NVIC_ICPR (push_bit irq 1) s"

section \<open>Timebase\<close>

text \<open>The RP2350 answers its bring-up.\<close>

definition rp2350_answers :: "'d device \<Rightarrow> bool" where
  "rp2350_answers D \<longleftrightarrow>
     acks D 0x40048000 0xFABAA0 0x40048004 (\<lambda>v. v AND 0x80000000 \<noteq> 0) \<and>
     acks D 0x40010030 2 0x40010038 (\<lambda>v. v = 4) \<and>
     acks D 0x4001003C 0 0x40010044 (\<lambda>v. v = 1) \<and>
     acks D 0x40023000 0x800000 0x40020008 (\<lambda>v. v AND 0x800000 \<noteq> 0)"

lemma time_init_rp2350:
  "time_init RP2350 D s = do {
     let s = wr D 0x4004800C 47 s;
     s \<leftarrow> poll D 0x40048004 (\<lambda>v. v AND 0x80000000 \<noteq> 0) (wr D 0x40048000 0xFABAA0 s);
     s \<leftarrow> poll D 0x40010038 (\<lambda>v. v = 4) (wr D 0x40010030 2 s);
     s \<leftarrow> poll D 0x40010044 (\<lambda>v. v = 1) (wr D 0x4001003C 0 s);
     s \<leftarrow> poll D 0x40020008 (\<lambda>v. v AND 0x800000 \<noteq> 0) (wr D 0x40023000 0x800000 s);
     Some (wr D 0x40108018 1 (wr D 0x4010801C 12 s)) }"
  by (simp add: time_init_def RP2350_def rp2040_map Let_def write32_clr_def alias_defs)

lemma time_init_returns: "rp2350_answers D \<Longrightarrow> returns (time_init RP2350 D s) s"
  unfolding time_init_rp2350 Let_def rp2350_answers_def
  by (elim conjE, intro returns_bind returns_Some returns_poll; simp add: ram_wr sram_eval)

lemma time_init_trace:
  assumes "time_init RP2350 (logged D) s = Some t"
  shows "\<exists>w1 w2 w3 w4. log t = log s @
      [Write 0x4004800C 47, Write 0x40048000 0xFABAA0] @ w1 @
      [Write 0x40010030 2] @ w2 @ [Write 0x4001003C 0] @ w3 @
      [Write 0x40023000 0x800000] @ w4 @ [Write 0x4010801C 12, Write 0x40108018 1] \<and>
    waits 0x40048004 (\<lambda>v. v AND 0x80000000 \<noteq> 0) w1 \<and> waits 0x40010038 (\<lambda>v. v = 4) w2 \<and>
    waits 0x40010044 (\<lambda>v. v = 1) w3 \<and> waits 0x40020008 (\<lambda>v. v AND 0x800000 \<noteq> 0) w4"
proof -
  let ?D = "logged D"
  let ?s1 = "wr ?D 0x40048000 0xFABAA0 (wr ?D 0x4004800C 47 s)"
  from assms obtain t1 t2 t3 t4 where
    p1: "poll ?D 0x40048004 (\<lambda>v. v AND 0x80000000 \<noteq> 0) ?s1 = Some t1" and
    p2: "poll ?D 0x40010038 (\<lambda>v. v = 4) (wr ?D 0x40010030 2 t1) = Some t2" and
    p3: "poll ?D 0x40010044 (\<lambda>v. v = 1) (wr ?D 0x4001003C 0 t2) = Some t3" and
    p4: "poll ?D 0x40020008 (\<lambda>v. v AND 0x800000 \<noteq> 0) (wr ?D 0x40023000 0x800000 t3) = Some t4" and
    t: "t = wr ?D 0x40108018 1 (wr ?D 0x4010801C 12 t4)"
    unfolding time_init_rp2350 Let_def by (auto simp: bind_eq_Some_conv)
  from log_poll [OF p1] log_poll [OF p2] log_poll [OF p3] log_poll [OF p4] obtain w1 w2 w3 w4 where
    "log t1 = log ?s1 @ w1" "log t2 = log (wr ?D 0x40010030 2 t1) @ w2"
    "log t3 = log (wr ?D 0x4001003C 0 t2) @ w3" "log t4 = log (wr ?D 0x40023000 0x800000 t3) @ w4"
    and "waits 0x40048004 (\<lambda>v. v AND 0x80000000 \<noteq> 0) w1" "waits 0x40010038 (\<lambda>v. v = 4) w2"
    "waits 0x40010044 (\<lambda>v. v = 1) w3" "waits 0x40020008 (\<lambda>v. v AND 0x800000 \<noteq> 0) w4"
    by (auto simp: sram_eval)
  then show ?thesis
    by (intro exI [of _ w1] exI [of _ w2] exI [of _ w3] exI [of _ w4])
      (simp add: t log_wr sram_eval)
qed

text \<open>Hardware on which every status register shows its condition at once.\<close>

definition settled_device :: "unit device" where
  "settled_device = const_device (\<lambda>a.
     if a = 0x40048004 then 0x80000000 else if a = 0x40010038 then 4
     else if a = 0x40010044 then 1 else 0x800000)"

lemma settled_answers: "rp2350_answers (logged settled_device)"
  by (simp add: rp2350_answers_def settled_device_def acks_logged acks_const)

section \<open>The alarm\<close>

text \<open>
  The timer shows the time \<open>now\<close> modulo \<open>2^32\<close>, and the alarm register holds the value at which
  the alarm fires. Time passes with every access; a write of the enable register or the alarm
  changes nothing else.
\<close>

definition alarm_timer :: "chip \<Rightarrow> 'd device \<Rightarrow> ('d \<Rightarrow> nat) \<Rightarrow> ('d \<Rightarrow> u32) \<Rightarrow> bool" where
  "alarm_timer C D now target \<longleftrightarrow>
     (\<forall>d. fst (dread D d (chip_TIMER_BASE C + 0x28)) = of_nat (now d)) \<and>
     (\<forall>d v. target (dwrite D d (chip_TIMER_BASE C + 0x10) v) = v)"

text \<open>The time from now until a counter of 32 bits reaches the alarm value.\<close>

definition fires_in :: "('d \<Rightarrow> nat) \<Rightarrow> ('d \<Rightarrow> u32) \<Rightarrow> 'd \<Rightarrow> nat" where
  "fires_in now target d = unat (target d - of_nat (now d))"

lemma chip_timer:
  assumes "known_chip C"
  shows "\<not> in_sram (chip_TIMER_BASE C + 0x28)" "\<not> in_sram (chip_TIMER_BASE C + 0x10)"
    "\<not> in_sram (chip_TIMER_BASE C + chip_TIMER_INTE_OFF C + SET_ALIAS)"
    "\<not> in_sram (chip_TIMER_BASE C + chip_TIMER_INTR_OFF C)"
  using assms by (auto simp: known_chip_def RP2040_def RP2350_def sram_eval alias_defs)

lemma alarm_distance:
  fixes us :: u32
  assumes "e < 2 ^ 32"
  shows "unat (us - of_nat e) = (if e \<le> unat us then unat us - e else 2 ^ 32 + unat us - e)"
proof -
  have e: "unat (of_nat e :: u32) = e" using assms by (simp add: unat_of_nat)
  show ?thesis
  proof (cases "e \<le> unat us")
    case True
    then have "of_nat e \<le> us" by (simp only: word_le_nat_alt e)
    then show ?thesis using True e by (simp add: unat_sub)
  next
    case False
    then show ?thesis using assms by (simp add: unat_sub_if' e)
  qed
qed

section \<open>The lines of the interrupt controller\<close>

definition nvic_block :: "'d device \<Rightarrow> ('d \<Rightarrow> u32) \<Rightarrow> ('d \<Rightarrow> u32) \<Rightarrow> bool" where
  "nvic_block D en pend \<longleftrightarrow>
     (\<forall>d v. en (dwrite D d NVIC_ISER v) = en d OR v \<and> pend (dwrite D d NVIC_ISER v) = pend d \<and>
        en (dwrite D d NVIC_ICER v) = en d AND NOT v \<and> pend (dwrite D d NVIC_ICER v) = pend d \<and>
        pend (dwrite D d NVIC_ISPR v) = pend d OR v \<and> en (dwrite D d NVIC_ISPR v) = en d \<and>
        pend (dwrite D d NVIC_ICPR v) = pend d AND NOT v \<and> en (dwrite D d NVIC_ICPR v) = en d) \<and>
     (\<forall>d. fst (dread D d NVIC_ISER) = en d)"

datatype nvic_op = Enable | Disable | Pend | ClearPending

fun nvic_run :: "'d device \<Rightarrow> nat \<times> nvic_op \<Rightarrow> 'd mach \<Rightarrow> 'd mach" where
  "nvic_run D (n, Enable) = nvic_enable D n"
| "nvic_run D (n, Disable) = nvic_disable D n"
| "nvic_run D (n, Pend) = nvic_pend D n"
| "nvic_run D (n, ClearPending) = nvic_clear_pending D n"

text \<open>The enabled and the pending lines.\<close>

fun nvic_step :: "nat \<times> nvic_op \<Rightarrow> nat set \<times> nat set \<Rightarrow> nat set \<times> nat set" where
  "nvic_step (n, Enable) (E, Q) = (insert n E, Q)"
| "nvic_step (n, Disable) (E, Q) = (E - {n}, Q)"
| "nvic_step (n, Pend) (E, Q) = (E, insert n Q)"
| "nvic_step (n, ClearPending) (E, Q) = (E, Q - {n})"

definition lines :: "u32 \<Rightarrow> nat set" where
  "lines w = {n. bit w n}"

lemma lines_update:
  "n < 32 \<Longrightarrow> lines (w OR push_bit n 1) = insert n (lines w)"
  "lines (w AND NOT (push_bit n 1)) = lines w - {n}"
  unfolding lines_def bit_or_iff bit_and_iff bit_not_iff bit_push_bit_iff bit_1_iff
  by (auto dest: bit_imp_le_length)

lemma nvic_run_lines:
  assumes "nvic_block D en pend" and "n < 32"
  shows "(lines (en (dev (nvic_run D (n, p) s))), lines (pend (dev (nvic_run D (n, p) s)))) =
      nvic_step (n, p) (lines (en (dev s)), lines (pend (dev s)))"
    and "ram (nvic_run D (n, p) s) = ram s"
proof -
  note defs = nvic_enable_def nvic_disable_def nvic_pend_def nvic_clear_pending_def
  have "\<not> in_sram NVIC_ISER" "\<not> in_sram NVIC_ICER" "\<not> in_sram NVIC_ISPR" "\<not> in_sram NVIC_ICPR"
    by (simp_all add: nvic_regs sram_eval)
  then show "(lines (en (dev (nvic_run D (n, p) s))), lines (pend (dev (nvic_run D (n, p) s)))) =
      nvic_step (n, p) (lines (en (dev s)), lines (pend (dev s)))"
    and "ram (nvic_run D (n, p) s) = ram s"
    using assms unfolding nvic_block_def
    by (cases p; simp add: defs wr_dev lines_update del: push_bit_of_1)+
qed

lemma nvic_runs:
  assumes "nvic_block D en pend"
  shows "list_all (\<lambda>(n, p). n < 32) ops \<Longrightarrow>
     (lines (en (dev (fold (nvic_run D) ops s))), lines (pend (dev (fold (nvic_run D) ops s)))) =
     fold nvic_step ops (lines (en (dev s)), lines (pend (dev s)))"
    and "list_all (\<lambda>(n, p). n < 32) ops \<Longrightarrow> ram (fold (nvic_run D) ops s) = ram s"
  by (induction ops arbitrary: s) (auto simp: nvic_run_lines [OF assms])

section \<open>Properties\<close>

text \<open>The RP2350's timebase starts in the documented order and on hardware that answers it does
  start: the crystal is waited for before the reference clock is switched to it, that switch
  before the system clock's, then the timer leaves its reset, and only then are the ticks set to
  one microsecond and switched on; the memory is untouched. On the RP2040 the call does
  nothing.\<close>

theorem timebase_starts:
  assumes "rp2350_answers (logged D)"
  shows "(\<exists>t w1 w2 w3 w4. time_init RP2350 (logged D) s = Some t \<and> ram t = ram s \<and> log t = log s @
      [Write 0x4004800C 47, Write 0x40048000 0xFABAA0] @ w1 @
      [Write 0x40010030 2] @ w2 @ [Write 0x4001003C 0] @ w3 @
      [Write 0x40023000 0x800000] @ w4 @ [Write 0x4010801C 12, Write 0x40108018 1] \<and>
    waits 0x40048004 (\<lambda>v. v AND 0x80000000 \<noteq> 0) w1 \<and> waits 0x40010038 (\<lambda>v. v = 4) w2 \<and>
    waits 0x40010044 (\<lambda>v. v = 1) w3 \<and> waits 0x40020008 (\<lambda>v. v AND 0x800000 \<noteq> 0) w4) \<and>
    time_init RP2040 (logged D) s = Some s"
proof -
  obtain t where "time_init RP2350 (logged D) s = Some t" "ram t = ram s"
    using time_init_returns [OF assms] by (auto simp: returns_def)
  with time_init_trace [OF this(1)] show ?thesis by (auto simp: time_init_def RP2040_def)
qed

theorem timebase_starts_witness:
  "\<exists>t. time_init RP2350 (logged settled_device) \<lparr>ram = \<lambda>_. 0, dev = ((), [])\<rparr> = Some t \<and>
     hd (log t) = Write 0x4004800C 47"
  using timebase_starts [OF settled_answers, of "\<lparr>ram = \<lambda>_. 0, dev = ((), [])\<rparr>"] by auto

text \<open>C39: The alarm is relative to a reading of the timer that is already past when the alarm is
  written. If the access in between takes \<open>e\<close> microseconds the alarm comes \<open>us - e\<close> later, so
  \<open>us\<close> after the reading as asked; but if \<open>e\<close> is more than \<open>us\<close> the target has been passed and
  the alarm comes only after the counter has gone around, more than an hour late.\<close>

theorem alarm_fires_after:
  fixes s :: "'d mach" and us :: u32
  assumes "alarm_timer C D now target" and "known_chip C"
  defines "u \<equiv> write32_set D (chip_TIMER_BASE C + chip_TIMER_INTE_OFF C) 1 s"
    and "t \<equiv> alarm0_arm C D us s"
  assumes "now (dev t) = now (dev u) + e" and "e < 2 ^ 32"
  shows "fires_in now target (dev t) = (if e \<le> unat us then unat us - e else 2 ^ 32 + unat us - e) \<and>
    ram t = ram s"
proof -
  have "t = wr D (chip_TIMER_BASE C + 0x10) (of_nat (now (dev u)) + us)
      (snd (rd D (chip_TIMER_BASE C + 0x28) u))"
    using assms(1) chip_timer [OF assms(2)]
    by (simp add: t_def alarm0_arm_def Let_def split_beta u_def [symmetric] pico_time_us_def
        rd_dev alarm_timer_def)
  then have "target (dev t) = of_nat (now (dev u)) + us" and r: "ram t = ram s"
    using assms(1) chip_timer [OF assms(2)]
    by (simp_all add: alarm_timer_def wr_dev u_def write32_set_def)
  then have "target (dev t) - of_nat (now (dev t)) = us - of_nat e"
    by (simp add: assms(5) algebra_simps)
  then show ?thesis using alarm_distance [OF assms(6)] r by (simp add: fires_in_def)
qed

text \<open>A timer that advances by three with every access.\<close>

definition slow_timer :: "(nat \<times> u32) device" where
  "slow_timer = \<lparr>dread = \<lambda>(n, g) a. (of_nat n, (n + 3, g)),
     dwrite = \<lambda>(n, g) a v. (n + 3, if a = 0x40054010 then v else g)\<rparr>"

theorem alarm_fires_after_witness:
  "fires_in fst snd (dev (alarm0_arm RP2040 slow_timer 2 \<lparr>ram = \<lambda>_. 0, dev = (0, 0)\<rparr>)) = 2 ^ 32 - 4"
proof -
  have "alarm_timer RP2040 slow_timer fst snd"
    by (auto simp: alarm_timer_def slow_timer_def RP2040_def)
  from alarm_fires_after [OF this, where s = "\<lparr>ram = \<lambda>_. 0, dev = (0, 0)\<rparr>" and us = 2 and e = 6] show ?thesis
    by (simp add: known_chip_def alarm0_arm_def write32_set_def wr_dev rd_dev sram_eval alias_defs
        slow_timer_def RP2040_def pico_time_us_def)
qed

text \<open>The interrupt controller calls change exactly the line they name: after any sequence of
  calls on lines below 32 the enabled and the pending lines are those the calls say, and
  \<^verbatim>\<open>is_enabled\<close> answers for them.\<close>

theorem nvic_calls_refine_lines:
  fixes s :: "'d mach"
  assumes "nvic_block D en pend" and "list_all (\<lambda>(n, p). n < 32) ops"
  defines "t \<equiv> fold (nvic_run D) ops s"
  shows "(lines (en (dev t)), lines (pend (dev t))) =
      fold nvic_step ops (lines (en (dev s)), lines (pend (dev s))) \<and>
    fst (nvic_is_enabled D n t) = (n \<in> lines (en (dev t))) \<and> ram t = ram s"
proof -
  have "v AND push_bit n 1 \<noteq> 0 \<longleftrightarrow> bit v n" for v :: u32
    by (simp only: bit_iff_and_push_bit_not_eq_0)
  moreover have "\<not> in_sram NVIC_ISER" by (simp add: nvic_regs sram_eval)
  ultimately have "fst (nvic_is_enabled D n t) = (n \<in> lines (en (dev t)))"
    using assms(1) by (simp add: nvic_is_enabled_def rd_dev Let_def lines_def nvic_block_def del: push_bit_of_1)
  then show ?thesis using nvic_runs [OF assms(1,2)] by (simp add: t_def)
qed

definition nvic_device :: "(u32 \<times> u32) device" where
  "nvic_device = \<lparr>dread = \<lambda>(e, q) a. (e, (e, q)),
     dwrite = \<lambda>(e, q) a v.
       if a = 0xE000E100 then (e OR v, q) else if a = 0xE000E180 then (e AND NOT v, q)
       else if a = 0xE000E200 then (e, q OR v) else (e, q AND NOT v)\<rparr>"

theorem nvic_calls_refine_lines_witness:
  "fst (nvic_is_enabled nvic_device 13 (fold (nvic_run nvic_device)
     [(13, Pend), (13, Enable), (0, Enable), (0, Disable)] \<lparr>ram = \<lambda>_. 0, dev = (0, 0)\<rparr>))"
proof -
  have "nvic_block nvic_device fst snd"
    by (auto simp: nvic_block_def nvic_device_def nvic_regs)
  from nvic_calls_refine_lines [OF this, where ops = "[(13, Pend), (13, Enable), (0, Enable), (0, Disable)]"
      and n = 13 and s = "\<lparr>ram = \<lambda>_. 0, dev = (0, 0)\<rparr>"]
  moreover have "lines 0 = {}" by (simp add: lines_def)
  ultimately show ?thesis by simp
qed

end
