(* ===== verification/IrqMojo.thy ===== *)
theory IrqMojo
  imports IrqLatency PioSm Gpio Timer
begin

text \<open>
  \<^verbatim>\<open>bench/irq_latency.mojo\<close>: the latency gate written with the SDK. Its handler and its
  measurement make the accesses of the C program; its setup, with the assembler and the state
  machine, pin and interrupt drivers, makes others in another order but leaves the same mailbox.
  So the C program's results carry over.
\<close>

section \<open>The program for the state machine\<close>

definition mj_program :: "asm option" where
  "mj_program = do {
     a \<leftarrow> wait_gpio 0 (int PIN_A) 0 (- 1) asm_init;
     a \<leftarrow> wait_gpio 1 (int PIN_A) 0 (- 1) a;
     a \<leftarrow> mov_x_not_null 0 (- 1) a;
     let loop = label a;
     let (finish, a) = future a;
     a \<leftarrow> jmp_pin finish 0 (- 1) a;
     a \<leftarrow> jmp_x_dec loop 0 (- 1) a;
     a \<leftarrow> bind_label finish a;
     a \<leftarrow> in_x 32 0 (- 1) a;
     push_block 0 (- 1) a
   }"

section \<open>The handler\<close>

definition on_gpio_irq :: "'d device \<Rightarrow> 'd mach \<Rightarrow> 'd mach" where
  "on_gpio_irq D s =
     (let s = wr D (chip_SIO_GPIO_OUT_SET RP2040) (push_bit PIN_C 1) s;
          s = wr D (chip_IO_BANK0_BASE RP2040 + 0xF4) (push_bit 31 1) s;
          (c, s) = rd D IRQ_COUNT s
      in wr D IRQ_COUNT (c + 1) s)"

text \<open>An SDK call of one access while interrupts are enabled: the handler runs before it.\<close>

definition served_call :: "('d \<Rightarrow> bool) \<Rightarrow> 'd device \<Rightarrow> ('d mach \<Rightarrow> 'a) \<Rightarrow> 'd mach \<Rightarrow> 'a option" where
  "served_call q D f s = do { s \<leftarrow> service q D s; Some (f s) }"

section \<open>Setup\<close>

text \<open>\<^verbatim>\<open>Pin[N]()\<close>, \<^verbatim>\<open>make_output\<close>, \<^verbatim>\<open>low\<close>.\<close>

definition mj_pin :: "'d device \<Rightarrow> nat \<Rightarrow> 'd mach \<Rightarrow> 'd mach" where
  "mj_pin D N s = pin_low RP2040 D N (make_output RP2040 D N (pin_init RP2040 D N s))"

definition mj_irq_setup :: "'d device \<Rightarrow> 'd mach \<Rightarrow> 'd mach option" where
  "mj_irq_setup D s = do {
     s \<leftarrow> pico_init RP2040 D s;
     let s = wr D (IRQ_MB + 0x00) IRQ_MAGIC s;
     let s = wr D (IRQ_MB + 0x04) 1 s;
     let s = wr D (IRQ_MB + 0x08) (of_nat IRQ_N) s;
     let s = wr D (IRQ_MB + 0x0C) (of_nat IRQ_RUNS) s;
     let s = wr D (IRQ_MB + 0x10) 1 s;
     let s = wr D (IRQ_MB + 0x1C) 0 s;
     let s = wr D (IRQ_MB + 0x20) 0 s;
     s \<leftarrow> pico_sys_clock_125mhz D s;
     (khz, s) \<leftarrow> pico_measure_khz D FC_CLK_SYS s;
     let s = wr D (IRQ_MB + 0x14) khz s;
     let s = mj_pin D PIN_A s;
     let s = mj_pin D PIN_C s;
     s \<leftarrow> sm_init RP2040 D 0 s;
     prog \<leftarrow> mj_program;
     let s = sm_load RP2040 D 0 0 prog s;
     let s = set_clkdiv RP2040 D 0 0 1 0 s;
     let s = set_jmp_pin RP2040 D 0 0 (int PIN_C) s;
     let s = wr D (IRQ_MB + 0x60) (of_nat (alen prog)) s;
     let s = for_range 0 (alen prog)
       (\<lambda>i. wr D (IRQ_MB + 0x64 + of_nat i * 4) (ucast (code prog ! i))) s;
     let s = sm_enable RP2040 D 0 0 s;
     let s = wr D IRQ_COUNT 0 s;
     let s = ack_events RP2040 D PIN_A EVENT_ALL s;
     let s = irq_enable RP2040 D PIN_A 8 s;
     Some (nvic_enable D 13 s)
   }"

section \<open>The measurement\<close>

definition mj_sleep_us :: "('d \<Rightarrow> bool) \<Rightarrow> 'd device \<Rightarrow> u32 \<Rightarrow> 'd mach \<Rightarrow> 'd mach option" where
  "mj_sleep_us q D us s = do {
     (start, s) \<leftarrow> served_call q D (pico_time_us RP2040 D) s;
     ipoll q D (chip_TIMER_BASE RP2040 + 0x28) (\<lambda>v. \<not> v - start < us) s
   }"

text \<open>\<^verbatim>\<open>while not p(): spins += 1; if spins > budget: fail()\<close>, where \<open>f\<close> reads and decides.\<close>

fun mj_spin :: "('d \<Rightarrow> bool) \<Rightarrow> 'd device \<Rightarrow> ('d mach \<Rightarrow> bool \<times> 'd mach) \<Rightarrow> nat \<Rightarrow> 'd mach \<Rightarrow>
    ('d mach + 'd mach) option" where
  "mj_spin q D f budget s =
     do { (stop, t) \<leftarrow> served_call q D f s;
          if stop then Some (Inr t)
          else (case budget of 0 \<Rightarrow> Some (Inl t) | Suc b \<Rightarrow> mj_spin q D f b t) }"

declare mj_spin.simps [simp del]

definition mj_fail :: "('d \<Rightarrow> bool) \<Rightarrow> 'd device \<Rightarrow> u32 \<Rightarrow> 'd mach \<Rightarrow> ('d mach + 'a) option" where
  "mj_fail q D err s =
     do { s \<leftarrow> served_call q D (wr D (IRQ_MB + 0x20) err) s;
          s \<leftarrow> served_call q D (wr D (IRQ_MB + 0x04) 3) s;
          Some (Inl s) }"

definition mj_record :: "('d \<Rightarrow> bool) \<Rightarrow> 'd device \<Rightarrow> nat \<Rightarrow> nat \<Rightarrow> 'd mach \<Rightarrow>
    ('d mach + (u32 \<times> 'd mach)) option" where
  "mj_record q D r i s = do {
     (v, s) \<leftarrow> served_call q D (rx_pull RP2040 D 0 0) s;
     let n = NOT v;
     s \<leftarrow> served_call q D (pin_low RP2040 D PIN_C) s;
     s \<leftarrow> served_call q D (pin_low RP2040 D PIN_A) s;
     s \<leftarrow> (if r = IRQ_RUNS - 1 then served_call q D (wr D (SAMPLES + of_nat i * 4) n) s else Some s);
     s \<leftarrow> (if r = 0 \<and> i = 0 then served_call q D (wr D (IRQ_MB + 0x18) n) s else Some s);
     s \<leftarrow> mj_sleep_us q D 5 s;
     Some (Inr (n, s))
   }"

definition mj_sample :: "('d \<Rightarrow> bool) \<Rightarrow> 'd device \<Rightarrow> nat \<Rightarrow> nat \<Rightarrow> u32 \<Rightarrow> 'd mach \<Rightarrow>
    ('d mach + (u32 \<times> 'd mach)) option" where
  "mj_sample q D r i tot s = do {
     s \<leftarrow> served_call q D (pin_high RP2040 D PIN_A) s;
     x \<leftarrow> mj_spin q D (\<lambda>s. let (v, s) = rd D IRQ_COUNT s in (v = tot, s)) 1000000 s;
     (case x of Inl s \<Rightarrow> mj_fail q D 1 s
      | Inr s \<Rightarrow> do {
          x \<leftarrow> mj_spin q D (\<lambda>s. let (e, s) = rx_empty RP2040 D 0 0 s in (\<not> e, s)) 1000000 s;
          (case x of Inl s \<Rightarrow> mj_fail q D 2 s | Inr s \<Rightarrow> mj_record q D r i s) })
   }"

fun mj_samples :: "('d \<Rightarrow> bool) \<Rightarrow> 'd device \<Rightarrow> nat \<Rightarrow> nat \<Rightarrow> nat \<Rightarrow> u32 \<Rightarrow> irq_stats \<Rightarrow> 'd mach \<Rightarrow>
    ('d mach + (u32 \<times> irq_stats \<times> 'd mach)) option" where
  "mj_samples q D r 0 i tot st s = Some (Inr (tot, st, s))"
| "mj_samples q D r (Suc k) i tot (mn, mx, sm) s =
     do { let tot = tot + 1;
          x \<leftarrow> mj_sample q D r i tot s;
          (case x of Inl s \<Rightarrow> Some (Inl s)
           | Inr (n, s) \<Rightarrow> do {
               let mn = (if n < mn then n else mn);
               let mx = (if mx < n then n else mx);
               mj_samples q D r k (i + 1) tot (mn, mx, sm + n) s }) }"

fun mj_runs :: "('d \<Rightarrow> bool) \<Rightarrow> 'd device \<Rightarrow> nat \<Rightarrow> nat \<Rightarrow> u32 \<Rightarrow> 'd mach \<Rightarrow>
    ('d mach + (u32 \<times> 'd mach)) option" where
  "mj_runs q D 0 r tot s = Some (Inr (tot, s))"
| "mj_runs q D (Suc k) r tot s =
     do { x \<leftarrow> mj_samples q D r IRQ_N 0 tot (0xFFFFFFFF, 0, 0) s;
          (case x of Inl s \<Rightarrow> Some (Inl s)
           | Inr (tot, (mn, mx, sm), s) \<Rightarrow> do {
               let base = IRQ_MB + 0x30 + of_nat r * 12;
               s \<leftarrow> served_call q D (wr D base mn) s;
               s \<leftarrow> served_call q D (wr D (base + 4) mx) s;
               s \<leftarrow> served_call q D (wr D (base + 8) sm) s;
               mj_runs q D k (r + 1) tot s }) }"

definition mj_finish :: "('d \<Rightarrow> bool) \<Rightarrow> 'd device \<Rightarrow> u32 \<Rightarrow> 'd mach \<Rightarrow> ('d mach + 'd mach) option" where
  "mj_finish q D tot s = do {
     s \<leftarrow> served_call q D (nvic_disable D 13) s;
     let s = irq_disable RP2040 D PIN_A EVENT_ALL s;
     let s = wr D (IRQ_MB + 0x1C) tot s;
     let s = wr D (IRQ_MB + 0x04) 2 s;
     let s = pin_init RP2040 D 25 s;
     Some (Inr (make_output RP2040 D 25 s))
   }"

fun mj_led_rounds :: "'d device \<Rightarrow> nat \<Rightarrow> 'd mach \<Rightarrow> 'd mach option" where
  "mj_led_rounds D 0 s = Some s"
| "mj_led_rounds D (Suc n) s =
     do { let s = toggle RP2040 D 25 s;
          s \<leftarrow> pico_sleep_us RP2040 D 250000 s;
          mj_led_rounds D n s }"

text \<open>\<^verbatim>\<open>start\<close>, up to \<^verbatim>\<open>fail\<close>'s endless loop (left) or through \<open>n\<close> rounds of the final one.\<close>

definition mj_irq_program :: "('d \<Rightarrow> bool) \<Rightarrow> 'd device \<Rightarrow> nat \<Rightarrow> 'd mach \<Rightarrow>
    ('d mach + 'd mach) option" where
  "mj_irq_program q D n s = do {
     s \<leftarrow> mj_irq_setup D s;
     s \<leftarrow> mj_sleep_us q D 10 s;
     x \<leftarrow> mj_runs q D IRQ_RUNS 0 0 s;
     (case x of Inl s \<Rightarrow> Some (Inl s)
      | Inr (tot, s) \<Rightarrow> do {
          x \<leftarrow> mj_finish q D tot s;
          (case x of Inl s \<Rightarrow> Some (Inl s)
           | Inr s \<Rightarrow> do { s \<leftarrow> mj_led_rounds D n s; Some (Inr s) }) })
   }"

section \<open>The same measurement\<close>

lemma on_gpio_irq: "on_gpio_irq = isr_irq13"
  by (intro ext) (simp add: on_gpio_irq_def isr_irq13_def RP2040_def irq_layout)

lemma served_rd: "served_call q D (rd D a) = ird q D a"
  by (intro ext) (simp add: served_call_def ird_def)

lemma served_wr: "served_call q D (wr D a v) = iwr q D a v"
  by (intro ext) (simp add: served_call_def iwr_def)

lemma pin_calls:
  "pin_high RP2040 D N = wr D 0xD0000014 (push_bit N 1)"
  "pin_low RP2040 D N = wr D 0xD0000018 (push_bit N 1)"
  "rx_pull RP2040 D 0 0 = rd D (PIO0 + 0x020)"
  "pico_time_us RP2040 D = rd D 0x40054028"
  "nvic_disable D 13 = wr D 0xE000E180 (push_bit 13 1)"
  by (intro ext; simp add: pin_high_def pin_low_def rx_pull_def pico_time_us_def nvic_disable_def
      nvic_regs pio_base_def pio_regs pin_mask_def RP2040_def irq_layout)+

lemmas mojo_calls = pin_calls served_rd served_wr

lemma mj_sleep: "mj_sleep_us q D us s = irq_sleep_us q D us s"
proof -
  have "chip_TIMER_BASE RP2040 = 0x40054000" by (simp add: RP2040_def)
  then show ?thesis by (simp add: mj_sleep_us_def irq_sleep_us_def mojo_calls)
qed

lemma mj_spin: "mj_spin q D (\<lambda>s. let (v, s) = rd D a s in (p v, s)) b s = spin q D a p b s"
proof (induction b arbitrary: s)
  case 0
  then show ?case
    by (subst mj_spin.simps, subst spin.simps)
       (simp add: served_call_def ird_def split_beta Let_def cong: if_cong)
next
  case (Suc b)
  then show ?case
    by (subst mj_spin.simps, subst spin.simps)
       (simp add: served_call_def ird_def split_beta Let_def cong: if_cong)
qed

lemma mj_fail: "mj_fail q D c s = fail q D c s"
  by (simp add: mj_fail_def fail_def mojo_calls)

lemma mj_record: "mj_record q D r i s = irq_record q D r i s"
  by (simp add: mj_record_def irq_record_def mojo_calls mj_sleep mult.commute cong: if_cong
      del: push_bit_of_1)

lemma rx_empty_spin:
  "(\<lambda>s. let (e, s) = rx_empty RP2040 D 0 0 s in (\<not> e, s)) =
     (\<lambda>s. let (v, s) = rd D (PIO0 + 0x004) s in (drop_bit 8 v AND 1 = 0, s))"
  by (intro ext)
     (simp add: rx_empty_def pio_base_def pio_regs RP2040_def PIO0_def split_beta Let_def)

lemma mj_sample: "mj_sample q D r i tot s = irq_sample q D r i tot s"
  unfolding mj_sample_def irq_sample_def irq_collect_def rx_empty_spin mj_spin mj_fail mj_record
    mojo_calls ..

lemma mj_samples: "mj_samples q D r k i tot st s = irq_samples q D r k i tot st s"
proof (induction k arbitrary: i tot st s)
  case (Suc k)
  obtain mn mx sm where "st = (mn, mx, sm)" by (cases st)
  then show ?case
    by (simp add: mj_sample Suc irq_stat_def Let_def cong: sum.case_cong prod.case_cong)
qed simp

lemma mj_runs: "mj_runs q D k r tot s = irq_runs q D k r tot s"
proof (induction k arbitrary: r tot s)
  case (Suc k)
  then have "mj_runs q D k = irq_runs q D k" by (intro ext)
  then show ?case
    by (simp add: mj_samples irq_store_stats_def mojo_calls Let_def mult.commute split_beta
        cong: sum.case_cong)
qed simp

lemma mj_finish: "mj_finish q D tot s = irq_finish q D tot s"
proof -
  have "(\<lambda>s. irq_disable RP2040 D PIN_A EVENT_ALL s) = (\<lambda>s. wr D (INTE1 + 0x3000) (push_bit 28 0xF) s)"
    by (simp add: irq_disable_def pin_inte_def event_shift_def EVENT_ALL_def write32_clr_def
        CLR_ALIAS_def RP2040_def irq_layout)
  moreover have "(\<lambda>s. make_output RP2040 D 25 (pin_init RP2040 D 25 s)) =
      (\<lambda>s. wr D 0xD0000024 (push_bit 25 1) (wr D (IO_BANK0 + 8 * 25 + 4) 5 s))"
    by (simp add: make_output_def pin_init_def pin_ctrl_def pin_mask_def RP2040_def rp2040_map
        irq_layout)
  ultimately show ?thesis
    by (simp add: mj_finish_def irq_finish_def mojo_calls Let_def fun_eq_iff)
qed

lemma mj_led_rounds: "mj_led_rounds D n s = irq_led_rounds D n s"
proof (induction n arbitrary: s)
  case (Suc n)
  then have "mj_led_rounds D n = irq_led_rounds D n" by (intro ext)
  then show ?case
    by (simp add: toggle_def pin_mask_def pico_sleep_us_def pico_time_us_def sleep_us_def
        time_us_def RP2040_def)
qed simp

lemma case_sum_bind:
  fixes h :: "'a \<Rightarrow> 'b option"
  shows "(case x of Inl a \<Rightarrow> f a | Inr b \<Rightarrow> g b) \<bind> h = (case x of Inl a \<Rightarrow> f a \<bind> h | Inr b \<Rightarrow> g b \<bind> h)"
  by (cases x) simp_all

lemma mj_measure:
  "mj_irq_program q D n s = do { s \<leftarrow> mj_irq_setup D s; irq_measure q D s \<bind> irq_blink D n }"
proof -
  have blink: "irq_blink D n = (\<lambda>x. case x of Inl s \<Rightarrow> Some (Inl s)
      | Inr s \<Rightarrow> irq_led_rounds D n s \<bind> (\<lambda>s. Some (Inr s)))"
    by (intro ext) (simp add: irq_blink_def)
  show ?thesis
    by (simp add: mj_irq_program_def irq_measure_def blink mj_sleep mj_runs mj_finish mj_led_rounds
        split_beta case_sum_bind Option.bind_assoc cong: sum.case_cong)
qed

section \<open>The setup leaves the mailbox\<close>

lemma mojo_setup_calls:
  "pico_init RP2040 D s = irq_board_init D s"
  "pico_sys_clock_125mhz D s = sys_clock_125mhz D s"
  "pico_measure_khz D FC_CLK_SYS s = measure_khz D 9 s"
  by (simp_all add: init_defs Let_def RP2040_def rp2040_map SET_ALIAS_def CLR_ALIAS_def)

lemma mj_program_words:
  "\<exists>a. mj_program = Some a \<and> alen a = 7 \<and> (\<forall>i<7. code a ! i = PROG ! i)"
proof -
  have "case mj_program of None \<Rightarrow> False
    | Some a \<Rightarrow> alen a = 7 \<and> take 7 (code a) = PROG"
    by code_simp
  then obtain a where a: "mj_program = Some a" "alen a = 7" "take 7 (code a) = PROG"
    by (auto split: option.splits)
  have "code a ! i = PROG ! i" if "i < 7" for i using that a(3) by (metis nth_take)
  then show ?thesis using a(1,2) by blast
qed

lemma mj_pin_ram: "ram (mj_pin D PIN_A s) = ram s" "ram (mj_pin D PIN_C s) = ram s"
  by (simp_all add: mj_pin_def pin_low_def make_output_def pin_init_def pin_ctrl_def RP2040_def
      PIN_A_def PIN_C_def ram_wr sram_eval)

lemma sm_load_ram: "alen a \<le> 7 \<Longrightarrow> ram (sm_load RP2040 D 0 0 a s) = ram s"
proof -
  assume "alen a \<le> 7"
  moreover have "load_code RP2040 D 0 a s = for_range 0 (alen a)
      (\<lambda>i. wr D (PIO0 + 0x048 + 4 * of_nat i) (ucast (code a ! i))) s"
    by (simp add: load_code_def pio_base_def pio_regs RP2040_def PIO0_def mult.commute)
  ultimately have "ram (load_code RP2040 D 0 a s) = ram s" by (simp only: prog_mem_ram)
  then show ?thesis
    by (simp add: sm_load_def sm_reg_def pio_base_def pio_regs RP2040_def split_beta Let_def ram_wr
        sram_eval)
qed

lemma mojo_sm_ram:
  "ram (set_clkdiv RP2040 D 0 0 n f s) = ram s"
  "ram (set_jmp_pin RP2040 D 0 0 g s) = ram s"
  "ram (sm_enable RP2040 D 0 0 s) = ram s"
  "ram (ack_events RP2040 D PIN_A m s) = ram s"
  "ram (irq_enable RP2040 D PIN_A m s) = ram s"
  "ram (nvic_enable D k s) = ram s"
  by (simp_all add: set_clkdiv_def set_jmp_pin_def sm_enable_def ack_events_def irq_enable_def
      nvic_enable_def nvic_regs sm_reg_def pio_base_def pio_regs pin_intr_def pin_inte_def
      write32_set_def SET_ALIAS_def RP2040_def PIN_A_def split_beta Let_def ram_wr sram_eval)

lemma sm_init_ram: "sm_init RP2040 D 0 s = Some t \<Longrightarrow> ram t = ram s"
  by (auto simp: sm_init_def write32_clr_def CLR_ALIAS_def RP2040_def ram_wr sram_eval dest!: poll_ram)

lemma mj_setup_done:
  assumes "mj_irq_setup D s = Some t"
  shows "setup_done 1 t"
proof -
  obtain a where a: "mj_program = Some a" "alen a = 7" "\<forall>i<7. code a ! i = PROG ! i"
    using mj_program_words by blast
  from assms obtain s1 s2 khz s3 s4 where
    "irq_board_init D s = Some s1"
    "sys_clock_125mhz D (wr D (idx IRQ_MB 8) 0 (wr D (idx IRQ_MB 7) 0 (wr D (idx IRQ_MB 4) 1
      (wr D (idx IRQ_MB 3) (of_nat IRQ_RUNS) (wr D (idx IRQ_MB 2) (of_nat IRQ_N)
      (wr D (idx IRQ_MB 1) 1 (wr D (idx IRQ_MB 0) IRQ_MAGIC s1))))))) = Some s2"
    "measure_khz D 9 s2 = Some (khz, s3)"
    and p: "sm_init RP2040 D 0 (mj_pin D PIN_C (mj_pin D PIN_A (wr D (idx IRQ_MB 5) khz s3))) = Some s4"
    and t: "t = nvic_enable D 13 (irq_enable RP2040 D PIN_A 8 (ack_events RP2040 D PIN_A EVENT_ALL
      (wr D IRQ_COUNT 0 (sm_enable RP2040 D 0 0
        (for_range 0 7 (\<lambda>i. wr D (IRQ_MB + 0x64 + of_nat i * 4) (ucast (code a ! i)))
          (wr D (IRQ_MB + 0x60) 7 (set_jmp_pin RP2040 D 0 0 (int PIN_C)
            (set_clkdiv RP2040 D 0 0 1 0 (sm_load RP2040 D 0 0 a s4)))))))))"
    unfolding mj_irq_setup_def mojo_setup_calls mailbox_idx Let_def
    by (auto simp: bind_eq_Some_conv a(1,2))
  then have s3: "ram s3 = (ram s)(idx IRQ_MB 0 := IRQ_MAGIC, idx IRQ_MB 1 := 1, idx IRQ_MB 2 := 10000,
      idx IRQ_MB 3 := 3, idx IRQ_MB 4 := 1, idx IRQ_MB 7 := 0, idx IRQ_MB 8 := 0)"
    by (auto simp: ram_wr mailbox_sram IRQ_N_def IRQ_RUNS_def
        dest!: irq_board_init_ram sys_clock_ram measure_khz_ram)
  have s4: "ram s4 = (ram s3)(idx IRQ_MB 5 := khz)"
    using sm_init_ram [OF p] by (simp add: mj_pin_ram ram_wr mailbox_sram)
  define u where "u = wr D (idx IRQ_MB 24) 7 (set_jmp_pin RP2040 D 0 0 (int PIN_C)
            (set_clkdiv RP2040 D 0 0 1 0 (sm_load RP2040 D 0 0 a s4)))"
  have u: "ram u = (ram s4)(idx IRQ_MB 24 := 7)"
    by (simp add: u_def mojo_sm_ram sm_load_ram a(2) ram_wr mailbox_sram)
  have "IRQ_MB + 0x60 = idx IRQ_MB 24" by (simp add: idx_def)
  then have t: "ram t = (ram (for_range 0 7 (\<lambda>i. wr D (IRQ_MB + 0x64 + 4 * of_nat i) (ucast (code a ! i))) u))
      (IRQ_COUNT := 0)"
    by (simp add: t u_def mojo_sm_ram ram_wr count_sram mult.commute)
  have keep: "ram t (idx IRQ_MB k) = ram u (idx IRQ_MB k)" if "k < 25" for k
    using that prog_mailbox(2) [of k] mailbox_sram(2) [of k] by (simp add: t)
  moreover have "ram t (idx IRQ_MB (25 + i)) = ucast (PROG ! i)" if "i < 7" for i
    using that a(3) prog_mailbox(1) [of i D "\<lambda>i. ucast (code a ! i)" u] mailbox_sram(2) [of "25 + i"]
    by (simp add: t)
  ultimately show ?thesis
    by (simp add: setup_done_def u s4 s3 mailbox_inject)
qed

lemma mj_setup_ends:
  assumes "bringup_answers D" "pll_answers D" "counter_answers D 9"
    and "acks D 0x4000F000 0x400 0x4000C008 (\<lambda>v. v AND 0x400 \<noteq> 0)"
  shows "\<exists>t. mj_irq_setup D s = Some t"
proof -
  have "\<exists>t. irq_board_init D s = Some t" for s
    using board_init_returns [OF assms(1)] by (auto simp: returns_def init_defs)
  moreover have "\<exists>t. sys_clock_125mhz D s = Some t" for s
    using sys_clock_125mhz_returns [OF assms(2)] by (auto simp: returns_def)
  moreover have "\<exists>x. measure_khz D 9 s = Some x" for s
    using measure_khz_ends [OF assms(3)] by blast
  moreover have "\<exists>t. sm_init RP2040 D 0 s = Some t" for s
    using returns_poll [OF assms(4), of s s]
    by (auto simp: returns_def sram_eval sm_init_def write32_clr_def CLR_ALIAS_def RP2040_def)
  moreover have "\<exists>a. mj_program = Some a" using mj_program_words by blast
  ultimately show ?thesis
    unfolding mj_irq_setup_def mojo_setup_calls Let_def split_beta by (intro bind_ends) simp_all
qed

section \<open>Properties\<close>

lemma gate_board_timer: "timer_runs gate_board"
  using ready_timer_runs by (auto simp: timer_runs_def gate_reads)

text \<open>C14: both latency gates run to their end and report what they should: on hardware that answers
  the bring-up, clears the interrupt line on acknowledgement and lets time pass, the C and the
  Mojo program come through any number of rounds of their final blinking with consistent
  results of three runs in the mailbox, or to their error loop with the error recorded. The
  Mojo program assembles and loads its PIO program with the SDK, and its mailbox shows the same
  seven words. The handler, the same in both, may run between any two accesses.\<close>

theorem irq_gates_report:
  assumes "bringup_answers D" and "pll_answers D" and "counter_answers D 9"
    and "acks D 0x4000F000 0x400 0x4000C008 (\<lambda>v. v AND 0x400 \<noteq> 0)"
    and "ack_clears q D" and "timer_runs (irq_device q D)" and "timer_runs D"
  shows "\<exists>x y. irq_program lang q D n s = Some x \<and> gate_outcome lang x \<and>
    mj_irq_program q D n s' = Some y \<and> gate_outcome 1 y \<and> on_gpio_irq D = isr_irq13 D"
proof -
  obtain t where "mj_irq_setup D s' = Some t" using mj_setup_ends [OF assms(1-4)] by blast
  then have "\<exists>y. mj_irq_program q D n s' = Some y \<and> gate_outcome 1 y"
    using measured_outcome [OF mj_setup_done assms(5-7)] by (simp add: mj_measure)
  then show ?thesis using program_outcome [OF assms] on_gpio_irq by metis
qed

theorem irq_gates_report_witness:
  "\<exists>y. mj_irq_program snd gate_board 2 \<lparr>ram = \<lambda>_. 7, dev = ((5, 1), True)\<rparr> = Some y \<and>
     gate_outcome 1 y"
  using irq_gates_report [OF gate_hardware(1-4) gate_hardware(5) gate_timer gate_board_timer] by blast

end
