(* ===== verification/HostIrq.thy ===== *)
theory HostIrq
  imports IrqMojo
begin

text \<open>
  \<^verbatim>\<open>tools/irq_latency.mojo\<close>, the host side of the latency gate: what \<^verbatim>\<open>run_target\<close> decides from
  the words the debug probe reads (the probe is a parameter). Composed with the firmware: of a
  finished gate only the measured clock and the spread between the runs can be rejected, and
  the reported figures are those of the measured samples. A percentile is the entry of that
  rank among the sorted samples, where a sample above the histogram counts as its last bin.
\<close>

section \<open>Outcomes\<close>

datatype gate_error =
  NeverFinished u32
| FirmwareError u32
| StaleFirmware
| WrongLanguage u32
| BadClock u32
| WrongInterrupts u32
| NoReference
| ProgramLength u32
| ProgramWord nat
| MeanSpread u32 u32
| DivByZero
| StatsDiffer

record gate_result =
  khz :: u32
  first_count :: u32
  mn :: u32
  mx :: u32
  mx_warm :: u32
  sum_all :: u64
  p50 :: u32
  p99 :: u32
  p999 :: u32

definition no_result :: gate_result where
  "no_result = \<lparr>khz = 0, first_count = 0, mn = 0, mx = 0, mx_warm = 0, sum_all = 0, p50 = 0, p99 = 0, p999 = 0\<rparr>"

section \<open>The checks\<close>

text \<open>Wait: up to \<open>n\<close> more reads of the mailbox, the next one number \<open>k\<close>.\<close>

definition gate_over :: "u32 list \<Rightarrow> bool" where
  "gate_over head \<longleftrightarrow> head ! 0 = IRQ_MAGIC \<and> (head ! 1 = 2 \<or> head ! 1 = 3)"

fun wait_head :: "(nat \<Rightarrow> u32 list) \<Rightarrow> nat \<Rightarrow> nat \<Rightarrow> u32 list \<Rightarrow> u32 list \<times> bool" where
  "wait_head reads 0 k head = (head, False)"
| "wait_head reads (Suc n) k head =
     (let head = reads k in if gate_over head then (head, True) else wait_head reads n (k + 1) head)"

text \<open>The checks of the header, in the order of the tool.\<close>

definition check_head :: "u32 \<Rightarrow> u32 list \<Rightarrow> gate_error option" where
  "check_head lang head =
     (if head ! 1 = 3 then Some (FirmwareError (head ! 8))
      else if head ! 2 \<noteq> of_nat IRQ_N \<or> head ! 3 \<noteq> of_nat IRQ_RUNS then Some StaleFirmware
      else if head ! 4 \<noteq> lang then Some (WrongLanguage (head ! 4))
      else if head ! 5 < 124000 \<or> 126000 < head ! 5 then Some (BadClock (head ! 5))
      else if head ! 7 \<noteq> of_nat (IRQ_N * IRQ_RUNS) then Some (WrongInterrupts (head ! 7))
      else None)"

definition check_program :: "u32 list \<Rightarrow> gate_error option" where
  "check_program head =
     (case reference_program of None \<Rightarrow> Some NoReference
      | Some want \<Rightarrow>
          (let plen = unat (head ! 0x18)
           in if plen \<noteq> alen want then Some (ProgramLength (head ! 0x18))
              else map_option ProgramWord
                (find (\<lambda>i. head ! (0x19 + i) \<noteq> ucast (code want ! i)) [0..<plen])))"

text \<open>The statistics over the runs.\<close>

definition add_run :: "u32 list \<Rightarrow> nat \<Rightarrow> gate_result \<Rightarrow> gate_result" where
  "add_run head run r =
     (let n = head ! (0x0C + run * 3); x = head ! (0x0D + run * 3); sm = head ! (0x0E + run * 3);
          r = (if n < mn r then r\<lparr>mn := n\<rparr> else r);
          r = (if mx r < x then r\<lparr>mx := x\<rparr> else r);
          r = (if 0 < run \<and> mx_warm r < x then r\<lparr>mx_warm := x\<rparr> else r)
      in r\<lparr>sum_all := sum_all r + ucast sm\<rparr>)"

definition add_runs :: "u32 list \<Rightarrow> gate_result \<Rightarrow> gate_result" where
  "add_runs head r = for_range 0 IRQ_RUNS (add_run head) (r\<lparr>mn := 0xFFFFFFFF, mx := 0\<rparr>)"

definition run_sums :: "u32 list \<Rightarrow> u32 list" where
  "run_sums head = map (\<lambda>run. head ! (0x0E + run * 3)) [0..<IRQ_RUNS]"

text \<open>The spread gate divides by the smallest sum without a test.\<close>

definition check_spread :: "u32 list \<Rightarrow> gate_error option" where
  "check_spread sums =
     (let lo = fold (\<lambda>s lo. if s < lo then s else lo) (tl sums) (hd sums);
          hi = fold (\<lambda>s hi. if hi < s then s else hi) (tl sums) (hd sums)
      in if lo = 0 then Some DivByZero
         else if 2 \<le> (ucast (hi - lo) * 100) div (ucast lo :: u64) then Some (MeanSpread lo hi)
         else None)"

text \<open>The pass over the samples of the last run, with its histogram.\<close>

definition HIST :: nat where "HIST = 4096"

definition add_sample :: "u32 \<Rightarrow> u32 \<times> u32 \<times> u32 \<times> u32 list \<Rightarrow> u32 \<times> u32 \<times> u32 \<times> u32 list" where
  "add_sample s = (\<lambda>(smn, smx, ssum, hist).
     let smn = (if s < smn then s else smn);
         smx = (if smx < s then s else smx);
         ssum = ssum + s;
         b = (if s < of_nat HIST then unat s else HIST - 1)
     in (smn, smx, ssum, hist[b := hist ! b + 1]))"

fun percentiles :: "nat \<Rightarrow> nat \<Rightarrow> bool \<Rightarrow> bool \<Rightarrow> u32 list \<Rightarrow> gate_result \<Rightarrow> gate_result" where
  "percentiles b acc got50 got99 [] r = r"
| "percentiles b acc got50 got99 (h # hist) r =
     (let acc = acc + unat h;
          (r, got50) = (if \<not> got50 \<and> IRQ_N * 50 \<le> acc * 100 then (r\<lparr>p50 := of_nat b\<rparr>, True)
                        else (r, got50));
          (r, got99) = (if \<not> got99 \<and> IRQ_N * 99 \<le> acc * 100 then (r\<lparr>p99 := of_nat b\<rparr>, True)
                        else (r, got99))
      in if IRQ_N * 999 \<le> acc * 1000 then r\<lparr>p999 := of_nat b\<rparr>
         else percentiles (b + 1) acc got50 got99 hist r)"

declare percentiles.simps(2) [simp del]

definition run_target :: "u32 \<Rightarrow> (nat \<Rightarrow> u32 list) \<Rightarrow> u32 list \<Rightarrow> gate_error + gate_result" where
  "run_target lang reads samples =
     (case wait_head reads 20 0 [] of (head, over) \<Rightarrow>
        if \<not> over then Inl (NeverFinished (head ! 1))
        else case check_head lang head of Some e \<Rightarrow> Inl e
        | None \<Rightarrow> case check_program head of Some e \<Rightarrow> Inl e
        | None \<Rightarrow>
           (let r = add_runs head (no_result\<lparr>khz := head ! 5, first_count := head ! 6\<rparr>)
            in case check_spread (run_sums head) of Some e \<Rightarrow> Inl e
               | None \<Rightarrow>
                  (let (smn, smx, ssum, hist) =
                         fold add_sample samples (0xFFFFFFFF, 0, 0, replicate HIST 0);
                       last = IRQ_RUNS - 1
                   in if smn \<noteq> head ! (0x0C + last * 3) \<or> smx \<noteq> head ! (0x0D + last * 3) \<or>
                         ssum \<noteq> head ! (0x0E + last * 3) then Inl StatsDiffer
                      else Inr (percentiles 0 0 False False hist r))))"

section \<open>Ranks\<close>

text \<open>A sample's bin, and the entry of rank \<open>k\<close> (from 0) among the bins.\<close>

definition bin :: "u32 \<Rightarrow> nat" where
  "bin s = min (unat s) 4095"

definition ranked :: "u32 list \<Rightarrow> nat \<Rightarrow> nat" where
  "ranked ss k = sort (map bin ss) ! k"

lemma rank_sorted:
  "sorted xs \<Longrightarrow> k < length xs \<Longrightarrow> k < length (filter (\<lambda>x. x \<le> b) xs) \<longleftrightarrow> xs ! k \<le> b"
  for b :: nat
proof (induction xs arbitrary: k)
  case (Cons x xs)
  show ?case
  proof (cases "x \<le> b")
    case True
    then show ?thesis using Cons by (cases k) auto
  next
    case False
    have "y \<le> b \<longrightarrow> False" if "y \<in> set (x # xs)" for y using that Cons.prems(1) False by auto
    then have "filter (\<lambda>x. x \<le> b) (x # xs) = []" by (auto simp: filter_empty_conv)
    moreover have "\<not> (x # xs) ! k \<le> b"
      using \<open>\<And>y. y \<in> set (x # xs) \<Longrightarrow> y \<le> b \<longrightarrow> False\<close> Cons.prems(2) nth_mem by blast
    ultimately show ?thesis by simp
  qed
qed simp

lemma rank_le:
  assumes "k < length ss"
  shows "k < length (filter (\<lambda>s. bin s \<le> b) ss) \<longleftrightarrow> ranked ss k \<le> b"
proof -
  have "length (filter (\<lambda>x. x \<le> b) (sort (map bin ss))) = length (filter (\<lambda>x. x \<le> b) (map bin ss))"
    by (metis mset_filter mset_sort size_mset)
  also have "\<dots> = length (filter (\<lambda>s. bin s \<le> b) ss)" by (simp add: filter_map o_def)
  finally show ?thesis
    using rank_sorted [of "sort (map bin ss)" k b] assms by (simp add: ranked_def)
qed

lemma ranked_mono: "j \<le> k \<Longrightarrow> k < length ss \<Longrightarrow> ranked ss j \<le> ranked ss k"
  by (simp add: ranked_def sorted_nth_mono)

lemma ranked_bound: "k < length ss \<Longrightarrow> ranked ss k < 4096"
proof -
  assume "k < length ss"
  then have "ranked ss k \<in> bin ` set ss"
    unfolding ranked_def by (metis length_map length_sort nth_mem set_map set_sort)
  then show ?thesis by (auto simp: bin_def)
qed

section \<open>The histogram\<close>

lemma add_sample_stat:
  "add_sample s (st1, st2, st3, hist) =
     (case irq_stat s (st1, st2, st3) of (a, b, c) \<Rightarrow> (a, b, c, hist[bin s := hist ! bin s + 1]))"
proof -
  have "(if s < of_nat HIST then unat s else HIST - 1) = bin s"
    by (auto simp: bin_def HIST_def word_less_nat_alt min_def)
  then show ?thesis by (simp add: add_sample_def irq_stat_def Let_def)
qed

lemma fold_sample:
  assumes "length hist = 4096"
  shows "\<exists>hist'. fold add_sample ss (a, b, c, hist) =
      (case fold irq_stat ss (a, b, c) of (a, b, c) \<Rightarrow> (a, b, c, hist')) \<and> length hist' = 4096 \<and>
      (\<forall>v<4096. hist' ! v = hist ! v + of_nat (length (filter (\<lambda>s. bin s = v) ss)))"
  using assms
proof (induction ss arbitrary: a b c hist)
  case (Cons s ss)
  obtain a' b' c' where st: "irq_stat s (a, b, c) = (a', b', c')" by (cases "irq_stat s (a, b, c)")
  have "length (hist[bin s := hist ! bin s + 1]) = 4096" using Cons.prems by simp
  from Cons.IH [OF this, of a' b' c'] obtain hist' where hist':
    "fold add_sample ss (a', b', c', hist[bin s := hist ! bin s + 1]) =
      (case fold irq_stat ss (a', b', c') of (a, b, c) \<Rightarrow> (a, b, c, hist'))" "length hist' = 4096"
    "\<forall>v<4096. hist' ! v = hist[bin s := hist ! bin s + 1] ! v + of_nat (length (filter (\<lambda>s. bin s = v) ss))"
    by blast
  moreover have "bin s < 4096" by (simp add: bin_def)
  ultimately show ?case
    using Cons.prems by (intro exI [of _ hist']) (auto simp: add_sample_stat st nth_list_update)
qed (simp split: prod.split)

section \<open>The percentiles are ranks\<close>

lemma filter_le_Suc:
  "length (filter (\<lambda>s. bin s \<le> b) ss) =
     length (filter (\<lambda>s. bin s < b) ss) + length (filter (\<lambda>s. bin s = b) ss)"
  by (induction ss) auto

lemma percentiles_run:
  assumes "length ss = IRQ_N"
    and "\<And>j. j < length hist \<Longrightarrow> unat (hist ! j) = length (filter (\<lambda>s. bin s = b + j) ss)"
    and "b + length hist = 4096" and "acc = length (filter (\<lambda>s. bin s < b) ss)"
    and "got50 \<longleftrightarrow> ranked ss 4999 < b" and "got99 \<longleftrightarrow> ranked ss 9899 < b" and "b \<le> ranked ss 9989"
    and "got50 \<longrightarrow> p50 r = of_nat (ranked ss 4999)" and "got99 \<longrightarrow> p99 r = of_nat (ranked ss 9899)"
  shows "percentiles b acc got50 got99 hist r =
    r\<lparr>p50 := of_nat (ranked ss 4999), p99 := of_nat (ranked ss 9899), p999 := of_nat (ranked ss 9989)\<rparr>"
  using assms(2-9)
proof (induction hist arbitrary: b acc got50 got99 r)
  case Nil
  have "ranked ss 9989 < 4096" using assms(1) by (intro ranked_bound) (simp add: IRQ_N_def)
  then show ?case using Nil.prems by simp
next
  case (Cons h hist)
  define acc' where "acc' = acc + unat h"
  have "unat h = length (filter (\<lambda>s. bin s = b) ss)" using Cons.prems(1) [of 0] by simp
  then have acc': "acc' = length (filter (\<lambda>s. bin s \<le> b) ss)"
    using Cons.prems(3) by (simp add: acc'_def filter_le_Suc)
  have rank: "k < acc' \<longleftrightarrow> ranked ss k \<le> b" if "k < 10000" for k
    using rank_le [of k ss b] that assms(1) by (simp add: acc' IRQ_N_def)
  have at50: "IRQ_N * 50 \<le> acc' * 100 \<longleftrightarrow> ranked ss 4999 \<le> b"
    and at99: "IRQ_N * 99 \<le> acc' * 100 \<longleftrightarrow> ranked ss 9899 \<le> b"
    and at999: "IRQ_N * 999 \<le> acc' * 1000 \<longleftrightarrow> ranked ss 9989 \<le> b"
    using rank [of 4999] rank [of 9899] rank [of 9989] by (auto simp: IRQ_N_def)
  define r1 where "r1 = (if \<not> got50 \<and> ranked ss 4999 \<le> b then r\<lparr>p50 := of_nat b\<rparr> else r)"
  define r2 where "r2 = (if \<not> got99 \<and> ranked ss 9899 \<le> b then r1\<lparr>p99 := of_nat b\<rparr> else r1)"
  have step: "percentiles b acc got50 got99 (h # hist) r =
      (if ranked ss 9989 \<le> b then r2\<lparr>p999 := of_nat b\<rparr>
       else percentiles (b + 1) acc' (ranked ss 4999 \<le> b) (ranked ss 9899 \<le> b) hist r2)"
  proof -
    have "(if \<not> got50 \<and> IRQ_N * 50 \<le> acc' * 100 then (r\<lparr>p50 := of_nat b\<rparr>, True) else (r, got50)) =
        (r1, ranked ss 4999 \<le> b)"
      unfolding at50 r1_def using Cons.prems(4) by auto
    moreover have "(if \<not> got99 \<and> IRQ_N * 99 \<le> acc' * 100 then (r1\<lparr>p99 := of_nat b\<rparr>, True)
        else (r1, got99)) = (r2, ranked ss 9899 \<le> b)"
      unfolding at99 r2_def using Cons.prems(5) by auto
    ultimately show ?thesis
      unfolding percentiles.simps Let_def acc'_def [symmetric] at999 [symmetric] by (simp only: prod.case)
  qed
  have p50: "ranked ss 4999 \<le> b \<longrightarrow> p50 r2 = of_nat (ranked ss 4999)"
    using Cons.prems(4,7) by (auto simp: r2_def r1_def)
  have p99: "ranked ss 9899 \<le> b \<longrightarrow> p99 r2 = of_nat (ranked ss 9899)"
    using Cons.prems(5,8) by (auto simp: r2_def r1_def)
  have r2: "r2\<lparr>p50 := x, p99 := y, p999 := z\<rparr> = r\<lparr>p50 := x, p99 := y, p999 := z\<rparr>" for x y z
    by (simp add: r2_def r1_def)
  have mono: "ranked ss 4999 \<le> ranked ss 9989" "ranked ss 9899 \<le> ranked ss 9989"
    using assms(1) by (auto simp: IRQ_N_def intro!: ranked_mono)
  show ?case
  proof (cases "ranked ss 9989 \<le> b")
    case True
    then have "b = ranked ss 9989" using Cons.prems(6) by simp
    moreover have "r2\<lparr>p999 := z\<rparr> = r2\<lparr>p50 := p50 r2, p99 := p99 r2, p999 := z\<rparr>" for z by simp
    ultimately show ?thesis unfolding step using True p50 p99 mono by (simp add: r2)
  next
    case False
    have "percentiles (b + 1) acc' (ranked ss 4999 \<le> b) (ranked ss 9899 \<le> b) hist r2 =
        r2\<lparr>p50 := of_nat (ranked ss 4999), p99 := of_nat (ranked ss 9899), p999 := of_nat (ranked ss 9989)\<rparr>"
    proof (rule Cons.IH)
      fix j
      assume "j < length hist"
      then show "unat (hist ! j) = length (filter (\<lambda>s. bin s = b + 1 + j) ss)"
        using Cons.prems(1) [of "Suc j"] by simp
    next
      show "acc' = length (filter (\<lambda>s. bin s < b + 1) ss)" by (simp add: acc' less_Suc_eq_le)
    qed (use Cons.prems(2) False p50 p99 in auto)
    then show ?thesis using False by (simp add: step r2)
  qed
qed

text \<open>The whole pass over the samples of a run.\<close>

lemma samples_pass:
  assumes "length ss = IRQ_N"
  shows "\<exists>hist. fold add_sample ss (0xFFFFFFFF, 0, 0, replicate HIST 0) =
      (Min (set ss), Max (set ss), sum_list ss, hist) \<and>
    (\<forall>r. percentiles 0 0 False False hist r = r\<lparr>p50 := of_nat (ranked ss 4999),
      p99 := of_nat (ranked ss 9899), p999 := of_nat (ranked ss 9989)\<rparr>)"
proof -
  have "length (replicate HIST (0 :: u32)) = 4096" by (simp add: HIST_def)
  from fold_sample [OF this, of ss "0xFFFFFFFF" 0 0] obtain hist where hist:
    "fold add_sample ss (0xFFFFFFFF, 0, 0, replicate HIST 0) =
      (case fold irq_stat ss (0xFFFFFFFF, 0, 0) of (a, b, c) \<Rightarrow> (a, b, c, hist))" "length hist = 4096"
    "\<forall>v<4096. hist ! v = of_nat (length (filter (\<lambda>s. bin s = v) ss))"
    by (auto simp: HIST_def)
  have "unat (hist ! j) = length (filter (\<lambda>s. bin s = 0 + j) ss)" if "j < length hist" for j
  proof -
    have "length (filter (\<lambda>s. bin s = j) ss) \<le> 10000"
      using length_filter_le [of "\<lambda>s. bin s = j" ss] assms by (simp add: IRQ_N_def)
    then show ?thesis using hist(2,3) that by (simp add: unat_of_nat)
  qed
  then have "percentiles 0 0 False False hist r = r\<lparr>p50 := of_nat (ranked ss 4999),
      p99 := of_nat (ranked ss 9899), p999 := of_nat (ranked ss 9989)\<rparr>" for r
    using hist(2) by (intro percentiles_run [OF assms]) auto
  moreover have "ss \<noteq> []" using assms by (auto simp: IRQ_N_def)
  ultimately show ?thesis using hist(1) by (auto simp: fold_stat_run)
qed

section \<open>The verdict\<close>

text \<open>
  What the tool should say about the runs \<open>nss\<close> of a finished gate that measured the clock \<open>k\<close>.
\<close>

definition verdict :: "u32 \<Rightarrow> u32 list list \<Rightarrow> gate_error + gate_result" where
  "verdict k nss =
     (let lo = Min (sum_list ` set nss); hi = Max (sum_list ` set nss)
      in if k < 124000 \<or> 126000 < k then Inl (BadClock k)
         else if lo = 0 then Inl DivByZero
         else if 2 * unat lo \<le> 100 * (unat hi - unat lo) then Inl (MeanSpread lo hi)
         else Inr \<lparr>khz = k, first_count = hd (nss ! 0),
           mn = Min (set (concat nss)), mx = Max (set (concat nss)), mx_warm = Max (set (concat (tl nss))),
           sum_all = sum_list (map (\<lambda>ns. ucast (sum_list ns)) nss),
           p50 = of_nat (ranked (nss ! 2) 4999), p99 = of_nat (ranked (nss ! 2) 9899),
           p999 = of_nat (ranked (nss ! 2) 9989)\<rparr>)"

lemma fold_min: "fold (\<lambda>s lo. if s < lo then s else lo) ss x = Min (insert x (set ss))"
  for x :: u32
proof (induction ss arbitrary: x)
  case (Cons s ss)
  have "(if s < x then s else x) = min s x" by (auto simp: min_def)
  then show ?case
    using Cons by (cases "ss = []") (simp_all add: min.left_commute min.commute min.assoc)
qed simp

lemma fold_max: "fold (\<lambda>s hi. if hi < s then s else hi) ss x = Max (insert x (set ss))"
  for x :: u32
proof (induction ss arbitrary: x)
  case (Cons s ss)
  have "(if x < s then s else x) = max s x" by (auto simp: max_def)
  then show ?case
    using Cons by (cases "ss = []") (simp_all add: max.left_commute max.commute max.assoc)
qed simp

lemma check_spread_exact:
  assumes "sums \<noteq> []"
  shows "check_spread sums =
    (let lo = Min (set sums); hi = Max (set sums)
     in if lo = 0 then Some DivByZero
        else if 2 * unat lo \<le> 100 * (unat hi - unat lo) then Some (MeanSpread lo hi) else None)"
proof -
  have "insert (hd sums) (set (tl sums)) = set sums" using assms by (cases sums) auto
  moreover have "Min (set sums) \<le> Max (set sums)" using assms by simp
  ultimately show ?thesis
    by (simp add: check_spread_def fold_min fold_max spread_exact Let_def)
qed

lemma reference_words:
  "\<exists>a. reference_program = Some a \<and> alen a = 7 \<and> (\<forall>i<7. code a ! i = PROG ! i)"
proof -
  have "reference_program = mj_program"
    by (simp add: reference_program_def mj_program_def PIN_A_def)
  then show ?thesis using mj_program_words by simp
qed

lemma for_range_three: "for_range 0 3 f s = f 2 (f 1 (f 0 s))"
  by (simp add: for_range_def numeral_3_eq_3 numeral_2_eq_2)

lemma extremes_updates:
  "(if n < mn r then r\<lparr>mn := n\<rparr> else r) = r\<lparr>mn := min n (mn r)\<rparr>"
  "(if mx r < x then r\<lparr>mx := x\<rparr> else r) = r\<lparr>mx := max x (mx r)\<rparr>"
  "(if P \<and> mx_warm r < x then r\<lparr>mx_warm := x\<rparr> else r) =
     r\<lparr>mx_warm := (if P then max x (mx_warm r) else mx_warm r)\<rparr>"
  by (cases r, auto simp: min_def max_def)+

lemma add_run_eq:
  "add_run head run r = r\<lparr>mn := min (head ! (12 + run * 3)) (mn r), mx := max (head ! (13 + run * 3)) (mx r),
     mx_warm := (if 0 < run then max (head ! (13 + run * 3)) (mx_warm r) else mx_warm r),
     sum_all := sum_all r + ucast (head ! (14 + run * 3))\<rparr>"
  by (simp add: add_run_def Let_def extremes_updates)

lemma host_verdict:
  assumes ok: "results_ok lang nss m"
  shows "run_target lang (\<lambda>_. arr m IRQ_MB 32) (arr m SAMPLES 10000) = verdict (m (IRQ_MB + 0x14)) nss"
proof -
  let ?h = "arr m IRQ_MB 32"
  have w: "?h ! k = m (idx IRQ_MB k)" if "k < 32" for k using that by simp
  from ok obtain a b c where abc: "nss = [a, b, c]"
    by (auto simp: results_ok_def numeral_3_eq_3 length_Suc_conv)
  have len: "length a = IRQ_N" "length b = IRQ_N" "length c = IRQ_N"
    using ok by (simp_all add: results_ok_def abc IRQ_N_def)
  then have ne: "a \<noteq> []" "b \<noteq> []" "c \<noteq> []" by (auto simp: IRQ_N_def)
  have head: "?h ! 0 = IRQ_MAGIC" "?h ! Suc 0 = 2" "?h ! 2 = 10000" "?h ! 3 = 3" "?h ! 4 = lang"
    "?h ! 5 = m (IRQ_MB + 0x14)" "?h ! 6 = hd a" "?h ! 7 = 30000" "?h ! 24 = 7"
    using ok results_words(1) unfolding results_ok_def mailbox_idx results_words(2) abc
    by (simp_all add: w IRQ_MAGIC_def)
  have words: "?h ! (25 + i) = ucast (PROG ! i)" if "i < 7" for i
    using ok that unfolding results_ok_def results_words(6) by (simp add: w)
  have stats: "?h ! (12 + r * 3) = Min (set (nss ! r)) \<and> ?h ! (13 + r * 3) = Max (set (nss ! r)) \<and>
      ?h ! (14 + r * 3) = sum_list (nss ! r)" if "r < 3" for r
    using ok that unfolding results_ok_def results_words(3-5) by (simp add: w mult.commute)
  have samples: "arr m SAMPLES 10000 = c" using ok by (simp add: results_ok_def abc)
  have over: "wait_head (\<lambda>_. ?h) 20 0 [] = (?h, True)"
  proof -
    have "(20 :: nat) = Suc 19" by simp
    then show ?thesis
      by (simp only: wait_head.simps) (simp add: gate_over_def head Let_def del: nth_arr)
  qed
  have prog: "check_program ?h = None"
  proof -
    obtain p where p: "reference_program = Some p" "alen p = 7" "\<forall>i<7. code p ! i = PROG ! i"
      using reference_words by blast
    have "find (\<lambda>i. ?h ! (25 + i) \<noteq> ucast (code p ! i)) [0..<7] = None"
      using words p(3) by (auto simp: find_None_iff simp del: nth_arr)
    then show ?thesis by (simp add: check_program_def p(1,2) head del: nth_arr)
  qed
  have st: "?h ! 12 = Min (set a)" "?h ! 13 = Max (set a)" "?h ! 14 = sum_list a"
    "?h ! 15 = Min (set b)" "?h ! 16 = Max (set b)" "?h ! 17 = sum_list b"
    "?h ! 18 = Min (set c)" "?h ! 19 = Max (set c)" "?h ! 20 = sum_list c"
    using stats [of 0] stats [of 1] stats [of 2] by (simp_all add: abc del: nth_arr)
  have sums: "run_sums ?h = [sum_list a, sum_list b, sum_list c]"
    by (simp add: run_sums_def IRQ_RUNS_def upt_conv_Cons st del: nth_arr)
  have check: "check_head lang ?h =
      (if ?h ! 5 < 124000 \<or> 126000 < ?h ! 5 then Some (BadClock (?h ! 5)) else None)"
    by (simp add: check_head_def head(1-5,8) IRQ_N_def IRQ_RUNS_def del: nth_arr)
  have runs: "add_runs ?h r = r\<lparr>mn := Min (set (concat nss)), mx := Max (set (concat nss)),
      mx_warm := Max (set (concat (tl nss))),
      sum_all := sum_list (map (\<lambda>ns. ucast (sum_list ns)) nss)\<rparr>" if "mx_warm r = 0" "sum_all r = 0" for r
  proof -
    have "0 + IRQ_RUNS = 3" by (simp add: IRQ_RUNS_def)
    then show ?thesis
      using that ne
      by (simp add: add_runs_def IRQ_RUNS_def for_range_three add_run_eq st abc word_top Min_Un Max_Un
          min.assoc max.assoc min.commute max.commute min.left_commute max.left_commute add.assoc
          del: nth_arr)
  qed
  have spread: "check_spread (run_sums ?h) =
      (let lo = Min (sum_list ` set nss); hi = Max (sum_list ` set nss)
       in if lo = 0 then Some DivByZero
          else if 2 * unat lo \<le> 100 * (unat hi - unat lo) then Some (MeanSpread lo hi) else None)"
    unfolding sums by (subst check_spread_exact) (simp_all add: abc)
  from samples_pass [OF len(3)] obtain hist where hist:
    "fold add_sample c (0xFFFFFFFF, 0, 0, replicate HIST 0) = (Min (set c), Max (set c), sum_list c, hist)"
    "\<And>r. percentiles 0 0 False False hist r = r\<lparr>p50 := of_nat (ranked c 4999),
      p99 := of_nat (ranked c 9899), p999 := of_nat (ranked c 9989)\<rparr>"
    by blast
  have last: "?h ! (0x0C + (IRQ_RUNS - Suc 0) * 3) = Min (set c)" "?h ! (0x0D + (IRQ_RUNS - Suc 0) * 3) = Max (set c)"
    "?h ! (0x0E + (IRQ_RUNS - Suc 0) * 3) = sum_list c"
    by (simp_all add: IRQ_RUNS_def st del: nth_arr)
  show ?thesis
  proof (cases "?h ! 5 < 124000 \<or> 126000 < ?h ! 5")
    case True
    then show ?thesis by (auto simp: run_target_def over check verdict_def head(6) Let_def simp del: nth_arr)
  next
    case False
    then have "check_head lang ?h = None" by (simp add: check)
    then have "run_target lang (\<lambda>_. ?h) (arr m SAMPLES 10000) =
      (case check_spread (run_sums ?h) of Some e \<Rightarrow> Inl e
       | None \<Rightarrow> Inr (percentiles 0 0 False False hist
           (add_runs ?h (no_result\<lparr>khz := ?h ! 5, first_count := ?h ! 6\<rparr>))))"
      by (simp add: run_target_def over prog samples hist(1) last Let_def del: nth_arr cong: option.case_cong)
    then show ?thesis
      using False
      by (simp add: spread hist(2) runs verdict_def no_result_def head(6,7) abc Let_def del: nth_arr)
  qed
qed

section \<open>Firmware and host\<close>

lemma led_ram: "irq_led_rounds D n s = Some t \<Longrightarrow> ram t = ram s"
proof (induction n arbitrary: s)
  case (Suc n)
  then obtain u where u: "sleep_us D 250000 (wr D 0xD000001C (push_bit 25 1) s) = Some u"
    "irq_led_rounds D n u = Some t"
    by (auto simp: bind_eq_Some_conv Let_def simp del: push_bit_of_1)
  from u(1) have "ram u = ram s"
    by (auto simp: sleep_us_def time_us_def split_beta Let_def ram_wr sram_eval dest!: poll_ram)
  then show ?case using Suc.IH [OF u(2)] by simp
qed simp

lemma blink_ram: "irq_blink D n x = Some (Inr t) \<Longrightarrow> \<exists>u. x = Inr u \<and> ram t = ram u"
  by (auto simp: irq_blink_def bind_eq_Some_conv dest: led_ram split: sum.splits)

lemma finished_results:
  assumes "setup_done lang s" and "irq_measure q D s \<bind> irq_blink D n = Some (Inr t)"
  shows "\<exists>nss. results_ok lang nss (ram t)"
proof -
  from assms(2) obtain x where x: "irq_measure q D s = Some x" "irq_blink D n x = Some (Inr t)"
    by (auto simp: bind_eq_Some_conv)
  with blink_ram [OF x(2)] measure_run [OF assms(1) x(1)] show ?thesis by auto
qed

text \<open>C15: the host's verdict on a finished latency gate, C or Mojo: whatever the board did, and however
  long the LED has been blinking, the tool never reports the firmware as stale, of another
  language, with missing interrupts, another PIO program or other statistics than its samples.
  It rejects only a clock outside 124 to 126 MHz, runs whose sums differ by 2 percent or more,
  or (by an unguarded division) a run of zeros; else it reports the first value, the extremes
  over all runs and over the warm ones, the sum, and as percentiles the samples of these ranks
  in the last run. The machine arithmetic of the spread test is exact.\<close>

theorem host_verdict_on_gate:
  assumes "irq_program lang q D n s = Some (Inr t) \<or> lang = 1 \<and> mj_irq_program q D n s = Some (Inr t)"
  shows "\<exists>nss. results_ok lang nss (ram t) \<and>
    run_target lang (\<lambda>_. arr (ram t) IRQ_MB 32) (arr (ram t) SAMPLES 10000) =
      verdict (ram t (IRQ_MB + 0x14)) nss"
proof -
  obtain u where u: "setup_done lang u" "irq_measure q D u \<bind> irq_blink D n = Some (Inr t)"
    using assms by (auto simp: irq_program_def irq_main_def mj_measure bind_eq_Some_conv
        dest: setup_done mj_setup_done)
  from finished_results [OF u] obtain nss where "results_ok lang nss (ram t)" by blast
  with host_verdict [OF this] show ?thesis by blast
qed

theorem host_verdict_on_gate_witness:
  "\<exists>t nss. irq_program 2 snd gate_board 3 \<lparr>ram = \<lambda>_. 0, dev = ((0, 0), False)\<rparr> = Some (Inr t) \<and>
     results_ok 2 nss (ram t) \<and>
     run_target 2 (\<lambda>_. arr (ram t) IRQ_MB 32) (arr (ram t) SAMPLES 10000) =
       verdict (ram t (IRQ_MB + 0x14)) nss"
proof -
  let ?q = "snd :: (u32 \<times> u32) \<times> bool \<Rightarrow> bool"
  obtain u where "irq_main 2 ?q gate_board \<lparr>ram = \<lambda>_. 0, dev = ((0, 0), False)\<rparr> = Some (Inr u)"
    using gate_succeeds by blast
  moreover obtain t where "irq_led_rounds gate_board 3 u = Some t"
    using led_returns [OF gate_board_timer] by (auto simp: returns_def)
  ultimately have "irq_program 2 ?q gate_board 3 \<lparr>ram = \<lambda>_. 0, dev = ((0, 0), False)\<rparr> = Some (Inr t)"
    by (simp add: irq_program_def irq_blink_def)
  moreover from this have "irq_program 2 ?q gate_board 3 \<lparr>ram = \<lambda>_. 0, dev = ((0, 0), False)\<rparr> = Some (Inr t) \<or>
      2 = (1 :: u32) \<and> mj_irq_program ?q gate_board 3 \<lparr>ram = \<lambda>_. 0, dev = ((0, 0), False)\<rparr> = Some (Inr t)"
    by (rule disjI1)
  ultimately show ?thesis using host_verdict_on_gate by blast
qed

end
