(* ===== verification/XorShift.thy ===== *)
theory XorShift
  imports Prelude
begin

text \<open>
  The pseudo-random step of the benchmarks, \<^verbatim>\<open>step\<close> of \<^verbatim>\<open>bench/bench.c\<close>: three
  shift-and-xor rounds on a 32-bit state. It is linear and invertible, so the generator
  never falls into the zero state from a nonzero seed.
\<close>

definition step :: "u32 \<Rightarrow> u32" where
  "step x =
     (let x = x XOR push_bit 13 x;
          x = x XOR drop_bit 17 x;
          x = x XOR push_bit 5 x
      in x)"

section \<open>Linearity\<close>

interpretation xs: xor_linear step
  by unfold_locales (simp add: step_def Let_def push_bit_xor drop_bit_xor xor_ac)

section \<open>The inverse step\<close>

text \<open>
  Each round is undone by repeating its shift until the shifted copy leaves the word:
  for a left shift by \<open>k\<close>, \<open>x XOR x<<k XOR x<<2k \<dots>\<close>.
\<close>

definition unstep :: "u32 \<Rightarrow> u32" where
  "unstep x =
     (let x = x XOR push_bit 5 x XOR push_bit 10 x XOR push_bit 15 x XOR push_bit 20 x
                XOR push_bit 25 x XOR push_bit 30 x;
          x = x XOR drop_bit 17 x;
          x = x XOR push_bit 13 x XOR push_bit 26 x
      in x)"

lemma push_bit_out: "32 \<le> n \<Longrightarrow> push_bit n (x :: u32) = 0"
  by (rule bit_word_eqI) (auto simp: bit_simps)

lemma drop_bit_out: "32 \<le> n \<Longrightarrow> drop_bit n (x :: u32) = 0"
  by (rule bit_word_eqI) (auto simp: bit_simps dest: bit_imp_le_length)

lemma undo_left_5:
  fixes x :: u32
  assumes "y = x XOR push_bit 5 x"
  shows "y XOR push_bit 5 y XOR push_bit 10 y XOR push_bit 15 y XOR push_bit 20 y
           XOR push_bit 25 y XOR push_bit 30 y = x"
  by (simp add: assms push_bit_xor push_bit_out xor_ac)

lemma undo_right_17:
  fixes x :: u32
  assumes "y = x XOR drop_bit 17 x"
  shows "y XOR drop_bit 17 y = x"
  by (simp add: assms drop_bit_xor drop_bit_out xor_ac)

lemma undo_left_13:
  fixes x :: u32
  assumes "y = x XOR push_bit 13 x"
  shows "y XOR push_bit 13 y XOR push_bit 26 y = x"
  by (simp add: assms push_bit_xor push_bit_out xor_ac)

lemma unstep_step: "unstep (step x) = x"
proof -
  let ?a = "x XOR push_bit 13 x"
  let ?b = "?a XOR drop_bit 17 ?a"
  have "unstep (step x) = (let b = ?b; a = b XOR drop_bit 17 b
      in a XOR push_bit 13 a XOR push_bit 26 a)"
    unfolding unstep_def step_def Let_def by (simp only: undo_left_5 [OF refl])
  also have "\<dots> = ?a XOR push_bit 13 ?a XOR push_bit 26 ?a"
    unfolding Let_def by (simp only: undo_right_17 [OF refl])
  also have "\<dots> = x" by (rule undo_left_13 [OF refl])
  finally show ?thesis .
qed

lemma inj_step: "inj step"
  by (rule inj_on_inverseI [of _ unstep]) (rule unstep_step)

lemma bij_step: "bij step"
  by (simp add: bij_def inj_step finite_UNIV_inj_surj)

lemma step_unstep: "step (unstep x) = x"
proof -
  obtain y where "x = step y" using bij_step by (metis bij_pointE)
  then show ?thesis by (simp add: unstep_step)
qed

lemma step_zero_iff: "step x = 0 \<longleftrightarrow> x = 0"
  using inj_step by (metis injD xs.zero)

section \<open>The benchmark loop\<close>

text \<open>The timed loop of \<^verbatim>\<open>bm_xorshift\<close>: \<open>n\<close> steps from the seed.\<close>

definition xorshift_loop :: "nat \<Rightarrow> u32 \<Rightarrow> u32" where
  "xorshift_loop n x = for_range 0 n (\<lambda>_. step) x"

lemma xorshift_loop_funpow: "xorshift_loop n x = (step ^^ n) x"
  by (simp add: xorshift_loop_def for_range_const)

lemma xorshift_loop_zero_iff: "xorshift_loop n x = 0 \<longleftrightarrow> x = 0"
  by (induction n) (simp_all add: xorshift_loop_funpow step_zero_iff)

lemma xorshift_loop_inj: "inj (xorshift_loop n)"
proof -
  have "inj (step ^^ n)" using inj_step by (rule inj_fn)
  then show ?thesis by (simp add: xorshift_loop_funpow [abs_def])
qed

text \<open>A buffer filled from the generator: element \<open>i\<close> is the state after \<open>i + 1\<close> steps.\<close>

definition gen :: "u32 \<Rightarrow> nat \<Rightarrow> u32" where
  "gen x i = (step ^^ Suc i) x"

lemma gen_nonzero: "x \<noteq> 0 \<Longrightarrow> gen x i \<noteq> 0"
  using xorshift_loop_zero_iff [of "Suc i" x] by (simp add: gen_def xorshift_loop_funpow)

section \<open>Filling a buffer\<close>

text \<open>
  \<^verbatim>\<open>for (i = 0; i < n; i++) { x = step(x); buf[i] = x; }\<close>, the way every kernel with a
  working set prepares it; the generator state is carried on.
\<close>

definition fill_random :: "u32 \<Rightarrow> nat \<Rightarrow> u32 \<times> mem \<Rightarrow> u32 \<times> mem" where
  "fill_random buf n =
     for_range 0 n (\<lambda>i (x, m). let x = step x in (x, mem_put m (idx buf i) x))"

lemma fill_random_eq:
  "fill_random buf n (x, m) =
     ((step ^^ n) x, for_range 0 n (\<lambda>i m. mem_put m (idx buf i) (gen x i)) m)"
  unfolding fill_random_def
  by (induction n) (simp_all add: for_range_Suc Let_def gen_def)

lemma fst_fill_random [simp]: "fst (fill_random buf n (x, m)) = (step ^^ n) x"
  by (simp add: fill_random_eq)

lemma fill_random_idx:
  assumes "fits buf n" and "i < n"
  shows "snd (fill_random buf n (x, m)) (idx buf i) = gen x i"
  using word_mem.get_fill_idx [OF assms(1) _ assms(2)] by (simp add: fill_random_eq)

lemma fill_random_other:
  "c \<notin> region buf n \<Longrightarrow> snd (fill_random buf n (x, m)) c = m c"
  using word_mem.get_fill_other [where n = n and b = buf and c = c] by (simp add: fill_random_eq)

lemma arr_fill_random:
  "fits buf n \<Longrightarrow> arr (snd (fill_random buf n (x, m))) buf n = map (gen x) [0..<n]"
  by (rule nth_equalityI) (simp_all add: fill_random_idx)

section \<open>Properties\<close>

text \<open>The pseudo-random step loses no information: it is a bijection on the 32-bit states,
  with \<open>unstep\<close> as its inverse on both sides, and zero is its only zero.\<close>

theorem step_bijective:
  "bij step \<and> (\<forall>x. unstep (step x) = x \<and> step (unstep x) = x \<and> (step x = 0 \<longleftrightarrow> x = 0))"
  by (simp add: bij_step unstep_step step_unstep step_zero_iff)

text \<open>Filling a buffer of \<open>n\<close> words that fits the address space writes the generator's
  successive states, none of them zero for a nonzero seed, leaves every other word alone and
  hands on the state for the next buffer.\<close>

theorem fill_random_correct:
  assumes "fits buf n" and "x \<noteq> 0"
  shows "arr (snd (fill_random buf n (x, m))) buf n = map (gen x) [0..<n] \<and>
    0 \<notin> set (arr (snd (fill_random buf n (x, m))) buf n) \<and>
    fst (fill_random buf n (x, m)) = (step ^^ n) x \<and>
    (\<forall>c. c \<notin> region buf n \<longrightarrow> snd (fill_random buf n (x, m)) c = m c)"
proof -
  have "0 \<notin> set (map (gen x) [0..<n])" using gen_nonzero [OF assms(2)] by fastforce
  then show ?thesis using assms(1) by (simp add: arr_fill_random fill_random_other)
qed

theorem fill_random_correct_witness:
  "arr (snd (fill_random 0x20020000 3 (1, \<lambda>_. 0))) 0x20020000 3 = map (gen 1) [0..<3]"
  using fill_random_correct [where buf = "0x20020000" and n = 3 and x = 1 and m = "\<lambda>_. 0"] by (simp add: fits_def)

end
