(* ===== verification/QuickSort.thy ===== *)
theory QuickSort
  imports XorShift
begin

text \<open>
  The in-place quicksort of the sort benchmark, \<^verbatim>\<open>qsort_u32\<close> of \<^verbatim>\<open>bench/bench.c\<close>:
  Lomuto partition around the last element, then both sides. The indices are the C code's
  \<^verbatim>\<open>int32_t\<close> values, as integers; that they stay in the range of the type is a lemma. The
  array is a part of the word memory, so aliasing and out-of-array writes are visible.
\<close>

definition at :: "u32 \<Rightarrow> int \<Rightarrow> u32" where
  "at a i = a + 4 * of_int i"

text \<open>\<^verbatim>\<open>uint32_t t = a[i]; a[i] = a[j]; a[j] = t;\<close>\<close>

definition swap :: "u32 \<Rightarrow> int \<Rightarrow> int \<Rightarrow> mem \<Rightarrow> mem" where
  "swap a i j m =
     (let t = m (at a i); m = mem_put m (at a i) (m (at a j)) in mem_put m (at a j) t)"

text \<open>The loop over \<^verbatim>\<open>j\<close>, which returns the final \<^verbatim>\<open>i\<close>.\<close>

function part_loop :: "u32 \<Rightarrow> u32 \<Rightarrow> int \<Rightarrow> int \<Rightarrow> int \<Rightarrow> mem \<Rightarrow> int \<times> mem" where
  "part_loop a p hi i j m =
     (if j < hi
      then (if m (at a j) < p then part_loop a p hi (i + 1) (j + 1) (swap a i j m)
            else part_loop a p hi i (j + 1) m)
      else (i, m))"
  by pat_completeness auto
termination
  by (relation "measure (\<lambda>(a, p, hi, i, j, m). nat (hi - j))") auto

declare part_loop.simps [simp del]

lemma part_loop_bounds:
  "i \<le> j \<Longrightarrow> j \<le> hi \<Longrightarrow> i \<le> fst (part_loop a p hi i j m) \<and> fst (part_loop a p hi i j m) \<le> hi"
proof (induction a p hi i j m rule: part_loop.induct)
  case (1 a p hi i j m)
  then show ?case
    by (subst (1 2) part_loop.simps) auto
qed

function qsort_u32 :: "u32 \<Rightarrow> int \<Rightarrow> int \<Rightarrow> mem \<Rightarrow> mem" where
  "qsort_u32 a lo hi m =
     (if lo \<ge> hi then m
      else (case part_loop a (m (at a hi)) hi lo lo m of
        (i, m1) \<Rightarrow> qsort_u32 a (i + 1) hi (qsort_u32 a lo (i - 1) (swap a i hi m1))))"
  by pat_completeness auto
termination
proof (relation "measure (\<lambda>(a, lo, hi, m). nat (hi - lo + 1))")
  fix a :: u32 and lo hi i :: int and m m1 :: mem
  assume "\<not> hi \<le> lo" and "(i, m1) = part_loop a (m (at a hi)) hi lo lo m"
  then have "lo \<le> i \<and> i \<le> hi"
    using part_loop_bounds [of lo lo hi a "m (at a hi)" m] by (metis fst_conv linorder_le_cases order_refl)
  with \<open>\<not> hi \<le> lo\<close>
  show "((a, lo, i - 1, swap a i hi m1), a, lo, hi, m) \<in> measure (\<lambda>(a, lo, hi, m). nat (hi - lo + 1))"
    and "((a, i + 1, hi, qsort_u32 a lo (i - 1) (swap a i hi m1)), a, lo, hi, m)
      \<in> measure (\<lambda>(a, lo, hi, m). nat (hi - lo + 1))"
    by auto
qed auto

declare qsort_u32.simps [simp del]

section \<open>Rearranging a range of an array\<close>

definition elems :: "u32 \<Rightarrow> int \<Rightarrow> int \<Rightarrow> mem \<Rightarrow> u32 multiset" where
  "elems a lo hi m = image_mset (\<lambda>k. m (at a k)) (mset_set {lo..hi})"

definition rearranges :: "u32 \<Rightarrow> int \<Rightarrow> int \<Rightarrow> mem \<Rightarrow> mem \<Rightarrow> bool" where
  "rearranges a lo hi m m' \<longleftrightarrow>
     elems a lo hi m' = elems a lo hi m \<and> (\<forall>c. c \<notin> at a ` {lo..hi} \<longrightarrow> m' c = m c)"

lemma rearranges_refl [simp]: "rearranges a lo hi m m"
  by (simp add: rearranges_def)

lemma rearranges_trans:
  "rearranges a lo hi m m' \<Longrightarrow> rearranges a lo hi m' m'' \<Longrightarrow> rearranges a lo hi m m''"
  by (simp add: rearranges_def)

lemma rearranges_elem:
  assumes "rearranges a lo hi m m'" and "lo \<le> k" and "k \<le> hi"
  shows "\<exists>l. lo \<le> l \<and> l \<le> hi \<and> m' (at a k) = m (at a l)"
proof -
  have "m' (at a k) \<in># elems a lo hi m'" using assms by (simp add: elems_def)
  then have "m' (at a k) \<in># elems a lo hi m" using assms(1) by (simp add: rearranges_def)
  then show ?thesis by (auto simp: elems_def)
qed

lemma image_mset_exchange:
  assumes "finite A" and "i \<in> A" and "j \<in> A"
  shows "image_mset (\<lambda>k. f (if k = i then j else if k = j then i else k)) (mset_set A) =
    image_mset f (mset_set A)"
proof -
  let ?t = "\<lambda>k. if k = i then j else if k = j then i else k"
  have inj: "inj_on ?t A" by (auto simp: inj_on_def split: if_splits)
  moreover have "?t ` A = A"
    using assms by (intro endo_inj_surj inj) auto
  ultimately have "image_mset ?t (mset_set A) = mset_set A"
    by (simp add: image_mset_mset_set)
  then have "image_mset f (image_mset ?t (mset_set A)) = image_mset f (mset_set A)" by simp
  then show ?thesis by (simp add: multiset.map_comp o_def)
qed

lemma at_idx: "0 \<le> i \<Longrightarrow> at a i = idx a (nat i)"
  by (simp add: at_def idx_def)

context buffer
begin

lemma at_inject:
  "0 \<le> i \<Longrightarrow> i < int len \<Longrightarrow> 0 \<le> j \<Longrightarrow> j < int len \<Longrightarrow> at base i = at base j \<longleftrightarrow> i = j"
  by (simp add: at_idx inject nat_less_iff eq_nat_nat_iff)

lemma swap_at:
  assumes "0 \<le> i" "i < int len" "0 \<le> j" "j < int len" "0 \<le> k" "k < int len"
  shows "swap base i j m (at base k) = m (at base (if k = i then j else if k = j then i else k))"
  using assms by (auto simp: swap_def Let_def mem_put_def at_inject)

lemma swap_rearranges:
  assumes "0 \<le> lo" "hi < int len" "i \<in> {lo..hi}" "j \<in> {lo..hi}"
  shows "rearranges base lo hi m (swap base i j m)"
proof -
  have "elems base lo hi (swap base i j m) =
      image_mset (\<lambda>k. m (at base (if k = i then j else if k = j then i else k))) (mset_set {lo..hi})"
    unfolding elems_def using assms by (intro image_mset_cong) (simp add: swap_at)
  also have "\<dots> = elems base lo hi m"
    unfolding elems_def using assms
    by (intro image_mset_exchange [where f = "\<lambda>k. m (at base k)"]) auto
  finally show ?thesis
    using assms(3,4) by (auto simp: rearranges_def swap_def Let_def mem_put_def)
qed

text \<open>Rearranging a part of a range rearranges the range.\<close>

lemma rearranges_widen:
  assumes "rearranges base l h m m'" and "lo \<le> l" "h \<le> hi" "0 \<le> lo" "hi < int len"
  shows "rearranges base lo hi m m'"
proof -
  have split: "elems base lo hi w = elems base l h w +
      image_mset (\<lambda>k. w (at base k)) (mset_set ({lo..hi} - {l..h}))" for w
  proof -
    have "mset_set {lo..hi} = mset_set {l..h} + mset_set ({lo..hi} - {l..h})"
      using assms(2,3) by (subst mset_set_Union [symmetric]) (auto intro: arg_cong [of _ _ mset_set])
    then show ?thesis by (simp add: elems_def)
  qed
  have "m' (at base k) = m (at base k)" if "k \<in> {lo..hi} - {l..h}" for k
  proof -
    have "at base k \<notin> at base ` {l..h}"
      using that assms(2-5) by (auto simp: at_inject)
    then show ?thesis using assms(1) by (simp add: rearranges_def)
  qed
  then have "image_mset (\<lambda>k. m' (at base k)) (mset_set ({lo..hi} - {l..h})) =
      image_mset (\<lambda>k. m (at base k)) (mset_set ({lo..hi} - {l..h}))"
    by (intro image_mset_cong) simp
  moreover have "at base ` {l..h} \<subseteq> at base ` {lo..hi}" using assms(2,3) by auto
  ultimately show ?thesis
    using assms(1) unfolding rearranges_def split by (metis subsetD)
qed

section \<open>Partition\<close>

lemma part_loop_spec:
  assumes "0 \<le> lo" "hi < int len" "lo \<le> i" "i \<le> j" "j \<le> hi"
    and "\<forall>k. lo \<le> k \<and> k < i \<longrightarrow> m (at base k) < p"
    and "\<forall>k. i \<le> k \<and> k < j \<longrightarrow> p \<le> m (at base k)"
    and "part_loop base p hi i j m = (i', m')"
  shows "rearranges base lo (hi - 1) m m' \<and> (\<forall>k. lo \<le> k \<and> k < i' \<longrightarrow> m' (at base k) < p) \<and>
    (\<forall>k. i' \<le> k \<and> k < hi \<longrightarrow> p \<le> m' (at base k))"
  using assms(3-8)
proof (induction "nat (hi - j)" arbitrary: i j m)
  case 0
  then show ?case by (simp add: part_loop.simps [of base p j i j m])
next
  case (Suc n)
  then have "j < hi" by simp
  have n: "n = nat (hi - (j + 1))" using Suc(2) by simp
  show ?case
  proof (cases "m (at base j) < p")
    case False
    have "\<forall>k. i \<le> k \<and> k < j + 1 \<longrightarrow> p \<le> m (at base k)"
      using Suc.prems(5) False by (metis linorder_not_less order_antisym_conv zless_add1_eq)
    moreover have "part_loop base p hi i (j + 1) m = (i', m')"
      using Suc.prems(6) False \<open>j < hi\<close> by (simp add: part_loop.simps [of base p hi i j m])
    ultimately show ?thesis
      using Suc(1) [OF n, of i m] Suc.prems(1,2,4) \<open>j < hi\<close> by simp
  next
    case True
    let ?m = "swap base i j m"
    have sw: "?m (at base k) = m (at base (if k = i then j else if k = j then i else k))"
      if "lo \<le> k" "k \<le> hi" for k
      using that assms(1,2) Suc.prems(1-3) by (intro swap_at) auto
    have "rearranges base lo (hi - 1) m ?m"
      using assms(1,2) Suc.prems(1,2) \<open>j < hi\<close> by (intro swap_rearranges) auto
    moreover have "rearranges base lo (hi - 1) ?m m' \<and>
        (\<forall>k. lo \<le> k \<and> k < i' \<longrightarrow> m' (at base k) < p) \<and>
        (\<forall>k. i' \<le> k \<and> k < hi \<longrightarrow> p \<le> m' (at base k))"
    proof (rule Suc(1) [OF n, of "i + 1" ?m])
      show "\<forall>k. lo \<le> k \<and> k < i + 1 \<longrightarrow> ?m (at base k) < p"
        using Suc.prems True \<open>j < hi\<close> by (auto simp: sw)
      show "\<forall>k. i + 1 \<le> k \<and> k < j + 1 \<longrightarrow> p \<le> ?m (at base k)"
        using Suc.prems True \<open>j < hi\<close> by (auto simp: sw)
      show "part_loop base p hi (i + 1) (j + 1) ?m = (i', m')"
        using Suc.prems(6) True \<open>j < hi\<close> by (simp add: part_loop.simps [of base p hi i j m])
    qed (use Suc.prems \<open>j < hi\<close> in auto)
    ultimately show ?thesis using rearranges_trans by blast
  qed
qed

text \<open>
  After the partition and the final exchange the pivot is in its place: smaller elements to
  its left, the others to its right.
\<close>

lemma partition_spec:
  assumes "0 \<le> lo" "lo < hi" "hi < int len"
    and part: "part_loop base (m (at base hi)) hi lo lo m = (i, m1)"
  defines "m2 \<equiv> swap base i hi m1"
  shows "lo \<le> i" "i \<le> hi" "rearranges base lo hi m m2"
    and "\<And>k. lo \<le> k \<Longrightarrow> k < i \<Longrightarrow> m2 (at base k) \<le> m2 (at base i)"
    and "\<And>k. i < k \<Longrightarrow> k \<le> hi \<Longrightarrow> m2 (at base i) \<le> m2 (at base k)"
proof -
  let ?p = "m (at base hi)"
  show i: "lo \<le> i" "i \<le> hi"
    using part_loop_bounds [of lo lo hi base ?p m] assms(2) part by auto
  have "rearranges base lo (hi - 1) m m1 \<and> (\<forall>k. lo \<le> k \<and> k < i \<longrightarrow> m1 (at base k) < ?p) \<and>
      (\<forall>k. i \<le> k \<and> k < hi \<longrightarrow> ?p \<le> m1 (at base k))"
    by (rule part_loop_spec [OF assms(1,3) order_refl order_refl _ _ _ part])
       (use assms(2) in auto)
  then have spec: "rearranges base lo (hi - 1) m m1"
      "\<forall>k. lo \<le> k \<and> k < i \<longrightarrow> m1 (at base k) < ?p"
      "\<forall>k. i \<le> k \<and> k < hi \<longrightarrow> ?p \<le> m1 (at base k)" by blast+
  have "at base hi \<notin> at base ` {lo..hi - 1}"
    using assms(1-3) by (auto simp: at_inject)
  then have pivot: "m1 (at base hi) = ?p"
    using spec(1) by (simp add: rearranges_def)
  have sw: "m2 (at base k) = m1 (at base (if k = i then hi else if k = hi then i else k))"
    if "lo \<le> k" "k \<le> hi" for k
    unfolding m2_def by (rule swap_at) (use that assms(1,3) i in auto)
  have "rearranges base lo hi m m1"
    by (rule rearranges_widen [OF spec(1)]) (use assms(1,3) in auto)
  moreover have "rearranges base lo hi m1 m2"
    unfolding m2_def by (rule swap_rearranges) (use assms(1-3) i in auto)
  ultimately show "rearranges base lo hi m m2" by (rule rearranges_trans)
  show "m2 (at base k) \<le> m2 (at base i)" if "lo \<le> k" "k < i" for k
    using that i spec(2) pivot by (auto simp: sw less_imp_le)
  show "m2 (at base i) \<le> m2 (at base k)" if "i < k" "k \<le> hi" for k
    using that i spec(3) pivot by (auto simp: sw)
qed

section \<open>Sorting\<close>

lemma qsort_spec:
  assumes "0 \<le> lo" "hi < int len"
  shows "rearranges base lo hi m (qsort_u32 base lo hi m) \<and>
    (\<forall>k l. lo \<le> k \<and> k \<le> l \<and> l \<le> hi \<longrightarrow>
      qsort_u32 base lo hi m (at base k) \<le> qsort_u32 base lo hi m (at base l))"
  using assms
proof (induction "nat (hi - lo + 1)" arbitrary: lo hi m rule: less_induct)
  case less
  show ?case
  proof (cases "lo < hi")
    case False
    then have "m (at base k) \<le> m (at base l)" if "lo \<le> k" "k \<le> l" "l \<le> hi" for k l
    proof -
      have "k = l" using that False by linarith
      then show ?thesis by simp
    qed
    then show ?thesis using False by (auto simp: qsort_u32.simps [of base lo hi m])
  next
    case True
    obtain i m1 where part: "part_loop base (m (at base hi)) hi lo lo m = (i, m1)" by fastforce
    define m2 where "m2 = swap base i hi m1"
    define m3 where "m3 = qsort_u32 base lo (i - 1) m2"
    define m4 where "m4 = qsort_u32 base (i + 1) hi m3"
    have m4: "qsort_u32 base lo hi m = m4"
      using True part by (simp add: qsort_u32.simps [of base lo hi m] m2_def m3_def m4_def)
    note p = partition_spec [OF less.prems(1) True less.prems(2) part, folded m2_def]
    have left: "rearranges base lo (i - 1) m2 m3"
        "\<forall>k l. lo \<le> k \<and> k \<le> l \<and> l \<le> i - 1 \<longrightarrow> m3 (at base k) \<le> m3 (at base l)"
      using less.hyps [of "i - 1" lo m2] less.prems p(1,2) by (auto simp: m3_def)
    have right: "rearranges base (i + 1) hi m3 m4"
        "\<forall>k l. i + 1 \<le> k \<and> k \<le> l \<and> l \<le> hi \<longrightarrow> m4 (at base k) \<le> m4 (at base l)"
      using less.hyps [of hi "i + 1" m3] less.prems p(1,2) by (auto simp: m4_def)
    have out: "at base k \<notin> at base ` {x..y}" if "lo \<le> k" "k \<le> hi" "lo \<le> x" "y \<le> hi" "k < x \<or> y < k"
      for k x y
      using that less.prems by (auto simp: at_inject)
    have keep3: "m3 (at base k) = m2 (at base k)" if "i \<le> k" "k \<le> hi" for k
      using left(1) out [of k lo "i - 1"] that p(1,2) by (simp add: rearranges_def)
    have keep4: "m4 (at base k) = m3 (at base k)" if "lo \<le> k" "k \<le> i" for k
      using right(1) out [of k "i + 1" hi] that p(1,2) by (simp add: rearranges_def)
    have low: "m4 (at base k) \<le> m2 (at base i)" if k: "lo \<le> k" "k \<le> i" for k
    proof (cases "k = i")
      case True
      then show ?thesis using keep4 [OF k] keep3 [of k] p(2) by simp
    next
      case False
      then obtain l where "lo \<le> l" "l \<le> i - 1" "m3 (at base k) = m2 (at base l)"
        using rearranges_elem [OF left(1), of k] k by auto
      then show ?thesis using keep4 [OF k] p(4) [of l] by simp
    qed
    have high: "m2 (at base i) \<le> m4 (at base k)" if k: "i < k" "k \<le> hi" for k
    proof -
      obtain l where "i + 1 \<le> l" "l \<le> hi" "m4 (at base k) = m3 (at base l)"
        using rearranges_elem [OF right(1), of k] k by auto
      then show ?thesis using keep3 [of l] p(5) [of l] by simp
    qed
    have sorted: "m4 (at base k) \<le> m4 (at base l)" if kl: "lo \<le> k" "k \<le> l" "l \<le> hi" for k l
    proof -
      consider "l < i" | "k \<le> i" "i < l" | "l = i" | "i < k" using kl by linarith
      then show ?thesis
      proof cases
        case 1
        then show ?thesis using left(2) kl keep4 [of k] keep4 [of l] by simp
      next
        case 2
        then show ?thesis using low [of k] high [of l] kl by (meson order_trans)
      next
        case 3
        then show ?thesis using low [of k] kl keep4 [of i] keep3 [of i] p(1,2) by simp
      next
        case 4
        then show ?thesis using right(2) kl by simp
      qed
    qed
    have "rearranges base lo hi m2 m3" "rearranges base lo hi m3 m4"
      using rearranges_widen [OF left(1)] rearranges_widen [OF right(1)] less.prems p(1,2) by auto
    then have "rearranges base lo hi m m4" using p(3) rearranges_trans by blast
    then show ?thesis using sorted m4 by simp
  qed
qed

lemma elems_arr: "n \<le> len \<Longrightarrow> elems base 0 (int n - 1) m = mset (arr m base n)"
proof -
  have "{0..int n - 1} = int ` {..<n}"
    by (auto simp: lessThan_atLeast0 image_int_atLeastLessThan)
  then have "mset_set {0..int n - 1} = image_mset int (mset_set {..<n})"
    by (simp add: image_mset_mset_set)
  then show ?thesis
    by (simp add: elems_def arr_def at_idx mset_map o_def multiset.map_comp lessThan_atLeast0)
qed

text \<open>The whole array, as a list: the kernel computes the sorted permutation.\<close>

lemma arr_qsort: "arr (qsort_u32 base 0 (int len - 1) m) base len = sort (arr m base len)"
proof (rule properties_for_sort [symmetric])
  let ?m = "qsort_u32 base 0 (int len - 1) m"
  note spec = qsort_spec [of 0 "int len - 1" m]
  show "mset (arr ?m base len) = mset (arr m base len)"
    using spec by (simp add: elems_arr [symmetric] rearranges_def)
  show "sorted (arr ?m base len)"
    unfolding sorted_iff_nth_mono
  proof (intro allI impI)
    fix k l
    assume kl: "k \<le> l" "l < length (arr ?m base len)"
    then have "?m (at base (int k)) \<le> ?m (at base (int l))" using spec by simp
    then show "arr ?m base len ! k \<le> arr ?m base len ! l" using kl by (simp add: at_idx)
  qed
qed

lemma qsort_frame:
  assumes "c \<notin> region base len"
  shows "qsort_u32 base 0 (int len - 1) m c = m c"
proof -
  have "at base ` {0..int len - 1} \<subseteq> region base len"
    by (auto simp: at_idx region_def)
  then have "c \<notin> at base ` {0..int len - 1}" using assms by blast
  then show ?thesis using qsort_spec [of 0 "int len - 1" m] by (simp add: rearranges_def)
qed

end

section \<open>Properties\<close>

text \<open>C21: quicksort of a whole buffer sorts it: the buffer's words afterwards are its words before
  in increasing order, each as often as before, and no other word of the memory changes.\<close>

theorem qsort_sorts:
  assumes "fits base len"
  shows "arr (qsort_u32 base 0 (int len - 1) m) base len = sort (arr m base len) \<and>
    (\<forall>c. c \<notin> region base len \<longrightarrow> qsort_u32 base 0 (int len - 1) m c = m c)"
proof -
  have "buffer base len" using assms by (simp add: buffer_def)
  then show ?thesis by (simp add: buffer.arr_qsort buffer.qsort_frame)
qed

theorem qsort_sorts_witness:
  "arr (qsort_u32 0x20021000 0 2 (\<lambda>a. 0x20021008 - a)) 0x20021000 3 = [0, 4, 8]"
proof -
  have "arr (\<lambda>a. 0x20021008 - a) 0x20021000 3 = [8, 4, 0]"
    by (simp add: arr_def idx_def upt_rec)
  then show ?thesis
    using qsort_sorts [where base = "0x20021000" and len = 3 and m = "\<lambda>a. 0x20021008 - a"]
    by (simp add: fits_def)
qed

text \<open>One partition step leaves the pivot where it belongs: it permutes the words from
  \<open>lo\<close> to \<open>hi\<close> and nothing else, no word left of the final \<open>i\<close> is larger than the word at
  \<open>i\<close>, no word right of it is smaller, and the bounds \<open>i - 1\<close> and \<open>i + 1\<close> of the recursive
  calls are values of \<^verbatim>\<open>int32_t\<close>.\<close>

theorem partition_places_pivot:
  assumes "fits base len" and "0 \<le> lo" "lo < hi" "hi < int len"
    and "part_loop base (m (at base hi)) hi lo lo m = (i, m1)"
  shows "lo \<le> i \<and> i \<le> hi \<and> - (2 ^ 31) \<le> i - 1 \<and> i + 1 < 2 ^ 31 \<and>
    rearranges base lo hi m (swap base i hi m1) \<and>
    (\<forall>k. lo \<le> k \<and> k < i \<longrightarrow> swap base i hi m1 (at base k) \<le> swap base i hi m1 (at base i)) \<and>
    (\<forall>k. i < k \<and> k \<le> hi \<longrightarrow> swap base i hi m1 (at base i) \<le> swap base i hi m1 (at base k))"
proof -
  have "buffer base len" using assms(1) by (simp add: buffer_def)
  note spec = buffer.partition_spec [OF this assms(2-5)]
  have "4 * len \<le> 2 ^ 32" using assms(1) unfolding fits_def by linarith
  then have "int len \<le> 2 ^ 30" by simp
  then show ?thesis using spec assms(2-4) by auto
qed

theorem partition_places_pivot_witness:
  "\<exists>i m1. part_loop 0x20021000 (0x20021008 - at 0x20021000 2) 2 0 0 (\<lambda>a. 0x20021008 - a) = (i, m1) \<and>
     0 \<le> i \<and> i \<le> 2"
proof -
  obtain i m1 where
    *: "part_loop 0x20021000 (0x20021008 - at 0x20021000 2) 2 0 0 (\<lambda>a. 0x20021008 - a) = (i, m1)"
    by fastforce
  then show ?thesis
    using partition_places_pivot [where base = "0x20021000" and len = 3 and lo = 0 and hi = 2
        and m = "\<lambda>a. 0x20021008 - a" and i = i and ?m1.0 = m1]
    by (simp add: fits_def)
qed

end
