(* ===== verification/MatMul.thy ===== *)
theory MatMul
  imports XorShift
begin

text \<open>
  The 16 by 16 matrix kernel, \<^verbatim>\<open>bm_mat16\<close> of \<^verbatim>\<open>bench/bench.c\<close>: three buffers of 256
  words in memory, row-major, with all arithmetic modulo \<^verbatim>\<open>2^32\<close>. The reference is the
  matrix product on functions of two indices; the frame lemmas say that the kernel writes
  the result buffer and one word of the first factor per repetition, nothing else.
\<close>

section \<open>The kernel\<close>

text \<open>The dot product \<^verbatim>\<open>s += A[i * 16 + k] * B[k * 16 + j]\<close>.\<close>

definition mat_dot :: "u32 \<Rightarrow> u32 \<Rightarrow> mem \<Rightarrow> nat \<Rightarrow> nat \<Rightarrow> u32" where
  "mat_dot A B m i j =
     for_range 0 16 (\<lambda>k s. s + m (idx A (i * 16 + k)) * m (idx B (k * 16 + j))) 0"

definition mat_mul :: "u32 \<Rightarrow> u32 \<Rightarrow> u32 \<Rightarrow> mem \<Rightarrow> mem" where
  "mat_mul A B C =
     for_range 0 16 (\<lambda>i. for_range 0 16 (\<lambda>j m.
       mem_put m (idx C (i * 16 + j)) (mat_dot A B m i j)))"

text \<open>One repetition: multiply, then \<^verbatim>\<open>A[rep] ^= C[rep]; acc ^= C[0] + C[255];\<close>\<close>

definition mat_rep :: "u32 \<Rightarrow> u32 \<Rightarrow> u32 \<Rightarrow> nat \<Rightarrow> u32 \<times> mem \<Rightarrow> u32 \<times> mem" where
  "mat_rep A B C rep = (\<lambda>(acc, m).
     let m = mat_mul A B C m;
         m = mem_put m (idx A rep) (m (idx A rep) XOR m (idx C rep));
         acc = acc XOR (m (idx C 0) + m (idx C 255))
     in (acc, m))"

definition mat_kernel :: "u32 \<Rightarrow> u32 \<Rightarrow> u32 \<Rightarrow> nat \<Rightarrow> mem \<Rightarrow> u32 \<times> mem" where
  "mat_kernel A B C reps m = for_range 0 reps (mat_rep A B C) (0, m)"

section \<open>The reference product\<close>

text \<open>Row-major lists of 256 words.\<close>

definition row_col :: "u32 list \<Rightarrow> nat \<Rightarrow> nat \<Rightarrow> u32" where
  "row_col xs i j = xs ! (i * 16 + j)"

definition product :: "u32 list \<Rightarrow> u32 list \<Rightarrow> u32 list" where
  "product as bs =
     map (\<lambda>t. \<Sum>k<16. row_col as (t div 16) k * row_col bs k (t mod 16)) [0..<256]"

lemma length_product [simp]: "length (product as bs) = 256"
  by (simp add: product_def)

text \<open>The specification of a run: the factor evolves, the product is recomputed.\<close>

definition spec_rep :: "u32 list \<Rightarrow> nat \<Rightarrow> u32 \<times> u32 list \<Rightarrow> u32 \<times> u32 list" where
  "spec_rep bs rep = (\<lambda>(acc, as).
     let cs = product as bs
     in (acc XOR (cs ! 0 + cs ! 255), as[rep := as ! rep XOR cs ! rep]))"

definition spec_kernel :: "u32 list \<Rightarrow> u32 list \<Rightarrow> nat \<Rightarrow> u32 \<times> u32 list" where
  "spec_kernel as bs reps = for_range 0 reps (spec_rep bs) (0, as)"

section \<open>Refinement\<close>

text \<open>Three buffers that do not overlap.\<close>

locale mat_buffers =
  fixes A B C :: u32
  assumes AB: "apart A 256 B 256" and AC: "apart A 256 C 256" and BC: "apart B 256 C 256"
begin

sublocale A: buffer A 256
  using AB by unfold_locales (simp add: apart_def)

sublocale B: buffer B 256
  using BC by unfold_locales (simp add: apart_def)

sublocale C: buffer C 256
  using BC by unfold_locales (simp add: apart_def)

lemma not_in_C: "i < 256 \<Longrightarrow> idx A i \<notin> region C 256" "i < 256 \<Longrightarrow> idx B i \<notin> region C 256"
  using AC BC by (auto simp: region_def dest: idx_apart)

lemma not_in_A: "i < 256 \<Longrightarrow> idx B i \<notin> region A 256" "i < 256 \<Longrightarrow> idx C i \<notin> region A 256"
  using region_disjoint [OF AB] region_disjoint [OF AC] by blast+

lemma mat_dot_sum:
  assumes "i < 16" "j < 16"
  shows "mat_dot A B m i j =
    (\<Sum>k<16. row_col (arr m A 256) i k * row_col (arr m B 256) k j)"
proof -
  have "for_range 0 n (\<lambda>k s. s + m (idx A (i * 16 + k)) * m (idx B (k * 16 + j))) 0 =
      (\<Sum>k<n. row_col (arr m A 256) i k * row_col (arr m B 256) k j)" if "n \<le> 16" for n
    using that
  proof (induction n)
    case (Suc n)
    have "i * 16 + n < 256" "n * 16 + j < 256" using assms Suc.prems by auto
    then show ?case using Suc by (simp add: for_range_Suc row_col_def)
  qed simp
  then show ?thesis by (simp add: mat_dot_def)
qed

text \<open>
  What a partly computed product looks like: the factors untouched, the first \<open>n\<close> entries
  of the result final, everything outside the result buffer unchanged.
\<close>

definition computed :: "mem \<Rightarrow> nat \<Rightarrow> mem \<Rightarrow> bool" where
  "computed m n m' \<longleftrightarrow>
     (\<forall>c. c \<notin> region C 256 \<longrightarrow> m' c = m c) \<and>
     (\<forall>t<n. m' (idx C t) = product (arr m A 256) (arr m B 256) ! t)"

lemma computed_factors:
  "computed m n m' \<Longrightarrow> arr m' A 256 = arr m A 256 \<and> arr m' B 256 = arr m B 256"
  by (auto simp: computed_def arr_eq_iff not_in_C)

lemma computed_step:
  assumes "computed m (i * 16 + j) m'" and "i < 16" "j < 16"
  shows "computed m (Suc (i * 16 + j)) (mem_put m' (idx C (i * 16 + j)) (mat_dot A B m' i j))"
proof -
  let ?t = "i * 16 + j"
  have t: "?t < 256" "?t div 16 = i" "?t mod 16 = j" using assms by auto
  have "mat_dot A B m' i j = product (arr m A 256) (arr m B 256) ! ?t"
    using computed_factors [OF assms(1)] assms(2,3) t by (simp add: mat_dot_sum product_def)
  then show ?thesis
    using assms(1) t by (auto simp: computed_def mem_put_def less_Suc_eq C.inject)
qed

lemma mat_mul_computed: "computed m 256 (mat_mul A B C m)"
proof -
  have row: "computed m (Suc i * 16) (for_range 0 16 (\<lambda>j m.
      mem_put m (idx C (i * 16 + j)) (mat_dot A B m i j)) m')"
    if "computed m (i * 16) m'" "i < 16" for i m'
    using for_range_inv [where P = "\<lambda>j. computed m (i * 16 + j)" and a = 0 and b = 16]
      computed_step [OF _ that(2)] that(1) by (simp add: add.commute)
  have "computed m (16 * 16) (mat_mul A B C m)"
    unfolding mat_mul_def
    by (rule for_range_inv [where P = "\<lambda>i. computed m (i * 16)"])
       (use row in \<open>auto simp: computed_def\<close>)
  then show ?thesis by simp
qed

lemma mat_mul_product: "arr (mat_mul A B C m) C 256 = product (arr m A 256) (arr m B 256)"
  using mat_mul_computed [of m] by (intro nth_equalityI) (auto simp: computed_def)

text \<open>One repetition refines one step of the specification.\<close>

lemma mat_rep_refines:
  assumes "rep < 256" and "mat_rep A B C rep (acc, m) = (acc', m')"
  shows "spec_rep (arr m B 256) rep (acc, arr m A 256) = (acc', arr m' A 256)"
    and "arr m' B 256 = arr m B 256"
    and "\<And>c. c \<notin> region A 256 \<Longrightarrow> c \<notin> region C 256 \<Longrightarrow> m' c = m c"
proof -
  let ?n = "mat_mul A B C m"
  let ?v = "?n (idx A rep) XOR ?n (idx C rep)"
  note full = mat_mul_computed [of m]
  note factors = computed_factors [OF full]
  have ne: "idx C t \<noteq> idx A rep" if "t < 256" for t
    using not_in_A(2) [OF that] assms(1) by auto
  have m': "m' = ?n(idx A rep := ?v)" and acc': "acc' = acc XOR (?n (idx C 0) + ?n (idx C 255))"
    using assms(2) ne [of 0] ne [of 255] by (auto simp: mat_rep_def Let_def mem_put_def)
  have cs: "?n (idx C t) = product (arr m A 256) (arr m B 256) ! t" if "t < 256" for t
    using full that by (simp add: computed_def)
  have fac: "?n (idx A rep) = arr m A 256 ! rep"
    using factors assms(1) by (metis nth_arr)
  have "arr m' A 256 = (arr m A 256)[rep := ?v]"
    unfolding m' using A.arr_update [OF assms(1)] factors by simp
  then show "spec_rep (arr m B 256) rep (acc, arr m A 256) = (acc', arr m' A 256)"
    using assms(1) acc' cs fac by (simp add: spec_rep_def Let_def)
  have "idx A rep \<notin> region B 256" using region_disjoint [OF AB] assms(1) by blast
  then show "arr m' B 256 = arr m B 256"
    unfolding m' using B.arr_outside factors by simp
  show "m' c = m c" if "c \<notin> region A 256" "c \<notin> region C 256" for c
    unfolding m' using that full assms(1) by (auto simp: computed_def)
qed

lemma mat_kernel_refines:
  assumes "reps \<le> 256" and "mat_kernel A B C reps m = (acc, m')"
  shows "spec_kernel (arr m A 256) (arr m B 256) reps = (acc, arr m' A 256)"
    and "\<And>c. c \<notin> region A 256 \<Longrightarrow> c \<notin> region C 256 \<Longrightarrow> m' c = m c"
proof -
  let ?R = "\<lambda>(acc :: u32, m') t. t = (acc, arr m' A 256) \<and> arr m' B 256 = arr m B 256 \<and>
      (\<forall>c. c \<notin> region A 256 \<longrightarrow> c \<notin> region C 256 \<longrightarrow> m' c = m c)"
  have "?R (for_range 0 reps (mat_rep A B C) (0, m))
      (for_range 0 reps (spec_rep (arr m B 256)) (0, arr m A 256))"
  proof (rule for_range_sim)
    fix i s t
    assume i: "i < reps" and R: "?R s t"
    obtain acc1 m1 acc2 m2 where s: "s = (acc1, m1)" and s': "mat_rep A B C i s = (acc2, m2)"
      by fastforce
    with i assms(1) have step: "mat_rep A B C i (acc1, m1) = (acc2, m2)" and "i < 256" by auto
    note refines = mat_rep_refines [OF \<open>i < 256\<close> step]
    show "?R (mat_rep A B C i s) (spec_rep (arr m B 256) i t)"
      using R refines by (simp add: s step)
  qed simp
  then show "spec_kernel (arr m A 256) (arr m B 256) reps = (acc, arr m' A 256)"
    and "\<And>c. c \<notin> region A 256 \<Longrightarrow> c \<notin> region C 256 \<Longrightarrow> m' c = m c"
    using assms(2) by (auto simp: mat_kernel_def spec_kernel_def)
qed

end

section \<open>Properties\<close>

text \<open>C33: the matrix kernel on three buffers that do not overlap refines its specification on
  lists: the sum it returns and the first factor it leaves behind are those of the
  specification, in which each repetition multiplies the factors as matrices modulo
  \<^verbatim>\<open>2^32\<close>, and it writes only the first factor and the result buffer.\<close>

theorem matrix_kernel_refines:
  assumes "apart A 256 B 256" "apart A 256 C 256" "apart B 256 C 256" and "reps \<le> 256"
  shows "(case mat_kernel A B C reps m of (acc, m') \<Rightarrow>
    spec_kernel (arr m A 256) (arr m B 256) reps = (acc, arr m' A 256) \<and>
    (\<forall>c. c \<notin> region A 256 \<and> c \<notin> region C 256 \<longrightarrow> m' c = m c))"
proof -
  have "mat_buffers A B C" using assms(1-3) by (simp add: mat_buffers_def)
  moreover obtain acc m' where run: "mat_kernel A B C reps m = (acc, m')" by fastforce
  ultimately show ?thesis
    using mat_buffers.mat_kernel_refines [OF _ assms(4) run] by (simp add: run)
qed

theorem matrix_kernel_refines_witness:
  "fst (mat_kernel 0x20022000 0x20022400 0x20022800 50 (\<lambda>_. 1)) =
     fst (spec_kernel (arr (\<lambda>_. 1) 0x20022000 256) (arr (\<lambda>_. 1) 0x20022400 256) 50)"
  using matrix_kernel_refines [of "0x20022000" "0x20022400" "0x20022800" 50 "\<lambda>_. 1"]
  by (simp add: apart_def fits_def split_beta)

text \<open>One multiplication leaves the matrix product of the factors in the result buffer,
  every entry the sum of sixteen products modulo \<^verbatim>\<open>2^32\<close>.\<close>

theorem mat_mul_entries:
  assumes "apart A 256 B 256" "apart A 256 C 256" "apart B 256 C 256" and "i < 16" "j < 16"
  shows "row_col (arr (mat_mul A B C m) C 256) i j =
    (\<Sum>k<16. row_col (arr m A 256) i k * row_col (arr m B 256) k j)"
proof -
  have "mat_buffers A B C" using assms(1-3) by (simp add: mat_buffers_def)
  note product = mat_buffers.mat_mul_product [OF this]
  have "i * 16 + j < 256" "(i * 16 + j) div 16 = i" "(i * 16 + j) mod 16 = j"
    using assms(4,5) by auto
  then show ?thesis unfolding product by (simp add: row_col_def product_def)
qed

theorem mat_mul_entries_witness:
  "row_col (arr (mat_mul 0x20022000 0x20022400 0x20022800 (\<lambda>_. 1)) 0x20022800 256) 2 3 = 16"
  using mat_mul_entries [of "0x20022000" "0x20022400" "0x20022800" 2 3 "\<lambda>_. 1"]
  by (simp add: apart_def fits_def row_col_def)

end
