(* ===== verification/Crc32.thy ===== *)
theory Crc32
  imports XorShift
begin

text \<open>
  The bitwise CRC-32 kernel, \<^verbatim>\<open>bm_crc32\<close> of \<^verbatim>\<open>bench/bench.c\<close>. Each buffer word is fed
  byte by byte, least significant byte first, and every byte takes eight rounds of the
  reflected polynomial. Against it stands a bit-serial reference: a shift register that
  takes one message bit per clock.
\<close>

section \<open>The kernel\<close>

definition crc_poly :: u32 where
  "crc_poly = 0xEDB88320"

text \<open>\<^verbatim>\<open>crc = (crc >> 1) ^ (0xEDB88320u & (0u - (crc & 1u)))\<close>\<close>

definition crc_round :: "u32 \<Rightarrow> u32" where
  "crc_round crc = drop_bit 1 crc XOR (crc_poly AND (0 - (crc AND 1)))"

text \<open>\<^verbatim>\<open>crc ^= (w >> (8 * b)) & 0xFF\<close> and its eight rounds.\<close>

definition crc_byte :: "u32 \<Rightarrow> nat \<Rightarrow> u32 \<Rightarrow> u32" where
  "crc_byte w b crc = for_range 0 8 (\<lambda>_. crc_round) (crc XOR (drop_bit (8 * b) w AND 0xFF))"

definition crc_word :: "u32 \<Rightarrow> u32 \<Rightarrow> u32" where
  "crc_word w crc = for_range 0 4 (crc_byte w) crc"

definition crc_pass :: "mem \<Rightarrow> u32 \<Rightarrow> nat \<Rightarrow> u32 \<Rightarrow> u32" where
  "crc_pass m buf n crc = for_range 0 n (\<lambda>i crc. crc_word (m (idx buf i)) crc) crc"

text \<open>The timed part: four passes with the initial value \<^verbatim>\<open>0xFFFFFFFF ^ k\<close>.\<close>

definition crc_passes :: "mem \<Rightarrow> u32 \<Rightarrow> nat \<Rightarrow> u32" where
  "crc_passes m buf n =
     for_range 0 4 (\<lambda>k acc. acc XOR NOT (crc_pass m buf n (0xFFFFFFFF XOR of_nat k))) 0"

section \<open>Linearity\<close>

lemma neg_lsb: "0 - (x AND 1) = (if bit x 0 then -1 else 0)" for x :: u32
  by (simp add: and_one_eq mod_2_eq_odd bit_0)

lemma crc_round_cond:
  "crc_round x = (if bit x 0 then drop_bit 1 x XOR crc_poly else drop_bit 1 x)"
proof -
  have "crc_poly AND (0 - (x AND 1)) = (if bit x 0 then crc_poly else 0)"
    by (simp only: neg_lsb) simp
  then show ?thesis by (simp add: crc_round_def)
qed

interpretation crc: xor_linear crc_round
  by unfold_locales (auto simp: crc_round_cond drop_bit_xor bit_xor_iff xor_ac)

lemma crc_byte_funpow:
  "crc_byte w b crc = (crc_round ^^ 8) (crc XOR (drop_bit (8 * b) w AND 0xFF))"
  by (simp add: crc_byte_def for_range_const)

lemma crc_byte_xor: "crc_byte w b (x XOR y) = crc_byte w b x XOR (crc_round ^^ 8) y"
proof -
  have "crc_byte w b (x XOR y) =
      (crc_round ^^ 8) ((x XOR (drop_bit (8 * b) w AND 0xFF)) XOR y)"
    by (simp add: crc_byte_funpow xor_ac)
  then show ?thesis by (simp only: crc.funpow_linear crc_byte_funpow)
qed

lemma crc_word_xor: "crc_word w (x XOR y) = crc_word w x XOR (crc_round ^^ 32) y"
proof -
  have "for_range 0 n (crc_byte w) (x XOR y) =
      for_range 0 n (crc_byte w) x XOR (crc_round ^^ (8 * n)) y" for n
    by (induction n) (simp_all add: for_range_Suc crc_byte_xor funpow_add)
  from this [of 4] show ?thesis by (simp add: crc_word_def)
qed

lemma crc_pass_xor:
  "crc_pass m buf n (x XOR y) = crc_pass m buf n x XOR (crc_round ^^ (32 * n)) y"
  unfolding crc_pass_def
  by (induction n) (simp_all add: for_range_Suc crc_word_xor funpow_add)

text \<open>
  The four passes of the benchmark always cancel: their initial values differ from each
  other by \<open>0\<close>, \<open>1\<close>, \<open>2\<close> and \<open>3\<close>, whose exclusive or is zero, and the pass is affine.
\<close>

lemma four_complements:
  "0 XOR NOT (p XOR a) XOR NOT (p XOR b) XOR NOT (p XOR c) XOR NOT (p XOR d) =
     a XOR b XOR c XOR (d :: u32)"
  by (rule bit_word_eqI) (auto simp: bit_simps)

lemma crc_passes_zero: "crc_passes m buf n = 0"
proof -
  let ?L = "crc_round ^^ (32 * n)"
  let ?p = "crc_pass m buf n 0xFFFFFFFF"
  have pass: "crc_pass m buf n (0xFFFFFFFF XOR k) = ?p XOR ?L k" for k
    by (rule crc_pass_xor)
  have four: "[0..<4] = [0, 1, 2, 3::nat]" by (simp add: upt_rec)
  have "crc_passes m buf n = 0 XOR NOT (?p XOR ?L (of_nat 0)) XOR NOT (?p XOR ?L (of_nat 1))
      XOR NOT (?p XOR ?L (of_nat 2)) XOR NOT (?p XOR ?L (of_nat 3))"
    unfolding crc_passes_def for_range_def four by (simp only: fold_simps pass xor.assoc)
  also have "\<dots> = ?L 0 XOR ?L 1 XOR ?L 2 XOR ?L 3"
    by (simp only: four_complements) simp
  also have "\<dots> = ?L (0 XOR 1 XOR 2 XOR 3)"
    by (simp only: crc.funpow_linear)
  also have "\<dots> = 0" by simp
  finally show ?thesis .
qed

section \<open>The bit-serial reference\<close>

text \<open>
  The shift register of the reflected CRC-32: it shifts right once per message bit, and the
  polynomial is added when the bit shifted out differs from the message bit.
\<close>

definition crc_bit :: "bool \<Rightarrow> u32 \<Rightarrow> u32" where
  "crc_bit b crc = (if bit crc 0 \<noteq> b then drop_bit 1 crc XOR crc_poly else drop_bit 1 crc)"

definition crc_bits :: "bool list \<Rightarrow> u32 \<Rightarrow> u32" where
  "crc_bits bs crc = fold crc_bit bs crc"

text \<open>The message of a buffer: its words in order, each word's 32 bits from the lowest.\<close>

definition word_bits :: "u32 \<Rightarrow> bool list" where
  "word_bits w = map (bit w) [0..<32]"

lemma crc_round_push: "crc_round (push_bit (Suc n) x) = push_bit n (take_bit (31 - n) x)"
proof -
  have "\<not> bit (push_bit (Suc n) x) 0" by (simp only: bit_push_bit_iff) simp
  then have "crc_round (push_bit (Suc n) x) = drop_bit 1 (push_bit (Suc n) x)"
    by (simp only: crc_round_cond if_False)
  also have "\<dots> = push_bit n (take_bit (31 - n) x)"
    by (rule bit_word_eqI)
       (auto simp: bit_push_bit_iff bit_drop_bit_eq bit_take_bit_iff simp del: push_bit_Suc)
  finally show ?thesis .
qed

lemma crc_rounds_push: "n \<le> 32 \<Longrightarrow> (crc_round ^^ n) (push_bit n x) = take_bit (32 - n) x"
proof (induction n arbitrary: x)
  case 0
  then show ?case by (simp add: take_bit_word_eq_self)
next
  case (Suc n)
  have "(crc_round ^^ Suc n) (push_bit (Suc n) x) =
      (crc_round ^^ n) (push_bit n (take_bit (31 - n) x))"
    by (simp only: funpow_Suc_right o_apply crc_round_push)
  also have "\<dots> = take_bit (32 - n) (take_bit (31 - n) x)"
    using Suc by simp
  finally show ?case by (simp add: min_def)
qed

lemma crc_round_bit: "crc_round (x XOR of_bool b) = crc_bit b x"
  by (cases b) (auto simp: crc_round_cond crc_bit_def bit_simps drop_bit_xor)

lemma take_bit_Suc_xor:
  "take_bit (Suc n) (w :: u32) = take_bit n w XOR push_bit n (of_bool (bit w n))"
  by (rule bit_word_eqI) (auto simp: bit_simps less_Suc_eq)

text \<open>
  Adding the next \<open>n\<close> message bits to the register before the rounds, instead of one at
  a time, changes nothing.
\<close>

lemma crc_bits_take:
  "n \<le> 32 \<Longrightarrow> crc_bits (map (bit w) [0..<n]) crc =
     (crc_round ^^ n) (crc XOR take_bit n w)"
proof (induction n)
  case 0
  then show ?case by (simp add: crc_bits_def)
next
  case (Suc n)
  let ?b = "bit w n"
  let ?x = "(crc_round ^^ n) (crc XOR take_bit n w)"
  have high: "(crc_round ^^ n) (push_bit n (of_bool ?b)) = of_bool ?b"
    using Suc.prems crc_rounds_push [of n "of_bool ?b"]
    by (cases ?b) (simp_all del: push_bit_of_1)
  have "(crc_round ^^ Suc n) (crc XOR take_bit (Suc n) w) =
      crc_round ((crc_round ^^ n) ((crc XOR take_bit n w) XOR push_bit n (of_bool ?b)))"
    by (simp add: take_bit_Suc_xor xor_ac)
  also have "\<dots> = crc_round (?x XOR of_bool ?b)"
    by (simp only: crc.funpow_linear high)
  also have "\<dots> = crc_bit ?b ?x" by (rule crc_round_bit)
  also have "\<dots> = crc_bits (map (bit w) [0..<Suc n]) crc"
    using Suc by (simp add: crc_bits_def)
  finally show ?case by simp
qed

text \<open>
  Four byte steps are 32 rounds on the whole word: the later bytes wait in the upper bits
  until the rounds have moved them down.
\<close>

lemma crc_word_prefix:
  "b \<le> 4 \<Longrightarrow> for_range 0 b (crc_byte w) crc =
     (crc_round ^^ (8 * b)) (crc XOR take_bit (8 * b) w)"
proof (induction b)
  case 0
  then show ?case by simp
next
  case (Suc b)
  let ?d = "drop_bit (8 * b) w AND 0xFF"
  have d: "?d = take_bit 8 (drop_bit (8 * b) w)"
    by (simp only: take_bit_eq_mask) (simp add: mask_eq_exp_minus_1)
  have tb: "take_bit (8 * Suc b) w = take_bit (8 * b) w XOR push_bit (8 * b) ?d"
    unfolding d by (rule bit_word_eqI) (auto simp: bit_simps)
  have "(crc_round ^^ (8 * b)) (push_bit (8 * b) ?d) = take_bit (32 - 8 * b) ?d"
    using Suc.prems by (intro crc_rounds_push) simp
  also have "\<dots> = ?d"
  proof -
    have "min (32 - 8 * b) 8 = 8" using Suc.prems by simp
    then show ?thesis unfolding d by (simp only: take_bit_take_bit)
  qed
  finally have push: "(crc_round ^^ (8 * b)) (push_bit (8 * b) ?d) = ?d" .
  have "(crc_round ^^ (8 * Suc b)) (crc XOR take_bit (8 * Suc b) w) =
      (crc_round ^^ 8) ((crc_round ^^ (8 * b))
        ((crc XOR take_bit (8 * b) w) XOR push_bit (8 * b) ?d))"
    unfolding tb by (simp only: xor_ac mult_Suc_right funpow_add o_apply)
  also have "\<dots> = (crc_round ^^ 8) (for_range 0 b (crc_byte w) crc XOR ?d)"
    using Suc by (simp only: crc.funpow_linear [of "8 * b" "_ XOR _"] push Suc_leD)
  finally show ?case by (simp add: for_range_Suc crc_byte_funpow [of w b])
qed

lemma crc_word_bits: "crc_word w crc = crc_bits (word_bits w) crc"
  using crc_word_prefix [of 4 w crc] crc_bits_take [of 32 w crc]
  by (simp add: crc_word_def word_bits_def)

definition message_bits :: "u32 list \<Rightarrow> bool list" where
  "message_bits ws = concat (map word_bits ws)"

text \<open>A pass of the kernel is the shift register run over the bits of the buffer.\<close>

lemma crc_pass_bits: "crc_pass m buf n crc = crc_bits (message_bits (arr m buf n)) crc"
  unfolding crc_pass_def
  by (induction n) (simp_all add: for_range_Suc crc_word_bits crc_bits_def message_bits_def arr_def)

section \<open>What the checksum says about the buffer\<close>

lemma crc_poly_top: "bit crc_poly 31"
  unfolding crc_poly_def by code_simp

lemma crc_round_top: "bit (crc_round x) 31 = bit x 0"
proof -
  have "\<not> bit x 32" by (auto dest: bit_imp_le_length)
  then have "\<not> bit (drop_bit 1 x) 31" by (simp add: bit_drop_bit_eq)
  then show ?thesis
    unfolding crc_round_cond by (cases "bit x 0") (simp_all only: bit_xor_iff crc_poly_top if_True if_False simp_thms)
qed

lemma crc_round_kernel: "crc_round x = 0 \<Longrightarrow> x = 0"
proof (rule bit_word_eqI)
  fix n
  assume zero: "crc_round x = 0"
  then have low: "\<not> bit x 0" using crc_round_top [of x] by (metis bit_0_eq bot_apply bot_bool_def)
  then have drop: "drop_bit 1 x = 0" using zero by (simp only: crc_round_cond if_False)
  show "bit x n = bit 0 n"
  proof (cases n)
    case 0
    then show ?thesis using low by (simp only: bit_0_eq bot_apply bot_bool_def)
  next
    case (Suc k)
    have "bit (drop_bit 1 x) k = bit x (1 + k)" by (simp only: bit_drop_bit_eq o_apply)
    then show ?thesis using drop Suc by (simp only: bit_0_eq bot_apply bot_bool_def plus_1_eq_Suc)
  qed
qed

lemma crc_round_inj: "inj (crc_round ^^ n)"
proof -
  have "inj crc_round" using crc_round_kernel by (rule crc.inj_if_kernel)
  then show ?thesis by (rule inj_fn)
qed

lemma crc_word_all: "crc_word w crc = (crc_round ^^ 32) (crc XOR w)"
proof -
  have "take_bit 32 w = w" by (rule take_bit_word_eq_self) simp
  moreover have "8 * 4 = (32 :: nat)" by simp
  ultimately show ?thesis using crc_word_prefix [of 4 w crc] by (simp only: crc_word_def order_refl)
qed

lemma xor_cancel_iff: "x XOR w = y XOR w \<longleftrightarrow> x = y" "w XOR x = w XOR y \<longleftrightarrow> x = y" for x :: u32
  by (metis xor_cancel_left xor.commute)+

lemma crc_word_inject: "crc_word w x = crc_word w y \<longleftrightarrow> x = y"
  by (simp only: crc_word_all inj_eq [OF crc_round_inj] xor_cancel_iff)

lemma crc_word_message_inject: "crc_word v x = crc_word w x \<longleftrightarrow> v = w"
  by (simp only: crc_word_all inj_eq [OF crc_round_inj] xor_cancel_iff)

lemma crc_pass_Suc: "crc_pass m buf (Suc n) crc = crc_word (m (idx buf n)) (crc_pass m buf n crc)"
  by (simp add: crc_pass_def for_range_Suc)

section \<open>Properties\<close>

text \<open>C25: a pass of the kernel over a buffer, byte by byte with eight table-free rounds each, is
  the reflected CRC-32 shift register run over the buffer's bits in order, one bit per step.\<close>

theorem crc_pass_is_shift_register:
  "crc_pass m buf n crc = crc_bits (message_bits (arr m buf n)) crc"
  by (rule crc_pass_bits)

text \<open>A pass notices every change of a single word of the buffer, whatever bits of the word
  change and whatever initial value is used.\<close>

theorem crc_pass_detects_word:
  assumes "i < n" and "\<And>j. j < n \<Longrightarrow> j \<noteq> i \<Longrightarrow> m' (idx buf j) = m (idx buf j)"
    and "m' (idx buf i) \<noteq> m (idx buf i)"
  shows "crc_pass m' buf n crc \<noteq> crc_pass m buf n crc"
  using assms
proof (induction n)
  case (Suc n)
  show ?case
  proof (cases "i = n")
    case True
    have "crc_pass m' buf n crc = crc_pass m buf n crc"
      using Suc.prems(2) True unfolding crc_pass_def by (intro for_range_cong) auto
    then show ?thesis using Suc.prems(3) True by (simp add: crc_pass_Suc crc_word_message_inject)
  next
    case False
    then have "crc_pass m' buf n crc \<noteq> crc_pass m buf n crc" using Suc by auto
    moreover have "m' (idx buf n) = m (idx buf n)" using Suc.prems(2) False by auto
    ultimately show ?thesis by (simp add: crc_pass_Suc crc_word_inject)
  qed
qed simp

theorem crc_pass_detects_word_witness:
  "crc_pass ((\<lambda>_. 0)(idx 0x20020000 1 := 5)) 0x20020000 4 0 \<noteq> crc_pass (\<lambda>_. 0) 0x20020000 4 0"
proof -
  have "idx 0x20020000 j \<noteq> idx 0x20020000 1" if "j < 4" "j \<noteq> 1" for j
    using that idx_inject [of "0x20020000" 4 j 1] by (simp add: fits_def)
  then show ?thesis
    using crc_pass_detects_word [where i = 1 and n = 4 and buf = "0x20020000" and crc = 0
      and m = "\<lambda>_. 0" and m' = "(\<lambda>_. 0)(idx 0x20020000 1 := 5)"] by auto
qed

text \<open>C26: the timed part of the kernel, four passes with initial values \<^verbatim>\<open>0xFFFFFFFF ^ k\<close> whose
  complements are added up, is zero for every buffer content, length and address: the passes
  are affine in the initial value and the four of them cancel. The reported checksum therefore
  does not depend on the buffer.\<close>

theorem crc_checksum_always_zero: "crc_passes m buf n = 0"
  by (rule crc_passes_zero)

end
