(* ===== verification/BenchLayout.thy ===== *)
theory BenchLayout
  imports Machine QuickSort MatMul Crc32
begin

text \<open>
  The fixed memory layout the benchmark programs share (\<^verbatim>\<open>MB\<close>, \<^verbatim>\<open>CRC_BUF\<close> and the other
  defines of \<^verbatim>\<open>bench/bench.c\<close>), the contract a benchmark kernel keeps towards the harness,
  and the harness loop: run every kernel, store its time and its checksum in the mailbox.
\<close>

section \<open>The layout\<close>

definition MB :: u32 where [layout_simps]: "MB = 0x20030000"
definition COUNT :: nat where [layout_simps]: "COUNT = 9"
definition RUNS :: nat where [layout_simps]: "RUNS = 3"
definition CRC_BUF :: u32 where [layout_simps]: "CRC_BUF = 0x20020000"
definition SORT_BUF :: u32 where [layout_simps]: "SORT_BUF = 0x20021000"
definition MAT_A :: u32 where [layout_simps]: "MAT_A = 0x20022000"
definition MAT_B :: u32 where [layout_simps]: "MAT_B = 0x20022400"
definition MAT_C :: u32 where [layout_simps]: "MAT_C = 0x20022800"
definition FIB_N :: u32 where [layout_simps]: "FIB_N = 0x20023000"

text \<open>The words the kernels may write.\<close>

definition scratch :: "u32 set" where
  "scratch = region CRC_BUF 1024 \<union> region SORT_BUF 512 \<union>
     region MAT_A 256 \<union> region MAT_B 256 \<union> region MAT_C 256"

interpretation crc_buf: buffer CRC_BUF 1024
  by unfold_locales (simp add: fits_def layout_simps)

interpretation sort_buf: buffer SORT_BUF 512
  by unfold_locales (simp add: fits_def layout_simps)

interpretation mats: mat_buffers MAT_A MAT_B MAT_C
  by unfold_locales (simp_all add: apart_def fits_def layout_simps)

text \<open>Everything from \<^verbatim>\<open>FIB_N\<close> up is out of the kernels' reach.\<close>

lemma scratch_below: "c \<in> scratch \<Longrightarrow> unat c < 0x20022C00"
proof -
  have top: "unat c < unat b + 4 * n" if "c \<in> region b n" "fits b n" for b n
    using that by (auto simp: region_def unat_idx)
  have "fits MAT_A 256" "fits MAT_B 256" "fits MAT_C 256"
    by (simp_all add: fits_def layout_simps)
  moreover assume "c \<in> scratch"
  ultimately show ?thesis
    using top [of CRC_BUF 1024] top [of SORT_BUF 512] top [of MAT_A 256] top [of MAT_B 256]
      top [of MAT_C 256] crc_buf.inside sort_buf.inside
    by (auto simp: scratch_def layout_simps)
qed

lemma not_scratch: "0x20022C00 \<le> unat c \<Longrightarrow> c \<notin> scratch"
  using scratch_below [of c] by auto

lemma FIB_N_not_scratch: "FIB_N \<notin> scratch"
  by (rule not_scratch) (simp add: layout_simps)

section \<open>The kernel contract\<close>

text \<open>
  A kernel maps the machine to a time and a checksum, \<^verbatim>\<open>uint32_t bm(uint32_t *ck)\<close>, and the
  machine after it.
\<close>

type_synonym 'd kernel = "'d mach \<Rightarrow> (u32 \<times> u32) \<times> 'd mach"

locale kernel =
  fixes bm :: "'d kernel" and check :: u32
  assumes checksum: "ram s FIB_N = 24 \<Longrightarrow> snd (fst (bm s)) = check"
    and frame: "c \<notin> scratch \<Longrightarrow> ram (snd (bm s)) c = ram s c"
begin

lemma keeps_FIB_N: "ram (snd (bm s)) FIB_N = ram s FIB_N"
  by (rule frame) (rule FIB_N_not_scratch)

end

section \<open>The harness\<close>

text \<open>
  The inner loop body of \<^verbatim>\<open>mojo_main\<close>: call kernel \<open>i\<close> and store the pair at
  \<^verbatim>\<open>MB + off + (run * COUNT + i) * 8\<close>.
\<close>

definition bench_one ::
  "'d device \<Rightarrow> u32 \<Rightarrow> 'd kernel list \<Rightarrow> nat \<Rightarrow> nat \<Rightarrow> 'd mach \<Rightarrow> 'd mach" where
  "bench_one D off bms run i s =
     (let ((us, ck), s) = (bms ! i) s;
          base = MB + off + (of_nat run * of_nat COUNT + of_nat i) * 8;
          s = wr D base us s
      in wr D (base + 4) ck s)"

definition bench_loop ::
  "'d device \<Rightarrow> u32 \<Rightarrow> 'd kernel list \<Rightarrow> 'd mach \<Rightarrow> 'd mach" where
  "bench_loop D off bms =
     for_range 0 RUNS (\<lambda>run. for_range 0 COUNT (\<lambda>i. bench_one D off bms run i))"

text \<open>The checksum slot of kernel \<open>i\<close> in run \<open>run\<close>.\<close>

definition ck_slot :: "u32 \<Rightarrow> nat \<Rightarrow> nat \<Rightarrow> u32" where
  "ck_slot off run i = MB + off + (of_nat run * of_nat COUNT + of_nat i) * 8 + 4"

lemma slot_idx:
  "MB + off + (of_nat run * of_nat COUNT + of_nat i) * 8 = idx (MB + off) (2 * (run * 9 + i))"
  "ck_slot off run i = idx (MB + off) (2 * (run * 9 + i) + 1)"
  by (simp_all add: idx_def ck_slot_def COUNT_def algebra_simps)

text \<open>
  A suite of kernels with a result table of 27 pairs behind a header of \<open>off\<close> bytes; both
  benchmark programs are instances.
\<close>

locale bench_suite =
  fixes D :: "'d device" and off :: u32 and bms :: "'d kernel list" and checks :: "u32 list"
  assumes contract: "i < COUNT \<Longrightarrow> kernel (bms ! i) (checks ! i)"
    and header: "unat off \<le> 0x100"
begin

lemma unat_table: "unat (MB + off) = 0x20030000 + unat off"
  using header by (simp add: MB_def unat_word_ariths)

lemma table_fits: "fits (MB + off) 54"
  using header by (simp add: fits_def unat_table)

sublocale table: buffer "MB + off" 54
  by unfold_locales (rule table_fits)

lemma unat_slot: "k < 54 \<Longrightarrow> unat (idx (MB + off) k) = 0x20030000 + unat off + 4 * k"
  by (simp add: unat_idx [OF table_fits] unat_table)

lemma slot_sram: "k < 54 \<Longrightarrow> in_sram (idx (MB + off) k)"
  using header by (simp add: sram_eval word_le_nat_alt word_less_nat_alt unat_slot)

lemma slot_scratch: "k < 54 \<Longrightarrow> idx (MB + off) k \<notin> scratch"
  by (rule not_scratch) (simp add: unat_slot)

lemma FIB_N_not_slot: "FIB_N \<notin> region (MB + off) 54"
proof
  assume "FIB_N \<in> region (MB + off) 54"
  then obtain k where "k < 54" "FIB_N = idx (MB + off) k" by (auto simp: region_def)
  then show False using unat_slot [of k] by (simp add: FIB_N_def)
qed

text \<open>
  The invariant of the loops after \<open>n\<close> kernels: the finished checksums are in place, the
  Fibonacci argument is still 24, and nothing outside the scratch buffers and the table has
  changed since \<open>s\<close>.
\<close>

definition progress :: "'d mach \<Rightarrow> nat \<Rightarrow> 'd mach \<Rightarrow> bool" where
  "progress s n t \<longleftrightarrow>
     (\<forall>k<n. ram t (idx (MB + off) (2 * k + 1)) = checks ! (k mod 9)) \<and>
     ram t FIB_N = 24 \<and>
     (\<forall>c. c \<notin> scratch \<longrightarrow> c \<notin> region (MB + off) 54 \<longrightarrow> ram t c = ram s c)"

lemma bench_one_ram:
  assumes "run < 3" and "i < 9"
  defines "k \<equiv> run * 9 + i"
  shows "ram (bench_one D off bms run i t) =
    (ram (snd ((bms ! i) t)))
      (idx (MB + off) (2 * k) := fst (fst ((bms ! i) t)),
       idx (MB + off) (2 * k + 1) := snd (fst ((bms ! i) t)))"
proof -
  have "2 * k < 54" "2 * k + 1 < 54" using assms by auto
  then show ?thesis
    using slot_sram [of "2 * k"] slot_sram [of "2 * k + 1"]
      slot_idx(1) [of off run i] slot_idx(2) [of off run i]
    by (simp add: bench_one_def split_beta Let_def ram_wr k_def ck_slot_def)
qed

lemma progress_step:
  assumes "progress s (run * 9 + i) t" and "run < 3" and "i < 9"
  shows "progress s (Suc (run * 9 + i)) (bench_one D off bms run i t)"
proof -
  let ?k = "run * 9 + i" and ?u = "snd ((bms ! i) t)"
  have ker: "kernel (bms ! i) (checks ! i)"
    by (rule contract) (simp add: COUNT_def assms(3))
  have k: "?k < 27" "?k mod 9 = i" using assms(2,3) by auto
  have fib: "ram t FIB_N = 24" using assms(1) by (simp add: progress_def)
  have ck: "snd (fst ((bms ! i) t)) = checks ! i"
    using kernel.checksum [OF ker fib] .
  have keep: "ram ?u c = ram t c" if "c \<notin> scratch" for c
    using kernel.frame [OF ker that] .
  note ram = bench_one_ram [OF assms(2,3), of t]
  have slot: "ram (bench_one D off bms run i t) (idx (MB + off) (2 * j + 1)) = checks ! (j mod 9)"
    if "j < Suc ?k" for j
  proof (cases "j = ?k")
    case True
    then show ?thesis using k ck by (simp add: ram)
  next
    case False
    then have "j < ?k" using that by simp
    then have "ram t (idx (MB + off) (2 * j + 1)) = checks ! (j mod 9)"
      using assms(1) by (simp add: progress_def)
    moreover have "2 * j + 1 \<noteq> 2 * ?k" by presburger
    ultimately show ?thesis
      using \<open>j < ?k\<close> k keep [OF slot_scratch, of "2 * j + 1"] by (simp add: ram table.inject)
  qed
  have "c \<noteq> idx (MB + off) (2 * ?k) \<and> c \<noteq> idx (MB + off) (2 * ?k + 1)"
    if "c \<notin> region (MB + off) 54" for c
    using that k(1) by (auto simp: region_def)
  then have out: "ram (bench_one D off bms run i t) c = ram t c"
    if "c \<notin> scratch" "c \<notin> region (MB + off) 54" for c
    using that keep by (simp add: ram)
  show ?thesis
    using slot out [OF FIB_N_not_scratch FIB_N_not_slot] fib out assms(1)
    by (simp add: progress_def)
qed

lemma progress_run: "ram s FIB_N = 24 \<Longrightarrow> progress s 27 (bench_loop D off bms s)"
proof -
  assume fib: "ram s FIB_N = 24"
  have run: "progress s (Suc run * 9) (for_range 0 9 (\<lambda>i. bench_one D off bms run i) t)"
    if "progress s (run * 9) t" "run < 3" for run t
    using for_range_inv [where P = "\<lambda>i. progress s (run * 9 + i)" and a = 0 and b = 9]
      progress_step [OF _ that(2)] that(1) by (simp add: add.commute)
  have "progress s (3 * 9) (bench_loop D off bms s)"
    unfolding bench_loop_def RUNS_def COUNT_def
    by (rule for_range_inv [where P = "\<lambda>run. progress s (run * 9)"])
       (use run fib in \<open>auto simp: progress_def\<close>)
  then show ?thesis by simp
qed

text \<open>Every run leaves every kernel's checksum in its slot.\<close>

lemma checksums:
  assumes "ram s FIB_N = 24" and "run < 3" and "i < 9"
  shows "ram (bench_loop D off bms s) (ck_slot off run i) = checks ! i"
proof -
  let ?k = "run * 9 + i"
  have k: "?k < 27" "?k mod 9 = i" using assms(2,3) by auto
  have "\<forall>k<27. ram (bench_loop D off bms s) (idx (MB + off) (2 * k + 1)) = checks ! (k mod 9)"
    using progress_run [OF assms(1)] by (simp add: progress_def)
  then have "ram (bench_loop D off bms s) (idx (MB + off) (2 * ?k + 1)) = checks ! (?k mod 9)"
    using k(1) by blast
  then show ?thesis by (simp only: slot_idx k)
qed

lemma outside:
  assumes "ram s FIB_N = 24" and "c \<notin> scratch" and "c \<notin> region (MB + off) 54"
  shows "ram (bench_loop D off bms s) c = ram s c"
  using progress_run [OF assms(1)] assms(2,3) by (simp add: progress_def)

end

end
