(* ===== verification/ScalarKernels.thy ===== *)
theory ScalarKernels
  imports Prelude
begin

text \<open>
  The register-only kernels of \<^verbatim>\<open>bench/bench.c\<close>: the division loop of \<^verbatim>\<open>bm_div\<close>, the
  call loop of \<^verbatim>\<open>bm_call\<close> and the recursive \<^verbatim>\<open>fib\<close>. The reference values are exact
  natural numbers; the lemmas say where the 32-bit computation equals them, so no wrap-around
  hides in a checksum.
\<close>

section \<open>Division\<close>

text \<open>\<^verbatim>\<open>acc += 1000000u / d; d = (d + i) | 1;\<close>\<close>

definition div_round :: "nat \<Rightarrow> u32 \<times> u32 \<Rightarrow> u32 \<times> u32" where
  "div_round i = (\<lambda>(acc, d). (acc + 1000000 div d, (d + of_nat i) OR 1))"

definition div_loop :: "nat \<Rightarrow> u32 \<times> u32" where
  "div_loop n = for_range 0 n div_round (0, 1)"

text \<open>The divisor of round \<open>i\<close> in closed form.\<close>

definition divisor :: "nat \<Rightarrow> nat" where
  "divisor i = 1 + i * (i - 1) div 2 + i div 2"

lemma triangle_Suc: "Suc n * n div 2 = n * (n - 1) div 2 + n"
proof -
  have "Suc n * n = n * (n - 1) + 2 * n" by (cases n) simp_all
  then show ?thesis by simp
qed

lemma divisor_Suc: "divisor (Suc i) = divisor i + i + i mod 2"
proof -
  have "Suc i div 2 = i div 2 + i mod 2" by presburger
  then show ?thesis using triangle_Suc [of i] by (simp add: divisor_def)
qed

lemma odd_divisor: "odd (divisor i)"
proof (induction i)
  case 0
  then show ?case by (simp add: divisor_def)
next
  case (Suc i)
  have "even (i + i mod 2)" by presburger
  with Suc show ?case by (simp add: divisor_Suc add.assoc)
qed

lemma divisor_mono: "i \<le> j \<Longrightarrow> divisor i \<le> divisor j"
  by (rule lift_Suc_mono_le) (simp_all add: divisor_Suc)

lemma divisor_bound: "i \<le> 50000 \<Longrightarrow> divisor i \<le> 1250000001"
  using divisor_mono [of i 50000] by (simp add: divisor_def)

lemma unat_or_1: "unat (x OR 1) = (if odd (unat x) then unat x else unat x + 1)" for x :: u32
proof -
  have "unat (x OR 1) = unat x OR 1" by (simp only: unsigned_or_eq unsigned_1)
  also have "\<dots> = unat x + of_bool (even (unat x))" by (rule or_one_eq)
  finally show ?thesis by simp
qed

lemma div_round_divisor:
  assumes "i < 50000" and "unat d = divisor i"
  shows "unat ((d + of_nat i) OR 1 :: u32) = divisor (Suc i)"
proof -
  have "divisor i + i < 2 ^ 32" using divisor_bound [of i] assms(1) by simp
  then have "unat (d + of_nat i) = divisor i + i"
    using assms by (simp add: unat_word_ariths unat_of_nat)
  then show ?thesis
    using odd_divisor [of i] by (auto simp: unat_or_1 divisor_Suc mod_2_eq_odd)
qed

text \<open>The quotients vanish once the divisor has passed the dividend.\<close>

lemma quotient_zero: "1415 \<le> i \<Longrightarrow> 1000000 div divisor i = 0"
  using divisor_mono [of 1415 i] by (simp add: divisor_def)

lemma quotient_nonzero: "0 < 1000000 div divisor i \<Longrightarrow> i < 1415"
  by (rule ccontr) (simp add: quotient_zero not_less)

definition quotient_sum :: "nat \<Rightarrow> nat" where
  "quotient_sum n = (\<Sum>i<n. 1000000 div divisor i)"

lemma quotient_sum_bound: "quotient_sum n \<le> 1415 * 1000000"
proof -
  have "quotient_sum n = (\<Sum>i\<in>{..<n} \<inter> {..<1415}. 1000000 div divisor i)"
    unfolding quotient_sum_def by (rule sum.mono_neutral_right) (auto dest: quotient_nonzero)
  also have "\<dots> \<le> (\<Sum>i\<in>{..<n} \<inter> {..<1415}. 1000000)"
    by (rule sum_mono) (simp add: div_le_dividend)
  also have "\<dots> \<le> 1415 * 1000000"
    using card_mono [of "{..<1415::nat}" "{..<n} \<inter> {..<1415}"] by simp
  finally show ?thesis .
qed

text \<open>The kernel computes the exact sum: no divisor is zero and nothing wraps.\<close>

lemma div_loop_exact:
  assumes "n \<le> 50000"
  shows "unat (snd (div_loop n)) = divisor n" and "unat (fst (div_loop n)) = quotient_sum n"
proof -
  have "unat (fst (div_loop n)) = quotient_sum n \<and> unat (snd (div_loop n)) = divisor n"
    unfolding div_loop_def
  proof (rule for_range_inv [where
      P = "\<lambda>i s. unat (fst s) = quotient_sum i \<and> unat (snd s) = divisor i"])
    fix i :: nat and s :: "u32 \<times> u32"
    assume "i < n" and inv: "unat (fst s) = quotient_sum i \<and> unat (snd s) = divisor i"
    have "quotient_sum (Suc i) < 2 ^ 32" using quotient_sum_bound [of "Suc i"] by simp
    then have "unat (fst s + 1000000 div snd s) = quotient_sum (Suc i)"
      using inv by (simp add: unat_word_ariths unat_div quotient_sum_def)
    moreover have "unat ((snd s + of_nat i) OR 1) = divisor (Suc i)"
      using \<open>i < n\<close> assms inv by (intro div_round_divisor) auto
    ultimately show "unat (fst (div_round i s)) = quotient_sum (Suc i) \<and>
        unat (snd (div_round i s)) = divisor (Suc i)"
      by (simp add: div_round_def split_beta)
  qed (simp_all add: quotient_sum_def divisor_def)
  then show "unat (snd (div_loop n)) = divisor n" "unat (fst (div_loop n)) = quotient_sum n"
    by simp_all
qed

section \<open>Calls\<close>

definition add_one :: "u32 \<Rightarrow> u32" where
  "add_one x = x + 1"

definition call_loop :: "nat \<Rightarrow> u32" where
  "call_loop n = for_range 0 n (\<lambda>_ x. add_one x) 0"

lemma call_loop_eq: "call_loop n = of_nat n"
  unfolding call_loop_def by (induction n) (simp_all add: for_range_Suc add_one_def)

section \<open>Fibonacci\<close>

function fib :: "u32 \<Rightarrow> u32" where
  "fib n = (if n < 2 then n else fib (n - 1) + fib (n - 2))"
  by pat_completeness auto

text \<open>Both arguments are smaller because the subtraction cannot wrap above the guard.\<close>

lemma unat_sub_small: "c \<le> n \<Longrightarrow> unat (n - c) = unat n - unat c" for n c :: u32
  by (rule unat_sub)

termination fib
proof (relation "measure unat")
  fix n :: u32
  assume "\<not> n < 2"
  then have n: "2 \<le> n" by simp
  then have "unat (2 :: u32) \<le> unat n" by (simp only: word_le_nat_alt)
  moreover have "1 \<le> n" using n by (rule order_trans [rotated]) simp
  ultimately show "(n - 1, n) \<in> measure unat" "(n - 2, n) \<in> measure unat"
    using n by (simp_all add: unat_sub_small)
qed simp

declare fib.simps [simp del]

fun fibn :: "nat \<Rightarrow> nat" where
  "fibn 0 = 0"
| "fibn (Suc 0) = 1"
| "fibn (Suc (Suc n)) = fibn (Suc n) + fibn n"

lemma fib_of_nat: "n < 2 ^ 32 \<Longrightarrow> fib (of_nat n) = of_nat (fibn n)"
proof (induction n rule: fibn.induct)
  case 1
  then show ?case by (simp add: fib.simps)
next
  case 2
  then show ?case by (simp add: fib.simps)
next
  case (3 n)
  have "\<not> (of_nat (Suc (Suc n)) :: u32) < 2"
    using 3(3) by (simp add: word_less_nat_alt unat_of_nat del: of_nat_Suc)
  then have "fib (of_nat (Suc (Suc n))) = fib (of_nat (Suc (Suc n)) - 1) + fib (of_nat (Suc (Suc n)) - 2)"
    by (subst fib.simps) simp
  also have "\<dots> = fib (of_nat (Suc n)) + fib (of_nat n)" by simp
  finally show ?case using 3 by simp
qed

lemma fib_fibn: "fib n = of_nat (fibn (unat n))"
  using fib_of_nat [of "unat n"] unsigned_less [of n] by simp

lemma fibn_mono: "m \<le> n \<Longrightarrow> fibn m \<le> fibn n"
proof (rule lift_Suc_mono_le [of fibn])
  show "fibn k \<le> fibn (Suc k)" for k by (induction k rule: fibn.induct) auto
qed

text \<open>The last Fibonacci number that fits a word, by iterating pairs of integers.\<close>

definition fib_pairs :: "nat \<Rightarrow> int \<times> int" where
  "fib_pairs n = ((\<lambda>(a, b). (b, a + b)) ^^ n) (0, 1)"

lemma fib_pairs_fibn: "fib_pairs n = (int (fibn n), int (fibn (Suc n)))"
  unfolding fib_pairs_def by (induction n) simp_all

lemma fibn_47: "fibn 47 = 2971215073"
proof -
  have "fst (fib_pairs 47) = 2971215073" by code_simp
  then show ?thesis by (simp only: fib_pairs_fibn fst_conv)
qed

lemma fibn_24: "fibn 24 = 46368"
proof -
  have "fst (fib_pairs 24) = 46368" by code_simp
  then show ?thesis by (simp only: fib_pairs_fibn fst_conv)
qed

lemma fib_exact: "unat n \<le> 47 \<Longrightarrow> unat (fib n) = fibn (unat n)"
  using fibn_mono [of "unat n" 47] by (simp add: fib_fibn unat_of_nat fibn_47)

section \<open>Properties\<close>

text \<open>The division loop computes the exact sum of its quotients: up to its 50000 rounds
  neither the divisor nor the accumulator wraps around, every divisor is odd and so never
  zero, and the divisor of round \<open>n\<close> has a closed form.\<close>

theorem division_loop_exact:
  assumes "n \<le> 50000"
  shows "unat (fst (div_loop n)) = (\<Sum>i<n. 1000000 div divisor i) \<and>
    unat (snd (div_loop n)) = divisor n \<and> snd (div_loop n) \<noteq> 0 \<and> odd (unat (snd (div_loop n)))"
proof -
  note exact = div_loop_exact [OF assms]
  have "odd (unat (snd (div_loop n)))" using odd_divisor [of n] exact(1) by simp
  moreover then have "snd (div_loop n) \<noteq> 0" by auto
  ultimately show ?thesis using exact by (simp add: quotient_sum_def)
qed

theorem division_loop_exact_witness: "snd (div_loop 50000) \<noteq> 0"
  using division_loop_exact [of 50000] by simp

text \<open>The recursive Fibonacci function computes the Fibonacci number of its argument modulo
  \<^verbatim>\<open>2^32\<close> for every argument, and exactly up to 47; the benchmark's argument 24 gives 46368.\<close>

theorem fib_correct:
  "fib n = of_nat (fibn (unat n)) \<and> (unat n \<le> 47 \<longrightarrow> unat (fib n) = fibn (unat n)) \<and>
   fib 24 = 46368"
proof -
  have "fib 24 = 46368" by (simp add: fib_fibn fibn_24)
  then show ?thesis by (simp add: fib_fibn [of n] fib_exact [of n, unfolded fib_fibn [of n]])
qed

theorem fib_correct_witness: "unat (fib 47) = 2971215073"
  using fib_correct [of 47] by (simp add: fibn_47)

end
