(* ===== verification/SoftFloat.thy ===== *)
theory SoftFloat
  imports Prelude
begin

text \<open>
  Single precision arithmetic as \<^verbatim>\<open>bm_f32\<close> of \<^verbatim>\<open>bench/bench.c\<close> uses it: addition,
  multiplication and comparison of IEEE 754 binary32 values, rounding to nearest with ties
  to even, every operation rounded on its own (the targets have no fused multiply-add and
  evaluate \<^verbatim>\<open>float\<close> in \<^verbatim>\<open>float\<close>). Every finite value is a multiple of the smallest
  subnormal, so it is kept as a sign and a natural number of units of \<open>2 ^ (-149)\<close>.
\<close>

datatype f32 = FNan | FInf bool | FFin bool nat

section \<open>Rounding\<close>

fun bitlen :: "nat \<Rightarrow> nat" where
  "bitlen n = (if n = 0 then 0 else Suc (bitlen (n div 2)))"

declare bitlen.simps [simp del]

text \<open>\<open>n / 2 ^ k\<close> to the nearest integer, ties to even.\<close>

definition round_even :: "nat \<Rightarrow> nat \<Rightarrow> nat" where
  "round_even n k =
     (let q = n div 2 ^ k; r = n mod 2 ^ k
      in if 2 * r > 2 ^ k \<or> (2 * r = 2 ^ k \<and> odd q) then q + 1 else q)"

text \<open>
  The exact magnitude \<open>n / 2 ^ k\<close> units to 24 significant bits, but no finer than one unit;
  from \<open>2 ^ 277\<close> units on (\<open>2 ^ 128\<close>) it is infinite.
\<close>

definition f32_round :: "bool \<Rightarrow> nat \<Rightarrow> nat \<Rightarrow> f32" where
  "f32_round s n k =
     (let d = max k (bitlen n - 24); m = round_even n d * 2 ^ (d - k)
      in if m < 2 ^ 277 then FFin s m else FInf s)"

section \<open>Operations\<close>

definition signed :: "bool \<Rightarrow> nat \<Rightarrow> int" where
  "signed s m = (if s then - int m else int m)"

fun f32_add :: "f32 \<Rightarrow> f32 \<Rightarrow> f32" where
  "f32_add FNan y = FNan"
| "f32_add x FNan = FNan"
| "f32_add (FInf s) (FInf t) = (if s = t then FInf s else FNan)"
| "f32_add (FInf s) y = FInf s"
| "f32_add x (FInf t) = FInf t"
| "f32_add (FFin s m) (FFin t n) =
     (let z = signed s m + signed t n
      in if z = 0 then FFin (s \<and> t) 0 else f32_round (z < 0) (nat \<bar>z\<bar>) 0)"

fun f32_mul :: "f32 \<Rightarrow> f32 \<Rightarrow> f32" where
  "f32_mul FNan y = FNan"
| "f32_mul x FNan = FNan"
| "f32_mul (FInf s) (FInf t) = FInf (s \<noteq> t)"
| "f32_mul (FInf s) (FFin t n) = (if n = 0 then FNan else FInf (s \<noteq> t))"
| "f32_mul (FFin s m) (FInf t) = (if m = 0 then FNan else FInf (s \<noteq> t))"
| "f32_mul (FFin s m) (FFin t n) = f32_round (s \<noteq> t) (m * n) 149"

fun f32_gt :: "f32 \<Rightarrow> f32 \<Rightarrow> bool" where
  "f32_gt (FFin s m) (FFin t n) = (signed s m > signed t n)"
| "f32_gt (FInf s) (FFin t n) = (\<not> s)"
| "f32_gt (FFin s m) (FInf t) = t"
| "f32_gt (FInf s) (FInf t) = (\<not> s \<and> t)"
| "f32_gt x y = False"

section \<open>The kernel\<close>

text \<open>
  The literals. All but \<^verbatim>\<open>1.000119f\<close> are representable; that one is the nearest
  binary32 value, \<open>8389606 / 2 ^ 23\<close>.
\<close>

definition F_0_0 :: f32 where "F_0_0 = FFin False 0"
definition F_0_5 :: f32 where "F_0_5 = FFin False (2 ^ 148)"
definition F_1_0 :: f32 where "F_1_0 = FFin False (2 ^ 149)"
definition F_1_5 :: f32 where "F_1_5 = FFin False (3 * 2 ^ 148)"
definition F_1_000119 :: f32 where "F_1_000119 = FFin False (8389606 * 2 ^ 126)"

text \<open>
  The literal is within half a unit in the last place: \<open>1000119 / 1000000\<close> against
  \<open>8389606 / 2 ^ 23\<close>, cross-multiplied.
\<close>

lemma F_1_000119_nearest: "2 * \<bar>1000119 * 2 ^ 23 - 8389606 * 1000000\<bar> < (1000000 :: int)"
  by simp

text \<open>\<^verbatim>\<open>sum += a * 1.000119f; a = sum * 0.5f + a;\<close>\<close>

definition f32_step :: "f32 \<times> f32 \<Rightarrow> f32 \<times> f32" where
  "f32_step = (\<lambda>(sum, a).
     let sum = f32_add sum (f32_mul a F_1_000119);
         a = f32_add (f32_mul sum F_0_5) a
     in (sum, a))"

definition f32_loop :: "nat \<Rightarrow> f32 \<times> f32" where
  "f32_loop n = for_range 0 n (\<lambda>_. f32_step) (F_0_0, F_1_5)"

definition f32_check :: "nat \<Rightarrow> u32" where
  "f32_check n = (if f32_gt (fst (f32_loop n)) F_1_0 then 1 else 0)"

section \<open>Rounding never crosses a representable bound\<close>

lemma bitlen_lower: "n \<noteq> 0 \<Longrightarrow> 2 ^ (bitlen n - 1) \<le> n"
proof (induction n rule: bitlen.induct)
  case (1 n)
  show ?case
  proof (cases "n div 2 = 0")
    case True
    then show ?thesis using "1.prems" by (simp add: bitlen.simps [of n] bitlen.simps [of 0])
  next
    case False
    then have "bitlen (n div 2) = Suc (bitlen (n div 2) - 1)"
      by (simp add: bitlen.simps [of "n div 2"])
    moreover have "2 ^ (bitlen (n div 2) - 1) \<le> n div 2" using 1 False by simp
    ultimately have "2 ^ bitlen (n div 2) \<le> n" by (metis (no_types) mult_le_mono2 order_trans
      power_Suc times_div_less_eq_dividend)
    then show ?thesis using "1.prems" by (simp add: bitlen.simps [of n])
  qed
qed

lemma round_even_ge: "n div 2 ^ k \<le> round_even n k"
  by (simp add: round_even_def Let_def)

text \<open>A magnitude of at least \<open>1.5\<close> stays so.\<close>

lemma round_keeps_15:
  assumes "3 * 2 ^ 148 * 2 ^ k \<le> n"
  defines "d \<equiv> max k (bitlen n - 24)"
  shows "3 * 2 ^ 148 \<le> round_even n d * 2 ^ (d - k)"
proof (cases "d - k \<le> 148")
  case True
  have eq: "3 * 2 ^ 148 * 2 ^ k = (3 * 2 ^ (148 - (d - k))) * (2 ^ d :: nat)"
  proof -
    have "148 + k = (148 - (d - k)) + d" using True by (simp add: d_def)
    then show ?thesis by (simp only: mult.assoc power_add [symmetric])
  qed
  have "3 * 2 ^ (148 - (d - k)) * 2 ^ d \<le> n"
    using assms(1) unfolding eq .
  then have "3 * 2 ^ (148 - (d - k)) \<le> n div 2 ^ d"
    by (simp add: less_eq_div_iff_mult_less_eq)
  then have "3 * 2 ^ (148 - (d - k)) * 2 ^ (d - k) \<le> round_even n d * 2 ^ (d - k)"
    using round_even_ge [of n d] by (intro mult_le_mono1) (rule order_trans)
  moreover have "3 * 2 ^ (148 - (d - k)) * 2 ^ (d - k) = (3 * 2 ^ 148 :: nat)"
    using True by (simp only: mult.assoc power_add [symmetric] le_add_diff_inverse2)
  ultimately show ?thesis by simp
next
  case False
  then have d: "d = bitlen n - 24" "0 < d" by (auto simp: d_def max_def split: if_splits)
  have "0 < 3 * 2 ^ 148 * (2 ^ k :: nat)" by simp
  then have "n \<noteq> 0" using assms(1) by linarith
  then have "2 ^ (bitlen n - 1) \<le> n" by (rule bitlen_lower)
  moreover have "bitlen n - 1 = 23 + d" using d by simp
  ultimately have "2 ^ 23 * 2 ^ d \<le> n" by (simp only: power_add)
  then have "2 ^ 23 \<le> n div 2 ^ d" by (simp add: less_eq_div_iff_mult_less_eq)
  then have "2 ^ 23 * 2 ^ (d - k) \<le> round_even n d * 2 ^ (d - k)"
    using round_even_ge [of n d] by (intro mult_le_mono1) (rule order_trans)
  moreover have "3 * 2 ^ 148 \<le> 2 ^ 23 * (2 ^ (d - k) :: nat)"
  proof -
    have "(2::nat) ^ 149 \<le> 2 ^ (d - k)" using False by (intro power_increasing) auto
    then show ?thesis by simp
  qed
  ultimately show ?thesis by (rule order_trans [rotated])
qed

definition nonneg :: "f32 \<Rightarrow> bool" where
  "nonneg x = (case x of FNan \<Rightarrow> False | FInf s \<Rightarrow> \<not> s | FFin s m \<Rightarrow> \<not> s)"

definition at_least_15 :: "f32 \<Rightarrow> bool" where
  "at_least_15 x = (case x of FNan \<Rightarrow> False | FInf s \<Rightarrow> \<not> s | FFin s m \<Rightarrow> \<not> s \<and> 3 * 2 ^ 148 \<le> m)"

lemma f32_round_15: "3 * 2 ^ 148 * 2 ^ k \<le> n \<Longrightarrow> at_least_15 (f32_round False n k)"
  using round_keeps_15 [of k n] by (simp add: f32_round_def at_least_15_def Let_def)

lemma nonneg_round: "nonneg (f32_round False n k)"
  by (simp add: f32_round_def nonneg_def Let_def)

lemma at_least_15_nonneg: "at_least_15 x \<Longrightarrow> nonneg x"
  by (auto simp: at_least_15_def nonneg_def split: f32.splits)

lemma add_15: "nonneg x \<Longrightarrow> at_least_15 y \<Longrightarrow> at_least_15 (f32_add x y)"
proof (cases x; cases y)
  fix s m t n
  assume "x = FFin s m" "y = FFin t n" "nonneg x" "at_least_15 y"
  then have "\<not> s" "\<not> t" "3 * 2 ^ 148 * 2 ^ 0 \<le> m + n"
    by (auto simp: nonneg_def at_least_15_def)
  moreover have "m + n \<noteq> 0" using calculation(3) by auto
  ultimately show ?thesis
    using f32_round_15 [of 0 "m + n"] \<open>x = FFin s m\<close> \<open>y = FFin t n\<close>
    by (simp add: signed_def nat_add_distrib)
qed (auto simp: nonneg_def at_least_15_def)

lemma mul_15: "at_least_15 x \<Longrightarrow> at_least_15 (f32_mul x F_1_000119)"
proof (cases x)
  case (FFin s m)
  moreover assume "at_least_15 x"
  ultimately have "\<not> s" "3 * 2 ^ 148 \<le> m" by (auto simp: at_least_15_def)
  then have "3 * 2 ^ 148 * 2 ^ 149 \<le> m * (8389606 * 2 ^ 126)"
    by (intro mult_le_mono) auto
  then show ?thesis using FFin \<open>\<not> s\<close> f32_round_15 by (simp add: F_1_000119_def)
qed (auto simp: at_least_15_def F_1_000119_def)

lemma mul_nonneg: "nonneg x \<Longrightarrow> nonneg (f32_mul x F_0_5)"
proof (cases x)
  case (FFin s m)
  moreover assume "nonneg x"
  ultimately show ?thesis using nonneg_round by (simp add: F_0_5_def nonneg_def)
qed (auto simp: nonneg_def F_0_5_def)

text \<open>From the first round on the sum is at least \<open>1.5\<close>, finite or infinite, never a NaN.\<close>

lemma f32_step_15:
  assumes "nonneg x" and "at_least_15 a" and "f32_step (x, a) = (x', a')"
  shows "at_least_15 x'" and "at_least_15 a'"
proof -
  show x': "at_least_15 x'"
    using assms by (auto simp: f32_step_def Let_def intro: add_15 mul_15)
  have "a' = f32_add (f32_mul x' F_0_5) a"
    using assms(3) by (auto simp: f32_step_def Let_def)
  then show "at_least_15 a'"
    using add_15 [OF mul_nonneg [OF at_least_15_nonneg [OF x']] assms(2)] by simp
qed

lemma f32_loop_15: "at_least_15 (fst (f32_loop (Suc n))) \<and> at_least_15 (snd (f32_loop (Suc n)))"
proof (induction n)
  case 0
  have "nonneg F_0_0" "at_least_15 F_1_5"
    by (simp_all add: nonneg_def at_least_15_def F_0_0_def F_1_5_def)
  moreover have "f32_loop (Suc 0) = f32_step (F_0_0, F_1_5)"
    by (simp only: f32_loop_def for_range_Suc [OF le0] for_range_empty [OF order_refl])
  ultimately show ?case
    using f32_step_15 [of F_0_0 F_1_5] by (metis prod.collapse)
next
  case (Suc n)
  have "f32_loop (Suc (Suc n)) = f32_step (f32_loop (Suc n))"
    by (simp add: f32_loop_def for_range_Suc)
  then show ?case
    using Suc f32_step_15 [of "fst (f32_loop (Suc n))" "snd (f32_loop (Suc n))"] at_least_15_nonneg
    by (metis prod.collapse)
qed

lemma at_least_15_gt: "at_least_15 x \<Longrightarrow> f32_gt x F_1_0"
  by (cases x) (auto simp: at_least_15_def F_1_0_def signed_def)

lemma f32_check_one: "0 < n \<Longrightarrow> f32_check n = 1"
  using f32_loop_15 [of "n - 1"] by (simp add: f32_check_def at_least_15_gt)

section \<open>Properties\<close>

text \<open>The floating point kernel reports 1 for every positive number of rounds: from the
  first round on the sum is at least \<open>1.5\<close>, finite or infinite and never a NaN, whatever the
  rounding did.\<close>

theorem f32_checksum_one:
  assumes "0 < n"
  shows "f32_check n = 1 \<and> at_least_15 (fst (f32_loop n))"
  using f32_check_one [OF assms] f32_loop_15 [of "n - 1"] assms by simp

theorem f32_checksum_one_witness: "f32_check 20000 = 1"
  using f32_checksum_one [of 20000] by simp

end
