(* ===== verification/BenchC.thy ===== *)
theory BenchC
  imports BenchLayout ScalarKernels SoftFloat Board
begin

text \<open>
  \<^verbatim>\<open>bench/bench.c\<close>: the RP2040 benchmark program. Board bring-up, the nine kernels with
  their timer reads, and \<^verbatim>\<open>mojo_main\<close> up to its final idle loop. Each kernel is shown to
  keep the kernel contract of the harness with a checksum that does not depend on the device,
  on the timer or on the memory it starts from.
\<close>

section \<open>The kernels\<close>

definition bm_gpio_toggle :: "'d device \<Rightarrow> 'd kernel" where [kernel_defs]:
  "bm_gpio_toggle D s =
     (let s = wr D 0x4001407C 5 s;
          s = wr D 0xD0000024 (push_bit 15 1) s;
          (t0, s) = time_us D s;
          s = for_range 0 100000 (\<lambda>_ s. wr D 0xD000001C (push_bit 15 1) s) s;
          (t1, s) = time_us D s
      in ((t1 - t0, 0), s))"

definition bm_xorshift :: "'d device \<Rightarrow> 'd kernel" where [kernel_defs]:
  "bm_xorshift D s =
     (let (t0, s) = time_us D s;
          x = xorshift_loop 200000 0xDEADBEEF;
          (t1, s) = time_us D s
      in ((t1 - t0, x), s))"

definition bm_div :: "'d device \<Rightarrow> 'd kernel" where [kernel_defs]:
  "bm_div D s =
     (let (t0, s) = time_us D s;
          (acc, d) = div_loop 50000;
          (t1, s) = time_us D s
      in ((t1 - t0, acc), s))"

definition bm_f32 :: "'d device \<Rightarrow> 'd kernel" where [kernel_defs]:
  "bm_f32 D s =
     (let (t0, s) = time_us D s;
          ck = f32_check 20000;
          (t1, s) = time_us D s
      in ((t1 - t0, ck), s))"

definition bm_call :: "'d device \<Rightarrow> 'd kernel" where [kernel_defs]:
  "bm_call D s =
     (let (t0, s) = time_us D s;
          x = call_loop 100000;
          (t1, s) = time_us D s
      in ((t1 - t0, x), s))"

definition bm_crc32 :: "'d device \<Rightarrow> 'd kernel" where [kernel_defs]:
  "bm_crc32 D s =
     (let (x, m) = fill_random CRC_BUF 1024 (0x12345678, ram s);
          s = s\<lparr>ram := m\<rparr>;
          (t0, s) = time_us D s;
          acc = crc_passes (ram s) CRC_BUF 1024;
          (t1, s) = time_us D s
      in ((t1 - t0, acc), s))"

text \<open>One repetition of the sort kernel: refill, sort, add three elements up.\<close>

definition sort_rep :: "nat \<Rightarrow> u32 \<times> mem \<Rightarrow> u32 \<times> mem" where
  "sort_rep rep = (\<lambda>(acc, m).
     let (x, m) = fill_random SORT_BUF 512 (0x00C0FFEE + of_nat rep, m);
         m = qsort_u32 SORT_BUF 0 511 m;
         acc = acc + (m (idx SORT_BUF 0) XOR m (idx SORT_BUF 255) XOR m (idx SORT_BUF 511))
     in (acc, m))"

definition bm_sort :: "'d device \<Rightarrow> 'd kernel" where [kernel_defs]:
  "bm_sort D s =
     (let (t0, s) = time_us D s;
          (acc, m) = for_range 0 20 sort_rep (0, ram s);
          s = s\<lparr>ram := m\<rparr>;
          (t1, s) = time_us D s
      in ((t1 - t0, acc), s))"

definition bm_mat16 :: "'d device \<Rightarrow> 'd kernel" where [kernel_defs]:
  "bm_mat16 D s =
     (let (x, m) = fill_random MAT_A 256 (0x600D5EED, ram s);
          (x, m) = fill_random MAT_B 256 (x, m);
          s = s\<lparr>ram := m\<rparr>;
          (t0, s) = time_us D s;
          (acc, m) = mat_kernel MAT_A MAT_B MAT_C 50 (ram s);
          s = s\<lparr>ram := m\<rparr>;
          (t1, s) = time_us D s
      in ((t1 - t0, acc), s))"

definition bm_fib :: "'d device \<Rightarrow> 'd kernel" where [kernel_defs]:
  "bm_fib D s =
     (let (n, s) = rd D FIB_N s;
          (t0, s) = time_us D s;
          r = fib n;
          (t1, s) = time_us D s
      in ((t1 - t0, r), s))"

section \<open>The main program\<close>

definition BMS :: "'d device \<Rightarrow> 'd kernel list" where
  "BMS D = [bm_gpio_toggle D, bm_xorshift D, bm_div D, bm_f32 D, bm_call D,
     bm_crc32 D, bm_sort D, bm_mat16 D, bm_fib D]"

text \<open>\<^verbatim>\<open>mojo_main\<close> up to the final \<^verbatim>\<open>for (;;) {}\<close>, in which nothing happens any more.\<close>

definition mojo_main :: "'d device \<Rightarrow> 'd mach \<Rightarrow> 'd mach option" where
  "mojo_main D s = do {
     s \<leftarrow> board_init D s;
     let s = wr D (MB + 0x00) 0x42454E43 s;
     let s = wr D (MB + 0x04) 1 s;
     let s = wr D (MB + 0x08) (of_nat COUNT) s;
     let s = wr D (MB + 0x0C) (of_nat RUNS) s;
     let s = wr D FIB_N 24 s;
     let s = bench_loop D 0x10 (BMS D) s;
     Some (wr D (MB + 0x04) 2 s)
   }"

section \<open>The checksums\<close>

definition sort_check :: "nat \<Rightarrow> u32" where
  "sort_check reps =
     (\<Sum>rep<reps. let ys = sort (map (gen (0x00C0FFEE + of_nat rep)) [0..<512])
                   in ys ! 0 XOR ys ! 255 XOR ys ! 511)"

definition mat_check :: u32 where
  "mat_check = fst (spec_kernel (map (gen 0x600D5EED) [0..<256])
     (map (gen ((step ^^ 256) 0x600D5EED)) [0..<256]) 50)"

text \<open>What each kernel must report, independent of the machine.\<close>

definition bench_checks :: "u32 list" where
  "bench_checks = [0, (step ^^ 200000) 0xDEADBEEF, of_nat (quotient_sum 50000), 1, 100000, 0,
     sort_check 20, mat_check, 46368]"

section \<open>The kernels keep the contract\<close>

lemma toggles_ram: "ram (for_range 0 n (\<lambda>_ s. wr D 0xD000001C v s) s) = ram s"
  by (rule for_range_inv [where P = "\<lambda>_ t. ram t = ram s"]) (simp_all add: ram_wr sram_eval)

interpretation gpio_toggle: kernel "bm_gpio_toggle D" 0 for D
  by unfold_locales
     (simp_all add: bm_gpio_toggle_def Let_def split_beta toggles_ram ram_wr sram_eval)

interpretation xorshift: kernel "bm_xorshift D" "(step ^^ 200000) 0xDEADBEEF" for D
  by unfold_locales (simp_all add: bm_xorshift_def Let_def split_beta xorshift_loop_funpow)

interpretation division: kernel "bm_div D" "of_nat (quotient_sum 50000)" for D
proof unfold_locales
  have "(of_nat (unat (fst (div_loop 50000))) :: u32) = of_nat (quotient_sum 50000)"
    by (simp only: div_loop_exact(2) [OF order_refl])
  then show "snd (fst (bm_div D s)) = of_nat (quotient_sum 50000)" for s
    by (simp add: bm_div_def Let_def split_beta)
  show "ram (snd (bm_div D s)) c = ram s c" for c s
    by (simp add: bm_div_def Let_def split_beta)
qed

interpretation float: kernel "bm_f32 D" 1 for D
  by unfold_locales (simp_all add: bm_f32_def Let_def split_beta f32_check_one)

interpretation call: kernel "bm_call D" 100000 for D
  by unfold_locales (simp_all add: bm_call_def Let_def split_beta call_loop_eq)

lemma scratch_parts:
  "region CRC_BUF 1024 \<subseteq> scratch" "region SORT_BUF 512 \<subseteq> scratch" "region MAT_A 256 \<subseteq> scratch"
  "region MAT_B 256 \<subseteq> scratch" "region MAT_C 256 \<subseteq> scratch"
  by (auto simp: scratch_def)

interpretation crc32: kernel "bm_crc32 D" 0 for D
proof unfold_locales
  show "snd (fst (bm_crc32 D s)) = 0" for s
    by (simp add: bm_crc32_def Let_def split_beta crc_passes_zero)
  fix c s
  assume "c \<notin> scratch"
  then have "c \<notin> region CRC_BUF 1024" using scratch_parts by blast
  then show "ram (snd (bm_crc32 D s)) c = ram s c"
    by (simp add: bm_crc32_def Let_def split_beta fill_random_other)
qed

lemma sort_rep_spec:
  "sort_rep rep (acc, m) = (acc', m') \<Longrightarrow>
     acc' = acc + (let ys = sort (map (gen (0x00C0FFEE + of_nat rep)) [0..<512])
                   in ys ! 0 XOR ys ! 255 XOR ys ! 511) \<and>
     (\<forall>c. c \<notin> region SORT_BUF 512 \<longrightarrow> m' c = m c)"
proof -
  let ?f = "snd (fill_random SORT_BUF 512 (0x00C0FFEE + of_nat rep, m))"
  let ?m = "qsort_u32 SORT_BUF 0 511 ?f"
  let ?ys = "sort (map (gen (0x00C0FFEE + of_nat rep)) [0..<512])"
  assume "sort_rep rep (acc, m) = (acc', m')"
  then have m': "m' = ?m" and
    acc': "acc' = acc + (?m (idx SORT_BUF 0) XOR ?m (idx SORT_BUF 255) XOR ?m (idx SORT_BUF 511))"
    by (auto simp: sort_rep_def Let_def split_beta)
  have "arr ?m SORT_BUF 512 = ?ys"
    using sort_buf.arr_qsort [of ?f] sort_buf.inside by (simp add: arr_fill_random)
  then have "?m (idx SORT_BUF k) = ?ys ! k" if "k < 512" for k
    using that by (metis nth_arr)
  then show ?thesis
    using acc' m' sort_buf.qsort_frame [of _ ?f] by (simp add: fill_random_other Let_def)
qed

lemma sort_reps_spec:
  "fst (for_range 0 n sort_rep (0, m)) = sort_check n \<and>
   (\<forall>c. c \<notin> region SORT_BUF 512 \<longrightarrow> snd (for_range 0 n sort_rep (0, m)) c = m c)"
proof (induction n)
  case 0
  then show ?case by (simp add: sort_check_def)
next
  case (Suc n)
  obtain acc k where "for_range 0 n sort_rep (0, m) = (acc, k)" by fastforce
  moreover obtain acc' k' where "sort_rep n (acc, k) = (acc', k')" by fastforce
  ultimately show ?case
    using Suc sort_rep_spec [of n acc k acc' k'] by (simp add: for_range_Suc sort_check_def)
qed

interpretation sorting: kernel "bm_sort D" "sort_check 20" for D
proof unfold_locales
  show "snd (fst (bm_sort D s)) = sort_check 20" for s
    using sort_reps_spec [of 20 "ram s"] by (simp add: bm_sort_def Let_def split_beta)
  fix c s
  assume "c \<notin> scratch"
  then have "c \<notin> region SORT_BUF 512" using scratch_parts by blast
  then show "ram (snd (bm_sort D s)) c = ram s c"
    using sort_reps_spec [of 20 "ram s"] by (simp add: bm_sort_def Let_def split_beta)
qed

lemma mat_filled:
  defines "f \<equiv> \<lambda>m. snd (fill_random MAT_B 256
    ((step ^^ 256) 0x600D5EED, snd (fill_random MAT_A 256 (0x600D5EED, m))))"
  shows "arr (f m) MAT_A 256 = map (gen 0x600D5EED) [0..<256]"
    and "arr (f m) MAT_B 256 = map (gen ((step ^^ 256) 0x600D5EED)) [0..<256]"
    and "c \<notin> region MAT_A 256 \<Longrightarrow> c \<notin> region MAT_B 256 \<Longrightarrow> f m c = m c"
proof -
  have "idx MAT_A i \<notin> region MAT_B 256" if "i < 256" for i
    using region_disjoint [OF mats.AB] that by blast
  then have "arr (f m) MAT_A 256 = arr (snd (fill_random MAT_A 256 (0x600D5EED, m))) MAT_A 256"
    by (simp add: f_def arr_eq_iff fill_random_other)
  then show "arr (f m) MAT_A 256 = map (gen 0x600D5EED) [0..<256]"
    by (simp add: arr_fill_random mats.A.inside)
  show "arr (f m) MAT_B 256 = map (gen ((step ^^ 256) 0x600D5EED)) [0..<256]"
    by (simp add: f_def arr_fill_random mats.B.inside)
  show "f m c = m c" if "c \<notin> region MAT_A 256" "c \<notin> region MAT_B 256"
    using that by (simp add: f_def fill_random_other)
qed

interpretation matrix: kernel "bm_mat16 D" mat_check for D
proof unfold_locales
  fix s :: "'a mach"
  let ?m = "snd (fill_random MAT_B 256
    ((step ^^ 256) 0x600D5EED, snd (fill_random MAT_A 256 (0x600D5EED, ram s))))"
  obtain acc k where run: "mat_kernel MAT_A MAT_B MAT_C 50 ?m = (acc, k)" by fastforce
  note spec = mats.mat_kernel_refines [OF _ run]
  have bm: "snd (fst (bm_mat16 D s)) = acc" "ram (snd (bm_mat16 D s)) = k"
    using run by (simp_all add: bm_mat16_def Let_def split_beta)
  show "snd (fst (bm_mat16 D s)) = mat_check"
    using spec(1) bm(1) by (simp add: mat_filled mat_check_def)
  fix c
  assume "c \<notin> scratch"
  then have "c \<notin> region MAT_A 256" "c \<notin> region MAT_B 256" "c \<notin> region MAT_C 256"
    using scratch_parts by blast+
  then show "ram (snd (bm_mat16 D s)) c = ram s c"
    using spec(2) bm(2) by (simp add: mat_filled)
qed

interpretation fibonacci: kernel "bm_fib D" 46368 for D
proof unfold_locales
  have "in_sram FIB_N" by (simp add: sram_eval layout_simps)
  moreover have "fib 24 = 46368" by (simp add: fib_fibn fibn_24)
  ultimately show "snd (fst (bm_fib D s)) = 46368" if "ram s FIB_N = 24" for s
    using that by (simp add: bm_fib_def Let_def split_beta rd_ram)
  show "ram (snd (bm_fib D s)) c = ram s c" for c s
    by (simp add: bm_fib_def Let_def split_beta)
qed

interpretation bench: bench_suite D "0x10" "BMS D" bench_checks for D
proof (rule bench_suite.intro)
  fix i :: nat
  assume "i < COUNT"
  then consider "i = 0" | "i = 1" | "i = 2" | "i = 3" | "i = 4" | "i = 5" | "i = 6" | "i = 7" | "i = 8"
    unfolding COUNT_def by linarith
  then show "kernel (BMS D ! i) (bench_checks ! i)"
    by cases (simp_all add: BMS_def bench_checks_def gpio_toggle.kernel_axioms
      xorshift.kernel_axioms division.kernel_axioms float.kernel_axioms call.kernel_axioms
      crc32.kernel_axioms sorting.kernel_axioms matrix.kernel_axioms fibonacci.kernel_axioms)
qed simp

section \<open>The whole program\<close>

lemma region_shift: "region (b + 4 * of_nat k) n \<subseteq> region b (k + n)"
proof
  fix c
  assume "c \<in> region (b + 4 * of_nat k) n"
  then obtain i where "i < n" "c = idx (b + 4 * of_nat k) i" by (auto simp: region_def)
  then have "k + i < k + n" "c = idx b (k + i)" by (simp_all add: idx_def algebra_simps)
  then show "c \<in> region b (k + n)" by blast
qed

text \<open>The words in front of the table.\<close>

lemma idx_small: "idx MB 0 = MB" "idx MB 1 = MB + 4" "idx MB (Suc 0) = MB + 4" "idx MB 2 = MB + 8" "idx MB 3 = MB + 12"
  "idx MB 4 = MB + 16"
  by (simp_all add: idx_def)

lemma header_fits: "fits MB 64"
  by (simp add: fits_def MB_def)

lemma header_addr: "k < 64 \<Longrightarrow> unat (idx MB k) = 0x20030000 + 4 * k"
  using unat_idx [OF header_fits, of k] by (simp add: MB_def)

lemma header_sram: "k < 64 \<Longrightarrow> in_sram (idx MB k)"
  by (simp add: sram_eval word_le_nat_alt word_less_nat_alt header_addr)

lemma header_scratch: "k < 64 \<Longrightarrow> idx MB k \<notin> scratch"
  by (rule not_scratch) (simp add: header_addr)

lemma header_table: "k < j \<Longrightarrow> j \<le> 5 \<Longrightarrow> idx MB k \<notin> region (idx MB j) 54"
proof
  assume "k < j" "j \<le> 5" "idx MB k \<in> region (idx MB j) 54"
  then obtain i where "i < 54" "idx MB k = idx (idx MB j) i" by (auto simp: region_def)
  moreover have "idx (idx MB j) i = idx MB (j + i)" by (simp add: idx_def algebra_simps)
  ultimately show False using \<open>k < j\<close> \<open>j \<le> 5\<close> idx_inject [OF header_fits, of k "j + i"] by simp
qed

lemma FIB_N_sram: "in_sram FIB_N"
  by (simp add: sram_eval layout_simps)

lemma slot_not_header: "run < 3 \<Longrightarrow> i < 9 \<Longrightarrow> j \<le> 5 \<Longrightarrow> k < j \<Longrightarrow> ck_slot (4 * of_nat j) run i \<noteq> idx MB k"
proof -
  assume lt: "run < 3" "i < 9" and k: "j \<le> 5" "k < j"
  have "2 * (run * 9 + i) + 1 < 54" using lt by presburger
  then have "idx (idx MB j) (2 * (run * 9 + i) + 1) \<in> region (idx MB j) 54" by blast
  moreover have "ck_slot (4 * of_nat j) run i = idx (idx MB j) (2 * (run * 9 + i) + 1)"
    using slot_idx(2) [of "4 * of_nat j" run i] by (simp add: idx_def)
  ultimately show ?thesis using header_table [OF k(2,1)] by metis
qed

text \<open>
  What a benchmark program with a header of \<open>j\<close> words leaves in memory: the header words and
  the checksums in their place, everything but the scratch buffers, the Fibonacci argument and
  the mailbox as it was.
\<close>

lemma suite_final:
  fixes D :: "'d device" and s :: "'d mach"
  assumes suite: "bench_suite (4 * of_nat j) bms bench_checks" and j: "4 \<le> j" "j \<le> 5"
    and fib: "ram s FIB_N = 24"
  defines "t \<equiv> wr D (MB + 4) 2 (bench_loop D (4 * of_nat j) bms s)"
  shows "run < 3 \<Longrightarrow> i < 9 \<Longrightarrow> ram t (ck_slot (4 * of_nat j) run i) = bench_checks ! i"
    and "ram t (idx MB 1) = 2"
    and "k < j \<Longrightarrow> k \<noteq> 1 \<Longrightarrow> ram t (idx MB k) = ram s (idx MB k)"
    and "c \<notin> scratch \<Longrightarrow> c \<notin> region MB (j + 54) \<Longrightarrow> ram t c = ram s c"
proof -
  let ?l = "bench_loop D (4 * of_nat j) bms s"
  have mb: "MB + 4 * of_nat j = idx MB j" by (simp add: idx_def)
  have sram: "in_sram (idx MB 1)" by (rule header_sram) simp
  have t: "ram t = (ram ?l)(idx MB 1 := 2)"
    using sram by (simp add: t_def ram_wr idx_small)
  note outside = bench_suite.outside [OF suite fib, unfolded mb]
  show "ram t (ck_slot (4 * of_nat j) run i) = bench_checks ! i" if "run < 3" "i < 9"
    using bench_suite.checksums [OF suite fib that] slot_not_header [OF that j(2), of 1] j(1)
    by (simp add: t)
  show "ram t (idx MB 1) = 2" by (simp add: t)
  show "ram t (idx MB k) = ram s (idx MB k)" if "k < j" "k \<noteq> 1"
  proof -
    have "idx MB k \<noteq> idx MB 1" using that j idx_inject [OF header_fits, of k 1] by simp
    moreover have "ram ?l (idx MB k) = ram s (idx MB k)"
      using that j by (intro outside header_scratch header_table) simp_all
    ultimately show ?thesis by (simp add: t)
  qed
  show "ram t c = ram s c" if "c \<notin> scratch" "c \<notin> region MB (j + 54)"
  proof -
    have "c \<notin> region (idx MB j) 54" using region_shift [of MB j 54] that(2) by (auto simp: mb)
    moreover have "c \<noteq> idx MB 1" using that(2) by auto
    ultimately show ?thesis using outside [OF that(1)] by (simp add: t)
  qed
qed

lemma FIB_N_not_header: "k < 64 \<Longrightarrow> FIB_N \<noteq> idx MB k"
proof
  assume "k < 64" "FIB_N = idx MB k"
  then show False using header_addr [of k] by (simp add: FIB_N_def)
qed

section \<open>Properties\<close>

lemma mojo_main_run:
  assumes "bringup_answers D"
  shows "\<exists>t. mojo_main D s = Some t \<and>
    ram t MB = 0x42454E43 \<and> ram t (MB + 4) = 2 \<and> ram t (MB + 8) = 9 \<and> ram t (MB + 12) = 3 \<and>
    (\<forall>run<3. \<forall>i<9. ram t (ck_slot 0x10 run i) = bench_checks ! i) \<and>
    (\<forall>c. c \<notin> scratch \<and> c \<noteq> FIB_N \<and> c \<notin> region MB 58 \<longrightarrow> ram t c = ram s c)"
proof -
  obtain u where u: "board_init D s = Some u" and ram_u: "ram u = ram s"
    using board_init_returns [OF assms] by (auto simp: returns_def)
  define v where "v = wr D FIB_N 24 (wr D (MB + 0x0C) (of_nat RUNS) (wr D (MB + 0x08) (of_nat COUNT)
    (wr D (MB + 0x04) 1 (wr D (MB + 0x00) 0x42454E43 u))))"
  have ram_v: "ram v = (ram s)(idx MB 0 := 0x42454E43, idx MB 1 := 1, idx MB 2 := 9, idx MB 3 := 3,
      FIB_N := 24)"
    using header_sram [of 0] header_sram [of 1] header_sram [of 2] header_sram [of 3] FIB_N_sram
    by (simp add: v_def ram_wr idx_small ram_u COUNT_def RUNS_def)
  have ne: "idx MB a \<noteq> idx MB b" if "a \<noteq> b" "a < 64" "b < 64" for a b
    using that idx_inject [OF header_fits] by simp
  define t where "t = wr D (MB + 4) 2 (bench_loop D 0x10 (BMS D) v)"
  have four: "4 * of_nat 4 = (0x10 :: u32)" by simp
  have "ram v FIB_N = 24" by (simp add: ram_v)
  note final = suite_final [where D = D and j = 4, unfolded four,
    OF bench.bench_suite_axioms [where D = D] _ _ this, folded t_def]
  have "mojo_main D s = Some t"
    by (simp add: mojo_main_def u t_def v_def Let_def)
  moreover have "\<forall>c. c \<notin> scratch \<and> c \<noteq> FIB_N \<and> c \<notin> region MB 58 \<longrightarrow> ram t c = ram s c"
  proof (intro allI impI)
    fix c
    assume c: "c \<notin> scratch \<and> c \<noteq> FIB_N \<and> c \<notin> region MB 58"
    then have "c \<noteq> idx MB k" if "k < 58" for k using that by blast
    then show "ram t c = ram s c" using final(4) [of c] c by (simp add: ram_v)
  qed
  moreover have "ram t (idx MB 0) = 0x42454E43 \<and> ram t (idx MB 1) = 2 \<and>
      ram t (idx MB 2) = 9 \<and> ram t (idx MB 3) = 3"
    using final(2) final(3) [of 0] final(3) [of 2] final(3) [of 3] ne
      FIB_N_not_header [of 0] FIB_N_not_header [of 2] FIB_N_not_header [of 3]
    by (simp add: ram_v)
  moreover have "\<forall>run<3. \<forall>i<9. ram t (ck_slot 0x10 run i) = bench_checks ! i"
    using final(1) by simp
  ultimately show ?thesis by (simp only: idx_small) blast
qed

text \<open>C1: on a board whose bring-up loops are answered, the benchmark program reaches its final
  idle loop, whatever the timer and the other registers do and whatever is in memory; then the
  mailbox holds its magic number, the state "done", the counts, and in each of the three runs
  every kernel's expected checksum, and no word outside the scratch buffers, the Fibonacci
  argument and the 58 words of the mailbox has changed.\<close>

theorem mojo_main_reports:
  assumes "bringup_answers D"
  shows "\<exists>t. mojo_main D s = Some t \<and>
    ram t MB = 0x42454E43 \<and> ram t (MB + 4) = 2 \<and> ram t (MB + 8) = 9 \<and> ram t (MB + 12) = 3 \<and>
    (\<forall>run<3. \<forall>i<9. ram t (ck_slot 0x10 run i) = bench_checks ! i) \<and>
    (\<forall>c. c \<notin> scratch \<and> c \<noteq> FIB_N \<and> c \<notin> region MB 58 \<longrightarrow> ram t c = ram s c)"
  using assms by (rule mojo_main_run)

theorem mojo_main_reports_witness:
  "\<exists>t. mojo_main ready_device \<lparr>ram = \<lambda>_. 0, dev = (0, 0)\<rparr> = Some t \<and>
     ram t (MB + 4) = 2 \<and> ram t (ck_slot 0x10 2 8) = 46368"
proof -
  obtain t where "mojo_main ready_device \<lparr>ram = \<lambda>_. 0, dev = (0, 0)\<rparr> = Some t"
    and "ram t (MB + 4) = 2" and "\<forall>run<3. \<forall>i<9. ram t (ck_slot 0x10 run i) = bench_checks ! i"
    using mojo_main_reports [OF ready_hardware(1)] by blast
  then show ?thesis by (intro exI [of _ t]) (simp add: bench_checks_def)
qed

end
