(* ===== verification/BenchRv.thy ===== *)
theory BenchRv
  imports BenchC
begin

text \<open>
  \<^verbatim>\<open>bench/bench_rp2350.c\<close>: the same kernels on the RP2350, timed by the cycle counter. Two
  externals are assembly: \<^verbatim>\<open>read_mcycle\<close> reads a control register of the core, which is a
  parameter (\<open>mc\<close>) like the device, and \<^verbatim>\<open>flash_commit_reboot\<close> of
  \<^verbatim>\<open>runtime/crt0_rv32.S\<close> is a fixed sequence of boot ROM calls, which is what its model
  returns. The kernel bodies are those of \<^verbatim>\<open>bench.c\<close>, so their loops are shared.
\<close>

section \<open>Bring-up, counter and flash commit\<close>

definition rv_board_init :: "'d device \<Rightarrow> 'd mach \<Rightarrow> 'd mach option" where [init_defs]:
  "rv_board_init D s = do {
     let mask = push_bit 6 1 OR push_bit 9 1;
     let s = wr D (0x40020000 + 0x3000) mask s;
     poll D 0x40020008 (\<lambda>v. v AND mask = mask) s
   }"

text \<open>The boot ROM calls, with their arguments; a programmed range carries its data.\<close>

datatype rom_call =
  ConnectInternalFlash
| FlashExitXip
| FlashRangeErase u32 u32 u32 u32
| FlashRangeProgram u32 "u32 list"
| FlashFlushCache
| Reboot u32 u32 u32 u32

definition flash_commit_reboot ::
  "u32 \<Rightarrow> u32 \<Rightarrow> nat \<Rightarrow> u32 \<Rightarrow> 'd mach \<Rightarrow> rom_call list" where
  "flash_commit_reboot off src len flags s =
     [ConnectInternalFlash, FlashExitXip, FlashRangeErase off 4096 65536 0xD8,
      FlashRangeProgram off (arr (ram s) src (len div 4)), FlashFlushCache,
      Reboot (flags OR 2) 100 0 0]"

section \<open>The kernels\<close>

definition rv_bm_gpio_toggle :: "'d device \<Rightarrow> ('d \<Rightarrow> u32 \<times> 'd) \<Rightarrow> 'd kernel" where [kernel_defs]:
  "rv_bm_gpio_toggle D mc s =
     (let s = wr D 0x4002807C 5 s;
          s = wr D 0xD0000038 (push_bit 15 1) s;
          s = wr D 0x4003B040 (push_bit 8 1) s;
          (t0, s) = read_mcycle mc s;
          s = for_range 0 100000 (\<lambda>_ s. wr D 0xD0000028 (push_bit 15 1) s) s;
          (t1, s) = read_mcycle mc s
      in ((t1 - t0, 0), s))"

definition rv_bm_xorshift :: "('d \<Rightarrow> u32 \<times> 'd) \<Rightarrow> 'd kernel" where [kernel_defs]:
  "rv_bm_xorshift mc s =
     (let (t0, s) = read_mcycle mc s;
          x = xorshift_loop 200000 0xDEADBEEF;
          (t1, s) = read_mcycle mc s
      in ((t1 - t0, x), s))"

definition rv_bm_div :: "('d \<Rightarrow> u32 \<times> 'd) \<Rightarrow> 'd kernel" where [kernel_defs]:
  "rv_bm_div mc s =
     (let (t0, s) = read_mcycle mc s;
          (acc, d) = div_loop 50000;
          (t1, s) = read_mcycle mc s
      in ((t1 - t0, acc), s))"

definition rv_bm_f32 :: "('d \<Rightarrow> u32 \<times> 'd) \<Rightarrow> 'd kernel" where [kernel_defs]:
  "rv_bm_f32 mc s =
     (let (t0, s) = read_mcycle mc s;
          ck = f32_check 20000;
          (t1, s) = read_mcycle mc s
      in ((t1 - t0, ck), s))"

definition rv_bm_call :: "('d \<Rightarrow> u32 \<times> 'd) \<Rightarrow> 'd kernel" where [kernel_defs]:
  "rv_bm_call mc s =
     (let (t0, s) = read_mcycle mc s;
          x = call_loop 100000;
          (t1, s) = read_mcycle mc s
      in ((t1 - t0, x), s))"

definition rv_bm_crc32 :: "('d \<Rightarrow> u32 \<times> 'd) \<Rightarrow> 'd kernel" where [kernel_defs]:
  "rv_bm_crc32 mc s =
     (let (x, m) = fill_random CRC_BUF 1024 (0x12345678, ram s);
          s = s\<lparr>ram := m\<rparr>;
          (t0, s) = read_mcycle mc s;
          acc = crc_passes (ram s) CRC_BUF 1024;
          (t1, s) = read_mcycle mc s
      in ((t1 - t0, acc), s))"

definition rv_bm_sort :: "('d \<Rightarrow> u32 \<times> 'd) \<Rightarrow> 'd kernel" where [kernel_defs]:
  "rv_bm_sort mc s =
     (let (t0, s) = read_mcycle mc s;
          (acc, m) = for_range 0 20 sort_rep (0, ram s);
          s = s\<lparr>ram := m\<rparr>;
          (t1, s) = read_mcycle mc s
      in ((t1 - t0, acc), s))"

definition rv_bm_mat16 :: "('d \<Rightarrow> u32 \<times> 'd) \<Rightarrow> 'd kernel" where [kernel_defs]:
  "rv_bm_mat16 mc s =
     (let (x, m) = fill_random MAT_A 256 (0x600D5EED, ram s);
          (x, m) = fill_random MAT_B 256 (x, m);
          s = s\<lparr>ram := m\<rparr>;
          (t0, s) = read_mcycle mc s;
          (acc, m) = mat_kernel MAT_A MAT_B MAT_C 50 (ram s);
          s = s\<lparr>ram := m\<rparr>;
          (t1, s) = read_mcycle mc s
      in ((t1 - t0, acc), s))"

definition rv_bm_fib :: "'d device \<Rightarrow> ('d \<Rightarrow> u32 \<times> 'd) \<Rightarrow> 'd kernel" where [kernel_defs]:
  "rv_bm_fib D mc s =
     (let (n, s) = rd D FIB_N s;
          (t0, s) = read_mcycle mc s;
          r = fib n;
          (t1, s) = read_mcycle mc s
      in ((t1 - t0, r), s))"

section \<open>The main program\<close>

definition rv_BMS :: "'d device \<Rightarrow> ('d \<Rightarrow> u32 \<times> 'd) \<Rightarrow> 'd kernel list" where
  "rv_BMS D mc = [rv_bm_gpio_toggle D mc, rv_bm_xorshift mc, rv_bm_div mc, rv_bm_f32 mc,
     rv_bm_call mc, rv_bm_crc32 mc, rv_bm_sort mc, rv_bm_mat16 mc, rv_bm_fib D mc]"

definition LANG :: "bool \<Rightarrow> u32" where
  "LANG clang = (if clang then 3 else 2)"

definition MB_FLASH_OFF :: u32 where
  "MB_FLASH_OFF = 0x003FF000"

text \<open>
  \<^verbatim>\<open>mojo_main\<close> up to the flash commit, which does not return: the final machine and the
  ROM calls. \<open>clang\<close> says whether \<^verbatim>\<open>__clang__\<close> is defined.
\<close>

definition rv_mojo_main ::
  "bool \<Rightarrow> 'd device \<Rightarrow> ('d \<Rightarrow> u32 \<times> 'd) \<Rightarrow> 'd mach \<Rightarrow> ('d mach \<times> rom_call list) option" where
  "rv_mojo_main clang D mc s = do {
     s \<leftarrow> rv_board_init D s;
     let s = wr D (MB + 0x00) 0x42454E43 s;
     let s = wr D (MB + 0x04) 1 s;
     let s = wr D (MB + 0x08) (of_nat COUNT) s;
     let s = wr D (MB + 0x0C) (of_nat RUNS) s;
     let s = wr D (MB + 0x10) (LANG clang) s;
     let s = wr D FIB_N 24 s;
     let s = bench_loop D 0x14 (rv_BMS D mc) s;
     let s = wr D (MB + 0x04) 2 s;
     Some (s, flash_commit_reboot MB_FLASH_OFF MB 256 0 s)
   }"

text \<open>
  The mirrors of the program in other languages differ in the language number they report and
  in how they read the time.
\<close>

type_synonym 'd tm = "'d mach \<Rightarrow> u32 \<times> 'd mach"

definition rv_program ::
  "u32 \<Rightarrow> 'd device \<Rightarrow> ('d \<Rightarrow> u32 \<times> 'd) \<Rightarrow> 'd mach \<Rightarrow> ('d mach \<times> rom_call list) option" where
  "rv_program lang D mc s = do {
     s \<leftarrow> rv_board_init D s;
     let s = wr D (MB + 0x00) 0x42454E43 s;
     let s = wr D (MB + 0x04) 1 s;
     let s = wr D (MB + 0x08) (of_nat COUNT) s;
     let s = wr D (MB + 0x0C) (of_nat RUNS) s;
     let s = wr D (MB + 0x10) lang s;
     let s = wr D FIB_N 24 s;
     let s = bench_loop D 0x14 (rv_BMS D mc) s;
     let s = wr D (MB + 0x04) 2 s;
     Some (s, flash_commit_reboot MB_FLASH_OFF MB 256 0 s)
   }"

lemma rv_mojo_main_program: "rv_mojo_main clang = rv_program (LANG clang)"
  by (simp add: fun_eq_iff rv_mojo_main_def rv_program_def)

section \<open>The kernels keep the contract\<close>

lemma rv_toggles_ram: "ram (for_range 0 n (\<lambda>_ s. wr D 0xD0000028 v s) s) = ram s"
  by (rule for_range_inv [where P = "\<lambda>_ t. ram t = ram s"]) (simp_all add: ram_wr sram_eval)

text \<open>
  Each kernel leaves the checksum and the memory of its counterpart: only what the timer
  reads do to the device can differ.
\<close>

lemma rv_kernels_like:
  "snd (fst (rv_bm_xorshift mc s)) = snd (fst (bm_xorshift D s))"
  "snd (fst (rv_bm_div mc s)) = snd (fst (bm_div D s))"
  "snd (fst (rv_bm_f32 mc s)) = snd (fst (bm_f32 D s))"
  "snd (fst (rv_bm_call mc s)) = snd (fst (bm_call D s))"
  "snd (fst (rv_bm_crc32 mc s)) = snd (fst (bm_crc32 D s))"
  "snd (fst (rv_bm_sort mc s)) = snd (fst (bm_sort D s))"
  "snd (fst (rv_bm_mat16 mc s)) = snd (fst (bm_mat16 D s))"
  "ram (snd (rv_bm_xorshift mc s)) = ram (snd (bm_xorshift D s))"
  "ram (snd (rv_bm_div mc s)) = ram (snd (bm_div D s))"
  "ram (snd (rv_bm_f32 mc s)) = ram (snd (bm_f32 D s))"
  "ram (snd (rv_bm_call mc s)) = ram (snd (bm_call D s))"
  "ram (snd (rv_bm_crc32 mc s)) = ram (snd (bm_crc32 D s))"
  "ram (snd (rv_bm_sort mc s)) = ram (snd (bm_sort D s))"
  "ram (snd (rv_bm_mat16 mc s)) = ram (snd (bm_mat16 D s))"
  by (simp_all add: kernel_defs Let_def split_beta)

lemma kernel_transfer:
  assumes "kernel bm ck" and "\<And>s. snd (fst (bm' s)) = snd (fst (bm s))"
    and "\<And>s. ram (snd (bm' s)) = ram (snd (bm s))"
  shows "kernel bm' ck"
  using assms by (simp add: kernel_def)

lemma rv_kernel_gpio: "kernel (rv_bm_gpio_toggle D mc) 0"
  by (simp add: kernel_def rv_bm_gpio_toggle_def Let_def split_beta rv_toggles_ram ram_wr sram_eval)

lemma rv_kernel_fib: "kernel (rv_bm_fib D mc) 46368"
proof -
  have "in_sram FIB_N" by (simp add: sram_eval layout_simps)
  moreover have "fib 24 = 46368" by (simp add: fib_fibn fibn_24)
  ultimately show ?thesis
    by (simp add: kernel_def rv_bm_fib_def Let_def split_beta rd_ram)
qed

interpretation rv_bench: bench_suite D "0x14" "rv_BMS D mc" bench_checks for D mc
proof (rule bench_suite.intro)
  fix i :: nat
  assume "i < COUNT"
  then consider "i = 0" | "i = 1" | "i = 2" | "i = 3" | "i = 4" | "i = 5" | "i = 6" | "i = 7" | "i = 8"
    unfolding COUNT_def by linarith
  moreover have
    "kernel (rv_bm_xorshift mc) ((step ^^ 200000) 0xDEADBEEF)"
    "kernel (rv_bm_div mc) (of_nat (quotient_sum 50000))"
    "kernel (rv_bm_f32 mc) 1" "kernel (rv_bm_call mc) 100000" "kernel (rv_bm_crc32 mc) 0"
    "kernel (rv_bm_sort mc) (sort_check 20)" "kernel (rv_bm_mat16 mc) mat_check"
    by (rule kernel_transfer, rule xorshift.kernel_axioms division.kernel_axioms
        float.kernel_axioms call.kernel_axioms crc32.kernel_axioms sorting.kernel_axioms
        matrix.kernel_axioms, rule rv_kernels_like, rule rv_kernels_like)+
  ultimately show "kernel (rv_BMS D mc ! i) (bench_checks ! i)"
    by cases (simp_all add: rv_BMS_def bench_checks_def rv_kernel_gpio rv_kernel_fib)
qed simp

section \<open>Properties\<close>

lemma rv_board_init_returns:
  assumes "acks D 0x40023000 0x240 0x40020008 (\<lambda>v. v AND 0x240 = 0x240)"
  shows "returns (rv_board_init D s) s"
proof -
  have words: "push_bit 6 1 OR push_bit 9 1 = (0x240 :: u32)" "0x40020000 + 0x3000 = (0x40023000 :: u32)"
    by simp_all
  show ?thesis
    unfolding rv_board_init_def Let_def words
    by (rule returns_poll [OF assms]) (simp_all add: sram_eval)
qed

text \<open>The RP2350 program's start sequence is the Mojo SDK's \<^verbatim>\<open>init\<close> for that chip, access by
  access, and needs only the reset controller to answer.\<close>

theorem rv_board_init_agrees:
  assumes "acks D 0x40023000 0x240 0x40020008 (\<lambda>v. v AND 0x240 = 0x240)"
  shows "rv_board_init D s = pico_init RP2350 D s \<and> (\<exists>t. pico_init RP2350 D s = Some t \<and> ram t = ram s)"
proof -
  have "rv_board_init D s = pico_init RP2350 D s"
    by (simp add: init_defs Let_def RP2350_def CLR_ALIAS_def)
  then show ?thesis using rv_board_init_returns [OF assms, of s] by (simp add: returns_def)
qed

theorem rv_board_init_agrees_witness:
  "\<exists>t. pico_init RP2350 (const_device (\<lambda>_. 0x240)) \<lparr>ram = \<lambda>_. 0, dev = ()\<rparr> = Some t"
  using rv_board_init_agrees [of "const_device (\<lambda>_. 0x240)" "\<lparr>ram = \<lambda>_. 0, dev = ()\<rparr>"]
  by (auto simp: acks_const)

lemma rv_program_run:
  assumes "acks D 0x40023000 0x240 0x40020008 (\<lambda>v. v AND 0x240 = 0x240)"
  shows "\<exists>t page. rv_program lang D mc s =
      Some (t, [ConnectInternalFlash, FlashExitXip, FlashRangeErase 0x3FF000 4096 65536 0xD8,
        FlashRangeProgram 0x3FF000 page, FlashFlushCache, Reboot 2 100 0 0]) \<and>
    length page = 64 \<and> take 5 page = [0x42454E43, 2, 9, 3, lang] \<and>
    (\<forall>run<3. \<forall>i<9. page ! (2 * (run * 9 + i) + 6) = bench_checks ! i)"
proof -
  obtain u where u: "rv_board_init D s = Some u"
    using rv_board_init_returns [OF assms] by (auto simp: returns_def)
  define v where "v = wr D FIB_N 24 (wr D (MB + 0x10) lang (wr D (MB + 0x0C) (of_nat RUNS)
    (wr D (MB + 0x08) (of_nat COUNT) (wr D (MB + 0x04) 1 (wr D (MB + 0x00) 0x42454E43 u)))))"
  have ram_v: "ram v = (ram u)(idx MB 0 := 0x42454E43, idx MB 1 := 1, idx MB 2 := 9, idx MB 3 := 3,
      idx MB 4 := lang, FIB_N := 24)"
    using header_sram [of 0] header_sram [of 1] header_sram [of 2] header_sram [of 3]
      header_sram [of 4] FIB_N_sram
    by (simp add: v_def ram_wr idx_small COUNT_def RUNS_def)
  define t where "t = wr D (MB + 4) 2 (bench_loop D 0x14 (rv_BMS D mc) v)"
  define page where "page = arr (ram t) MB 64"
  have five: "4 * of_nat 5 = (0x14 :: u32)" by simp
  have "ram v FIB_N = 24" by (simp add: ram_v)
  note final = suite_final [where D = D and j = 5, unfolded five,
    OF rv_bench.bench_suite_axioms [where D = D and mc = mc] _ _ this, folded t_def]
  have ne: "idx MB a \<noteq> idx MB b" if "a \<noteq> b" "a < 64" "b < 64" for a b
    using that idx_inject [OF header_fits] by simp
  have "page ! 0 = 0x42454E43" "page ! 1 = 2" "page ! 2 = 9" "page ! 3 = 3" "page ! 4 = lang"
    using final(2) final(3) [of 0] final(3) [of 2] final(3) [of 3] final(3) [of 4] ne
      FIB_N_not_header [of 0] FIB_N_not_header [of 2] FIB_N_not_header [of 3] FIB_N_not_header [of 4]
    by (simp_all add: page_def ram_v)
  moreover have "take 5 page = map (\<lambda>k. page ! k) [0..<5]"
    by (rule nth_equalityI) (simp_all add: page_def)
  moreover have "[0..<5] = [0, 1, 2, 3, 4::nat]" by (simp add: upt_rec)
  ultimately have head: "take 5 page = [0x42454E43, 2, 9, 3, lang]"
    by (simp only: list.map)
  have "page ! (2 * (run * 9 + i) + 6) = bench_checks ! i" if "run < 3" "i < 9" for run i
  proof -
    have "2 * (run * 9 + i) + 6 < 64" using that by presburger
    moreover have "idx MB (2 * (run * 9 + i) + 6) = ck_slot 0x14 run i"
      by (simp add: idx_def ck_slot_def COUNT_def algebra_simps)
    ultimately show ?thesis using final(1) [OF _ _ that] by (simp only: page_def nth_arr)
  qed
  moreover have "rv_program lang D mc s = Some (t, flash_commit_reboot MB_FLASH_OFF MB 256 0 t)"
    by (simp add: rv_program_def u t_def v_def Let_def)
  ultimately show ?thesis
    using head
    by (intro exI [of _ t] exI [of _ page])
      (simp add: flash_commit_reboot_def MB_FLASH_OFF_def page_def)
qed

lemma rv_mojo_main_run:
  assumes "acks D 0x40023000 0x240 0x40020008 (\<lambda>v. v AND 0x240 = 0x240)"
  shows "\<exists>t page. rv_mojo_main clang D mc s =
      Some (t, [ConnectInternalFlash, FlashExitXip, FlashRangeErase 0x3FF000 4096 65536 0xD8,
        FlashRangeProgram 0x3FF000 page, FlashFlushCache, Reboot 2 100 0 0]) \<and>
    length page = 64 \<and> take 5 page = [0x42454E43, 2, 9, 3, if clang then 3 else 2] \<and>
    (\<forall>run<3. \<forall>i<9. page ! (2 * (run * 9 + i) + 6) = bench_checks ! i)"
  using rv_program_run [OF assms] by (simp add: rv_mojo_main_program LANG_def)

text \<open>Once the reset controller answers, the RP2350 program ends with the fixed sequence of
  boot ROM calls: one erase of the last 4 KiB sector, one program of a 256-byte page at its
  start, then the cache flush and the reboot. The page holds the header with the state "done"
  and the compiler's number, and every kernel's expected checksum in each of the three runs,
  so the whole result table fits the page.\<close>

theorem rv_mojo_main_commits:
  assumes "acks D 0x40023000 0x240 0x40020008 (\<lambda>v. v AND 0x240 = 0x240)"
  shows "\<exists>t page. rv_mojo_main clang D mc s =
      Some (t, [ConnectInternalFlash, FlashExitXip, FlashRangeErase 0x3FF000 4096 65536 0xD8,
        FlashRangeProgram 0x3FF000 page, FlashFlushCache, Reboot 2 100 0 0]) \<and>
    length page = 64 \<and> take 5 page = [0x42454E43, 2, 9, 3, if clang then 3 else 2] \<and>
    (\<forall>run<3. \<forall>i<9. page ! (2 * (run * 9 + i) + 6) = bench_checks ! i)"
  using assms by (rule rv_mojo_main_run)

theorem rv_mojo_main_commits_witness:
  "\<exists>t calls. rv_mojo_main True (const_device (\<lambda>_. 0x240)) (\<lambda>d. (d, d + 1)) \<lparr>ram = \<lambda>_. 0, dev = 0\<rparr> =
     Some (t, calls) \<and> hd calls = ConnectInternalFlash \<and> length calls = 6"
  using rv_mojo_main_commits [of "const_device (\<lambda>_. 0x240)" True "\<lambda>d. (d, d + 1)"
      "\<lparr>ram = \<lambda>_. 0, dev = 0\<rparr>"]
  by (auto simp: acks_const)

end
