(* ===== verification/BenchMojo.thy ===== *)
theory BenchMojo
  imports BenchRv Blink
begin

text \<open>
  The Mojo benchmark programs \<^verbatim>\<open>bench/bench.mojo\<close> and \<^verbatim>\<open>bench/bench_rp2350.mojo\<close>. They use the
  SDK for the board, the pin and the time, return the pair of a kernel instead of writing the
  checksum through a pointer, and report in nine written-out calls per run instead of a loop
  over a table. The kernel bodies of the two programs differ only in how they read the time, so
  the time read is a parameter \<open>tm\<close>; the inner loops are the definitions of the C kernels, whose
  text they repeat. The programs turn out to be the C programs.
\<close>

section \<open>The kernels\<close>

named_theorems mojo_defs \<open>the definitions of the Mojo kernels\<close>

definition mj_bm_gpio_toggle :: "chip \<Rightarrow> 'd device \<Rightarrow> 'd tm \<Rightarrow> 'd kernel" where [mojo_defs]:
  "mj_bm_gpio_toggle C D tm s =
     (let s = pin_init C D 15 s;
          s = make_output C D 15 s;
          (t0, s) = tm s;
          s = for_range 0 100000 (\<lambda>_ s. toggle C D 15 s) s;
          (t1, s) = tm s;
          dt = t1 - t0
      in ((dt, 0), s))"

definition mj_bm_xorshift :: "'d tm \<Rightarrow> 'd kernel" where [mojo_defs]:
  "mj_bm_xorshift tm s =
     (let (t0, s) = tm s; x = xorshift_loop 200000 0xDEADBEEF; (t1, s) = tm s; dt = t1 - t0
      in ((dt, x), s))"

definition mj_bm_div :: "'d tm \<Rightarrow> 'd kernel" where [mojo_defs]:
  "mj_bm_div tm s =
     (let (t0, s) = tm s; (acc, d) = div_loop 50000; (t1, s) = tm s; dt = t1 - t0
      in ((dt, acc), s))"

definition mj_bm_f32 :: "'d tm \<Rightarrow> 'd kernel" where [mojo_defs]:
  "mj_bm_f32 tm s =
     (let (t0, s) = tm s; (sum, a) = f32_loop 20000; (t1, s) = tm s; dt = t1 - t0
      in ((dt, if f32_gt sum F_1_0 then 1 else 0), s))"

definition mj_bm_call :: "'d tm \<Rightarrow> 'd kernel" where [mojo_defs]:
  "mj_bm_call tm s =
     (let (t0, s) = tm s; x = call_loop 100000; (t1, s) = tm s; dt = t1 - t0 in ((dt, x), s))"

definition mj_bm_crc32 :: "'d tm \<Rightarrow> 'd kernel" where [mojo_defs]:
  "mj_bm_crc32 tm s =
     (let (x, m) = fill_random CRC_BUF 1024 (0x12345678, ram s);
          s = s\<lparr>ram := m\<rparr>;
          (t0, s) = tm s; acc = crc_passes (ram s) CRC_BUF 1024; (t1, s) = tm s; dt = t1 - t0
      in ((dt, acc), s))"

definition mj_bm_sort :: "'d tm \<Rightarrow> 'd kernel" where
  "mj_bm_sort tm s =
     (let (t0, s) = tm s;
          (acc, m) = for_range 0 20 (\<lambda>rep (acc, m).
             let (x, m) = fill_random SORT_BUF 512 (0x00C0FFEE + of_nat rep, m);
                 m = qsort_u32 SORT_BUF 0 511 m
             in (acc + (m (idx SORT_BUF 0) XOR m (idx SORT_BUF 255) XOR m (idx SORT_BUF 511)), m)) (0, ram s);
          s = s\<lparr>ram := m\<rparr>;
          (t1, s) = tm s;
          dt = t1 - t0
      in ((dt, acc), s))"

definition mj_bm_mat16 :: "'d tm \<Rightarrow> 'd kernel" where [mojo_defs]:
  "mj_bm_mat16 tm s =
     (let (x, m) = fill_random MAT_A 256 (0x600D5EED, ram s);
          (x, m) = fill_random MAT_B 256 (x, m);
          s = s\<lparr>ram := m\<rparr>;
          (t0, s) = tm s;
          (acc, m) = mat_kernel MAT_A MAT_B MAT_C 50 (ram s);
          s = s\<lparr>ram := m\<rparr>;
          (t1, s) = tm s;
          dt = t1 - t0
      in ((dt, acc), s))"

definition mj_bm_fib :: "'d device \<Rightarrow> 'd tm \<Rightarrow> 'd kernel" where [mojo_defs]:
  "mj_bm_fib D tm s =
     (let (n, s) = rd D FIB_N s; (t0, s) = tm s; r = fib n; (t1, s) = tm s; dt = t1 - t0
      in ((dt, r), s))"

section \<open>The programs\<close>

text \<open>\<^verbatim>\<open>_report\<close>: the pair of a kernel that has run, at the place of run and index.\<close>

definition mj_report :: "'d device \<Rightarrow> u32 \<Rightarrow> u32 \<Rightarrow> u32 \<Rightarrow> (u32 \<times> u32) \<times> 'd mach \<Rightarrow> 'd mach" where
  "mj_report D off run ix = (\<lambda>(r, s).
     let base = MB + off + (run * of_nat COUNT + ix) * 8;
         s = wr D base (fst r) s
     in wr D (base + 4) (snd r) s)"

text \<open>The body of the loop over the runs, common to both programs.\<close>

definition mj_run :: "chip \<Rightarrow> 'd device \<Rightarrow> 'd tm \<Rightarrow> u32 \<Rightarrow> u32 \<Rightarrow> 'd mach \<Rightarrow> 'd mach" where
  "mj_run C D tm off r s =
     (let s = mj_report D off r 0 (mj_bm_gpio_toggle C D tm s);
          s = mj_report D off r 1 (mj_bm_xorshift tm s);
          s = mj_report D off r 2 (mj_bm_div tm s);
          s = mj_report D off r 3 (mj_bm_f32 tm s);
          s = mj_report D off r 4 (mj_bm_call tm s);
          s = mj_report D off r 5 (mj_bm_crc32 tm s);
          s = mj_report D off r 6 (mj_bm_sort tm s);
          s = mj_report D off r 7 (mj_bm_mat16 tm s)
      in mj_report D off r 8 (mj_bm_fib D tm s))"

definition mj_start :: "'d device \<Rightarrow> 'd mach \<Rightarrow> 'd mach option" where
  "mj_start D s = do {
     s \<leftarrow> pico_init RP2040 D s;
     let s = wr D (MB + 0x00) 0x42454E43 s;
     let s = wr D (MB + 0x04) 1 s;
     let s = wr D (MB + 0x08) (of_nat COUNT) s;
     let s = wr D (MB + 0x0C) (of_nat RUNS) s;
     let s = wr D FIB_N 24 s;
     let s = for_range 0 3 (\<lambda>run. mj_run RP2040 D (pico_time_us RP2040 D) 0x10 (of_nat run)) s;
     Some (wr D (MB + 0x04) 2 s)
   }"

definition mj_LANG :: u32 where "mj_LANG = 1"

definition mj_rv_start ::
  "'d device \<Rightarrow> ('d \<Rightarrow> u32 \<times> 'd) \<Rightarrow> 'd mach \<Rightarrow> ('d mach \<times> rom_call list) option" where
  "mj_rv_start D mc s = do {
     s \<leftarrow> pico_init RP2350 D s;
     let s = wr D (MB + 0x00) 0x42454E43 s;
     let s = wr D (MB + 0x04) 1 s;
     let s = wr D (MB + 0x08) (of_nat COUNT) s;
     let s = wr D (MB + 0x0C) (of_nat RUNS) s;
     let s = wr D (MB + 0x10) mj_LANG s;
     let s = wr D FIB_N 24 s;
     let s = for_range 0 3 (\<lambda>run. mj_run RP2350 D (read_mcycle mc) 0x14 (of_nat run)) s;
     let s = wr D (MB + 0x04) 2 s;
     Some (s, flash_commit_reboot MB_FLASH_OFF MB 256 0 s)
   }"

section \<open>The same kernels\<close>

lemma mj_pin:
  "pin_init RP2040 D 15 s = wr D 0x4001407C 5 s" "make_output RP2040 D 15 s = wr D 0xD0000024 (push_bit 15 1) s"
  "toggle RP2040 D 15 s = wr D 0xD000001C (push_bit 15 1) s"
  "pin_init RP2350 D 15 s = wr D 0x4002807C 5 s"
  "make_output RP2350 D 15 s = wr D 0x4003B040 (push_bit 8 1) (wr D 0xD0000038 (push_bit 15 1) s)"
  "toggle RP2350 D 15 s = wr D 0xD0000028 (push_bit 15 1) s"
  by (simp_all add: pin_init_def make_output_def toggle_def pin_ctrl_def pin_pad_def pin_mask_def
      RP2040_def RP2350_def rp2040_map write32_clr_def CLR_ALIAS_def)

lemma mj_time: "pico_time_us RP2040 D = time_us D"
  by (simp add: fun_eq_iff pico_time_us_def time_us_def RP2040_def)

lemma mj_sort_rep:
  "(\<lambda>rep (acc, m).
     let (x, m) = fill_random SORT_BUF 512 (0x00C0FFEE + of_nat rep, m);
         m = qsort_u32 SORT_BUF 0 511 m
     in (acc + (m (idx SORT_BUF 0) XOR m (idx SORT_BUF 255) XOR m (idx SORT_BUF 511)), m)) = sort_rep"
  by (simp add: fun_eq_iff sort_rep_def Let_def split_beta)

lemma mj_kernels:
  "mj_bm_gpio_toggle RP2040 D (time_us D) = bm_gpio_toggle D"
  "mj_bm_xorshift (time_us D) = bm_xorshift D" "mj_bm_div (time_us D) = bm_div D"
  "mj_bm_f32 (time_us D) = bm_f32 D" "mj_bm_call (time_us D) = bm_call D"
  "mj_bm_crc32 (time_us D) = bm_crc32 D" "mj_bm_sort (time_us D) = bm_sort D"
  "mj_bm_mat16 (time_us D) = bm_mat16 D" "mj_bm_fib D (time_us D) = bm_fib D"
  "mj_bm_gpio_toggle RP2350 D (read_mcycle mc) = rv_bm_gpio_toggle D mc"
  "mj_bm_xorshift (read_mcycle mc) = rv_bm_xorshift mc" "mj_bm_div (read_mcycle mc) = rv_bm_div mc"
  "mj_bm_f32 (read_mcycle mc) = rv_bm_f32 mc" "mj_bm_call (read_mcycle mc) = rv_bm_call mc"
  "mj_bm_crc32 (read_mcycle mc) = rv_bm_crc32 mc" "mj_bm_sort (read_mcycle mc) = rv_bm_sort mc"
  "mj_bm_mat16 (read_mcycle mc) = rv_bm_mat16 mc" "mj_bm_fib D (read_mcycle mc) = rv_bm_fib D mc"
  by (simp_all add: fun_eq_iff mojo_defs kernel_defs mj_pin mj_bm_sort_def [unfolded mj_sort_rep]
      f32_check_def Let_def split_beta)

lemma mj_report:
  "mj_report D off (of_nat run) (of_nat i) ((bms ! i) s) = bench_one D off bms run i s"
  by (simp add: mj_report_def bench_one_def Let_def split_beta)

lemma for_range_nine:
  "for_range 0 9 f s = f 8 (f 7 (f 6 (f 5 (f 4 (f 3 (f 2 (f 1 (f 0 s))))))))"
proof -
  have "[0..<9] = [0, 1, 2, 3, 4, 5, 6, 7, 8 :: nat]" by code_simp
  then show ?thesis by (simp add: for_range_def)
qed

text \<open>Nine reports are one round of the C program's loop over the table.\<close>

lemma mj_run_table:
  assumes "bms = [mj_bm_gpio_toggle C D tm, mj_bm_xorshift tm, mj_bm_div tm, mj_bm_f32 tm, mj_bm_call tm,
    mj_bm_crc32 tm, mj_bm_sort tm, mj_bm_mat16 tm, mj_bm_fib D tm]"
  shows "mj_run C D tm off (of_nat run) = for_range 0 COUNT (\<lambda>i. bench_one D off bms run i)"
proof -
  have "bms ! 0 = mj_bm_gpio_toggle C D tm" "bms ! 1 = mj_bm_xorshift tm" "bms ! 2 = mj_bm_div tm"
    "bms ! 3 = mj_bm_f32 tm" "bms ! 4 = mj_bm_call tm" "bms ! 5 = mj_bm_crc32 tm"
    "bms ! 6 = mj_bm_sort tm" "bms ! 7 = mj_bm_mat16 tm" "bms ! 8 = mj_bm_fib D tm"
    by (simp_all add: assms)
  note nth = this
  show ?thesis
    unfolding COUNT_def for_range_nine fun_eq_iff mj_report [symmetric] nth
    by (simp add: mj_run_def Let_def)
qed

lemma mj_loop:
  "for_range 0 3 (\<lambda>run. mj_run RP2040 D (time_us D) off (of_nat run)) s = bench_loop D off (BMS D) s"
  "for_range 0 3 (\<lambda>run. mj_run RP2350 D (read_mcycle mc) off (of_nat run)) s = bench_loop D off (rv_BMS D mc) s"
proof -
  have "BMS D = [mj_bm_gpio_toggle RP2040 D (time_us D), mj_bm_xorshift (time_us D), mj_bm_div (time_us D),
      mj_bm_f32 (time_us D), mj_bm_call (time_us D), mj_bm_crc32 (time_us D), mj_bm_sort (time_us D),
      mj_bm_mat16 (time_us D), mj_bm_fib D (time_us D)]"
    by (simp add: BMS_def mj_kernels)
  then show "for_range 0 3 (\<lambda>run. mj_run RP2040 D (time_us D) off (of_nat run)) s = bench_loop D off (BMS D) s"
    by (simp add: bench_loop_def RUNS_def mj_run_table)
  have "rv_BMS D mc = [mj_bm_gpio_toggle RP2350 D (read_mcycle mc), mj_bm_xorshift (read_mcycle mc),
      mj_bm_div (read_mcycle mc), mj_bm_f32 (read_mcycle mc), mj_bm_call (read_mcycle mc),
      mj_bm_crc32 (read_mcycle mc), mj_bm_sort (read_mcycle mc), mj_bm_mat16 (read_mcycle mc),
      mj_bm_fib D (read_mcycle mc)]"
    by (simp add: rv_BMS_def mj_kernels)
  then show "for_range 0 3 (\<lambda>run. mj_run RP2350 D (read_mcycle mc) off (of_nat run)) s =
      bench_loop D off (rv_BMS D mc) s"
    by (simp add: bench_loop_def RUNS_def mj_run_table)
qed

section \<open>The same programs\<close>

lemma mj_init: "pico_init RP2040 D = board_init D" "pico_init RP2350 D = rv_board_init D"
  by (simp_all add: fun_eq_iff init_defs Let_def RP2040_def RP2350_def rp2040_map CLR_ALIAS_def)

lemma mj_programs: "mj_start D s = mojo_main D s" "mj_rv_start D mc s = rv_program 1 D mc s"
  by (simp_all add: mj_start_def mojo_main_def mj_rv_start_def rv_program_def mj_init mj_time mj_loop
      mj_LANG_def Let_def)

end
