(* ===== verification/BenchRust.thy ===== *)
theory BenchRust
  imports BenchMojo
begin

text \<open>
  \<^verbatim>\<open>bench/bench.rs\<close> and \<^verbatim>\<open>bench/bench_rp2350.rs\<close>, the Rust mirrors of the C programs. In Rust an
  addition, subtraction or multiplication that overflows, a shift by too much and a division by
  zero may panic, and the panic handler loops for ever; only the \<^verbatim>\<open>wrapping_\<close> methods wrap. The
  model checks every plain operator and is \<open>None\<close> when one overflows. The theorem is that none
  does, and that the programs are the C programs. The kernel bodies of the two files are the
  same but for the pin and the time read, which is a parameter \<open>tm\<close>.
\<close>

section \<open>Checked operators\<close>

definition chk_add :: "u32 \<Rightarrow> u32 \<Rightarrow> u32 option" where
  "chk_add x y = (if unat x + unat y < 2 ^ 32 then Some (x + y) else None)"

definition chk_sub :: "u32 \<Rightarrow> u32 \<Rightarrow> u32 option" where
  "chk_sub x y = (if y \<le> x then Some (x - y) else None)"

definition chk_mul :: "u32 \<Rightarrow> u32 \<Rightarrow> u32 option" where
  "chk_mul x y = (if unat x * unat y < 2 ^ 32 then Some (x * y) else None)"

definition chk_div :: "u32 \<Rightarrow> u32 \<Rightarrow> u32 option" where
  "chk_div x y = (if y = 0 then None else Some (x div y))"

definition chk_shr :: "u32 \<Rightarrow> u32 \<Rightarrow> u32 option" where
  "chk_shr x n = (if n < 32 then Some (drop_bit (unat n) x) else None)"

text \<open>A value of type \<^verbatim>\<open>i32\<close>.\<close>

definition chk_i32 :: "int \<Rightarrow> int option" where
  "chk_i32 i = (if - (2 ^ 31) \<le> i \<and> i < 2 ^ 31 then Some i else None)"

text \<open>\<^verbatim>\<open>for i in a..b\<close> with a body that may panic.\<close>

definition for_opt :: "nat \<Rightarrow> nat \<Rightarrow> (nat \<Rightarrow> 's \<Rightarrow> 's option) \<Rightarrow> 's \<Rightarrow> 's option" where
  "for_opt a b f s = fold (\<lambda>i r. Option.bind r (f i)) [a..<b] (Some s)"

section \<open>The program\<close>

definition rs_board_init :: "'d device \<Rightarrow> 'd mach \<Rightarrow> 'd mach option" where
  "rs_board_init D s = do {
     let s = wr D 0x4002400C 47 s;
     let s = wr D 0x40024000 (push_bit 12 0xFAB OR 0xAA0) s;
     s \<leftarrow> poll D 0x40024004 (\<lambda>v. \<not> v AND 0x80000000 = 0) s;
     let s = wr D 0x40008030 2 s;
     s \<leftarrow> poll D 0x40008038 (\<lambda>v. v = push_bit 2 1) s;
     let s = wr D 0x4000803C 0 s;
     s \<leftarrow> poll D 0x40008044 (\<lambda>v. v = 1) s;
     let s = wr D (0x4000C000 + 0x3000) (push_bit 5 1 OR push_bit 8 1 OR push_bit 21 1) s;
     let msk = push_bit 5 1 OR push_bit 8 1 OR push_bit 21 1;
     s \<leftarrow> poll D 0x4000C008 (\<lambda>v. v AND msk = msk) s;
     Some (wr D 0x4005802C (push_bit 9 1 OR 12) s)
   }"

definition rs_time_us :: "'d device \<Rightarrow> 'd mach \<Rightarrow> u32 \<times> 'd mach" where
  "rs_time_us D s = rd D 0x40054028 s"

definition rs_step :: "u32 \<Rightarrow> u32" where
  "rs_step x =
     (let x = x XOR push_bit 13 x; x = x XOR drop_bit 17 x in x XOR push_bit 5 x)"

type_synonym 'd rs_kernel = "'d mach \<Rightarrow> ((u32 \<times> u32) \<times> 'd mach) option"

definition rs_bm_gpio_toggle :: "'d device \<Rightarrow> 'd rs_kernel" where
  "rs_bm_gpio_toggle D s = do {
     let s = wr D 0x4001407C 5 s;
     let s = wr D 0xD0000024 (push_bit 15 1) s;
     let (t0, s) = rs_time_us D s;
     s \<leftarrow> for_opt 0 100000 (\<lambda>_ s. Some (wr D 0xD000001C (push_bit 15 1) s)) s;
     let (t1, s) = rs_time_us D s;
     Some ((t1 - t0, 0), s)
   }"

definition rs_rv_bm_gpio_toggle :: "'d device \<Rightarrow> ('d \<Rightarrow> u32 \<times> 'd) \<Rightarrow> 'd rs_kernel" where
  "rs_rv_bm_gpio_toggle D mc s = do {
     let s = wr D 0x4002807C 5 s;
     let s = wr D 0xD0000038 (push_bit 15 1) s;
     let s = wr D 0x4003B040 (push_bit 8 1) s;
     let (t0, s) = read_mcycle mc s;
     s \<leftarrow> for_opt 0 100000 (\<lambda>_ s. Some (wr D 0xD0000028 (push_bit 15 1) s)) s;
     let (t1, s) = read_mcycle mc s;
     Some ((t1 - t0, 0), s)
   }"

definition rs_bm_xorshift :: "'d tm \<Rightarrow> 'd rs_kernel" where
  "rs_bm_xorshift tm s = do {
     let (t0, s) = tm s;
     x \<leftarrow> for_opt 0 200000 (\<lambda>_ x. Some (rs_step x)) 0xDEADBEEF;
     let (t1, s) = tm s;
     Some ((t1 - t0, x), s)
   }"

definition rs_div_round :: "nat \<Rightarrow> u32 \<times> u32 \<Rightarrow> (u32 \<times> u32) option" where
  "rs_div_round i = (\<lambda>(acc, d). do { q \<leftarrow> chk_div 1000000 d; Some (acc + q, (d + of_nat i) OR 1) })"

definition rs_bm_div :: "'d tm \<Rightarrow> 'd rs_kernel" where
  "rs_bm_div tm s = do {
     let (t0, s) = tm s;
     (acc, d) \<leftarrow> for_opt 0 50000 rs_div_round (0, 1);
     let (t1, s) = tm s;
     Some ((t1 - t0, acc), s)
   }"

definition rs_f32_round :: "nat \<Rightarrow> f32 \<times> f32 \<Rightarrow> (f32 \<times> f32) option" where
  "rs_f32_round i = (\<lambda>(sum, a).
     let sum = f32_add sum (f32_mul a F_1_000119); a = f32_add (f32_mul sum F_0_5) a in Some (sum, a))"

definition rs_bm_f32 :: "'d tm \<Rightarrow> 'd rs_kernel" where
  "rs_bm_f32 tm s = do {
     let (t0, s) = tm s;
     (sum, a) \<leftarrow> for_opt 0 20000 rs_f32_round (F_0_0, F_1_5);
     let (t1, s) = tm s;
     Some ((t1 - t0, if f32_gt sum F_1_0 then 1 else 0), s)
   }"

definition rs_add_one :: "u32 \<Rightarrow> u32 option" where
  "rs_add_one x = chk_add x 1"

definition rs_bm_call :: "'d tm \<Rightarrow> 'd rs_kernel" where
  "rs_bm_call tm s = do {
     let (t0, s) = tm s;
     x \<leftarrow> for_opt 0 100000 (\<lambda>_ x. rs_add_one x) 0;
     let (t1, s) = tm s;
     Some ((t1 - t0, x), s)
   }"

text \<open>\<^verbatim>\<open>x = step(x); *buf.add(i) = x\<close>\<close>

definition rs_fill :: "u32 \<Rightarrow> nat \<Rightarrow> u32 \<times> mem \<Rightarrow> (u32 \<times> mem) option" where
  "rs_fill buf i = (\<lambda>(x, m). let x = rs_step x in Some (x, mem_put m (idx buf i) x))"

definition rs_crc_byte :: "u32 \<Rightarrow> nat \<Rightarrow> u32 \<Rightarrow> u32 option" where
  "rs_crc_byte w b crc = do {
     sh \<leftarrow> chk_mul 8 (of_nat b);
     v \<leftarrow> chk_shr w sh;
     for_opt 0 8 (\<lambda>_ crc. Some (drop_bit 1 crc XOR (0xEDB88320 AND (0 - (crc AND 1)))))
       (crc XOR (v AND 0xFF))
   }"

definition rs_crc_pass :: "mem \<Rightarrow> nat \<Rightarrow> u32 \<Rightarrow> u32 option" where
  "rs_crc_pass m k acc = do {
     crc \<leftarrow> for_opt 0 1024 (\<lambda>i crc. for_opt 0 4 (rs_crc_byte (m (idx CRC_BUF i))) crc)
       (0xFFFFFFFF XOR of_nat k);
     Some (acc XOR NOT crc)
   }"

definition rs_bm_crc32 :: "'d tm \<Rightarrow> 'd rs_kernel" where
  "rs_bm_crc32 tm s = do {
     (x, m) \<leftarrow> for_opt 0 1024 (rs_fill CRC_BUF) (0x12345678, ram s);
     let s = s\<lparr>ram := m\<rparr>;
     let (t0, s) = tm s;
     acc \<leftarrow> for_opt 0 4 (rs_crc_pass (ram s)) 0;
     let (t1, s) = tm s;
     Some ((t1 - t0, acc), s)
   }"

text \<open>The partition loop of \<^verbatim>\<open>qsort_u32\<close>; its counter \<^verbatim>\<open>i\<close> is an \<^verbatim>\<open>i32\<close>.\<close>

partial_function (option) rs_part_loop ::
  "u32 \<Rightarrow> u32 \<Rightarrow> int \<Rightarrow> int \<Rightarrow> int \<Rightarrow> mem \<Rightarrow> (int \<times> mem) option" where
  "rs_part_loop a p hi i j m =
     (if j < hi
      then if m (at a j) < p
           then Option.bind (chk_i32 (i + 1)) (\<lambda>i'.
             let t = m (at a i);
                 m = mem_put m (at a i) (m (at a j));
                 m = mem_put m (at a j) t
             in rs_part_loop a p hi i' (j + 1) m)
           else rs_part_loop a p hi i (j + 1) m
      else Some (i, m))"

partial_function (option) rs_qsort :: "u32 \<Rightarrow> int \<Rightarrow> int \<Rightarrow> mem \<Rightarrow> mem option" where
  "rs_qsort a lo hi m =
     (if lo \<ge> hi then Some m
      else Option.bind (rs_part_loop a (m (at a hi)) hi lo lo m) (\<lambda>(i, m).
        let t = m (at a i);
            m = mem_put m (at a i) (m (at a hi));
            m = mem_put m (at a hi) t
        in Option.bind (chk_i32 (i - 1)) (\<lambda>l.
           Option.bind (rs_qsort a lo l m) (\<lambda>m.
           Option.bind (chk_i32 (i + 1)) (\<lambda>r. rs_qsort a r hi m)))))"

definition rs_sort_rep :: "nat \<Rightarrow> u32 \<times> mem \<Rightarrow> (u32 \<times> mem) option" where
  "rs_sort_rep rep = (\<lambda>(acc, m). do {
     x \<leftarrow> chk_add 0x00C0FFEE (of_nat rep);
     (x, m) \<leftarrow> for_opt 0 512 (rs_fill SORT_BUF) (x, m);
     m \<leftarrow> rs_qsort SORT_BUF 0 511 m;
     Some (acc + (m (idx SORT_BUF 0) XOR m (idx SORT_BUF 255) XOR m (idx SORT_BUF 511)), m)
   })"

definition rs_bm_sort :: "'d tm \<Rightarrow> 'd rs_kernel" where
  "rs_bm_sort tm s = do {
     let (t0, s) = tm s;
     (acc, m) \<leftarrow> for_opt 0 20 rs_sort_rep (0, ram s);
     let s = s\<lparr>ram := m\<rparr>;
     let (t1, s) = tm s;
     Some ((t1 - t0, acc), s)
   }"

text \<open>\<^verbatim>\<open>i * 16 + k\<close> of type \<^verbatim>\<open>usize\<close>, which has 32 bits on the target.\<close>

definition rs_index :: "nat \<Rightarrow> nat \<Rightarrow> nat option" where
  "rs_index i k = (if i * 16 + k < 2 ^ 32 then Some (i * 16 + k) else None)"

definition rs_mat_dot :: "mem \<Rightarrow> nat \<Rightarrow> nat \<Rightarrow> u32 option" where
  "rs_mat_dot m i j = for_opt 0 16 (\<lambda>k s. do {
     x \<leftarrow> rs_index i k;
     y \<leftarrow> rs_index k j;
     Some (s + m (idx MAT_A x) * m (idx MAT_B y))
   }) 0"

definition rs_mat_rep :: "nat \<Rightarrow> u32 \<times> mem \<Rightarrow> (u32 \<times> mem) option" where
  "rs_mat_rep rep = (\<lambda>(acc, m). do {
     m \<leftarrow> for_opt 0 16 (\<lambda>i. for_opt 0 16 (\<lambda>j m. do {
            s \<leftarrow> rs_mat_dot m i j;
            c \<leftarrow> rs_index i j;
            Some (mem_put m (idx MAT_C c) s)
          })) m;
     let m = mem_put m (idx MAT_A rep) (m (idx MAT_A rep) XOR m (idx MAT_C rep));
     Some (acc XOR (m (idx MAT_C 0) + m (idx MAT_C 255)), m)
   })"

definition rs_bm_mat16 :: "'d tm \<Rightarrow> 'd rs_kernel" where
  "rs_bm_mat16 tm s = do {
     (x, m) \<leftarrow> for_opt 0 256 (rs_fill MAT_A) (0x600D5EED, ram s);
     (x, m) \<leftarrow> for_opt 0 256 (rs_fill MAT_B) (x, m);
     let s = s\<lparr>ram := m\<rparr>;
     let (t0, s) = tm s;
     (acc, m) \<leftarrow> for_opt 0 50 rs_mat_rep (0, ram s);
     let s = s\<lparr>ram := m\<rparr>;
     let (t1, s) = tm s;
     Some ((t1 - t0, acc), s)
   }"

partial_function (option) rs_fib :: "u32 \<Rightarrow> u32 option" where
  "rs_fib n =
     (if n < 2 then Some n
      else Option.bind (chk_sub n 1) (\<lambda>a. Option.bind (rs_fib a) (\<lambda>x.
           Option.bind (chk_sub n 2) (\<lambda>b. Option.bind (rs_fib b) (\<lambda>y. Some (x + y))))))"

definition rs_bm_fib :: "'d device \<Rightarrow> 'd tm \<Rightarrow> 'd rs_kernel" where
  "rs_bm_fib D tm s = do {
     let (n, s) = rd D FIB_N s;
     let (t0, s) = tm s;
     r \<leftarrow> rs_fib n;
     let (t1, s) = tm s;
     Some ((t1 - t0, r), s)
   }"

definition rs_BMS :: "'d device \<Rightarrow> 'd rs_kernel list" where
  "rs_BMS D = [rs_bm_gpio_toggle D, rs_bm_xorshift (rs_time_us D), rs_bm_div (rs_time_us D),
     rs_bm_f32 (rs_time_us D), rs_bm_call (rs_time_us D), rs_bm_crc32 (rs_time_us D),
     rs_bm_sort (rs_time_us D), rs_bm_mat16 (rs_time_us D), rs_bm_fib D (rs_time_us D)]"

text \<open>The body of the inner loop; the results start at the offset \<open>off\<close> of the mailbox.\<close>

definition rs_bench_one ::
  "'d device \<Rightarrow> u32 \<Rightarrow> 'd rs_kernel list \<Rightarrow> nat \<Rightarrow> nat \<Rightarrow> 'd mach \<Rightarrow> 'd mach option" where
  "rs_bench_one D off bms run i s = do {
     ((us, ck), s) \<leftarrow> (bms ! i) s;
     r \<leftarrow> chk_mul (of_nat run) (of_nat COUNT);
     k \<leftarrow> chk_add r (of_nat i);
     o8 \<leftarrow> chk_mul k 8;
     b \<leftarrow> chk_add MB off;
     base \<leftarrow> chk_add b o8;
     let s = wr D base us s;
     base4 \<leftarrow> chk_add base 4;
     Some (wr D base4 ck s)
   }"

definition rs_mojo_main :: "'d device \<Rightarrow> 'd mach \<Rightarrow> 'd mach option" where
  "rs_mojo_main D s = do {
     s \<leftarrow> rs_board_init D s;
     let s = wr D MB 0x42454E43 s;
     a \<leftarrow> chk_add MB 0x04;
     let s = wr D a 1 s;
     a \<leftarrow> chk_add MB 0x08;
     let s = wr D a (of_nat COUNT) s;
     a \<leftarrow> chk_add MB 0x0C;
     let s = wr D a (of_nat RUNS) s;
     let s = wr D FIB_N 24 s;
     s \<leftarrow> for_opt 0 RUNS (\<lambda>run. for_opt 0 COUNT (rs_bench_one D 0x10 (rs_BMS D) run)) s;
     a \<leftarrow> chk_add MB 0x04;
     Some (wr D a 2 s)
   }"

text \<open>The program for the RP2350.\<close>

definition rs_rv_board_init :: "'d device \<Rightarrow> 'd mach \<Rightarrow> 'd mach option" where
  "rs_rv_board_init D s = do {
     let msk = push_bit 6 1 OR push_bit 9 1;
     let s = wr D (0x40020000 + 0x3000) msk s;
     poll D 0x40020008 (\<lambda>v. v AND msk = msk) s
   }"

definition rs_LANG :: u32 where "rs_LANG = 4"

definition rs_rv_BMS :: "'d device \<Rightarrow> ('d \<Rightarrow> u32 \<times> 'd) \<Rightarrow> 'd rs_kernel list" where
  "rs_rv_BMS D mc = [rs_rv_bm_gpio_toggle D mc, rs_bm_xorshift (read_mcycle mc), rs_bm_div (read_mcycle mc),
     rs_bm_f32 (read_mcycle mc), rs_bm_call (read_mcycle mc), rs_bm_crc32 (read_mcycle mc),
     rs_bm_sort (read_mcycle mc), rs_bm_mat16 (read_mcycle mc), rs_bm_fib D (read_mcycle mc)]"

definition rs_rv_mojo_main ::
  "'d device \<Rightarrow> ('d \<Rightarrow> u32 \<times> 'd) \<Rightarrow> 'd mach \<Rightarrow> ('d mach \<times> rom_call list) option" where
  "rs_rv_mojo_main D mc s = do {
     s \<leftarrow> rs_rv_board_init D s;
     let s = wr D MB 0x42454E43 s;
     a \<leftarrow> chk_add MB 0x04;
     let s = wr D a 1 s;
     a \<leftarrow> chk_add MB 0x08;
     let s = wr D a (of_nat COUNT) s;
     a \<leftarrow> chk_add MB 0x0C;
     let s = wr D a (of_nat RUNS) s;
     a \<leftarrow> chk_add MB 0x10;
     let s = wr D a rs_LANG s;
     let s = wr D FIB_N 24 s;
     s \<leftarrow> for_opt 0 RUNS (\<lambda>run. for_opt 0 COUNT (rs_bench_one D 0x14 (rs_rv_BMS D mc) run)) s;
     a \<leftarrow> chk_add MB 0x04;
     let s = wr D a 2 s;
     Some (s, flash_commit_reboot MB_FLASH_OFF MB 256 0 s)
   }"

section \<open>Loops that do not panic\<close>

lemma for_opt_Suc: "a \<le> b \<Longrightarrow> for_opt a (Suc b) f s = Option.bind (for_opt a b f s) (f b)"
  by (simp add: for_opt_def)

lemma for_opt_inv:
  assumes "P 0 s" and "\<And>i t. i < b \<Longrightarrow> P i t \<Longrightarrow> f i t = Some (g i t) \<and> P (Suc i) (g i t)"
  shows "for_opt 0 b f s = Some (for_range 0 b g s)"
proof -
  have "c \<le> b \<Longrightarrow> for_opt 0 c f s = Some (for_range 0 c g s) \<and> P c (for_range 0 c g s)" for c
  proof (induction c)
    case 0
    then show ?case using assms(1) by (simp add: for_opt_def)
  next
    case (Suc c)
    then show ?case using assms(2) by (simp add: for_opt_Suc for_range_Suc)
  qed
  then show ?thesis by simp
qed

lemma for_opt_total:
  "(\<And>i t. i < b \<Longrightarrow> f i t = Some (g i t)) \<Longrightarrow> for_opt 0 b f s = Some (for_range 0 b g s)"
  by (rule for_opt_inv [where P = "\<lambda>_ _. True"]) simp_all

section \<open>The kernels do not panic\<close>

lemma rs_step: "rs_step = step"
  by (simp add: rs_step_def step_def fun_eq_iff)

lemma rs_time: "rs_time_us = time_us"
  by (simp add: fun_eq_iff rs_time_us_def time_us_def)

lemma rs_fill: "for_opt 0 n (rs_fill buf) s = Some (fill_random buf n s)"
  unfolding fill_random_def
  by (rule for_opt_total) (simp add: rs_fill_def rs_step split_beta Let_def)

lemma rs_toggle: "rs_bm_gpio_toggle D s = Some (bm_gpio_toggle D s)"
proof -
  have "for_opt 0 100000 (\<lambda>_ s. Some (wr D 0xD000001C (push_bit 15 1) s)) t =
      Some (for_range 0 100000 (\<lambda>_ s. wr D 0xD000001C (push_bit 15 1) s) t)" for t
    by (rule for_opt_total) simp
  then show ?thesis
    by (simp add: rs_bm_gpio_toggle_def bm_gpio_toggle_def Let_def split_beta rs_time)
qed

lemma rs_rv_toggle: "rs_rv_bm_gpio_toggle D mc s = Some (rv_bm_gpio_toggle D mc s)"
proof -
  have "for_opt 0 100000 (\<lambda>_ s. Some (wr D 0xD0000028 (push_bit 15 1) s)) t =
      Some (for_range 0 100000 (\<lambda>_ s. wr D 0xD0000028 (push_bit 15 1) s) t)" for t
    by (rule for_opt_total) simp
  then show ?thesis
    by (simp add: rs_rv_bm_gpio_toggle_def rv_bm_gpio_toggle_def Let_def split_beta)
qed

lemma rs_xorshift: "rs_bm_xorshift tm s = Some (mj_bm_xorshift tm s)"
proof -
  have "for_opt 0 200000 (\<lambda>_ x. Some (rs_step x)) x = Some (xorshift_loop 200000 x)" for x
    unfolding xorshift_loop_def by (rule for_opt_total) (simp add: rs_step)
  then show ?thesis
    by (simp add: rs_bm_xorshift_def mj_bm_xorshift_def Let_def split_beta)
qed

text \<open>The divisor is odd, so it is never zero.\<close>

lemma or_one_nonzero: "x OR 1 \<noteq> (0 :: u32)"
proof
  assume "x OR 1 = 0"
  then have "unat (x OR 1) = 0" by simp
  then show False by (simp add: unat_or_1 split: if_splits)
qed

lemma rs_division: "rs_bm_div tm s = Some (mj_bm_div tm s)"
proof -
  have "for_opt 0 50000 rs_div_round (0, 1) = Some (div_loop 50000)"
    unfolding div_loop_def
    by (rule for_opt_inv [where P = "\<lambda>_ t. snd t \<noteq> 0"])
       (auto simp: rs_div_round_def div_round_def chk_div_def or_one_nonzero split_beta)
  then show ?thesis
    by (simp add: rs_bm_div_def mj_bm_div_def Let_def split_beta)
qed

lemma rs_float: "rs_bm_f32 tm s = Some (mj_bm_f32 tm s)"
proof -
  have "for_opt 0 20000 rs_f32_round (F_0_0, F_1_5) = Some (f32_loop 20000)"
    unfolding f32_loop_def
    by (rule for_opt_total) (simp add: rs_f32_round_def f32_step_def split_beta Let_def)
  then show ?thesis
    by (simp add: rs_bm_f32_def mj_bm_f32_def Let_def split_beta)
qed

text \<open>The counter stays far below the word size.\<close>

lemma rs_call: "rs_bm_call tm s = Some (mj_bm_call tm s)"
proof -
  have "for_opt 0 100000 (\<lambda>_ x. rs_add_one x) 0 = Some (call_loop 100000)"
    unfolding call_loop_def
    by (rule for_opt_inv [where P = "\<lambda>i x. x = of_nat i"])
       (auto simp: rs_add_one_def add_one_def chk_add_def unat_of_nat)
  then show ?thesis
    by (simp add: rs_bm_call_def mj_bm_call_def Let_def split_beta)
qed

lemma rs_crc_byte: "b < 4 \<Longrightarrow> rs_crc_byte w b crc = Some (crc_byte w b crc)"
proof -
  assume b: "b < 4"
  then have "unat (of_nat b :: u32) = b" by (simp add: unat_of_nat)
  then have "chk_mul 8 (of_nat b) = Some (8 * of_nat b)" "unat (8 * of_nat b :: u32) = 8 * b"
    using b by (simp_all add: chk_mul_def unat_word_ariths)
  moreover from this have "(8 * of_nat b :: u32) < 32" using b by (simp add: word_less_nat_alt)
  moreover have "for_opt 0 8 (\<lambda>_ crc. Some (drop_bit 1 crc XOR (0xEDB88320 AND (0 - (crc AND 1))))) c =
      Some (for_range 0 8 (\<lambda>_. crc_round) c)" for c
    by (rule for_opt_total) (simp add: crc_round_def crc_poly_def)
  ultimately show ?thesis by (simp add: rs_crc_byte_def crc_byte_def chk_shr_def)
qed

lemma rs_crc: "rs_bm_crc32 tm s = Some (mj_bm_crc32 tm s)"
proof -
  have w: "for_opt 0 4 (rs_crc_byte w) crc = Some (crc_word w crc)" for w crc
    unfolding crc_word_def by (rule for_opt_total) (simp add: rs_crc_byte)
  have "rs_crc_pass m k acc = Some (acc XOR NOT (crc_pass m CRC_BUF 1024 (0xFFFFFFFF XOR of_nat k)))" for m k acc
  proof -
    have "for_opt 0 1024 (\<lambda>i crc. for_opt 0 4 (rs_crc_byte (m (idx CRC_BUF i))) crc) c =
        Some (crc_pass m CRC_BUF 1024 c)" for c
      unfolding crc_pass_def by (rule for_opt_total) (rule w)
    then show ?thesis by (simp add: rs_crc_pass_def)
  qed
  then have "for_opt 0 4 (rs_crc_pass m) 0 = Some (crc_passes m CRC_BUF 1024)" for m
    unfolding crc_passes_def by (intro for_opt_total)
  then show ?thesis
    by (simp add: rs_bm_crc32_def mj_bm_crc32_def rs_fill Let_def split_beta)
qed

text \<open>Indices between \<^verbatim>\<open>-2^31 + 1\<close> and \<^verbatim>\<open>2^31 - 2\<close> leave room for both neighbours.\<close>

lemma rs_part_loop:
  "i \<le> j \<Longrightarrow> - (2 ^ 31) < i \<Longrightarrow> hi < 2 ^ 31 - 1 \<Longrightarrow>
     rs_part_loop a p hi i j m = Some (part_loop a p hi i j m)"
proof (induction a p hi i j m rule: part_loop.induct)
  case (1 a p hi i j m)
  show ?case
  proof (cases "j < hi")
    case False
    then show ?thesis by (simp add: rs_part_loop.simps part_loop.simps [of a p hi i j m])
  next
    case True
    then have "chk_i32 (i + 1) = Some (i + 1)" using 1(3-5) by (simp add: chk_i32_def)
    moreover have "(let t = m (at a i); m = mem_put m (at a i) (m (at a j)) in mem_put m (at a j) t) = swap a i j m"
      by (simp add: swap_def)
    ultimately show ?thesis
      using True 1 by (subst rs_part_loop.simps, subst part_loop.simps) (simp add: Let_def)
  qed
qed

lemma rs_qsort:
  "- (2 ^ 31) < lo \<Longrightarrow> hi < 2 ^ 31 - 1 \<Longrightarrow> rs_qsort a lo hi m = Some (qsort_u32 a lo hi m)"
proof (induction a lo hi m rule: qsort_u32.induct)
  case (1 a lo hi m)
  show ?case
  proof (cases "lo \<ge> hi")
    case True
    then show ?thesis by (simp add: rs_qsort.simps qsort_u32.simps [of a lo hi m])
  next
    case False
    obtain i m1 where part: "part_loop a (m (at a hi)) hi lo lo m = (i, m1)" by fastforce
    then have i: "lo \<le> i" "i \<le> hi"
      using part_loop_bounds [of lo lo hi a "m (at a hi)" m] False by simp_all
    have rs: "rs_part_loop a (m (at a hi)) hi lo lo m = Some (i, m1)"
      using rs_part_loop [of lo lo hi] 1(3,4) by (simp add: part)
    have chk: "chk_i32 (i - 1) = Some (i - 1)" "chk_i32 (i + 1) = Some (i + 1)"
      using i 1(3,4) by (simp_all add: chk_i32_def)
    have l: "rs_qsort a lo (i - 1) (swap a i hi m1) = Some (qsort_u32 a lo (i - 1) (swap a i hi m1))"
      using 1(1) [OF False part [symmetric]] 1(3,4) i by simp
    have r: "rs_qsort a (i + 1) hi (qsort_u32 a lo (i - 1) (swap a i hi m1)) =
        Some (qsort_u32 a (i + 1) hi (qsort_u32 a lo (i - 1) (swap a i hi m1)))"
      using 1(2) [OF False part [symmetric]] 1(3,4) i by simp
    have "mem_put (mem_put m1 (at a i) (m1 (at a hi))) (at a hi) (m1 (at a i)) = swap a i hi m1"
      by (simp add: swap_def Let_def)
    then show ?thesis
      using False by (subst rs_qsort.simps, subst qsort_u32.simps) (simp add: rs part chk l r Let_def)
  qed
qed

lemma rs_sort: "rs_bm_sort tm s = Some (mj_bm_sort tm s)"
proof -
  have "rs_sort_rep rep t = Some (sort_rep rep t)" if "rep < 20" for rep t
  proof -
    have "unat (of_nat rep :: u32) = rep" using that by (simp add: unat_of_nat)
    then have "chk_add 0x00C0FFEE (of_nat rep) = Some (0x00C0FFEE + of_nat rep)"
      using that by (simp add: chk_add_def)
    then show ?thesis
      by (simp add: rs_sort_rep_def sort_rep_def rs_fill rs_qsort split_beta Let_def)
  qed
  then have "for_opt 0 20 rs_sort_rep u = Some (for_range 0 20 sort_rep u)" for u
    by (rule for_opt_total)
  then show ?thesis
    by (simp add: rs_bm_sort_def mj_bm_sort_def [unfolded mj_sort_rep] Let_def split_beta)
qed

lemma rs_mat: "rs_bm_mat16 tm s = Some (mj_bm_mat16 tm s)"
proof -
  have ix: "rs_index i k = Some (i * 16 + k)" if "i < 16" "k < 16" for i k
    using that by (simp add: rs_index_def)
  have dot: "rs_mat_dot m i j = Some (mat_dot MAT_A MAT_B m i j)" if "i < 16" "j < 16" for m i j
    unfolding rs_mat_dot_def mat_dot_def by (rule for_opt_total) (simp add: ix that)
  have row: "for_opt 0 16 (\<lambda>j m. do { s \<leftarrow> rs_mat_dot m i j; c \<leftarrow> rs_index i j; Some (mem_put m (idx MAT_C c) s) }) m =
      Some (for_range 0 16 (\<lambda>j m. mem_put m (idx MAT_C (i * 16 + j)) (mat_dot MAT_A MAT_B m i j)) m)"
    if "i < 16" for i m
    by (rule for_opt_total) (simp add: dot ix that)
  have mul: "for_opt 0 16 (\<lambda>i. for_opt 0 16 (\<lambda>j m. do { s \<leftarrow> rs_mat_dot m i j; c \<leftarrow> rs_index i j;
        Some (mem_put m (idx MAT_C c) s) })) m = Some (mat_mul MAT_A MAT_B MAT_C m)" for m
    unfolding mat_mul_def by (rule for_opt_total) (rule row)
  have "for_opt 0 50 rs_mat_rep u = Some (for_range 0 50 (mat_rep MAT_A MAT_B MAT_C) u)" for u
    by (rule for_opt_total) (simp add: rs_mat_rep_def mat_rep_def mul split_beta Let_def)
  then show ?thesis
    by (simp add: rs_bm_mat16_def mj_bm_mat16_def rs_fill mat_kernel_def Let_def split_beta)
qed

lemma rs_fib: "rs_fib n = Some (fib n)"
proof (induction n rule: fib.induct)
  case (1 n)
  show ?case
  proof (cases "n < 2")
    case True
    then show ?thesis by (simp add: rs_fib.simps fib.simps)
  next
    case False
    then have "2 \<le> n" by simp
    moreover from this have "1 \<le> n" by (rule order_trans [rotated]) simp
    ultimately have "chk_sub n 1 = Some (n - 1)" "chk_sub n 2 = Some (n - 2)"
      by (simp_all add: chk_sub_def)
    then show ?thesis
      using False 1 by (subst rs_fib.simps, subst fib.simps) simp
  qed
qed

lemma rs_fib_kernel: "rs_bm_fib D tm s = Some (mj_bm_fib D tm s)"
  by (simp add: rs_bm_fib_def mj_bm_fib_def rs_fib Let_def split_beta)

lemmas rs_kernels = rs_xorshift rs_division rs_float rs_call rs_crc rs_sort rs_mat rs_fib_kernel

lemma rs_BMS:
  assumes "i < 9"
  shows "(rs_BMS D ! i) s = Some ((BMS D ! i) s)" and "(rs_rv_BMS D mc ! i) s = Some ((rv_BMS D mc ! i) s)"
proof -
  consider "i = 0" | "i = 1" | "i = 2" | "i = 3" | "i = 4" | "i = 5" | "i = 6" | "i = 7" | "i = 8"
    using assms by linarith
  then show "(rs_BMS D ! i) s = Some ((BMS D ! i) s)"
    by cases (simp_all add: rs_BMS_def BMS_def rs_toggle rs_kernels rs_time mj_kernels)
  consider "i = 0" | "i = 1" | "i = 2" | "i = 3" | "i = 4" | "i = 5" | "i = 6" | "i = 7" | "i = 8"
    using assms by linarith
  then show "(rs_rv_BMS D mc ! i) s = Some ((rv_BMS D mc ! i) s)"
    by cases (simp_all add: rs_rv_BMS_def rv_BMS_def rs_rv_toggle rs_kernels mj_kernels)
qed

text \<open>The address of every result pair is computed without overflow.\<close>

lemma rs_bench_one:
  assumes "run < 3" and "i < 9" and off: "unat off \<le> 0x14"
    and bm: "\<And>s. (bms ! i) s = Some ((bms' ! i) s)"
  shows "rs_bench_one D off bms run i s = Some (bench_one D off bms' run i s)"
proof -
  have u: "unat (of_nat run :: u32) = run" "unat (of_nat i :: u32) = i" "unat (of_nat COUNT :: u32) = 9"
    using assms by (simp_all add: unat_of_nat COUNT_def)
  have r: "chk_mul (of_nat run) (of_nat COUNT) = Some (of_nat run * of_nat COUNT)"
    using assms(1) by (simp add: chk_mul_def u)
  have ur: "unat (of_nat run * of_nat COUNT :: u32) = run * 9"
    using assms(1) by (simp add: unat_word_ariths u)
  have k: "chk_add (of_nat run * of_nat COUNT) (of_nat i) = Some (of_nat run * of_nat COUNT + of_nat i)"
    using assms by (simp add: chk_add_def u ur)
  have uk: "unat (of_nat run * of_nat COUNT + of_nat i :: u32) = run * 9 + i"
    using assms by (simp add: unat_word_ariths u ur)
  have o8: "chk_mul (of_nat run * of_nat COUNT + of_nat i) 8 = Some ((of_nat run * of_nat COUNT + of_nat i) * 8)"
    using assms by (simp add: chk_mul_def uk)
  have "unat (x * 8) = n * 8" if "unat x = n" "n < 27" for x :: u32 and n
    using that by (simp add: unat_word_ariths)
  note uo = this [OF uk]
  have b: "chk_add MB off = Some (MB + off)" "unat (MB + off) = 0x20030000 + unat off"
    using off by (simp_all add: chk_add_def MB_def unat_word_ariths)
  have base: "chk_add (MB + off) ((of_nat run * of_nat COUNT + of_nat i) * 8) =
      Some (MB + off + (of_nat run * of_nat COUNT + of_nat i) * 8)"
    using assms uo by (simp add: chk_add_def b)
  have "unat (x + y) = 0x20030000 + m + n * 8"
    if "unat x = 0x20030000 + m" "m \<le> 0x14" "unat y = n * 8" "n < 27" for x y :: u32 and m n
    using that by (simp add: unat_word_ariths)
  note ub = this [OF b(2) off uo]
  have base4: "chk_add (MB + off + (of_nat run * of_nat COUNT + of_nat i) * 8) 4 =
      Some (MB + off + (of_nat run * of_nat COUNT + of_nat i) * 8 + 4)"
    using assms ub by (simp add: chk_add_def)
  show ?thesis
    by (simp only: rs_bench_one_def bm r k o8 b base base4 bind.bind_lunit
        bench_one_def Let_def split_beta option.inject)
qed

lemma rs_loop:
  assumes "unat off \<le> 0x14" and "\<And>i s. i < 9 \<Longrightarrow> (bms ! i) s = Some ((bms' ! i) s)"
  shows "for_opt 0 RUNS (\<lambda>run. for_opt 0 COUNT (rs_bench_one D off bms run)) s = Some (bench_loop D off bms' s)"
proof -
  have "for_opt 0 COUNT (rs_bench_one D off bms run) t = Some (for_range 0 COUNT (bench_one D off bms' run) t)"
    if "run < 3" for run t
    using assms that by (intro for_opt_total rs_bench_one) (simp_all add: COUNT_def)
  note inner = this
  show ?thesis
    unfolding bench_loop_def by (rule for_opt_total) (simp add: RUNS_def inner)
qed

lemma rs_board_init: "rs_board_init = board_init" "rs_rv_board_init = rv_board_init"
  by (simp_all add: fun_eq_iff rs_board_init_def board_init_def rs_rv_board_init_def rv_board_init_def)

lemma rs_programs: "rs_mojo_main D s = mojo_main D s" "rs_rv_mojo_main D mc s = rv_program 4 D mc s"
proof -
  have "chk_add MB 4 = Some (MB + 4)" "chk_add MB 8 = Some (MB + 8)" "chk_add MB 0xC = Some (MB + 0xC)"
    "chk_add MB 0x10 = Some (MB + 0x10)"
    by (simp_all add: chk_add_def MB_def)
  moreover have "for_opt 0 RUNS (\<lambda>run. for_opt 0 COUNT (rs_bench_one D 0x10 (rs_BMS D) run)) t =
      Some (bench_loop D 0x10 (BMS D) t)" for t
    by (rule rs_loop) (simp_all add: rs_BMS)
  moreover have "for_opt 0 RUNS (\<lambda>run. for_opt 0 COUNT (rs_bench_one D 0x14 (rs_rv_BMS D mc) run)) t =
      Some (bench_loop D 0x14 (rv_BMS D mc) t)" for t
    by (rule rs_loop) (simp_all add: rs_BMS)
  ultimately show "rs_mojo_main D s = mojo_main D s" "rs_rv_mojo_main D mc s = rv_program 4 D mc s"
    by (simp_all add: rs_mojo_main_def mojo_main_def rs_rv_mojo_main_def rv_program_def rs_board_init
        rs_LANG_def Let_def)
qed

section \<open>Properties\<close>

text \<open>C5: The Mojo and Rust benchmark programs are the C programs. On every device and from every
  state they make the same accesses in the same order and leave the same memory, down to the
  flash commit of the RP2350, where only the language number in the mailbox differs (1 for
  Mojo, 2 or 3 for C, 4 for Rust). The Rust programs never panic: with every plain \<^verbatim>\<open>+\<close>, \<^verbatim>\<open>-\<close>,
  \<^verbatim>\<open>*\<close>, \<^verbatim>\<open>/\<close> and \<^verbatim>\<open>>>\<close> of their source checked for overflow, \<^verbatim>\<open>i32\<close> indices and \<^verbatim>\<open>usize\<close> offsets
  included, they fail to return only where the C programs wait for ever for the hardware.\<close>

theorem mirrors_are_c_programs:
  "mj_start D s = mojo_main D s \<and> rs_mojo_main D s = mojo_main D s \<and>
   mj_rv_start D mc s = rv_program 1 D mc s \<and>
   rv_mojo_main clang D mc s = rv_program (if clang then 3 else 2) D mc s \<and>
   rs_rv_mojo_main D mc s = rv_program 4 D mc s"
  by (simp add: mj_programs rs_programs rv_mojo_main_program LANG_def)

end
