(* ===== verification/HostBench.thy ===== *)
theory HostBench
  imports BenchMojo BenchRust
begin

text \<open>
  The host side of the benchmarks, \<^verbatim>\<open>tools/bench.mojo\<close> (RP2040, mailbox in SRAM) and
  \<^verbatim>\<open>tools/bench_rp2350.mojo\<close> (mailbox in flash): what they decide from the words they read, which
  are parameters. Composed with the firmwares, only the times can make them fail: no other
  gate rejects what the four programs leave, and the medians are those of the measured times.
\<close>

section \<open>Outcomes\<close>

datatype bench_error =
  Unfinished
| BadMagic
| NotDone
| StaleBench
| WrongWriter u32
| ChecksumVaries nat
| TimeSpread nat u32 u32
| ChecksumMismatch nat

section \<open>Reading the mailbox\<close>

text \<open>\<^verbatim>\<open>run_bench\<close> of \<^verbatim>\<open>bench.mojo\<close>: up to \<open>n\<close> more reads of the head, then the table.\<close>

fun wait_bench :: "(nat \<Rightarrow> u32 list) \<Rightarrow> nat \<Rightarrow> nat \<Rightarrow> bench_error option" where
  "wait_bench reads 0 k = Some Unfinished"
| "wait_bench reads (Suc n) k =
     (let head = reads k
      in if head ! 0 = 0x42454E43 \<and> head ! 1 = 2
         then (if head ! 2 \<noteq> of_nat COUNT \<or> head ! 3 \<noteq> of_nat RUNS then Some StaleBench else None)
         else wait_bench reads n (k + 1))"

definition run_bench :: "(nat \<Rightarrow> u32 list) \<Rightarrow> u32 list \<Rightarrow> bench_error + u32 list" where
  "run_bench reads flat = (case wait_bench reads 30 0 of Some e \<Rightarrow> Inl e | None \<Rightarrow> Inr flat)"

text \<open>\<^verbatim>\<open>run_bench\<close> of \<^verbatim>\<open>bench_rp2350.mojo\<close>, from the words read back from the flash.\<close>

definition HDR :: nat where "HDR = 5"

definition rv_run_bench :: "u32 \<Rightarrow> u32 list \<Rightarrow> bench_error + u32 list" where
  "rv_run_bench lang_id flat =
     (if flat ! 0 \<noteq> 0x42454E43 then Inl BadMagic
      else if flat ! 1 \<noteq> 2 then Inl NotDone
      else if flat ! 2 \<noteq> of_nat COUNT \<or> flat ! 3 \<noteq> of_nat RUNS then Inl StaleBench
      else if flat ! 4 \<noteq> lang_id then Inl (WrongWriter (flat ! 4))
      else Inr (map (\<lambda>i. flat ! (HDR + i)) [0..<RUNS * COUNT * 2]))"

section \<open>Reducing the runs\<close>

text \<open>The insertion sort of the times; \<open>j\<close> is the place of the entry that sinks.\<close>

fun sink :: "nat \<Rightarrow> u32 list \<Rightarrow> u32 list" where
  "sink 0 t = t"
| "sink (Suc j) t = (if t ! Suc j < t ! j then sink j (t[j := t ! Suc j, Suc j := t ! j]) else t)"

definition sort_times :: "u32 list \<Rightarrow> u32 list" where
  "sort_times t = for_range 1 (length t) sink t"

definition reduce_one :: "u32 list \<Rightarrow> nat \<Rightarrow> bench_error + (u32 \<times> u32)" where
  "reduce_one flat i =
     (let t = map (\<lambda>r. flat ! ((r * COUNT + i) * 2)) [0..<RUNS];
          c = map (\<lambda>r. flat ! ((r * COUNT + i) * 2 + 1)) [0..<RUNS]
      in if list_ex (\<lambda>r. c ! r \<noteq> c ! 0) [1..<RUNS] then Inl (ChecksumVaries i)
         else
           (let t = sort_times t; lo = t ! 0; hi = t ! (length t - 1)
            in if 0 < lo \<and> 2 \<le> (ucast (hi - lo) * 100) div (ucast lo :: u64) then Inl (TimeSpread i lo hi)
               else Inr (t ! (length t div 2), c ! 0)))"

fun reduce_list :: "u32 list \<Rightarrow> nat list \<Rightarrow> bench_error + (u32 list \<times> u32 list)" where
  "reduce_list flat [] = Inr ([], [])"
| "reduce_list flat (i # ks) =
     (case reduce_one flat i of Inl e \<Rightarrow> Inl e
      | Inr (m, c) \<Rightarrow>
         (case reduce_list flat ks of Inl e \<Rightarrow> Inl e | Inr (med, cks) \<Rightarrow> Inr (m # med, c # cks)))"

definition reduce_runs :: "u32 list \<Rightarrow> bench_error + (u32 list \<times> u32 list)" where
  "reduce_runs flat = reduce_list flat [0..<COUNT]"

section \<open>Comparing the languages\<close>

text \<open>The firmwares are read one after the other; the first failure ends the tool.\<close>

fun reduce_all :: "(bench_error + u32 list) list \<Rightarrow> bench_error + (u32 list \<times> u32 list) list" where
  "reduce_all [] = Inr []"
| "reduce_all (x # xs) =
     (case x of Inl e \<Rightarrow> Inl e
      | Inr flat \<Rightarrow> (case reduce_runs flat of Inl e \<Rightarrow> Inl e
         | Inr y \<Rightarrow> (case reduce_all xs of Inl e \<Rightarrow> Inl e | Inr ys \<Rightarrow> Inr (y # ys))))"

declare reduce_all.simps(2) [simp del]

definition checks_agree :: "(u32 list \<times> u32 list) list \<Rightarrow> bench_error + u32 list list" where
  "checks_agree rs =
     (let ck = (\<lambda>l i. snd (rs ! l) ! i)
      in case find (\<lambda>i. ck 0 i \<noteq> ck 2 i \<or> ck 1 i \<noteq> ck 2 i \<or> ck 3 i \<noteq> ck 2 i) [0..<COUNT] of
           Some i \<Rightarrow> Inl (ChecksumMismatch i)
         | None \<Rightarrow> Inr (map fst rs))"

text \<open>The medians of Mojo, gcc, clang and Rust, from the reads of their mailboxes.\<close>

definition compare_languages :: "(bench_error + u32 list) list \<Rightarrow> bench_error + u32 list list" where
  "compare_languages xs = (case reduce_all xs of Inl e \<Rightarrow> Inl e | Inr rs \<Rightarrow> checks_agree rs)"

section \<open>What the times decide\<close>

text \<open>The three times of a workload, and what should come of them.\<close>

definition bench_times :: "u32 list \<Rightarrow> nat \<Rightarrow> u32 list" where
  "bench_times flat i = map (\<lambda>r. flat ! (2 * (r * 9 + i))) [0..<3]"

definition steady :: "u32 list \<Rightarrow> bool" where
  "steady ts \<longleftrightarrow> Min (set ts) = 0 \<or> 100 * (unat (Max (set ts)) - unat (Min (set ts))) < 2 * unat (Min (set ts))"

definition median :: "u32 list \<Rightarrow> u32" where
  "median ts = sort ts ! 1"

definition first_unsteady :: "u32 list list \<Rightarrow> (nat \<times> u32 list) option" where
  "first_unsteady fs =
     find (\<lambda>(i, ts). \<not> steady ts) (concat (map (\<lambda>flat. map (\<lambda>i. (i, bench_times flat i)) [0..<9]) fs))"

definition spread_verdict :: "u32 list list \<Rightarrow> bench_error + u32 list list" where
  "spread_verdict fs =
     (case first_unsteady fs of
        Some (i, ts) \<Rightarrow> Inl (TimeSpread i (Min (set ts)) (Max (set ts)))
      | None \<Rightarrow> Inr (map (\<lambda>flat. map (\<lambda>i. median (bench_times flat i)) [0..<9]) fs))"

text \<open>The table of a firmware with the expected checksums.\<close>

definition table_ok :: "u32 list \<Rightarrow> bool" where
  "table_ok flat \<longleftrightarrow> (\<forall>run<3. \<forall>i<9. flat ! (2 * (run * 9 + i) + 1) = bench_checks ! i)"

lemma sort_times_three: "sort_times [a, b, c] = sort [a, b, c]"
proof -
  have "sort_times [a, b, c] = sink 2 (sink 1 [a, b, c])"
    by (simp add: sort_times_def for_range_def numeral_3_eq_3 numeral_2_eq_2)
  also have "\<dots> = sort [a, b, c]"
    by (simp add: numeral_2_eq_2) (auto simp: not_less)
  finally show ?thesis .
qed

lemma sort_three:
  "sort [a, b, c] ! 0 = Min (set [a, b, c])" "sort [a, b, c] ! 2 = Max (set [a, b, c])" for a b c :: u32
  by (auto simp: min_def max_def)

lemma spread_gate:
  "lo \<le> hi \<Longrightarrow> 0 < lo \<and> 2 \<le> (ucast (hi - lo) * 100) div (ucast lo :: u64) \<longleftrightarrow>
     \<not> (lo = 0 \<or> 100 * (unat hi - unat lo) < 2 * unat lo)" for lo hi :: u32
  by (cases "lo = 0") (simp_all add: spread_exact word_gt_0 not_less)

lemma reduce_one_verdict:
  assumes "table_ok flat" and "i < 9"
  shows "reduce_one flat i =
    (let ts = bench_times flat i in if steady ts then Inr (median ts, bench_checks ! i)
     else Inl (TimeSpread i (Min (set ts)) (Max (set ts))))"
proof -
  have runs: "[0..<RUNS] = [0, 1, 2]" "[1..<RUNS] = [1, 2]" "[0..<3] = [0, 1, 2 :: nat]"
    by (simp_all add: RUNS_def upt_conv_Cons)
  obtain a b c where abc: "bench_times flat i = [a, b, c]" by (simp add: bench_times_def runs)
  then have t: "map (\<lambda>r. flat ! ((r * COUNT + i) * 2)) [0..<RUNS] = [a, b, c]"
    by (simp add: bench_times_def runs COUNT_def algebra_simps)
  have ck: "map (\<lambda>r. flat ! ((r * COUNT + i) * 2 + 1)) [0..<RUNS] = replicate 3 (bench_checks ! i)"
  proof -
    have "flat ! ((r * COUNT + i) * 2 + 1) = bench_checks ! i" if "r < 3" for r
      using assms that by (simp add: table_ok_def COUNT_def mult.commute)
    from this [of 0] this [of 1] this [of 2] show ?thesis by (simp add: runs numeral_3_eq_3)
  qed
  let ?lo = "Min (set [a, b, c])" and ?hi = "Max (set [a, b, c])"
  have "?lo \<le> a" "a \<le> ?hi" by (rule Min_le; simp) (rule Max_ge; simp)
  then have "?lo \<le> ?hi" by (rule order_trans)
  then have gate: "0 < ?lo \<and> 2 \<le> (ucast (?hi - ?lo) * 100) div (ucast ?lo :: u64) \<longleftrightarrow> \<not> steady [a, b, c]"
    using spread_gate [of ?lo ?hi] by (simp only: steady_def)
  define ts where "ts = sort [a, b, c]"
  have places: "ts ! (length ts - 1) = ts ! 2" "ts ! (length ts div 2) = ts ! 1"
    by (simp_all add: ts_def)
  have "list_ex (\<lambda>r. replicate 3 (bench_checks ! i) ! r \<noteq> replicate 3 (bench_checks ! i) ! 0) [1, 2] = False"
    "replicate 3 (bench_checks ! i) ! 0 = bench_checks ! i"
    by simp_all
  then have "reduce_one flat i =
      (if 0 < ts ! 0 \<and> 2 \<le> (ucast (ts ! 2 - ts ! 0) * 100) div (ucast (ts ! 0) :: u64)
       then Inl (TimeSpread i (ts ! 0) (ts ! 2)) else Inr (ts ! 1, bench_checks ! i))"
    unfolding reduce_one_def Let_def t ck runs(2) sort_times_three ts_def [symmetric] places
    by (simp only: if_False)
  moreover have "ts ! 0 = ?lo" "ts ! 2 = ?hi" "ts ! 1 = median [a, b, c]"
    unfolding ts_def by (rule sort_three, rule sort_three, simp only: median_def)
  ultimately show ?thesis unfolding abc Let_def by (cases "steady [a, b, c]") (simp_all only: gate simp_thms if_True if_False)
qed

lemma find_append: "find P (xs @ ys) = (case find P xs of Some x \<Rightarrow> Some x | None \<Rightarrow> find P ys)"
  by (induction xs) simp_all

lemma find_labelled:
  "find (\<lambda>(i, ts). \<not> steady ts) (map (\<lambda>i. (i, f i)) ks) =
     map_option (\<lambda>i. (i, f i)) (find (\<lambda>i. \<not> steady (f i)) ks)"
  by (induction ks) simp_all

lemma first_unsteady_Cons:
  "first_unsteady (flat # fs) =
     (case find (\<lambda>i. \<not> steady (bench_times flat i)) [0..<9] of
        Some i \<Rightarrow> Some (i, bench_times flat i) | None \<Rightarrow> first_unsteady fs)"
  unfolding first_unsteady_def list.map concat.simps find_append find_labelled
  by (simp split: option.split)

lemma reduce_runs_verdict:
  assumes "table_ok flat"
  shows "reduce_runs flat =
    (case find (\<lambda>i. \<not> steady (bench_times flat i)) [0..<9] of
       Some i \<Rightarrow> Inl (TimeSpread i (Min (set (bench_times flat i))) (Max (set (bench_times flat i))))
     | None \<Rightarrow> Inr (map (\<lambda>i. median (bench_times flat i)) [0..<9], map (\<lambda>i. bench_checks ! i) [0..<9]))"
proof -
  have "reduce_list flat ks =
    (case find (\<lambda>i. \<not> steady (bench_times flat i)) ks of
       Some i \<Rightarrow> Inl (TimeSpread i (Min (set (bench_times flat i))) (Max (set (bench_times flat i))))
     | None \<Rightarrow> Inr (map (\<lambda>i. median (bench_times flat i)) ks, map (\<lambda>i. bench_checks ! i) ks))"
    if "\<forall>i \<in> set ks. i < 9" for ks
    using that
    by (induction ks) (simp_all add: reduce_one_verdict [OF assms] Let_def split: option.split)
  then show ?thesis by (simp add: reduce_runs_def COUNT_def)
qed

lemma reduce_all_verdict:
  "\<forall>flat \<in> set fs. table_ok flat \<Longrightarrow> reduce_all (map Inr fs) =
     (case spread_verdict fs of Inl e \<Rightarrow> Inl e
      | Inr meds \<Rightarrow> Inr (map (\<lambda>m. (m, map (\<lambda>i. bench_checks ! i) [0..<9])) meds))"
proof (induction fs)
  case Nil
  then show ?case by (simp add: spread_verdict_def first_unsteady_def)
next
  case (Cons flat fs)
  then show ?case
    by (simp add: reduce_all.simps(2) spread_verdict_def first_unsteady_Cons reduce_runs_verdict split: option.split)
qed

lemma compare_verdict:
  assumes "\<forall>flat \<in> {a, b, c, d}. table_ok flat"
  shows "compare_languages [Inr a, Inr b, Inr c, Inr d] = spread_verdict [a, b, c, d]"
proof -
  have all: "reduce_all [Inr a, Inr b, Inr c, Inr d] =
     (case spread_verdict [a, b, c, d] of Inl e \<Rightarrow> Inl e
      | Inr meds \<Rightarrow> Inr (map (\<lambda>m. (m, map (\<lambda>i. bench_checks ! i) [0..<9])) meds))"
    using reduce_all_verdict [of "[a, b, c, d]"] assms by simp
  show ?thesis
  proof (cases "spread_verdict [a, b, c, d]")
    case (Inl e)
    then show ?thesis by (simp add: compare_languages_def all)
  next
    case (Inr meds)
    then have "length meds = 4" by (auto simp: spread_verdict_def split: option.splits)
    then have agree: "checks_agree (map (\<lambda>m. (m, map (\<lambda>i. bench_checks ! i) [0..<9])) meds) = Inr meds"
      by (simp add: checks_agree_def COUNT_def o_def find_None_iff [THEN iffD2])
    show ?thesis using Inr by (simp add: compare_languages_def all agree)
  qed
qed

section \<open>Firmware and host\<close>

lemma table_slot: "run < 3 \<Longrightarrow> i < 9 \<Longrightarrow> ck_slot 0x10 run i = idx (MB + 0x10) (2 * (run * 9 + i) + 1)"
  by (simp add: ck_slot_def idx_def COUNT_def algebra_simps)

lemma table_of_run:
  assumes "bringup_answers D"
  shows "\<exists>t. mojo_main D s = Some t \<and> table_ok (arr (ram t) (MB + 0x10) 54) \<and>
    run_bench (\<lambda>_. arr (ram t) MB 4) (arr (ram t) (MB + 0x10) 54) = Inr (arr (ram t) (MB + 0x10) 54)"
proof -
  from mojo_main_run [OF assms] obtain t where t: "mojo_main D s = Some t"
    "ram t MB = 0x42454E43" "ram t (MB + 4) = 2" "ram t (MB + 8) = 9" "ram t (MB + 12) = 3"
    "\<forall>run<3. \<forall>i<9. ram t (ck_slot 0x10 run i) = bench_checks ! i" by blast
  have "2 * (run * 9 + i) + 1 < 54" if "run < 3" "i < 9" for run i :: nat using that by simp
  then have "table_ok (arr (ram t) (MB + 0x10) 54)"
    using t(6) by (simp add: table_ok_def table_slot)
  moreover have "run_bench (\<lambda>_. arr (ram t) MB 4) (arr (ram t) (MB + 0x10) 54) =
      Inr (arr (ram t) (MB + 0x10) 54)"
  proof -
    have "(30 :: nat) = Suc 29" by simp
    then have "wait_bench (\<lambda>_. arr (ram t) MB 4) 30 0 = None"
      by (simp only: wait_bench.simps) (simp add: t(2-5) idx_def COUNT_def RUNS_def Let_def)
    then show ?thesis by (simp add: run_bench_def)
  qed
  ultimately show ?thesis using t(1) by blast
qed

lemma table_of_page:
  assumes "acks D 0x40023000 0x240 0x40020008 (\<lambda>v. v AND 0x240 = 0x240)"
  shows "\<exists>t calls page. rv_program lang D mc s = Some (t, calls) \<and>
    FlashRangeProgram 0x3FF000 page \<in> set calls \<and> table_ok (drop 5 (take 59 page)) \<and>
    rv_run_bench lang (take 59 page) = Inr (drop 5 (take 59 page))"
proof -
  from rv_program_run [OF assms] obtain t page where t: "rv_program lang D mc s =
      Some (t, [ConnectInternalFlash, FlashExitXip, FlashRangeErase 0x3FF000 4096 65536 0xD8,
        FlashRangeProgram 0x3FF000 page, FlashFlushCache, Reboot 2 100 0 0])"
    "length page = 64" "take 5 page = [0x42454E43, 2, 9, 3, lang]"
    "\<forall>run<3. \<forall>i<9. page ! (2 * (run * 9 + i) + 6) = bench_checks ! i" by blast
  have "page ! j = [0x42454E43, 2, 9, 3, lang] ! j" if "j < 5" for j using t(3) that by (metis nth_take)
  from this [of 0] this [of 1] this [of 2] this [of 3] this [of 4]
  have head: "page ! 0 = 0x42454E43" "page ! 1 = 2" "page ! 2 = 9" "page ! 3 = 3" "page ! 4 = lang"
    by simp_all
  have "map (\<lambda>i. take 59 page ! (HDR + i)) [0..<RUNS * COUNT * 2] = drop 5 (take 59 page)"
    using t(2) by (intro nth_equalityI) (simp_all add: HDR_def RUNS_def COUNT_def)
  then have "rv_run_bench lang (take 59 page) = Inr (drop 5 (take 59 page))"
    using head by (simp add: rv_run_bench_def COUNT_def RUNS_def)
  moreover have "2 * (run * 9 + i) + 1 < 54" if "run < 3" "i < 9" for run i :: nat using that by simp
  then have "table_ok (drop 5 (take 59 page))"
    using t(2,4) by (simp add: table_ok_def add.commute)
  ultimately show ?thesis using t(1) by auto
qed

text \<open>What the debug probe and the flash reader hand to the tools.\<close>

definition sram_table :: "'d mach \<Rightarrow> u32 list" where
  "sram_table t = arr (ram t) (MB + 0x10) 54"

definition sram_read :: "'d mach \<Rightarrow> bench_error + u32 list" where
  "sram_read t = run_bench (\<lambda>_. arr (ram t) MB 4) (sram_table t)"

definition page_table :: "u32 list \<Rightarrow> u32 list" where
  "page_table page = drop 5 (take 59 page)"

definition commits :: "u32 list \<Rightarrow> ('d mach \<times> rom_call list) option \<Rightarrow> bool" where
  "commits page x \<longleftrightarrow> (\<exists>t calls. x = Some (t, calls) \<and> FlashRangeProgram 0x3FF000 page \<in> set calls)"

lemma four_runs:
  fixes D :: "nat \<Rightarrow> 'd device" and s :: "nat \<Rightarrow> 'd mach"
  assumes "\<And>l. bringup_answers (D l)"
  shows "\<exists>t. mj_start (D 1) (s 1) = Some (t (1 :: nat)) \<and> mojo_main (D 2) (s 2) = Some (t 2) \<and>
    mojo_main (D 3) (s 3) = Some (t 3) \<and> rs_mojo_main (D 4) (s 4) = Some (t 4) \<and>
    compare_languages [sram_read (t 1), sram_read (t 2), sram_read (t 3), sram_read (t 4)] =
      spread_verdict [sram_table (t 1), sram_table (t 2), sram_table (t 3), sram_table (t 4)]"
proof -
  have "\<forall>l. \<exists>t. mojo_main (D l) (s l) = Some t \<and> table_ok (sram_table t) \<and> sram_read t = Inr (sram_table t)"
    unfolding sram_read_def sram_table_def using table_of_run [OF assms] by blast
  then obtain t where t: "\<And>l. mojo_main (D l) (s l) = Some (t l)"
    "\<And>l. table_ok (sram_table (t l))" "\<And>l. sram_read (t l) = Inr (sram_table (t l))" by metis
  have "compare_languages [sram_read (t 1), sram_read (t 2), sram_read (t 3), sram_read (t 4)] =
      spread_verdict [sram_table (t 1), sram_table (t 2), sram_table (t 3), sram_table (t 4)]"
    unfolding t(3) by (rule compare_verdict) (simp add: t(2))
  then show ?thesis using t(1) by (auto simp: mj_programs rs_programs)
qed

lemma four_pages:
  fixes E :: "nat \<Rightarrow> 'e device" and mc :: "nat \<Rightarrow> 'e \<Rightarrow> u32 \<times> 'e" and s :: "nat \<Rightarrow> 'e mach"
  assumes "\<And>l. acks (E l) 0x40023000 0x240 0x40020008 (\<lambda>v. v AND 0x240 = 0x240)"
  shows "\<exists>p. commits (p (1 :: nat)) (mj_rv_start (E 1) (mc 1) (s 1)) \<and>
    commits (p 2) (rv_mojo_main False (E 2) (mc 2) (s 2)) \<and>
    commits (p 3) (rv_mojo_main True (E 3) (mc 3) (s 3)) \<and>
    commits (p 4) (rs_rv_mojo_main (E 4) (mc 4) (s 4)) \<and>
    compare_languages [rv_run_bench 1 (take 59 (p 1)), rv_run_bench 2 (take 59 (p 2)),
        rv_run_bench 3 (take 59 (p 3)), rv_run_bench 4 (take 59 (p 4))] =
      spread_verdict [page_table (p 1), page_table (p 2), page_table (p 3), page_table (p 4)]"
proof -
  have "\<exists>p. commits p (rv_program lang (E l) (mc l) (s l)) \<and> table_ok (page_table p) \<and>
      rv_run_bench lang (take 59 p) = Inr (page_table p)" for lang l
    unfolding commits_def page_table_def
    using table_of_page [OF assms, of lang l "mc l" "s l"] by blast
  then have "\<forall>l. \<exists>p. commits p (rv_program (of_nat l) (E l) (mc l) (s l)) \<and> table_ok (page_table p) \<and>
      rv_run_bench (of_nat l) (take 59 p) = Inr (page_table p)" by blast
  then obtain p where p: "\<And>l. commits (p l) (rv_program (of_nat l) (E l) (mc l) (s l))"
    "\<And>l. table_ok (page_table (p l))" "\<And>l. rv_run_bench (of_nat l) (take 59 (p l)) = Inr (page_table (p l))"
    by metis
  have "compare_languages [Inr (page_table (p 1)), Inr (page_table (p 2)), Inr (page_table (p 3)),
        Inr (page_table (p 4))] =
      spread_verdict [page_table (p 1), page_table (p 2), page_table (p 3), page_table (p 4)]"
    by (rule compare_verdict) (simp add: p(2))
  then show ?thesis
    using p(1) [of 1] p(1) [of 2] p(1) [of 3] p(1) [of 4] p(3) [of 1] p(3) [of 2] p(3) [of 3] p(3) [of 4]
    by (intro exI [of _ p]) (simp add: mj_programs rs_programs rv_mojo_main_program LANG_def)
qed

section \<open>Properties\<close>

text \<open>C6: the benchmark tools can fail on nothing but the times: on any four RP2040 boards that answer
  their bring-up and any four RP2350 boards that do, with any timers and initial memories, the
  Mojo, gcc, clang and Rust firmwares finish (or commit their page to the flash), and the tools
  find neither a stale or foreign mailbox nor a checksum that varies between runs or languages.
  They report the first workload whose times differ by 2 percent of the smallest or more, with
  these times, and else the medians; the 64-bit arithmetic of the gate is exact.\<close>

theorem bench_verdict_is_timing:
  fixes D :: "nat \<Rightarrow> 'd device" and s :: "nat \<Rightarrow> 'd mach"
    and E :: "nat \<Rightarrow> 'e device" and mc :: "nat \<Rightarrow> 'e \<Rightarrow> u32 \<times> 'e" and s' :: "nat \<Rightarrow> 'e mach"
  assumes "\<And>l. bringup_answers (D l)"
    and "\<And>l. acks (E l) 0x40023000 0x240 0x40020008 (\<lambda>v. v AND 0x240 = 0x240)"
  shows "(\<exists>t. mj_start (D 1) (s 1) = Some (t (1 :: nat)) \<and> mojo_main (D 2) (s 2) = Some (t 2) \<and>
      mojo_main (D 3) (s 3) = Some (t 3) \<and> rs_mojo_main (D 4) (s 4) = Some (t 4) \<and>
      compare_languages [sram_read (t 1), sram_read (t 2), sram_read (t 3), sram_read (t 4)] =
        spread_verdict [sram_table (t 1), sram_table (t 2), sram_table (t 3), sram_table (t 4)]) \<and>
    (\<exists>p. commits (p (1 :: nat)) (mj_rv_start (E 1) (mc 1) (s' 1)) \<and>
      commits (p 2) (rv_mojo_main False (E 2) (mc 2) (s' 2)) \<and>
      commits (p 3) (rv_mojo_main True (E 3) (mc 3) (s' 3)) \<and>
      commits (p 4) (rs_rv_mojo_main (E 4) (mc 4) (s' 4)) \<and>
      compare_languages [rv_run_bench 1 (take 59 (p 1)), rv_run_bench 2 (take 59 (p 2)),
          rv_run_bench 3 (take 59 (p 3)), rv_run_bench 4 (take 59 (p 4))] =
        spread_verdict [page_table (p 1), page_table (p 2), page_table (p 3), page_table (p 4)])"
  using four_runs [OF assms(1)] four_pages [OF assms(2)] by (rule conjI)

theorem bench_verdict_is_timing_witness:
  "\<exists>t. mj_start ready_device \<lparr>ram = \<lambda>_. 0, dev = (0, 0)\<rparr> = Some (t (1 :: nat)) \<and>
     rs_mojo_main ready_device \<lparr>ram = \<lambda>_. 0, dev = (0, 0)\<rparr> = Some (t 4) \<and>
     compare_languages [sram_read (t 1), sram_read (t 2), sram_read (t 3), sram_read (t 4)] =
       spread_verdict [sram_table (t 1), sram_table (t 2), sram_table (t 3), sram_table (t 4)]"
proof -
  have "acks (const_device (\<lambda>_. 0x240)) 0x40023000 0x240 0x40020008 (\<lambda>v. v AND 0x240 = 0x240)"
    by (simp add: acks_const)
  from bench_verdict_is_timing [of "\<lambda>_. ready_device" "\<lambda>_. const_device (\<lambda>_. 0x240)",
      OF ready_hardware(1) this, of "\<lambda>_. \<lparr>ram = \<lambda>_. 0, dev = (0, 0)\<rparr>"
      "\<lambda>_ d. (0, d)" "\<lambda>_. \<lparr>ram = \<lambda>_. 1, dev = 0\<rparr>"]
  show ?thesis by blast
qed

end
