(* ===== verification/PlatformDefs.thy ===== *)
theory PlatformDefs
  imports Board
begin

text \<open>
  The platform constants of \<^verbatim>\<open>runtime/boot2/hardware/platform_defs.h\<close>: the size of the chip,
  and the three clock frequencies, each of which a build may override in Hz, kHz or MHz while
  the header derives the others. Values are natural numbers, since the preprocessor computes
  them exactly in 64 bits.
\<close>

named_theorems platform_defs \<open>the constants of the platform header\<close>

definition NUM_CORES :: nat where [platform_defs]: "NUM_CORES = 2"
definition NUM_DMA_CHANNELS :: nat where [platform_defs]: "NUM_DMA_CHANNELS = 12"
definition NUM_DMA_TIMERS :: nat where [platform_defs]: "NUM_DMA_TIMERS = 4"
definition NUM_DMA_IRQS :: nat where [platform_defs]: "NUM_DMA_IRQS = 2"
definition NUM_IRQS :: nat where [platform_defs]: "NUM_IRQS = 32"
definition NUM_USER_IRQS :: nat where [platform_defs]: "NUM_USER_IRQS = 6"
definition NUM_PIOS :: nat where [platform_defs]: "NUM_PIOS = 2"
definition NUM_PIO_STATE_MACHINES :: nat where [platform_defs]: "NUM_PIO_STATE_MACHINES = 4"
definition NUM_PIO_IRQS :: nat where [platform_defs]: "NUM_PIO_IRQS = 2"
definition NUM_PWM_SLICES :: nat where [platform_defs]: "NUM_PWM_SLICES = 8"
definition NUM_PWM_IRQS :: nat where [platform_defs]: "NUM_PWM_IRQS = 1"
definition NUM_SPIN_LOCKS :: nat where [platform_defs]: "NUM_SPIN_LOCKS = 32"
definition NUM_UARTS :: nat where [platform_defs]: "NUM_UARTS = 2"
definition NUM_I2CS :: nat where [platform_defs]: "NUM_I2CS = 2"
definition NUM_SPIS :: nat where [platform_defs]: "NUM_SPIS = 2"
definition NUM_GENERIC_TIMERS :: nat where [platform_defs]: "NUM_GENERIC_TIMERS = 1"
definition NUM_ALARMS :: nat where [platform_defs]: "NUM_ALARMS = 4"
definition ADC_BASE_PIN :: nat where [platform_defs]: "ADC_BASE_PIN = 26"
definition NUM_ADC_CHANNELS :: nat where [platform_defs]: "NUM_ADC_CHANNELS = 5"
definition NUM_RESETS :: nat where [platform_defs]: "NUM_RESETS = 24"
definition NUM_BANK0_GPIOS :: nat where [platform_defs]: "NUM_BANK0_GPIOS = 30"
definition NUM_QSPI_GPIOS :: nat where [platform_defs]: "NUM_QSPI_GPIOS = 6"
definition PIO_INSTRUCTION_COUNT :: nat where [platform_defs]: "PIO_INSTRUCTION_COUNT = 32"
definition USBCTRL_DPRAM_SIZE :: nat where [platform_defs]: "USBCTRL_DPRAM_SIZE = 4096"
definition HAS_SIO_DIVIDER :: nat where [platform_defs]: "HAS_SIO_DIVIDER = 1"
definition HAS_RP2040_RTC :: nat where [platform_defs]: "HAS_RP2040_RTC = 1"
definition VTABLE_FIRST_IRQ :: nat where [platform_defs]: "VTABLE_FIRST_IRQ = 16"

definition FIRST_USER_IRQ :: nat where [platform_defs]:
  "FIRST_USER_IRQ = NUM_IRQS - NUM_USER_IRQS"

section \<open>Clock frequencies\<close>

text \<open>
  The macros of one clock that the command line defines, and those after the header: the
  frequency in Hz is always defined, the others only when they are integers.
\<close>

record clock_flags =
  flag_hz :: "nat option"
  flag_khz :: "nat option"
  flag_mhz :: "nat option"

definition clock_hz :: "nat \<Rightarrow> clock_flags \<Rightarrow> nat" where
  "clock_hz dflt f =
     (case flag_hz f of Some v \<Rightarrow> v
      | None \<Rightarrow> (case flag_khz f of Some v \<Rightarrow> v * 1000
      | None \<Rightarrow> (case flag_mhz f of Some v \<Rightarrow> v * 1000000
      | None \<Rightarrow> dflt)))"

definition clock_khz :: "nat \<Rightarrow> clock_flags \<Rightarrow> nat option" where
  "clock_khz dflt f =
     (case flag_khz f of Some v \<Rightarrow> Some v
      | None \<Rightarrow> if clock_hz dflt f mod 1000 = 0 then Some (clock_hz dflt f div 1000) else None)"

definition clock_mhz :: "nat \<Rightarrow> clock_flags \<Rightarrow> nat option" where
  "clock_mhz dflt f =
     (case flag_mhz f of Some v \<Rightarrow> Some v
      | None \<Rightarrow> (case clock_khz dflt f of None \<Rightarrow> None
        | Some k \<Rightarrow> if k mod 1000 = 0 then Some (k div 1000) else None))"

definition no_flags :: clock_flags where
  "no_flags = \<lparr>flag_hz = None, flag_khz = None, flag_mhz = None\<rparr>"

text \<open>The three clocks run through the same lines with their own defaults.\<close>

definition XOSC_HZ :: nat where [platform_defs]: "XOSC_HZ = clock_hz 12000000 no_flags"
definition SYS_CLK_HZ :: nat where [platform_defs]: "SYS_CLK_HZ = clock_hz 125000000 no_flags"
definition USB_CLK_HZ :: nat where [platform_defs]: "USB_CLK_HZ = clock_hz 48000000 no_flags"

definition SYS_CLK_KHZ :: "nat option" where [platform_defs]: "SYS_CLK_KHZ = clock_khz 125000000 no_flags"
definition SYS_CLK_MHZ :: "nat option" where [platform_defs]: "SYS_CLK_MHZ = clock_mhz 125000000 no_flags"
definition USB_CLK_KHZ :: "nat option" where [platform_defs]: "USB_CLK_KHZ = clock_khz 48000000 no_flags"
definition USB_CLK_MHZ :: "nat option" where [platform_defs]: "USB_CLK_MHZ = clock_mhz 48000000 no_flags"

text \<open>A build that defines a clock in at most one unit.\<close>

definition one_unit :: "clock_flags \<Rightarrow> bool" where
  "one_unit f \<longleftrightarrow> length (filter (\<lambda>x. x \<noteq> None) [flag_hz f, flag_khz f, flag_mhz f]) \<le> 1"

section \<open>Properties\<close>

text \<open>However a build overrides a clock frequency, in at most one of the three units, the
  frequencies the header ends up with agree: a frequency in kHz or MHz is defined exactly when
  the one in Hz is an integer multiple, and then it is that multiple.\<close>

theorem clock_units_agree:
  assumes "one_unit f"
  shows "clock_khz dflt f = (if 1000 dvd clock_hz dflt f then Some (clock_hz dflt f div 1000) else None) \<and>
    clock_mhz dflt f =
      (if 1000000 dvd clock_hz dflt f then Some (clock_hz dflt f div 1000000) else None)"
proof -
  let ?h = "clock_hz dflt f"
  have khz: "clock_khz dflt f = (if 1000 dvd ?h then Some (?h div 1000) else None)"
    using assms by (auto simp: one_unit_def clock_khz_def clock_hz_def split: option.splits if_splits)
  have "(1000 * 1000 dvd ?h) = (1000 dvd ?h \<and> 1000 dvd ?h div 1000)"
    by (metis dvd_div_iff_mult dvd_mult_left mult.commute zero_neq_numeral)
  moreover have "flag_mhz f = Some v \<Longrightarrow> ?h = v * 1000000" for v
    using assms by (auto simp: one_unit_def clock_hz_def split: option.splits if_splits)
  ultimately have "clock_mhz dflt f = (if 1000000 dvd ?h then Some (?h div 1000000) else None)"
    unfolding clock_mhz_def khz
    by (auto split: option.splits simp: div_mult2_eq [symmetric] mod_eq_0_iff_dvd)
  with khz show ?thesis by blast
qed

theorem clock_units_agree_witness:
  "let f = \<lparr>flag_hz = None, flag_khz = None, flag_mhz = Some 133\<rparr>
   in clock_khz 125000000 f = Some 133000 \<and> clock_mhz 125000000 f = Some 133"
  using clock_units_agree [of "\<lparr>flag_hz = None, flag_khz = None, flag_mhz = Some 133\<rparr>" 125000000]
  by (simp add: one_unit_def clock_hz_def)

text \<open>The constants the programs hard-wire are those of the header. On completed runs of
  the bring-up and of the switch to the PLL, the divider of the timer tick is the crystal's
  frequency in MHz, and the feedback and post dividers turn the crystal into the system
  clock; the reference count of the frequency counter is the crystal in kHz; and the chip
  descriptor has the header's numbers of cores, pins, PIO blocks and PWM slices.\<close>

theorem programs_match_platform:
  assumes "board_init (logged D) s = Some t" and "sys_clock_125mhz (logged D) t = Some u"
  shows "(\<exists>v. Write (WATCHDOG_BASE + 0x2C) v \<in> set (log t) \<and> clock_mhz XOSC_HZ no_flags = Some (unat (take_bit 9 v))) \<and>
    (\<exists>fb pd. Write (PLL_SYS_BASE + 0x08) fb \<in> set (log u) \<and> Write (PLL_SYS_BASE + 0x0C) pd \<in> set (log u) \<and>
      XOSC_HZ * unat fb = SYS_CLK_HZ * (unat (drop_bit 16 pd AND 7) * unat (drop_bit 12 pd AND 7))) \<and>
    clock_khz XOSC_HZ no_flags = Some (unat XOSC_KHZ) \<and>
    chip_NUM_CORES RP2040 = NUM_CORES \<and> chip_NUM_GPIOS RP2040 = NUM_BANK0_GPIOS \<and>
    chip_NUM_PIO_BLOCKS RP2040 = NUM_PIOS \<and> chip_NUM_PWM_SLICES RP2040 = NUM_PWM_SLICES"
proof -
  obtain t4 where "t = wr (logged D) 0x4005802C 0x20C t4"
    using assms(1) unfolding board_init_def Let_def init_consts by (auto simp: bind_eq_Some_conv)
  then have "Write (WATCHDOG_BASE + 0x2C) 0x20C \<in> set (log t)"
    by (simp add: log_wr sram_eval addressmap)
  moreover have "take_bit 9 (0x20C :: u32) = 12" by code_simp
  ultimately have tick: "\<exists>v. Write (WATCHDOG_BASE + 0x2C) v \<in> set (log t) \<and>
      clock_mhz XOSC_HZ no_flags = Some (unat (take_bit 9 v))"
    by (intro exI [of _ "0x20C"]) (simp add: clock_mhz_def clock_khz_def clock_hz_def no_flags_def platform_defs)
  obtain u1 u2 where "poll (logged D) 0x40028000 (\<lambda>v. v AND 0x80000000 \<noteq> 0)
      (wr (logged D) 0x4002B004 0x21 (wr (logged D) 0x40028008 125 u1)) = Some u2"
    and "poll (logged D) 0x40008044 (\<lambda>v. v = 2) (wr (logged D) 0x4000A03C 1 (wr (logged D) 0x4000803C 0
      (wr (logged D) 0x4002B004 8 (wr (logged D) 0x4002800C 0x62000 u2)))) = Some u"
    using assms(2) unfolding sys_clock_125mhz_def Let_def init_consts
    by (auto simp: bind_eq_Some_conv)
  note this [THEN log_poll]
  then have "Write (PLL_SYS_BASE + 0x08) 125 \<in> set (log u)"
    "Write (PLL_SYS_BASE + 0x0C) 0x62000 \<in> set (log u)"
    by (auto simp: log_wr sram_eval addressmap)
  moreover have "drop_bit 16 (0x62000 :: u32) AND 7 = 6" "drop_bit 12 (0x62000 :: u32) AND 7 = 2"
    by code_simp+
  ultimately have pll: "\<exists>fb pd. Write (PLL_SYS_BASE + 0x08) fb \<in> set (log u) \<and>
      Write (PLL_SYS_BASE + 0x0C) pd \<in> set (log u) \<and>
      XOSC_HZ * unat fb = SYS_CLK_HZ * (unat (drop_bit 16 pd AND 7) * unat (drop_bit 12 pd AND 7))"
    by (intro exI [of _ 125] exI [of _ "0x62000"]) (simp add: platform_defs clock_hz_def no_flags_def)
  show ?thesis
    using tick pll by (simp add: clock_khz_def clock_hz_def no_flags_def platform_defs RP2040_def XOSC_KHZ_def)
qed

theorem programs_match_platform_witness:
  "\<exists>t u. board_init (logged ready_device) \<lparr>ram = \<lambda>_. 0, dev = ((0, 0), [])\<rparr> = Some t \<and>
     sys_clock_125mhz (logged ready_device) t = Some u \<and>
     clock_khz XOSC_HZ no_flags = Some (unat XOSC_KHZ)"
proof -
  have "bringup_answers (logged ready_device)" "pll_answers (logged ready_device)"
    using ready_hardware by (simp_all add: bringup_answers_def pll_answers_def acks_logged)
  then obtain t u where "board_init (logged ready_device) \<lparr>ram = \<lambda>_. 0, dev = ((0, 0), [])\<rparr> = Some t"
    and "sys_clock_125mhz (logged ready_device) t = Some u"
    using board_init_returns sys_clock_125mhz_returns unfolding returns_def by blast
  with programs_match_platform [OF this] show ?thesis by blast
qed

end
