(* ===== verification/Boot2.thy ===== *)
theory Boot2
  imports Board RegsSSI RegsPadsQspi RegsM0plus
begin

text \<open>
  The second-stage boot loader \<^verbatim>\<open>runtime/boot2/boot2_w25q080.S\<close> with its helpers
  \<^verbatim>\<open>boot2_helpers/*.S\<close>: it sets the flash pads, switches the flash to quad mode when it is
  not yet, issues one read that leaves the flash in continuous mode, and configures the SSI to
  translate bus reads into such transfers. Each block between labels is a definition; register
  names, fields and values are those of the register headers. The values saved on the stack
  are the arguments that a definition does not change. What the SSI demands of its programmer
  is a state machine on the log of accesses.
\<close>

section \<open>Constants\<close>

text \<open>\<^verbatim>\<open>R_F_LSB\<close>, \<^verbatim>\<open>R_F_BITS\<close> and \<^verbatim>\<open>R_F_VALUE_V\<close> of the headers.\<close>

named_theorems boot2_consts \<open>the constants of the boot loader\<close>

definition reg_fld :: "hw_reg \<Rightarrow> string \<Rightarrow> hw_field" where
  "reg_fld r f = hd (filter (\<lambda>x. fld_name x = f) (reg_fields r))"

definition fld_value :: "hw_field \<Rightarrow> string \<Rightarrow> u32" where
  "fld_value f v = the (map_of (fld_values f) v)"

definition fld_put :: "hw_reg \<Rightarrow> string \<Rightarrow> u32 \<Rightarrow> u32" where
  "fld_put r f v = push_bit (fld_lsb (reg_fld r f)) v"

definition FRAME_FORMAT :: u32 where [boot2_consts]:
  "FRAME_FORMAT = fld_value (reg_fld SSI_CTRLR0 ''SPI_FRF'') ''QUAD''"
definition CMD_READ :: u32 where [boot2_consts]: "CMD_READ = 0xEB"
definition MODE_CONTINUOUS_READ :: u32 where [boot2_consts]: "MODE_CONTINUOUS_READ = 0xA0"
definition ADDR_L :: u32 where [boot2_consts]: "ADDR_L = 8"
definition WAIT_CYCLES :: u32 where [boot2_consts]: "WAIT_CYCLES = 4"
definition CMD_WRITE_ENABLE :: u32 where [boot2_consts]: "CMD_WRITE_ENABLE = 0x06"
definition CMD_READ_STATUS :: u32 where [boot2_consts]: "CMD_READ_STATUS = 0x05"
definition CMD_READ_STATUS2 :: u32 where [boot2_consts]: "CMD_READ_STATUS2 = 0x35"
definition CMD_WRITE_STATUS :: u32 where [boot2_consts]: "CMD_WRITE_STATUS = 0x01"
definition SREG_DATA :: u32 where [boot2_consts]: "SREG_DATA = 0x02"

definition CTRL0_SPI_TXRX :: u32 where [boot2_consts]:
  "CTRL0_SPI_TXRX = fld_put SSI_CTRLR0 ''DFS_32'' 7 OR
     fld_put SSI_CTRLR0 ''TMOD'' (fld_value (reg_fld SSI_CTRLR0 ''TMOD'') ''TX_AND_RX'')"

definition CTRLR0_ENTER_XIP :: u32 where [boot2_consts]:
  "CTRLR0_ENTER_XIP = fld_put SSI_CTRLR0 ''SPI_FRF'' FRAME_FORMAT OR
     fld_put SSI_CTRLR0 ''DFS_32'' 31 OR
     fld_put SSI_CTRLR0 ''TMOD'' (fld_value (reg_fld SSI_CTRLR0 ''TMOD'') ''EEPROM_READ'')"

definition SPI_CTRLR0_ENTER_XIP :: u32 where [boot2_consts]:
  "SPI_CTRLR0_ENTER_XIP = fld_put SSI_SPI_CTRLR0 ''ADDR_L'' ADDR_L OR
     fld_put SSI_SPI_CTRLR0 ''WAIT_CYCLES'' WAIT_CYCLES OR
     fld_put SSI_SPI_CTRLR0 ''INST_L'' (fld_value (reg_fld SSI_SPI_CTRLR0 ''INST_L'') ''8B'') OR
     fld_put SSI_SPI_CTRLR0 ''TRANS_TYPE'' (fld_value (reg_fld SSI_SPI_CTRLR0 ''TRANS_TYPE'') ''1C2A'')"

definition SPI_CTRLR0_XIP :: u32 where [boot2_consts]:
  "SPI_CTRLR0_XIP = fld_put SSI_SPI_CTRLR0 ''XIP_CMD'' MODE_CONTINUOUS_READ OR
     fld_put SSI_SPI_CTRLR0 ''ADDR_L'' ADDR_L OR
     fld_put SSI_SPI_CTRLR0 ''WAIT_CYCLES'' WAIT_CYCLES OR
     fld_put SSI_SPI_CTRLR0 ''INST_L'' (fld_value (reg_fld SSI_SPI_CTRLR0 ''INST_L'') ''NONE'') OR
     fld_put SSI_SPI_CTRLR0 ''TRANS_TYPE'' (fld_value (reg_fld SSI_SPI_CTRLR0 ''TRANS_TYPE'') ''2C2A'')"

section \<open>The code\<close>

definition ssi_wr :: "'d device \<Rightarrow> hw_reg \<Rightarrow> u32 \<Rightarrow> 'd mach \<Rightarrow> 'd mach" where
  "ssi_wr D r v = wr D (XIP_SSI_BASE + reg_offset r) v"

definition ssi_rd :: "'d device \<Rightarrow> hw_reg \<Rightarrow> 'd mach \<Rightarrow> u32 \<times> 'd mach" where
  "ssi_rd D r = rd D (XIP_SSI_BASE + reg_offset r)"

definition ssi_ready :: "u32 \<Rightarrow> bool" where
  "ssi_ready v \<longleftrightarrow> v AND fld_bits (reg_fld SSI_SR ''TFE'') \<noteq> 0 \<and>
     v AND fld_bits (reg_fld SSI_SR ''BUSY'') = 0"

definition wait_ssi_ready :: "'d device \<Rightarrow> 'd mach \<Rightarrow> 'd mach option" where
  "wait_ssi_ready D = poll D (XIP_SSI_BASE + reg_offset SSI_SR) ssi_ready"

definition read_flash_sreg :: "'d device \<Rightarrow> u32 \<Rightarrow> 'd mach \<Rightarrow> (u32 \<times> 'd mach) option" where
  "read_flash_sreg D cmd s = do {
     let s = ssi_wr D SSI_DR0 cmd s;
     let s = ssi_wr D SSI_DR0 cmd s;
     s \<leftarrow> wait_ssi_ready D s;
     let (_, s) = ssi_rd D SSI_DR0 s;
     Some (ssi_rd D SSI_DR0 s)
   }"

definition setup_pads :: "'d device \<Rightarrow> 'd mach \<Rightarrow> 'd mach" where
  "setup_pads D s =
     (let pad = \<lambda>r. PADS_QSPI_BASE + reg_offset r;
          s = wr D (pad PADS_QSPI_GPIO_QSPI_SCLK)
            (push_bit (fld_lsb (reg_fld PADS_QSPI_GPIO_QSPI_SCLK ''DRIVE'')) 2 OR
             fld_bits (reg_fld PADS_QSPI_GPIO_QSPI_SCLK ''SLEWFAST'')) s;
          (r0, s) = rd D (pad PADS_QSPI_GPIO_QSPI_SD0) s;
          r0 = r0 AND NOT (fld_bits (reg_fld PADS_QSPI_GPIO_QSPI_SD0 ''SCHMITT''));
          s = wr D (pad PADS_QSPI_GPIO_QSPI_SD0) r0 s;
          s = wr D (pad PADS_QSPI_GPIO_QSPI_SD1) r0 s;
          s = wr D (pad PADS_QSPI_GPIO_QSPI_SD2) r0 s
      in wr D (pad PADS_QSPI_GPIO_QSPI_SD3) r0 s)"

text \<open>The loop at label 1 of \<^verbatim>\<open>program_sregs\<close>.\<close>

partial_function (option) wait_write_done :: "'d device \<Rightarrow> 'd mach \<Rightarrow> 'd mach option" where
  "wait_write_done D s =
     Option.bind (read_flash_sreg D CMD_READ_STATUS s)
       (\<lambda>(r0, s). if r0 AND 1 \<noteq> 0 then wait_write_done D s else Some s)"

definition write_sregs :: "'d device \<Rightarrow> 'd mach \<Rightarrow> 'd mach option" where
  "write_sregs D s = do {
     let s = ssi_wr D SSI_DR0 CMD_WRITE_ENABLE s;
     s \<leftarrow> wait_ssi_ready D s;
     let (_, s) = ssi_rd D SSI_DR0 s;
     let s = ssi_wr D SSI_DR0 CMD_WRITE_STATUS s;
     let s = ssi_wr D SSI_DR0 0 s;
     let s = ssi_wr D SSI_DR0 SREG_DATA s;
     s \<leftarrow> wait_ssi_ready D s;
     let (_, s) = ssi_rd D SSI_DR0 s;
     let (_, s) = ssi_rd D SSI_DR0 s;
     let (_, s) = ssi_rd D SSI_DR0 s;
     wait_write_done D s
   }"

definition program_sregs :: "'d device \<Rightarrow> 'd mach \<Rightarrow> 'd mach option" where
  "program_sregs D s = do {
     let s = ssi_wr D SSI_CTRLR0 CTRL0_SPI_TXRX s;
     let s = ssi_wr D SSI_SSIENR 1 s;
     (r0, s) \<leftarrow> read_flash_sreg D CMD_READ_STATUS2 s;
     s \<leftarrow> (if r0 = SREG_DATA then Some s else write_sregs D s);
     Some (ssi_wr D SSI_SSIENR 0 s)
   }"

definition dummy_read :: "'d device \<Rightarrow> 'd mach \<Rightarrow> 'd mach option" where
  "dummy_read D s = do {
     let s = ssi_wr D SSI_CTRLR0 CTRLR0_ENTER_XIP s;
     let s = ssi_wr D SSI_CTRLR1 0 s;
     let s = ssi_wr D SSI_SPI_CTRLR0 SPI_CTRLR0_ENTER_XIP s;
     let s = ssi_wr D SSI_SSIENR 1 s;
     let s = ssi_wr D SSI_DR0 CMD_READ s;
     let s = ssi_wr D SSI_DR0 MODE_CONTINUOUS_READ s;
     s \<leftarrow> wait_ssi_ready D s;
     Some (ssi_wr D SSI_SSIENR 0 s)
   }"

definition configure_ssi :: "'d device \<Rightarrow> 'd mach \<Rightarrow> 'd mach" where
  "configure_ssi D s =
     (let s = ssi_wr D SSI_SPI_CTRLR0 SPI_CTRLR0_XIP s in ssi_wr D SSI_SSIENR 1 s)"

text \<open>
  How the loader leaves: back to the caller, or into the flash image with its stack pointer
  and its reset handler.
\<close>

datatype boot_exit = Return_to u32 | Vector u32 u32

definition check_return :: "'d device \<Rightarrow> u32 \<Rightarrow> 'd mach \<Rightarrow> boot_exit \<times> 'd mach" where
  "check_return D lr s =
     (if lr \<noteq> 0 then (Return_to lr, s)
      else (let table = XIP_BASE + 0x100;
                s = wr D (PPB_BASE + reg_offset M0PLUS_VTOR) table s;
                (r0, s) = rd D table s;
                (r1, s) = rd D (table + 4) s
            in (Vector r0 r1, s)))"

definition stage2_boot :: "u32 \<Rightarrow> 'd device \<Rightarrow> u32 \<Rightarrow> 'd mach \<Rightarrow> (boot_exit \<times> 'd mach) option" where
  "stage2_boot clkdiv D lr s = do {
     let s = setup_pads D s;
     let s = ssi_wr D SSI_SSIENR 0 s;
     let s = ssi_wr D SSI_BAUDR clkdiv s;
     let s = ssi_wr D SSI_RX_SAMPLE_DLY 1 s;
     s \<leftarrow> program_sregs D s;
     s \<leftarrow> dummy_read D s;
     let s = configure_ssi D s;
     Some (check_return D lr s)
   }"

section \<open>What the SSI demands\<close>

text \<open>
  A monitor of the accesses to the SSI. It may be configured only while it is disabled, and
  disabled only when its transfer is over; a frame may be sent only while it is enabled, and
  a received frame may be fetched only after the status register has shown that the transfer
  is over, and only as many as were sent. The monitor records the configuration and the
  frames; disabling clears the frames that are owed.
\<close>

record ssi_mon =
  mon_en :: bool
  mon_idle :: bool
  mon_owed :: nat
  mon_cfg :: "u32 \<Rightarrow> u32"
  mon_sent :: "u32 list"
  mon_got :: "u32 list"

definition ssi_config :: "u32 list" where
  "ssi_config = map (\<lambda>r. XIP_SSI_BASE + reg_offset r)
     [SSI_CTRLR0, SSI_CTRLR1, SSI_BAUDR, SSI_RX_SAMPLE_DLY, SSI_SPI_CTRLR0]"

fun mon_step :: "event \<Rightarrow> ssi_mon \<Rightarrow> ssi_mon option" where
  "mon_step (Write a v) m =
     (if a = XIP_SSI_BASE + reg_offset SSI_SSIENR
      then (if v AND 1 \<noteq> 0 then Some (m\<lparr>mon_en := True\<rparr>)
            else if mon_idle m then Some (m\<lparr>mon_en := False, mon_owed := 0\<rparr>) else None)
      else if a = XIP_SSI_BASE + reg_offset SSI_DR0
      then (if mon_en m
            then Some (m\<lparr>mon_idle := False, mon_owed := mon_owed m + 1, mon_sent := mon_sent m @ [v]\<rparr>)
            else None)
      else if a \<in> set ssi_config
      then (if mon_en m then None else Some (m\<lparr>mon_cfg := (mon_cfg m)(a := v)\<rparr>))
      else Some m)"
| "mon_step (Read a v) m =
     (if a = XIP_SSI_BASE + reg_offset SSI_SR then Some (m\<lparr>mon_idle := mon_idle m \<or> ssi_ready v\<rparr>)
      else if a = XIP_SSI_BASE + reg_offset SSI_DR0
      then (if mon_en m \<and> mon_idle m \<and> 0 < mon_owed m
            then Some (m\<lparr>mon_owed := mon_owed m - 1, mon_got := mon_got m @ [v]\<rparr>)
            else None)
      else Some m)"

definition mon_run :: "event list \<Rightarrow> ssi_mon \<Rightarrow> ssi_mon option" where
  "mon_run es m = fold (\<lambda>e x. Option.bind x (mon_step e)) es (Some m)"

definition mon_start :: "bool \<Rightarrow> (u32 \<Rightarrow> u32) \<Rightarrow> ssi_mon" where
  "mon_start e c = \<lparr>mon_en = e, mon_idle = True, mon_owed = 0, mon_cfg = c, mon_sent = [], mon_got = []\<rparr>"

text \<open>The monitor after the accesses logged so far.\<close>

definition mon :: "ssi_mon \<Rightarrow> ('d \<times> event list) mach \<Rightarrow> ssi_mon option" where
  "mon m0 s = mon_run (log s) m0"

lemma mon_run_Nil [simp]: "mon_run [] m = Some m"
  by (simp add: mon_run_def)

lemma mon_run_Cons [simp]: "mon_run (e # es) m = Option.bind (mon_step e m) (mon_run es)"
proof -
  have "fold (\<lambda>e x. Option.bind x (mon_step e)) es None = None" by (induction es) simp_all
  then show ?thesis by (simp add: mon_run_def split: Option.bind_split)
qed

lemma mon_run_append: "mon_run (es @ fs) m = Option.bind (mon_run es m) (mon_run fs)"
  by (induction es arbitrary: m) (simp_all split: Option.bind_split)

lemma mon_wr:
  "\<not> in_sram a \<Longrightarrow> mon m0 (wr (logged D) a v s) = Option.bind (mon m0 s) (mon_step (Write a v))"
  by (simp add: mon_def log_wr mon_run_append split: Option.bind_split)

lemma mon_rd:
  assumes "\<not> in_sram a" and "rd (logged D) a s = (v, t)"
  shows "mon m0 t = Option.bind (mon m0 s) (mon_step (Read a v))"
  using log_rd [OF assms] by (simp add: mon_def mon_run_append split: Option.bind_split)

section \<open>The monitor along the code\<close>

lemma boot2_addrs:
  "XIP_SSI_BASE + reg_offset SSI_SSIENR = 0x18000008" "XIP_SSI_BASE + reg_offset SSI_DR0 = 0x18000060"
  "XIP_SSI_BASE + reg_offset SSI_SR = 0x18000028" "XIP_SSI_BASE + reg_offset SSI_CTRLR0 = 0x18000000"
  "XIP_SSI_BASE + reg_offset SSI_CTRLR1 = 0x18000004" "XIP_SSI_BASE + reg_offset SSI_BAUDR = 0x18000014"
  "XIP_SSI_BASE + reg_offset SSI_RX_SAMPLE_DLY = 0x180000F0"
  "XIP_SSI_BASE + reg_offset SSI_SPI_CTRLR0 = 0x180000F4"
  "PADS_QSPI_BASE + reg_offset PADS_QSPI_GPIO_QSPI_SCLK = 0x40020004"
  "PADS_QSPI_BASE + reg_offset PADS_QSPI_GPIO_QSPI_SD0 = 0x40020008"
  "PADS_QSPI_BASE + reg_offset PADS_QSPI_GPIO_QSPI_SD1 = 0x4002000C"
  "PADS_QSPI_BASE + reg_offset PADS_QSPI_GPIO_QSPI_SD2 = 0x40020010"
  "PADS_QSPI_BASE + reg_offset PADS_QSPI_GPIO_QSPI_SD3 = 0x40020014"
  "PPB_BASE + reg_offset M0PLUS_VTOR = 0xE000ED08" "XIP_BASE + 0x100 = 0x10000100"
  by (simp_all add: addressmap ssi_defs pads_qspi_defs m0plus_defs hw_register_def)

lemma ssi_config_addrs: "ssi_config = [0x18000000, 0x18000004, 0x18000014, 0x180000F0, 0x180000F4]"
  by (simp add: ssi_config_def boot2_addrs)

lemmas mon_simps = boot2_addrs ssi_config_addrs sram_eval mon_wr

lemma wait_ssi_ready_mon:
  assumes "wait_ssi_ready (logged D) s = Some t" and "mon m0 s = Some m"
  shows "mon m0 t = Some (m\<lparr>mon_idle := True\<rparr>)"
proof -
  have "mon_run es m = Some (m\<lparr>mon_idle := True\<rparr>)" if "waits 0x18000028 ssi_ready es" for es m
    using that
    by (induction "0x18000028 :: u32" ssi_ready es arbitrary: m rule: waits.induct)
       (auto simp: boot2_addrs split: if_splits)
  with log_poll [OF assms(1) [unfolded wait_ssi_ready_def]] assms(2) show ?thesis
    by (auto simp: mon_def mon_run_append mon_simps)
qed

lemma read_flash_sreg_mon:
  assumes "read_flash_sreg (logged D) cmd s = Some (v, t)" and "mon m0 s = Some m" and "mon_en m"
  shows "\<exists>x. mon m0 t = Some (m\<lparr>mon_idle := True, mon_sent := mon_sent m @ [cmd, cmd],
    mon_got := mon_got m @ [x, v]\<rparr>)"
proof -
  let ?m = "m\<lparr>mon_idle := False, mon_owed := mon_owed m + 2, mon_sent := mon_sent m @ [cmd, cmd]\<rparr>"
  obtain s1 where "wait_ssi_ready (logged D) (ssi_wr (logged D) SSI_DR0 cmd (ssi_wr (logged D) SSI_DR0 cmd s)) = Some s1"
    and rest: "ssi_rd (logged D) SSI_DR0 (snd (ssi_rd (logged D) SSI_DR0 s1)) = (v, t)"
    using assms(1) by (auto simp: read_flash_sreg_def bind_eq_Some_conv split_beta)
  moreover have "mon m0 (ssi_wr (logged D) SSI_DR0 cmd (ssi_wr (logged D) SSI_DR0 cmd s)) = Some ?m"
    using assms(2,3) by (simp add: ssi_wr_def mon_simps)
  ultimately have s1: "mon m0 s1 = Some (?m\<lparr>mon_idle := True\<rparr>)" by (intro wait_ssi_ready_mon)
  obtain x s2 where s2: "ssi_rd (logged D) SSI_DR0 s1 = (x, s2)" by fastforce
  have dr0: "\<not> in_sram (XIP_SSI_BASE + reg_offset SSI_DR0)" by (simp add: mon_simps)
  have "mon m0 s2 = Some (?m\<lparr>mon_idle := True, mon_owed := mon_owed m + 1, mon_got := mon_got m @ [x]\<rparr>)"
    using mon_rd [OF dr0 s2 [unfolded ssi_rd_def], of m0] s1 assms(3) by (simp add: mon_simps)
  moreover have "rd (logged D) (XIP_SSI_BASE + reg_offset SSI_DR0) s2 = (v, t)"
    using rest s2 by (simp add: ssi_rd_def)
  ultimately show ?thesis using mon_rd [OF dr0, of D s2 v t m0] assms(3)
    by (intro exI [of _ x]) (simp add: mon_simps)
qed

lemma fetch_mon:
  assumes "mon m0 s = Some m" and "mon_en m" and "mon_idle m" and "0 < mon_owed m"
  shows "mon m0 (snd (ssi_rd (logged D) SSI_DR0 s)) = Some (m\<lparr>mon_owed := mon_owed m - 1,
    mon_got := mon_got m @ [fst (ssi_rd (logged D) SSI_DR0 s)]\<rparr>)"
proof -
  have "\<not> in_sram (XIP_SSI_BASE + reg_offset SSI_DR0)" by (simp add: mon_simps)
  then show ?thesis
    using mon_rd [of "XIP_SSI_BASE + reg_offset SSI_DR0" D s _ _ m0] assms
    by (simp add: ssi_rd_def prod_eq_iff mon_simps)
qed

lemma send_mon:
  "mon m0 s = Some m \<Longrightarrow> mon_en m \<Longrightarrow> mon m0 (ssi_wr (logged D) SSI_DR0 v s) =
     Some (m\<lparr>mon_idle := False, mon_owed := mon_owed m + 1, mon_sent := mon_sent m @ [v]\<rparr>)"
  by (simp add: ssi_wr_def mon_simps)

lemma wait_write_done_mon:
  assumes "wait_write_done (logged D) s = Some t" and "mon m0 s = Some m" and "mon_en m"
  shows "\<exists>n g. mon m0 t = Some (m\<lparr>mon_idle := True,
      mon_sent := mon_sent m @ concat (replicate (Suc n) [CMD_READ_STATUS, CMD_READ_STATUS]),
      mon_got := mon_got m @ g\<rparr>) \<and> g \<noteq> [] \<and> last g AND 1 = 0"
proof -
  let ?Q = "\<lambda>m t. \<exists>n g. mon m0 t = Some (m\<lparr>mon_idle := True,
      mon_sent := mon_sent m @ concat (replicate (Suc n) [CMD_READ_STATUS, CMD_READ_STATUS]),
      mon_got := mon_got m @ g\<rparr>) \<and> g \<noteq> [] \<and> last g AND 1 = 0"
  let ?P = "\<lambda>D' s t. D' = logged D \<longrightarrow> (\<forall>m. mon m0 s = Some m \<longrightarrow> mon_en m \<longrightarrow> ?Q m t)"
  have "?P (logged D) s t"
    using assms(1)
  proof (rule wait_write_done.raw_induct [where P = ?P, rotated], intro impI allI)
    fix f D' s t m
    assume IH: "\<And>D' s t. f D' s = Some t \<Longrightarrow> ?P D' s t"
      and run: "Option.bind (read_flash_sreg D' CMD_READ_STATUS s)
        (\<lambda>(r0, s). if r0 AND 1 \<noteq> 0 then f D' s else Some s) = Some t"
      and D': "D' = logged D" and m: "mon m0 s = Some m" "mon_en m"
    from run D' obtain v u where r: "read_flash_sreg (logged D) CMD_READ_STATUS s = Some (v, u)"
      and t: "(if v AND 1 \<noteq> 0 then f (logged D) u else Some u) = Some t"
      by (auto simp: bind_eq_Some_conv)
    from read_flash_sreg_mon [OF r m] obtain x where u: "mon m0 u = Some (m\<lparr>mon_idle := True,
        mon_sent := mon_sent m @ [CMD_READ_STATUS, CMD_READ_STATUS], mon_got := mon_got m @ [x, v]\<rparr>)"
      by blast
    show "?Q m t"
    proof (cases "v AND 1 = 0")
      case True
      then show ?thesis using t u by (intro exI [of _ 0] exI [of _ "[x, v]"]) simp
    next
      case False
      with t have "f (logged D) u = Some t" by simp
      from IH [OF this] u m(2) obtain n g where "mon m0 t = Some (m\<lparr>mon_idle := True,
          mon_sent := mon_sent m @ [CMD_READ_STATUS, CMD_READ_STATUS] @
            concat (replicate (Suc n) [CMD_READ_STATUS, CMD_READ_STATUS]),
          mon_got := mon_got m @ [x, v] @ g\<rparr>)" and "g \<noteq> []" "last g AND 1 = 0" by auto
      then show ?thesis by (intro exI [of _ "Suc n"] exI [of _ "[x, v] @ g"]) simp
    qed
  qed
  with assms(2,3) show ?thesis by blast
qed

lemma write_sregs_mon:
  assumes "write_sregs (logged D) s = Some t" and m: "mon m0 s = Some m" "mon_en m" "mon_owed m = 0"
  shows "\<exists>n g. mon m0 t = Some (m\<lparr>mon_idle := True, mon_owed := 0,
      mon_sent := mon_sent m @ [CMD_WRITE_ENABLE, CMD_WRITE_STATUS, 0, SREG_DATA] @
        concat (replicate (Suc n) [CMD_READ_STATUS, CMD_READ_STATUS]),
      mon_got := mon_got m @ g\<rparr>) \<and> g \<noteq> [] \<and> last g AND 1 = 0"
proof -
  let ?D = "logged D"
  obtain s1 s2 where
    s1: "wait_ssi_ready ?D (ssi_wr ?D SSI_DR0 CMD_WRITE_ENABLE s) = Some s1" and
    s2: "wait_ssi_ready ?D (ssi_wr ?D SSI_DR0 SREG_DATA (ssi_wr ?D SSI_DR0 0
      (ssi_wr ?D SSI_DR0 CMD_WRITE_STATUS (snd (ssi_rd ?D SSI_DR0 s1))))) = Some s2" and
    fin: "wait_write_done ?D (snd (ssi_rd ?D SSI_DR0 (snd (ssi_rd ?D SSI_DR0
      (snd (ssi_rd ?D SSI_DR0 s2)))))) = Some t"
    using assms(1) by (auto simp: write_sregs_def bind_eq_Some_conv split_beta)
  note m1 = wait_ssi_ready_mon [OF s1 send_mon [OF m(1,2)]]
  have "mon m0 (snd (ssi_rd ?D SSI_DR0 s1)) = Some (m\<lparr>mon_idle := True,
      mon_sent := mon_sent m @ [CMD_WRITE_ENABLE], mon_got := mon_got m @ [fst (ssi_rd ?D SSI_DR0 s1)]\<rparr>)"
    using fetch_mon [OF m1] m by simp
  from send_mon [OF send_mon [OF send_mon [OF this]]] m
  have m2: "mon m0 (ssi_wr ?D SSI_DR0 SREG_DATA (ssi_wr ?D SSI_DR0 0
      (ssi_wr ?D SSI_DR0 CMD_WRITE_STATUS (snd (ssi_rd ?D SSI_DR0 s1))))) =
    Some (m\<lparr>mon_idle := False, mon_owed := 3,
      mon_sent := mon_sent m @ [CMD_WRITE_ENABLE, CMD_WRITE_STATUS, 0, SREG_DATA],
      mon_got := mon_got m @ [fst (ssi_rd ?D SSI_DR0 s1)]\<rparr>)" by simp
  note m3 = wait_ssi_ready_mon [OF s2 m2]
  define g where "g = [fst (ssi_rd ?D SSI_DR0 s1), fst (ssi_rd ?D SSI_DR0 s2),
    fst (ssi_rd ?D SSI_DR0 (snd (ssi_rd ?D SSI_DR0 s2))),
    fst (ssi_rd ?D SSI_DR0 (snd (ssi_rd ?D SSI_DR0 (snd (ssi_rd ?D SSI_DR0 s2)))))]"
  have "mon m0 (snd (ssi_rd ?D SSI_DR0 (snd (ssi_rd ?D SSI_DR0 (snd (ssi_rd ?D SSI_DR0 s2)))))) =
      Some (m\<lparr>mon_idle := True, mon_owed := 0,
        mon_sent := mon_sent m @ [CMD_WRITE_ENABLE, CMD_WRITE_STATUS, 0, SREG_DATA],
        mon_got := mon_got m @ g\<rparr>)"
    using fetch_mon [OF fetch_mon [OF fetch_mon [OF m3, where D = D], where D = D], where D = D] m
    by (simp add: g_def)
  moreover define M where "M = m\<lparr>mon_idle := True, mon_owed := 0,
        mon_sent := mon_sent m @ [CMD_WRITE_ENABLE, CMD_WRITE_STATUS, 0, SREG_DATA],
        mon_got := mon_got m @ g\<rparr>"
  ultimately have "mon m0 (snd (ssi_rd ?D SSI_DR0 (snd (ssi_rd ?D SSI_DR0 (snd (ssi_rd ?D SSI_DR0 s2)))))) =
      Some M" "mon_en M" using m by simp_all
  from wait_write_done_mon [OF fin this] obtain n h where
    "mon m0 t = Some (M\<lparr>mon_idle := True,
      mon_sent := mon_sent M @ concat (replicate (Suc n) [CMD_READ_STATUS, CMD_READ_STATUS]),
      mon_got := mon_got M @ h\<rparr>)" "h \<noteq> []" "last h AND 1 = 0" by blast
  then show ?thesis by (intro exI [of _ n] exI [of _ "g @ h"]) (simp add: M_def)
qed

text \<open>The status phase: what is sent depends on the second status register.\<close>

definition status_frames :: "nat \<Rightarrow> u32 \<Rightarrow> u32 list" where
  "status_frames n v = [CMD_READ_STATUS2, CMD_READ_STATUS2] @
     (if v = SREG_DATA then []
      else [CMD_WRITE_ENABLE, CMD_WRITE_STATUS, 0, SREG_DATA] @
        concat (replicate (Suc n) [CMD_READ_STATUS, CMD_READ_STATUS]))"

lemma configure_mon:
  assumes "mon m0 s = Some m" and "\<not> mon_en m" and "XIP_SSI_BASE + reg_offset r \<in> set ssi_config"
  shows "mon m0 (ssi_wr (logged D) r v s) =
    Some (m\<lparr>mon_cfg := (mon_cfg m)(XIP_SSI_BASE + reg_offset r := v)\<rparr>)"
  using assms by (auto simp: ssi_wr_def mon_simps)

lemma enable_mon:
  "mon m0 s = Some m \<Longrightarrow> mon m0 (ssi_wr (logged D) SSI_SSIENR 1 s) = Some (m\<lparr>mon_en := True\<rparr>)"
  "mon m0 s = Some m \<Longrightarrow> mon_idle m \<Longrightarrow>
     mon m0 (ssi_wr (logged D) SSI_SSIENR 0 s) = Some (m\<lparr>mon_en := False, mon_owed := 0\<rparr>)"
  by (simp_all add: ssi_wr_def mon_simps)

lemma program_sregs_mon:
  assumes "program_sregs (logged D) s = Some t" and m: "mon m0 s = Some m" "\<not> mon_en m" "mon_owed m = 0"
  shows "\<exists>n x v g. mon m0 t = Some (m\<lparr>mon_idle := True, mon_owed := 0,
      mon_cfg := (mon_cfg m)(XIP_SSI_BASE + reg_offset SSI_CTRLR0 := CTRL0_SPI_TXRX),
      mon_sent := mon_sent m @ status_frames n v, mon_got := mon_got m @ [x, v] @ g\<rparr>) \<and>
    (v \<noteq> SREG_DATA \<longrightarrow> g \<noteq> [] \<and> last g AND 1 = 0)"
proof -
  let ?D = "logged D" and ?s = "ssi_wr (logged D) SSI_SSIENR 1 (ssi_wr (logged D) SSI_CTRLR0 CTRL0_SPI_TXRX s)"
  let ?m = "m\<lparr>mon_en := True,
      mon_cfg := (mon_cfg m)(XIP_SSI_BASE + reg_offset SSI_CTRLR0 := CTRL0_SPI_TXRX)\<rparr>"
  obtain v u w where r: "read_flash_sreg ?D CMD_READ_STATUS2 ?s = Some (v, u)"
    and w: "(if v = SREG_DATA then Some u else write_sregs ?D u) = Some w"
    and t: "t = ssi_wr ?D SSI_SSIENR 0 w"
    using assms(1) by (auto simp: program_sregs_def bind_eq_Some_conv)
  have "XIP_SSI_BASE + reg_offset SSI_CTRLR0 \<in> set ssi_config" by (simp add: ssi_config_def)
  then have "mon m0 ?s = Some ?m"
    using enable_mon(1) [OF configure_mon [OF m(1,2)]] by simp
  from read_flash_sreg_mon [OF r this] obtain x where u: "mon m0 u = Some (?m\<lparr>mon_idle := True,
      mon_sent := mon_sent m @ [CMD_READ_STATUS2, CMD_READ_STATUS2], mon_got := mon_got m @ [x, v]\<rparr>)"
    by auto
  show ?thesis
  proof (cases "v = SREG_DATA")
    case True
    with w enable_mon(2) [OF u] m t show ?thesis
      by (intro exI [of _ 0] exI [of _ x] exI [of _ v] exI [of _ "[]"]) (simp add: status_frames_def)
  next
    case False
    with w have "write_sregs ?D u = Some w" by simp
    from write_sregs_mon [OF this u] m obtain n g where "mon m0 w = Some (?m\<lparr>mon_idle := True, mon_owed := 0,
        mon_sent := mon_sent m @ status_frames n v, mon_got := mon_got m @ [x, v] @ g\<rparr>)"
        "g \<noteq> []" "last g AND 1 = 0"
      using False by (auto simp: status_frames_def)
    with enable_mon(2) [OF this(1)] m t show ?thesis
      by (intro exI [of _ n] exI [of _ x] exI [of _ v] exI [of _ g]) simp
  qed
qed

lemma config_regs:
  "XIP_SSI_BASE + reg_offset SSI_CTRLR0 \<in> set ssi_config"
  "XIP_SSI_BASE + reg_offset SSI_CTRLR1 \<in> set ssi_config"
  "XIP_SSI_BASE + reg_offset SSI_BAUDR \<in> set ssi_config"
  "XIP_SSI_BASE + reg_offset SSI_RX_SAMPLE_DLY \<in> set ssi_config"
  "XIP_SSI_BASE + reg_offset SSI_SPI_CTRLR0 \<in> set ssi_config"
  by (simp_all add: ssi_config_def)

lemma dummy_read_mon:
  assumes "dummy_read (logged D) s = Some t" and m: "mon m0 s = Some m" "\<not> mon_en m"
  shows "mon m0 t = Some (m\<lparr>mon_en := False, mon_idle := True, mon_owed := 0,
      mon_cfg := (mon_cfg m)(0x18000000 := CTRLR0_ENTER_XIP, 0x18000004 := 0,
        0x180000F4 := SPI_CTRLR0_ENTER_XIP),
      mon_sent := mon_sent m @ [CMD_READ, MODE_CONTINUOUS_READ]\<rparr>)"
proof -
  let ?D = "logged D"
  let ?s = "ssi_wr ?D SSI_SPI_CTRLR0 SPI_CTRLR0_ENTER_XIP (ssi_wr ?D SSI_CTRLR1 0
      (ssi_wr ?D SSI_CTRLR0 CTRLR0_ENTER_XIP s))"
  obtain u where u: "wait_ssi_ready ?D (ssi_wr ?D SSI_DR0 MODE_CONTINUOUS_READ
      (ssi_wr ?D SSI_DR0 CMD_READ (ssi_wr ?D SSI_SSIENR 1 ?s))) = Some u"
    and t: "t = ssi_wr ?D SSI_SSIENR 0 u"
    using assms(1) by (auto simp: dummy_read_def bind_eq_Some_conv)
  have "mon m0 ?s = Some (m\<lparr>mon_cfg := (mon_cfg m)(0x18000000 := CTRLR0_ENTER_XIP, 0x18000004 := 0,
        0x180000F4 := SPI_CTRLR0_ENTER_XIP)\<rparr>)"
    using configure_mon [OF configure_mon [OF configure_mon [OF m config_regs(1), where D = D] _ config_regs(2),
        where D = D] _ config_regs(5), where D = D] m
    by (simp add: boot2_addrs)
  from enable_mon(2) [OF wait_ssi_ready_mon [OF u send_mon [OF send_mon [OF enable_mon(1) [OF this]]]]]
  show ?thesis by (simp add: t)
qed

lemma setup_pads_mon: "mon m0 (setup_pads (logged D) s) = mon m0 s"
proof -
  have "mon m0 (wr (logged D) a v s) = mon m0 s"
    if "a \<in> {0x40020004, 0x40020008, 0x4002000C, 0x40020010, 0x40020014}" for a v s
    using that by (auto simp: mon_simps split: Option.bind_split)
  moreover have "mon m0 (snd (rd (logged D) 0x40020008 s)) = mon m0 s" for s
    using mon_rd [of "0x40020008" D s _ _ m0]
    by (cases "rd (logged D) 0x40020008 s") (simp add: mon_simps split: Option.bind_split)
  ultimately show ?thesis by (simp add: setup_pads_def boot2_addrs Let_def split_beta)
qed

lemma check_return_mon: "mon m0 (snd (check_return (logged D) lr s)) = mon m0 s"
proof -
  have "mon m0 (wr (logged D) 0xE000ED08 v s) = mon m0 s" for v s
    by (simp add: mon_simps split: Option.bind_split)
  moreover have "mon m0 (snd (rd (logged D) a s)) = mon m0 s" if "a \<in> {0x10000100, 0x10000104}" for a s
    using mon_rd [of a D s _ _ m0] that
    by (cases "rd (logged D) a s") (auto simp: mon_simps split: Option.bind_split)
  ultimately show ?thesis
    by (simp add: check_return_def boot2_addrs Let_def split_beta)
qed

text \<open>The whole loader, from an empty log.\<close>

lemma stage2_mon:
  assumes "stage2_boot clkdiv (logged D) lr s = Some (x, t)" and "log s = []"
  shows "\<exists>n a v g. mon_run (log t) (mon_start e c) = Some \<lparr>mon_en = True, mon_idle = True, mon_owed = 0,
      mon_cfg = c(0x18000014 := clkdiv, 0x180000F0 := 1, 0x18000000 := CTRLR0_ENTER_XIP,
        0x18000004 := 0, 0x180000F4 := SPI_CTRLR0_XIP),
      mon_sent = status_frames n v @ [CMD_READ, MODE_CONTINUOUS_READ],
      mon_got = [a, v] @ g\<rparr> \<and> (v \<noteq> SREG_DATA \<longrightarrow> g \<noteq> [] \<and> last g AND 1 = 0)"
proof -
  let ?D = "logged D" and ?m = "mon_start e c"
  let ?s = "ssi_wr ?D SSI_RX_SAMPLE_DLY 1 (ssi_wr ?D SSI_BAUDR clkdiv (ssi_wr ?D SSI_SSIENR 0 (setup_pads ?D s)))"
  obtain u w where u: "program_sregs ?D ?s = Some u" and w: "dummy_read ?D u = Some w"
    and t: "t = snd (check_return ?D lr (configure_ssi ?D w))"
    using assms(1) by (auto simp: stage2_boot_def bind_eq_Some_conv)
  define M where "M = ?m\<lparr>mon_en := False, mon_cfg := c(0x18000014 := clkdiv, 0x180000F0 := 1)\<rparr>"
  have "mon ?m s = Some ?m" using assms(2) by (simp add: mon_def)
  then have "mon ?m ?s = Some M"
    using configure_mon [OF configure_mon [OF enable_mon(2) [where s = "setup_pads ?D s", where D = D]
      _ config_regs(3), where D = D] _ config_regs(4), where D = D]
    by (simp add: setup_pads_mon mon_start_def boot2_addrs M_def)
  from program_sregs_mon [OF u this] obtain n a v g where m1: "mon ?m u = Some (M\<lparr>mon_idle := True, mon_owed := 0,
      mon_cfg := (mon_cfg M)(XIP_SSI_BASE + reg_offset SSI_CTRLR0 := CTRL0_SPI_TXRX),
      mon_sent := mon_sent M @ status_frames n v, mon_got := mon_got M @ [a, v] @ g\<rparr>)"
    and g: "v \<noteq> SREG_DATA \<longrightarrow> g \<noteq> [] \<and> last g AND 1 = 0"
    by (auto simp: M_def mon_start_def)
  from dummy_read_mon [OF w m1] have "mon ?m (configure_ssi ?D w) = Some \<lparr>mon_en = True, mon_idle = True,
      mon_owed = 0, mon_cfg = c(0x18000014 := clkdiv, 0x180000F0 := 1, 0x18000000 := CTRLR0_ENTER_XIP,
        0x18000004 := 0, 0x180000F4 := SPI_CTRLR0_XIP),
      mon_sent = status_frames n v @ [CMD_READ, MODE_CONTINUOUS_READ], mon_got = [a, v] @ g\<rparr>"
    using enable_mon(1) [OF configure_mon [OF _ _ config_regs(5), where D = D], where D = D]
    by (simp add: configure_ssi_def M_def mon_start_def boot2_addrs fun_upd_twist)
  then show ?thesis using g unfolding t mon_def [symmetric] check_return_mon by blast
qed

section \<open>Termination\<close>

text \<open>
  What the loader relies on: the SSI's transfers end, and the flash finishes a write, so that
  repeated reads of its status register at last show the busy bit clear.
\<close>

fun nth_status :: "'d device \<Rightarrow> nat \<Rightarrow> 'd mach \<Rightarrow> u32 option" where
  "nth_status D 0 s = map_option fst (read_flash_sreg D CMD_READ_STATUS s)"
| "nth_status D (Suc k) s =
     Option.bind (read_flash_sreg D CMD_READ_STATUS s) (\<lambda>(_, s). nth_status D k s)"

definition flash_answers :: "'d device \<Rightarrow> bool" where
  "flash_answers D \<longleftrightarrow> (\<forall>d. \<exists>n. ssi_ready (nth_read D 0x18000028 n d)) \<and>
     (\<forall>s. \<exists>k v. nth_status D k s = Some v \<and> v AND 1 = 0)"

lemma ssi_wr_ram: "XIP_SSI_BASE + reg_offset r \<in> {0x18000000, 0x18000004, 0x18000008, 0x18000014, 0x18000060, 0x180000F0, 0x180000F4}
    \<Longrightarrow> ram (ssi_wr D r v s) = ram s"
  by (auto simp: ssi_wr_def ram_wr sram_eval)

lemma ssi_ram [simp]:
  "ram (ssi_wr D SSI_DR0 v s) = ram s" "ram (ssi_wr D SSI_SSIENR v s) = ram s"
  "ram (ssi_wr D SSI_CTRLR0 v s) = ram s" "ram (ssi_wr D SSI_CTRLR1 v s) = ram s"
  "ram (ssi_wr D SSI_BAUDR v s) = ram s" "ram (ssi_wr D SSI_RX_SAMPLE_DLY v s) = ram s"
  "ram (ssi_wr D SSI_SPI_CTRLR0 v s) = ram s" "ram (snd (ssi_rd D r s)) = ram s"
  by (simp_all add: ssi_wr_ram boot2_addrs ssi_rd_def)

lemma wait_ssi_ready_returns:
  "flash_answers D \<Longrightarrow> ram u = ram s \<Longrightarrow> returns (wait_ssi_ready D u) s"
  unfolding wait_ssi_ready_def boot2_addrs
  by (rule returns_poll_settled) (auto simp: flash_answers_def sram_eval)

lemma read_flash_sreg_returns:
  assumes "flash_answers D"
  shows "\<exists>v t. read_flash_sreg D cmd s = Some (v, t) \<and> ram t = ram s"
proof -
  obtain u where "wait_ssi_ready D (ssi_wr D SSI_DR0 cmd (ssi_wr D SSI_DR0 cmd s)) = Some u" "ram u = ram s"
    using wait_ssi_ready_returns [OF assms, of _ s] by (metis returns_def ssi_ram(1))
  then show ?thesis
    by (intro exI [of _ "fst (ssi_rd D SSI_DR0 (snd (ssi_rd D SSI_DR0 u)))"]
        exI [of _ "snd (ssi_rd D SSI_DR0 (snd (ssi_rd D SSI_DR0 u)))"])
      (simp add: read_flash_sreg_def split_beta)
qed

lemma wait_write_done_returns:
  assumes "flash_answers D"
  shows "returns (wait_write_done D s) s"
proof -
  have "returns (wait_write_done D s) s" if "nth_status D k s = Some v" "v AND 1 = 0" for k v
    using that
  proof (induction k arbitrary: s)
    case 0
    obtain w t where "read_flash_sreg D CMD_READ_STATUS s = Some (w, t)" "ram t = ram s"
      using read_flash_sreg_returns [OF assms] by blast
    with 0 show ?case by (subst wait_write_done.simps) (simp add: returns_def)
  next
    case (Suc k)
    obtain w t where r: "read_flash_sreg D CMD_READ_STATUS s = Some (w, t)" "ram t = ram s"
      using read_flash_sreg_returns [OF assms] by blast
    with Suc.prems(1) have "nth_status D k t = Some v" by simp
    from Suc.IH [OF this Suc.prems(2)] r show ?case
      by (subst wait_write_done.simps) (auto simp: returns_def)
  qed
  with assms show ?thesis unfolding flash_answers_def by blast
qed

lemma write_sregs_returns: "flash_answers D \<Longrightarrow> returns (write_sregs D s) s"
  unfolding write_sregs_def Let_def split_beta
  by (intro returns_bind wait_ssi_ready_returns) (simp_all add: returns_def, metis returns_def ssi_ram(8) wait_write_done_returns)

lemma program_sregs_returns:
  assumes "flash_answers D"
  shows "returns (program_sregs D s) s"
proof -
  obtain v t where r: "read_flash_sreg D CMD_READ_STATUS2
      (ssi_wr D SSI_SSIENR 1 (ssi_wr D SSI_CTRLR0 CTRL0_SPI_TXRX s)) = Some (v, t)" "ram t = ram s"
    using read_flash_sreg_returns [OF assms] by (metis ssi_ram(2,3))
  moreover obtain u where "write_sregs D t = Some u" "ram u = ram t"
    using write_sregs_returns [OF assms] unfolding returns_def by blast
  ultimately show ?thesis by (simp add: program_sregs_def returns_def)
qed

lemma dummy_read_returns: "flash_answers D \<Longrightarrow> returns (dummy_read D s) s"
  unfolding dummy_read_def Let_def
  by (intro returns_bind wait_ssi_ready_returns returns_Some) simp_all

text \<open>A flash that is always ready and answers every frame with zero.\<close>

definition idle_flash :: "unit device" where
  "idle_flash = const_device (\<lambda>a. if a = 0x18000028 then 4 else 0)"

lemma ssi_ready_4: "ssi_ready 4"
  by code_simp

lemma ready_flash_answers:
  assumes "\<And>d. fst (dread D d 0x18000028) = 4" and "\<And>d. fst (dread D d 0x18000060) = 0"
  shows "flash_answers D"
proof -
  have "poll D 0x18000028 ssi_ready s = Some (snd (rd D 0x18000028 s))" for s
    by (subst poll.simps) (simp add: rd_dev sram_eval assms(1) ssi_ready_4 split_beta)
  moreover have "fst (rd D 0x18000060 s) = 0" for s
    by (simp add: rd_dev sram_eval assms(2))
  ultimately have "nth_status D 0 s = Some 0" for s
    by (simp add: read_flash_sreg_def wait_ssi_ready_def boot2_addrs ssi_rd_def split_beta)
  moreover have "\<exists>n. ssi_ready (nth_read D 0x18000028 n d)" for d
    by (intro exI [of _ 0]) (simp add: nth_read_0 assms(1) ssi_ready_4)
  ultimately show ?thesis unfolding flash_answers_def by (metis and_zero_eq zero_and_eq)
qed

lemma idle_flash_answers: "flash_answers (logged idle_flash)"
  by (rule ready_flash_answers) (simp_all add: logged_def idle_flash_def const_device_def split_beta)

lemma stage2_returns:
  assumes "flash_answers D"
  shows "\<exists>u. ram u = ram s \<and> stage2_boot clkdiv D lr s = Some (check_return D lr u)"
proof -
  let ?s = "ssi_wr D SSI_RX_SAMPLE_DLY 1 (ssi_wr D SSI_BAUDR clkdiv (ssi_wr D SSI_SSIENR 0 (setup_pads D s)))"
  have "ram (setup_pads D s) = ram s"
    by (simp add: setup_pads_def boot2_addrs Let_def split_beta ram_wr sram_eval)
  then obtain v w where "program_sregs D ?s = Some v" "ram v = ram s"
    "dummy_read D v = Some w" "ram w = ram s"
    using program_sregs_returns [OF assms] dummy_read_returns [OF assms] unfolding returns_def
    by (metis ssi_ram(2,5,6))
  then show ?thesis
    by (intro exI [of _ "configure_ssi D w"]) (simp add: stage2_boot_def configure_ssi_def Let_def)
qed

lemma idle_boot: "\<exists>x t. stage2_boot 2 (logged idle_flash) 0 \<lparr>ram = \<lambda>_. 0, dev = ((), [])\<rparr> = Some (x, t)"
  using stage2_returns [OF idle_flash_answers, of "\<lparr>ram = \<lambda>_. 0, dev = ((), [])\<rparr>" 2 0]
  by (metis surj_pair)

section \<open>Properties\<close>

text \<open>C7: the boot loader never breaks a rule of the SSI, whatever the flash answers: on every
  completed run it configures the SSI only while it is disabled, disables it only when the
  transfer is over, sends only while it is enabled, and fetches a frame only after a status
  read has shown the transfer over and never more frames than it sent. At the end the SSI is
  enabled and idle, owes nothing, and is configured for continuous quad reads at the given
  clock divider: 24 address and 8 mode bits, four wait cycles, no instruction, address in quad
  mode, and the mode bits that keep the flash in continuous read.\<close>

theorem boot2_ssi_protocol:
  assumes "stage2_boot clkdiv (logged D) lr s = Some (x, t)" and "log s = []"
  shows "\<exists>m. mon_run (log t) (mon_start e c) = Some m \<and> mon_en m \<and> mon_idle m \<and> mon_owed m = 0 \<and>
    mon_cfg m (XIP_SSI_BASE + reg_offset SSI_BAUDR) = clkdiv \<and>
    (let ctrl = mon_cfg m (XIP_SSI_BASE + reg_offset SSI_CTRLR0);
         spi = mon_cfg m (XIP_SSI_BASE + reg_offset SSI_SPI_CTRLR0);
         field = \<lambda>r f. get_field (reg_fld r f)
     in field SSI_CTRLR0 ''SPI_FRF'' ctrl = 2 \<and> field SSI_CTRLR0 ''DFS_32'' ctrl = 31 \<and>
        field SSI_CTRLR0 ''TMOD'' ctrl = 3 \<and>
        4 * field SSI_SPI_CTRLR0 ''ADDR_L'' spi = 24 + 8 \<and> field SSI_SPI_CTRLR0 ''WAIT_CYCLES'' spi = 4 \<and>
        field SSI_SPI_CTRLR0 ''INST_L'' spi = 0 \<and> field SSI_SPI_CTRLR0 ''TRANS_TYPE'' spi = 2 \<and>
        field SSI_SPI_CTRLR0 ''XIP_CMD'' spi = MODE_CONTINUOUS_READ)"
proof -
  have fields: "get_field (reg_fld SSI_CTRLR0 ''SPI_FRF'') CTRLR0_ENTER_XIP = 2"
    "get_field (reg_fld SSI_CTRLR0 ''DFS_32'') CTRLR0_ENTER_XIP = 31"
    "get_field (reg_fld SSI_CTRLR0 ''TMOD'') CTRLR0_ENTER_XIP = 3"
    "get_field (reg_fld SSI_SPI_CTRLR0 ''ADDR_L'') SPI_CTRLR0_XIP = 8"
    "get_field (reg_fld SSI_SPI_CTRLR0 ''WAIT_CYCLES'') SPI_CTRLR0_XIP = 4"
    "get_field (reg_fld SSI_SPI_CTRLR0 ''INST_L'') SPI_CTRLR0_XIP = 0"
    "get_field (reg_fld SSI_SPI_CTRLR0 ''TRANS_TYPE'') SPI_CTRLR0_XIP = 2"
    "get_field (reg_fld SSI_SPI_CTRLR0 ''XIP_CMD'') SPI_CTRLR0_XIP = MODE_CONTINUOUS_READ"
    by code_simp+
  from stage2_mon [OF assms, where e = e and c = c] show ?thesis
    by (auto simp: boot2_addrs fields Let_def)
qed

theorem boot2_ssi_protocol_witness:
  "\<exists>x t m. stage2_boot 2 (logged idle_flash) 0 \<lparr>ram = \<lambda>_. 0, dev = ((), [])\<rparr> = Some (x, t) \<and>
     mon_run (log t) (mon_start True (\<lambda>_. 0)) = Some m \<and> mon_cfg m 0x18000014 = 2"
proof -
  obtain x t where r: "stage2_boot 2 (logged idle_flash) 0 \<lparr>ram = \<lambda>_. 0, dev = ((), [])\<rparr> = Some (x, t)"
    using idle_boot by blast
  with boot2_ssi_protocol [OF r, of True "\<lambda>_. 0"] show ?thesis by (auto simp: boot2_addrs)
qed

text \<open>The flash is sent exactly the commands it has to be sent: its second status register is
  read first; only when that does not say quad mode, a write enable and one status write of
  \<open>0, 2\<close> follow, and then polls of the first status register, the last of which has shown the
  write done; in both cases the last transfer is the quad read with the continuous mode bits.\<close>

theorem boot2_flash_commands:
  assumes "stage2_boot clkdiv (logged D) lr s = Some (x, t)" and "log s = []"
  shows "\<exists>m n. mon_run (log t) (mon_start e c) = Some m \<and>
    mon_sent m = [0x35, 0x35] @
      (if mon_got m ! 1 = 2 then [] else [0x06, 0x01, 0x00, 0x02] @ concat (replicate (Suc n) [0x05, 0x05])) @
      [0xEB, 0xA0] \<and>
    (mon_got m ! 1 \<noteq> 2 \<longrightarrow> last (mon_got m) AND 1 = 0)"
proof -
  from stage2_mon [OF assms, where e = e and c = c] obtain n a v g m where
    run: "mon_run (log t) (mon_start e c) = Some m"
    and m: "mon_sent m = status_frames n v @ [CMD_READ, MODE_CONTINUOUS_READ]" "mon_got m = [a, v] @ g"
    and g: "v \<noteq> SREG_DATA \<longrightarrow> g \<noteq> [] \<and> last g AND 1 = 0" by fastforce
  show ?thesis
  proof (intro exI conjI)
    show "mon_run (log t) (mon_start e c) = Some m" by fact
    show "mon_sent m = [0x35, 0x35] @
        (if mon_got m ! 1 = 2 then [] else [0x06, 0x01, 0x00, 0x02] @ concat (replicate (Suc n) [0x05, 0x05])) @
        [0xEB, 0xA0]"
      by (simp add: m status_frames_def boot2_consts)
    show "mon_got m ! 1 \<noteq> 2 \<longrightarrow> last (mon_got m) AND 1 = 0"
      using g by (auto simp: m boot2_consts)
  qed
qed

theorem boot2_flash_commands_witness:
  "\<exists>x t m. stage2_boot 2 (logged idle_flash) 0 \<lparr>ram = \<lambda>_. 0, dev = ((), [])\<rparr> = Some (x, t) \<and>
     mon_run (log t) (mon_start True (\<lambda>_. 0)) = Some m \<and> take 2 (mon_sent m) = [0x35, 0x35]"
proof -
  obtain x t where r: "stage2_boot 2 (logged idle_flash) 0 \<lparr>ram = \<lambda>_. 0, dev = ((), [])\<rparr> = Some (x, t)"
    using idle_boot by blast
  with boot2_flash_commands [OF r, of True "\<lambda>_. 0"] show ?thesis by fastforce
qed

text \<open>On a flash that answers, the loader always ends, leaves the memory alone and hands over
  as its caller expects: called with a return address it returns there, and entered from the
  boot ROM (return address 0) it points the vector table register at the image behind itself,
  reads that table's first two words and starts the image with them as stack pointer and entry.\<close>

theorem boot2_hands_over:
  assumes "flash_answers D"
  shows "\<exists>x t. stage2_boot clkdiv D lr s = Some (x, t) \<and> ram t = ram s \<and>
    (if lr \<noteq> 0 then x = Return_to lr
     else \<exists>u v sp entry. rd D 0x10000100 (wr D 0xE000ED08 0x10000100 u) = (sp, v) \<and>
       rd D 0x10000104 v = (entry, t) \<and> x = Vector sp entry)"
proof -
  obtain u where u: "ram u = ram s" "stage2_boot clkdiv D lr s = Some (check_return D lr u)"
    using stage2_returns [OF assms] by blast
  let ?u = "wr D 0xE000ED08 0x10000100 u"
  have "ram ?u = ram u" by (simp add: ram_wr sram_eval)
  with u show ?thesis
    by (cases "lr = 0"; cases "rd D 0x10000100 ?u"; cases "rd D 0x10000104 (snd (rd D 0x10000100 ?u))")
      (auto simp: check_return_def boot2_addrs Let_def intro: exI [of _ u] dest: arg_cong [where f = snd],
        (metis ram_rd snd_conv)+)
qed

theorem boot2_hands_over_witness:
  "\<exists>t. stage2_boot 2 (logged idle_flash) 0x20041F00 \<lparr>ram = \<lambda>_. 0, dev = ((), [])\<rparr> =
     Some (Return_to 0x20041F00, t) \<and> ram t 0x20000000 = 0"
  using boot2_hands_over [OF idle_flash_answers, of 2 "0x20041F00" "\<lparr>ram = \<lambda>_. 0, dev = ((), [])\<rparr>"]
  by auto

end
