(* ===== verification/Startup.thy ===== *)
theory Startup
  imports Board
begin

text \<open>
  The start-up code \<^verbatim>\<open>runtime/crt0.S\<close> (RP2040) and \<^verbatim>\<open>runtime/crt0_rv32.S\<close> (RP2350): the
  vector table, the loops that copy the initialised data from flash and clear the rest, and
  the trap dispatcher of the RISC-V chip, which saves the registers, calls the application's
  handler for every pending interrupt and restores them. The addresses the linker computes
  are parameters, with what the linker script guarantees about them as \<open>layout_ok\<close>.
\<close>

section \<open>The vector table\<close>

datatype symbol = Stack_top | Reset_handler | Default_handler | Isr_irq nat | Core1_trampoline | Core1_stack_top

definition vector_table :: "symbol list" where
  "vector_table = [Stack_top, Reset_handler, Default_handler, Default_handler] @
     replicate 12 Default_handler @ map Isr_irq [0..<32]"

definition core1_meta :: "symbol list" where
  "core1_meta = [Core1_trampoline, Core1_stack_top]"

text \<open>
  \<^verbatim>\<open>.weak isr_irqN\<close> with \<^verbatim>\<open>.thumb_set isr_irqN, default_handler\<close>: the application's symbol
  when it exports one, else the default handler.
\<close>

definition isr_target :: "nat set \<Rightarrow> symbol \<Rightarrow> symbol" where
  "isr_target exported y = (case y of
     Isr_irq n \<Rightarrow> if n \<in> exported then y else Default_handler
   | _ \<Rightarrow> y)"

section \<open>Initialising the memory\<close>

record layout =
  sidata :: u32
  sdata :: u32
  edata :: u32
  sbss :: u32
  ebss :: u32

text \<open>Labels 1 and 3: the pointers are registers and wrap like them.\<close>

partial_function (option) copy_words :: "'d device \<Rightarrow> u32 \<Rightarrow> u32 \<Rightarrow> u32 \<Rightarrow> 'd mach \<Rightarrow> 'd mach option" where
  "copy_words D r0 r1 r2 s =
     (if r1 < r2
      then (let (r3, s) = rd D r0 s in copy_words D (r0 + 4) (r1 + 4) r2 (wr D r1 r3 s))
      else Some s)"

partial_function (option) zero_words :: "'d device \<Rightarrow> u32 \<Rightarrow> u32 \<Rightarrow> 'd mach \<Rightarrow> 'd mach option" where
  "zero_words D r1 r2 s =
     (if r1 < r2 then zero_words D (r1 + 4) r2 (wr D r1 0 s) else Some s)"

definition reset_handler :: "layout \<Rightarrow> 'd device \<Rightarrow> ('d mach \<Rightarrow> 'e option) \<Rightarrow> 'd mach \<Rightarrow> 'e option" where
  "reset_handler L D main s = do {
     s \<leftarrow> copy_words D (sidata L) (sdata L) (edata L) s;
     s \<leftarrow> zero_words D (sbss L) (ebss L) s;
     main s
   }"

text \<open>What \<^verbatim>\<open>link.ld\<close> lays out: word-aligned sections in order in RAM, the image in flash.\<close>

definition layout_ok :: "layout \<Rightarrow> bool" where
  "layout_ok L \<longleftrightarrow> list_all (\<lambda>a. unat a mod 4 = 0) [sidata L, sdata L, edata L, sbss L, ebss L] \<and>
     0x20000000 \<le> sdata L \<and> sdata L \<le> edata L \<and> edata L \<le> sbss L \<and> sbss L \<le> ebss L \<and>
     ebss L \<le> 0x20040000 \<and>
     0x10000100 \<le> sidata L \<and> unat (sidata L) + (unat (edata L) - unat (sdata L)) \<le> 0x10200000"

text \<open>The flash holds an image and answers reads with it.\<close>

definition flash_holds :: "'d device \<Rightarrow> (u32 \<Rightarrow> u32) \<Rightarrow> bool" where
  "flash_holds D img \<longleftrightarrow> (\<forall>d a. 0x10000000 \<le> a \<longrightarrow> a < 0x10200000 \<longrightarrow> fst (dread D d a) = img a)"

text \<open>The memory a C program may assume at its start.\<close>

definition initialised :: "layout \<Rightarrow> (u32 \<Rightarrow> u32) \<Rightarrow> mem \<Rightarrow> mem" where
  "initialised L img m a =
     (if sdata L \<le> a \<and> a < edata L \<and> unat a mod 4 = 0 then img (sidata L + (a - sdata L))
      else if sbss L \<le> a \<and> a < ebss L \<and> unat a mod 4 = 0 then 0
      else m a)"

lemma idx_Suc: "idx b i + 4 = idx b (Suc i)"
  by (simp add: idx_def)

lemma idx_less:
  assumes "unat b + 4 * n < 2 ^ 32" and "i \<le> n"
  shows "idx b i < idx b n \<longleftrightarrow> i < n"
proof -
  have "unat (idx b k) = unat b + 4 * k" if "k \<le> n" for k
    using unat_idx [of b "Suc k" k] assms(1) that
    by (cases "k = n") (auto simp: idx_def fits_def unat_word_ariths unat_of_nat)
  then show ?thesis using assms(2) by (simp add: word_less_nat_alt)
qed

lemma copy_words_run:
  assumes "unat b + 4 * n < 2 ^ 32" and "i \<le> n"
  shows "copy_words D (idx a i) (idx b i) (idx b n) s =
    Some (for_range i n (\<lambda>k s. let (v, s) = rd D (idx a k) s in wr D (idx b k) v s) s)"
  using assms(2)
proof (induction "n - i" arbitrary: i s)
  case 0
  then show ?case by (subst copy_words.simps) (simp add: idx_less [OF assms(1)])
next
  case (Suc k)
  then have lt: "i < n" and up: "[i..<n] = i # [Suc i..<n]" by (simp_all add: upt_rec)
  have "k = n - Suc i" using Suc(2) by simp
  from Suc(1) [OF this] lt show ?case
    by (subst copy_words.simps)
      (simp add: idx_less [OF assms(1)] idx_Suc for_range_def up split_beta)
qed

lemma zero_words_run:
  assumes "unat b + 4 * n < 2 ^ 32" and "i \<le> n"
  shows "zero_words D (idx b i) (idx b n) s = Some (for_range i n (\<lambda>k. wr D (idx b k) 0) s)"
  using assms(2)
proof (induction "n - i" arbitrary: i s)
  case 0
  then show ?case by (subst zero_words.simps) (simp add: idx_less [OF assms(1)])
next
  case (Suc k)
  then have lt: "i < n" and up: "[i..<n] = i # [Suc i..<n]" by (simp_all add: upt_rec)
  have "k = n - Suc i" using Suc(2) by simp
  from Suc(1) [OF this] lt show ?case
    by (subst zero_words.simps) (simp add: idx_less [OF assms(1)] idx_Suc for_range_def up)
qed

text \<open>Both loops fill an array in memory.\<close>

lemma copy_ram:
  assumes "flash_holds D img" and "\<And>i. i < n \<Longrightarrow> in_sram (idx b i)"
    and "\<And>i. i < n \<Longrightarrow> 0x10000000 \<le> idx a i \<and> idx a i < 0x10200000"
  shows "ram (for_range 0 n (\<lambda>k s. let (v, s) = rd D (idx a k) s in wr D (idx b k) v s) s) =
    for_range 0 n (\<lambda>k m. m(idx b k := img (idx a k))) (ram s)"
proof (rule for_range_sim [where R = "\<lambda>s m. ram s = m"])
  fix i and t :: "'a mach" and m
  assume "i < n" "ram t = m"
  moreover have "\<not> in_sram (idx a i)" using assms(3) [OF \<open>i < n\<close>] by (auto simp: sram_eval word_le_nat_alt word_less_nat_alt)
  ultimately show "ram (let (v, s) = rd D (idx a i) t in wr D (idx b i) v s) = m(idx b i := img (idx a i))"
    using assms by (simp add: rd_dev split_beta Let_def ram_wr flash_holds_def)
qed simp

lemma zero_ram:
  assumes "\<And>i. i < n \<Longrightarrow> in_sram (idx b i)"
  shows "ram (for_range 0 n (\<lambda>k. wr D (idx b k) 0) s) = for_range 0 n (\<lambda>k m. m(idx b k := 0)) (ram s)"
  by (rule for_range_sim [where R = "\<lambda>s m. ram s = m"]) (use assms in \<open>auto simp: ram_wr\<close>)

lemma fill_array:
  assumes "fits b n"
  shows "for_range 0 n (\<lambda>k m. m(idx b k := f k)) m =
    (\<lambda>a. if a \<in> region b n then f ((unat a - unat b) div 4) else m a :: u32)"
proof
  fix a :: u32
  let ?m = "for_range 0 n (\<lambda>k m. m(idx b k := f k)) m"
  have put: "?m = for_range 0 n (\<lambda>k m. mem_put m (idx b k) (f k)) m" by (simp add: mem_put_def)
  show "?m a = (if a \<in> region b n then f ((unat a - unat b) div 4) else m a)"
  proof (cases "a \<in> region b n")
    case True
    then obtain i where "i < n" "a = idx b i" by (auto simp: region_def)
    then show ?thesis
      using True word_mem.get_fill_idx [OF assms, of i f m] unat_idx [OF assms, of i] by (simp add: put)
  next
    case False
    then show ?thesis using word_mem.get_fill_other [where n = n and b = b and c = a] by (simp add: put)
  qed
qed

lemma diff_mod4: "x mod 4 = 0 \<Longrightarrow> y mod 4 = 0 \<Longrightarrow> (x - y) mod 4 = (0 :: nat)"
  by (simp only: dvd_eq_mod_eq_0 [symmetric] dvd_diff_nat)

lemma word_slot: "y \<le> x \<Longrightarrow> x < y + 4 * n \<Longrightarrow> (x - y) mod 4 = 0 \<Longrightarrow>
    (x - y) div 4 < n \<and> x = y + 4 * ((x - y) div 4)" for x y n :: nat
proof -
  assume "y \<le> x" "x < y + 4 * n" "(x - y) mod 4 = 0"
  moreover from this(3) have "x - y = 4 * ((x - y) div 4)" using mult_div_mod_eq [of 4 "x - y"] by simp
  ultimately show ?thesis by linarith
qed

lemma region_range:
  assumes "unat b + 4 * n < 2 ^ 32" and "unat b mod 4 = 0"
  shows "a \<in> region b n \<longleftrightarrow> b \<le> a \<and> a < idx b n \<and> unat a mod 4 = 0"
proof -
  have fits: "fits b n" using assms(1) by (simp add: fits_def)
  have top: "unat (idx b n) = unat b + 4 * n"
    using assms(1) by (simp add: idx_def unat_word_ariths unat_of_nat)
  show ?thesis
  proof
    assume "a \<in> region b n"
    then obtain i where "i < n" "a = idx b i" by (auto simp: region_def)
    then show "b \<le> a \<and> a < idx b n \<and> unat a mod 4 = 0"
      using unat_idx [OF fits] top assms(2) by (simp add: word_le_nat_alt word_less_nat_alt)
  next
    assume a: "b \<le> a \<and> a < idx b n \<and> unat a mod 4 = 0"
    define i where "i = (unat a - unat b) div 4"
    have "unat b \<le> unat a" "unat a < unat b + 4 * n"
      using a top by (auto simp only: word_le_nat_alt word_less_nat_alt)
    moreover have "(unat a - unat b) mod 4 = 0" using a assms(2) by (intro diff_mod4) auto
    ultimately have "i < n" "unat a = unat b + 4 * i"
      using word_slot [of "unat b" "unat a" n] by (simp_all add: i_def)
    then show "a \<in> region b n"
      using unat_idx [OF fits, of i] by (auto simp: region_def word_unat_eq_iff intro!: image_eqI [of _ _ i])
  qed
qed

lemma idx_offset: "fits b n \<Longrightarrow> a \<in> region b n \<Longrightarrow> idx c ((unat a - unat b) div 4) = c + (a - b)"
  using unat_idx [of b n] by (auto simp: region_def) (simp add: idx_def)

text \<open>The two sections as arrays.\<close>

lemma section_array:
  assumes "b \<le> e" and "unat b mod 4 = 0" and "unat e mod 4 = 0"
  shows "\<exists>n. e = idx b n \<and> unat e = unat b + 4 * n"
proof (intro exI conjI)
  let ?n = "(unat e - unat b) div 4"
  have "(unat e - unat b) mod 4 = 0" using assms(2,3) by (simp add: diff_mod4)
  then show *: "unat e = unat b + 4 * ?n"
    using assms(1) unfolding word_le_nat_alt by presburger
  then show "e = idx b ?n"
    using unat_u32 [of e] by (simp add: idx_def word_unat_eq_iff unat_word_ariths unat_of_nat)
qed

text \<open>The two loops, which the start-up code of either chip runs.\<close>

lemma init_memory_run:
  assumes "layout_ok L" and "flash_holds D img"
  shows "\<exists>u t. copy_words D (sidata L) (sdata L) (edata L) s = Some u \<and>
    zero_words D (sbss L) (ebss L) u = Some t \<and> ram t = initialised L img (ram s)"
proof -
  note ok = assms(1) [unfolded layout_ok_def list.pred_inject]
  obtain n where n: "edata L = idx (sdata L) n" "unat (edata L) = unat (sdata L) + 4 * n"
    using section_array [of "sdata L" "edata L"] ok by auto
  obtain k where k: "ebss L = idx (sbss L) k" "unat (ebss L) = unat (sbss L) + 4 * k"
    using section_array [of "sbss L" "ebss L"] ok by auto
  have bounds: "unat (sdata L) + 4 * n < 2 ^ 32" "unat (sbss L) + 4 * k < 2 ^ 32"
    "fits (sdata L) n" "fits (sbss L) k"
    using n(2) k(2) unat_u32 [of "edata L"] unat_u32 [of "ebss L"] by (simp_all add: fits_def)
  have sram: "in_sram (idx (sdata L) i)" if "i < n" for i
    using that ok n k unat_idx [OF bounds(3) that]
    by (simp add: sram_eval word_le_nat_alt word_less_nat_alt)
  have sram': "in_sram (idx (sbss L) i)" if "i < k" for i
    using that ok n k unat_idx [OF bounds(4) that]
    by (simp add: sram_eval word_le_nat_alt word_less_nat_alt)
  have flash: "0x10000000 \<le> idx (sidata L) i \<and> idx (sidata L) i < 0x10200000" if "i < n" for i
  proof -
    have "fits (sidata L) n" using ok n(2) by (simp add: fits_def)
    from unat_idx [OF this that] show ?thesis
      using that ok n by (simp add: word_le_nat_alt word_less_nat_alt)
  qed
  define u where "u = for_range 0 n (\<lambda>k s. let (v, s) = rd D (idx (sidata L) k) s
    in wr D (idx (sdata L) k) v s) s"
  define t where "t = for_range 0 k (\<lambda>j. wr D (idx (sbss L) j) 0) u"
  have run: "copy_words D (sidata L) (sdata L) (edata L) s = Some u"
    "zero_words D (sbss L) (ebss L) u = Some t"
    using copy_words_run [OF bounds(1), of 0 D "sidata L" s] zero_words_run [OF bounds(2), of 0 D u]
    by (simp_all add: n(1) k(1) u_def t_def idx_def)
  have ram_u: "ram u = (\<lambda>a. if a \<in> region (sdata L) n
      then img (idx (sidata L) ((unat a - unat (sdata L)) div 4)) else ram s a)"
    unfolding u_def by (rule trans [OF copy_ram [OF assms(2) sram flash] fill_array [OF bounds(3)]])
  have ram_t: "ram t = (\<lambda>a. if a \<in> region (sbss L) k then 0 else ram u a)"
    unfolding t_def by (rule trans [OF zero_ram [OF sram'] fill_array [OF bounds(4)]])
  have "ram t = initialised L img (ram s)"
  proof
    fix a
    have "ram t a = (if a \<in> region (sbss L) k then 0 else
        if a \<in> region (sdata L) n then img (sidata L + (a - sdata L)) else ram s a)"
      using idx_offset [OF bounds(3), of a] by (simp add: ram_t ram_u)
    moreover have "edata L \<le> sbss L" using ok by blast
    then have "sbss L \<le> a \<Longrightarrow> \<not> a < edata L" by (meson leD order.trans)
    ultimately show "ram t a = initialised L img (ram s) a"
      using region_range [OF bounds(1), of a] region_range [OF bounds(2), of a] ok n(1) k(1)
      by (auto simp: initialised_def)
  qed
  with run show ?thesis by blast
qed

lemma reset_run:
  assumes "layout_ok L" and "flash_holds D img"
  shows "\<exists>t. ram t = initialised L img (ram s) \<and> reset_handler L D main s = main t"
  using init_memory_run [OF assms, of s] by (auto simp: reset_handler_def)

section \<open>The trap dispatcher of the RP2350\<close>

datatype reg = Ra | Sp | Gp | Tp | T0 | T1 | T2 | T3 | T4 | T5 | T6
  | A0 | A1 | A2 | A3 | A4 | A5 | A6 | A7
  | S0 | S1 | S2 | S3 | S4 | S5 | S6 | S7 | S8 | S9 | S10 | S11

record 'd cpu =
  regs :: "reg \<Rightarrow> u32"
  core :: "'d mach"

text \<open>The registers of the frame, in the order of the stores.\<close>

definition frame :: "reg list" where
  "frame = [Ra, T0, T1, T2, A0, A1, A2, A3, A4, A5, A6, A7, T3, T4, T5, T6]"

definition save_frame :: "'d device \<Rightarrow> 'd cpu \<Rightarrow> 'd cpu" where
  "save_frame D c =
     (let sp = regs c Sp - 64
      in c\<lparr>regs := (regs c)(Sp := sp),
           core := for_range 0 16 (\<lambda>i. wr D (idx sp i) (regs c (frame ! i))) (core c)\<rparr>)"

definition restore_frame :: "'d device \<Rightarrow> 'd cpu \<Rightarrow> 'd cpu" where
  "restore_frame D c =
     (let sp = regs c Sp;
          c = for_range 0 16 (\<lambda>i c. let (v, s) = rd D (idx sp i) (core c)
            in c\<lparr>regs := (regs c)(frame ! i := v), core := s\<rparr>) c
      in c\<lparr>regs := (regs c)(Sp := sp + 64)\<rparr>)"

text \<open>
  The loop at label 1. The next-interrupt register of the controller and the application's
  handler are parameters; a call leaves its return address in \<^verbatim>\<open>ra\<close>.
\<close>

partial_function (option) ext_loop ::
  "('d \<Rightarrow> u32 \<times> 'd) \<Rightarrow> u32 \<Rightarrow> ('d cpu \<Rightarrow> 'd cpu option) \<Rightarrow> 'd cpu \<Rightarrow> 'd cpu option" where
  "ext_loop meinext link isr c =
     (let (v, d) = meinext (dev (core c));
          c = c\<lparr>regs := (regs c)(A0 := v), core := (core c)\<lparr>dev := d\<rparr>\<rparr>
      in if bit v 31 then Some c
         else Option.bind (isr (c\<lparr>regs := (regs c)(A0 := drop_bit 2 v, Ra := link)\<rparr>))
           (ext_loop meinext link isr))"

datatype 'd trap_exit = Mret "'d cpu" | Parked "'d cpu"

definition trap_dispatch ::
  "'d device \<Rightarrow> u32 \<Rightarrow> ('d \<Rightarrow> u32 \<times> 'd) \<Rightarrow> u32 \<Rightarrow> ('d cpu \<Rightarrow> 'd cpu option) \<Rightarrow> 'd cpu \<Rightarrow>
     'd trap_exit option" where
  "trap_dispatch D mcause meinext link isr c =
     (let c = save_frame D c;
          c = c\<lparr>regs := (regs c)(T0 := mcause, T1 := 0x8000000B)\<rparr>
      in if regs c T0 \<noteq> regs c T1 then Some (Parked c)
         else do { c \<leftarrow> ext_loop meinext link isr c; Some (Mret (restore_frame D c)) })"

text \<open>
  The calling convention of a routine, for calls with the stack and the other callee-saved
  registers as in \<open>r\<close>: it gives these registers back, and it writes to no memory but \<open>W\<close>, its own
  data and its part of the stack. The argument and temporary registers are its own.
\<close>

definition callee_saved :: "reg set" where
  "callee_saved = - set frame"

definition convention :: "u32 set \<Rightarrow> (reg \<Rightarrow> u32) \<Rightarrow> ('d cpu \<Rightarrow> 'd cpu option) \<Rightarrow> bool" where
  "convention W r f \<longleftrightarrow> (\<forall>c c'. (\<forall>q \<in> callee_saved. regs c q = r q) \<longrightarrow> f c = Some c' \<longrightarrow>
     (\<forall>q \<in> callee_saved. regs c' q = regs c q) \<and>
     (\<forall>a. a \<notin> W \<longrightarrow> ram (core c') a = ram (core c) a))"

text \<open>
  A handler that serves what it is called for: called as the loop calls it, it returns, and some
  measure of what is pending falls.
\<close>

definition serves ::
  "('d mach \<Rightarrow> nat) \<Rightarrow> ('d \<Rightarrow> u32 \<times> 'd) \<Rightarrow> u32 \<Rightarrow> (reg \<Rightarrow> u32) \<Rightarrow> ('d cpu \<Rightarrow> 'd cpu option) \<Rightarrow> bool" where
  "serves pend meinext link r isr \<longleftrightarrow> (\<forall>c v d. (\<forall>q \<in> callee_saved. regs c q = r q) \<longrightarrow>
     meinext (dev (core c)) = (v, d) \<longrightarrow> \<not> bit v 31 \<longrightarrow>
     (\<exists>c'. isr (c\<lparr>regs := (regs c)(A0 := drop_bit 2 v, Ra := link), core := (core c)\<lparr>dev := d\<rparr>\<rparr>) = Some c' \<and>
       pend (core c') < pend (core c)))"

lemma callee_saved_regs: "Sp \<in> callee_saved" "A0 \<notin> callee_saved" "Ra \<notin> callee_saved"
  by (simp_all add: callee_saved_def frame_def)

lemma ext_loop_run:
  assumes "convention W r isr" and "serves pend meinext link r isr" and "\<forall>q \<in> callee_saved. regs c q = r q"
  shows "\<exists>c' d. ext_loop meinext link isr c = Some c' \<and>
    (\<forall>q \<in> callee_saved. regs c' q = r q) \<and>
    (\<forall>a. a \<notin> W \<longrightarrow> ram (core c') a = ram (core c) a) \<and>
    bit (fst (meinext d)) 31 \<and> dev (core c') = snd (meinext d)"
  using assms(3)
proof (induction "pend (core c)" arbitrary: c rule: less_induct)
  case less
  obtain v d where v: "meinext (dev (core c)) = (v, d)" by fastforce
  note sp = callee_saved_regs
  have upd: "\<forall>q \<in> callee_saved. ((regs c)(A0 := x, Ra := y)) q = r q" for x y
    using less.prems sp by auto
  show ?case
  proof (cases "bit v 31")
    case True
    then show ?thesis
      using v less.prems sp by (subst ext_loop.simps) (auto intro!: exI [of _ "dev (core c)"])
  next
    case False
    let ?r = "(regs c)(A0 := drop_bit 2 v, Ra := link)"
    let ?c = "c\<lparr>regs := ?r, core := (core c)\<lparr>dev := d\<rparr>\<rparr>"
    obtain c1 where c1: "isr ?c = Some c1" "pend (core c1) < pend (core c)"
      using assms(2) v False less.prems unfolding serves_def by blast
    have "\<forall>q \<in> callee_saved. regs ?c q = r q" using upd by simp
    with assms(1) c1(1) have "\<forall>q \<in> callee_saved. regs c1 q = regs ?c q"
      "\<forall>a. a \<notin> W \<longrightarrow> ram (core c1) a = ram (core ?c) a"
      unfolding convention_def by blast+
    with upd have keep: "\<forall>q \<in> callee_saved. regs c1 q = r q"
      "\<forall>a. a \<notin> W \<longrightarrow> ram (core c1) a = ram (core c) a"
      by simp_all
    have eq: "?c = c\<lparr>core := (core c)\<lparr>dev := d\<rparr>, regs := ?r\<rparr>" by simp
    have "ext_loop meinext link isr c = ext_loop meinext link isr c1"
      using v False c1(1) [unfolded eq] by (subst ext_loop.simps) simp
    with less.hyps [OF c1(2) keep(1)] keep(2) show ?thesis by (metis (no_types, lifting))
  qed
qed

lemma frame_distinct: "distinct frame" "length frame = 16"
  by (simp_all add: frame_def)

lemma save_frame_ram:
  assumes "fits (regs c Sp - 64) 16" and "\<And>i. i < 16 \<Longrightarrow> in_sram (idx (regs c Sp - 64) i)" and "i < 16"
  shows "ram (core (save_frame D c)) (idx (regs c Sp - 64) i) = regs c (frame ! i)"
  using sram.get_fill_idx [OF assms(1,2,3), where f = "\<lambda>i. regs c (frame ! i)"]
  by (simp add: save_frame_def Let_def)

lemma save_frame_other:
  assumes "\<And>i. i < 16 \<Longrightarrow> in_sram (idx (regs c Sp - 64) i)" and "a \<notin> region (regs c Sp - 64) 16"
  shows "ram (core (save_frame D c)) a = ram (core c) a"
  using sram.get_fill_other [OF assms, where f = "\<lambda>i. regs c (frame ! i)"]
  by (simp add: save_frame_def Let_def)

lemma save_frame_dev:
  assumes "\<And>i. i < 16 \<Longrightarrow> in_sram (idx (regs c Sp - 64) i)"
  shows "dev (core (save_frame D c)) = dev (core c)"
  unfolding save_frame_def Let_def
  by simp (rule for_range_inv [where P = "\<lambda>_ t. dev t = dev (core c)"], use assms in \<open>auto simp: wr_def\<close>)

lemma restore_frame_run:
  assumes "\<And>i. i < 16 \<Longrightarrow> in_sram (idx (regs c Sp) i)"
  shows "core (restore_frame D c) = core c \<and> regs (restore_frame D c) Sp = regs c Sp + 64 \<and>
    (\<forall>i<16. regs (restore_frame D c) (frame ! i) = ram (core c) (idx (regs c Sp) i)) \<and>
    (\<forall>r. r \<notin> set frame \<longrightarrow> r \<noteq> Sp \<longrightarrow> regs (restore_frame D c) r = regs c r)"
proof -
  let ?body = "\<lambda>i c'. let (v, s) = rd D (idx (regs c Sp) i) (core c')
    in c'\<lparr>regs := (regs c')(frame ! i := v), core := s\<rparr>"
  let ?P = "\<lambda>n c'. core c' = core c \<and> (\<forall>i<n. regs c' (frame ! i) = ram (core c) (idx (regs c Sp) i)) \<and>
    (\<forall>r. r \<notin> set frame \<longrightarrow> regs c' r = regs c r)"
  have "?P 16 (for_range 0 16 ?body c)"
  proof (rule for_range_inv [where P = ?P])
    fix i c'
    assume i: "i < 16" and IH: "?P i c'"
    have "?body i c' = c'\<lparr>regs := (regs c')(frame ! i := ram (core c) (idx (regs c Sp) i))\<rparr>"
      using IH assms [OF i] by (simp add: rd_ram)
    moreover have "frame ! k \<noteq> frame ! i" if "k < i" for k
      using that i frame_distinct nth_eq_iff_index_eq [of frame k i] by simp
    moreover have "frame ! i \<in> set frame" using i frame_distinct(2) by simp
    ultimately show "?P (Suc i) (?body i c')" using IH by (auto simp: less_Suc_eq)
  qed simp_all
  moreover have "Sp \<notin> set frame" by (simp add: frame_def)
  moreover have "frame ! i \<noteq> Sp" if "i < 16" for i
    using that frame_distinct(2) \<open>Sp \<notin> set frame\<close> by (metis nth_mem)
  ultimately show ?thesis by (simp add: restore_frame_def Let_def)
qed

section \<open>Properties\<close>

text \<open>The start-up code of the RP2040 gives the program the memory it may assume: for every
  layout the linker script can produce and every flash image, \<^verbatim>\<open>main\<close> is entered with the
  initialised data copied from the image, the cleared section zero and everything else as it
  was; the loops always end.\<close>

theorem reset_initialises:
  assumes "layout_ok L" and "flash_holds D img"
  shows "\<exists>t. reset_handler L D main s = main t \<and> ram t = initialised L img (ram s)"
  using reset_run [OF assms, of s main] by blast

theorem reset_initialises_witness:
  "let L = \<lparr>sidata = 0x10001000, sdata = 0x20000000, edata = 0x20000008, sbss = 0x20000008, ebss = 0x20000010\<rparr>
   in \<exists>t. reset_handler L (const_device (\<lambda>a. a)) Some \<lparr>ram = \<lambda>_. 7, dev = ()\<rparr> = Some t \<and>
     ram t 0x20000004 = 0x10001004 \<and> ram t 0x2000000C = 0 \<and> ram t 0x20000010 = 7"
proof -
  let ?L = "\<lparr>sidata = 0x10001000, sdata = 0x20000000, edata = 0x20000008, sbss = 0x20000008, ebss = 0x20000010\<rparr>"
  have "layout_ok ?L" by (simp add: layout_ok_def)
  moreover have "flash_holds (const_device (\<lambda>a. a) :: unit device) (\<lambda>a. a)" by (simp add: flash_holds_def const_device_def)
  ultimately show ?thesis
    using reset_initialises [of ?L "const_device (\<lambda>a. a)" "\<lambda>a. a" Some "\<lparr>ram = \<lambda>_. 7, dev = ()\<rparr>"]
    by (auto simp: initialised_def Let_def)
qed

text \<open>C17: An external interrupt is invisible to the program it interrupts, and none is left over:
  with a handler that follows the calling convention and serves what it is called for, and a
  stack in RAM, the trap dispatcher returns, every register has the value it had at the trap,
  memory is as it was outside the handler's own memory \<open>W\<close> and the 16 words below the stack
  pointer, and the controller's last answer was that nothing is pending. Any other trap parks
  the processor without calling the handler.\<close>

theorem trap_dispatch_transparent:
  assumes "convention W ((regs c)(Sp := regs c Sp - 64)) isr"
    and "serves pend meinext link ((regs c)(Sp := regs c Sp - 64)) isr"
    and "fits (regs c Sp - 64) 16" and "\<And>i. i < 16 \<Longrightarrow> in_sram (idx (regs c Sp - 64) i)"
    and "W \<inter> region (regs c Sp - 64) 16 = {}"
  shows "(\<exists>c'. trap_dispatch D 0x8000000B meinext link isr c = Some (Mret c') \<and> regs c' = regs c \<and>
      (\<forall>a. a \<notin> W \<union> region (regs c Sp - 64) 16 \<longrightarrow> ram (core c') a = ram (core c) a) \<and>
      (\<exists>d. bit (fst (meinext d)) 31 \<and> dev (core c') = snd (meinext d))) \<and>
    (\<forall>cause. cause \<noteq> 0x8000000B \<longrightarrow>
      (\<exists>c'. trap_dispatch D cause meinext link isr c = Some (Parked c') \<and> dev (core c') = dev (core c)))"
proof (rule conjI)
  let ?sp = "regs c Sp - 64"
  define b where "b = (save_frame D c)\<lparr>regs := (regs (save_frame D c))(T0 := 0x8000000B, T1 := 0x8000000B)\<rparr>"
  have b: "regs b = (regs c)(Sp := ?sp, T0 := 0x8000000B, T1 := 0x8000000B)" "core b = core (save_frame D c)"
    by (simp_all add: b_def save_frame_def Let_def)
  have "T0 \<notin> callee_saved" "T1 \<notin> callee_saved" by (simp_all add: callee_saved_def frame_def)
  then have saved: "\<forall>q \<in> callee_saved. regs b q = ((regs c)(Sp := ?sp)) q" by (auto simp: b)
  obtain e d where e: "ext_loop meinext link isr b = Some e"
    "\<forall>q \<in> callee_saved. regs e q = ((regs c)(Sp := ?sp)) q"
    "\<forall>a. a \<notin> W \<longrightarrow> ram (core e) a = ram (core b) a"
    "bit (fst (meinext d)) 31" "dev (core e) = snd (meinext d)"
    using ext_loop_run [OF assms(1,2) saved] by blast
  have sp: "regs e Sp = ?sp" using e(2) callee_saved_regs(1) by simp
  note r = restore_frame_run [of e D, unfolded sp, OF assms(4)]
  have "trap_dispatch D 0x8000000B meinext link isr c = Some (Mret (restore_frame D e))"
    using e(1) by (simp add: trap_dispatch_def Let_def b_def)
  moreover have "regs (restore_frame D e) q = regs c q" for q
  proof (cases "q \<in> set frame")
    case True
    then obtain i where i: "i < 16" "q = frame ! i" by (metis frame_distinct(2) in_set_conv_nth)
    then have "idx ?sp i \<notin> W" using assms(5) by blast
    with i show ?thesis
      using r e(3) b save_frame_ram [OF assms(3,4), of i D] by simp
  next
    case False
    then have "q = Sp \<or> q \<in> callee_saved" by (auto simp: callee_saved_def)
    with False r e(2) show ?thesis by (cases "q = Sp") auto
  qed
  moreover have "ram (core (restore_frame D e)) a = ram (core c) a" if "a \<notin> W \<union> region ?sp 16" for a
    using that r e(3) save_frame_other [OF assms(4), of a D] by (simp add: b)
  ultimately show "\<exists>c'. trap_dispatch D 0x8000000B meinext link isr c = Some (Mret c') \<and> regs c' = regs c \<and>
      (\<forall>a. a \<notin> W \<union> region ?sp 16 \<longrightarrow> ram (core c') a = ram (core c) a) \<and>
      (\<exists>d. bit (fst (meinext d)) 31 \<and> dev (core c') = snd (meinext d))"
    using r e(4,5) by (intro exI [of _ "restore_frame D e"]) auto
  show "\<forall>cause. cause \<noteq> 0x8000000B \<longrightarrow>
      (\<exists>c'. trap_dispatch D cause meinext link isr c = Some (Parked c') \<and> dev (core c') = dev (core c))"
    by (simp add: trap_dispatch_def Let_def save_frame_dev [OF assms(4)])
qed

text \<open>
  The handler of \<^verbatim>\<open>tests/on_target_rp2350/peripherals.mojo\<close>, which acknowledges the timer and
  counts its visits in a word of RAM, next to a controller that offers the interrupts of a list
  and a timer whose acknowledgement takes the first away.
\<close>

definition peripherals_isr :: "'d device \<Rightarrow> 'd cpu \<Rightarrow> 'd cpu option" where
  "peripherals_isr D c =
     (let s = wr D (chip_TIMER_BASE RP2350 + chip_TIMER_INTR_OFF RP2350) 1 (core c);
          (v, s) = rd D 0x20024000 s
      in Some (c\<lparr>core := wr D 0x20024000 (v + 1) s\<rparr>))"

definition queued_irqs :: "u32 list device" where
  "queued_irqs = \<lparr>dread = \<lambda>ds a. (0, ds), dwrite = \<lambda>ds a v. tl ds\<rparr>"

definition next_irq :: "u32 list \<Rightarrow> u32 \<times> u32 list" where
  "next_irq ds = (case ds of [] \<Rightarrow> (0x80000000, []) | x # xs \<Rightarrow> (push_bit 2 x, ds))"

lemma peripherals_isr_run:
  "peripherals_isr queued_irqs c =
    Some (c\<lparr>core := (core c)\<lparr>ram := (ram (core c))(0x20024000 := ram (core c) 0x20024000 + 1),
      dev := tl (dev (core c))\<rparr>\<rparr>)"
  by (simp add: peripherals_isr_def RP2350_def wr_def rd_def sram_eval queued_irqs_def mem_put_def)

theorem trap_dispatch_transparent_witness:
  "\<exists>c'. trap_dispatch queued_irqs 0x8000000B next_irq 0 (peripherals_isr queued_irqs)
       \<lparr>regs = \<lambda>_. 0x20001000, core = \<lparr>ram = \<lambda>_. 0, dev = [4, 7]\<rparr>\<rparr> = Some (Mret c') \<and>
     regs c' = (\<lambda>_. 0x20001000) \<and> ram (core c') 0x20001000 = 0"
proof -
  let ?isr = "peripherals_isr queued_irqs"
  let ?c = "\<lparr>regs = \<lambda>_. 0x20001000, core = \<lparr>ram = \<lambda>_. 0, dev = [4, 7 :: u32]\<rparr>\<rparr>"
  let ?r = "(regs ?c)(Sp := regs ?c Sp - 64)"
  have "bit (0x80000000 :: u32) 31" by code_simp
  then have "serves (\<lambda>s. length (dev s)) next_irq 0 ?r ?isr"
    by (auto simp: serves_def next_irq_def peripherals_isr_run split: list.splits)
  moreover have "convention {0x20024000} ?r ?isr" by (auto simp: convention_def peripherals_isr_run)
  moreover have fit: "fits (regs ?c Sp - 64) 16" by (simp add: fits_def)
  moreover have sram: "in_sram (idx (regs ?c Sp - 64) i)" if "i < 16" for i
    using that unat_idx [OF fit that] by (simp add: sram_eval word_le_nat_alt word_less_nat_alt)
  moreover have out: "a \<notin> region (regs ?c Sp - 64) 16" if "0x20001000 \<le> a" for a
    using that unat_idx [OF fit] by (auto simp: region_def word_le_nat_alt)
  moreover have "{0x20024000} \<inter> region (regs ?c Sp - 64) 16 = {}" using out [of "0x20024000"] by simp
  ultimately show ?thesis
    using trap_dispatch_transparent 
      [where W = "{0x20024000}" and c = ?c and isr = ?isr and pend = "\<lambda>s. length (dev s)" and
        meinext = next_irq and link = 0 and D = queued_irqs]
      out [of "0x20001000"]
    by fastforce
qed

end
