(* ===== verification/Multicore.thy ===== *)
theory Multicore
  imports Board
begin

text \<open>
  The dual-core support \<^verbatim>\<open>src/pico/multicore.mojo\<close>: the inter-core FIFO with its timeouts, and
  the handshake that wakes core 1 out of the boot ROM. What the chip generics select at compile
  time is a case distinction on the chip descriptor. The event instruction, the cycle counter
  and the link-time words of the RISC-V start-up code are parameters.
\<close>

section \<open>The environment\<close>

record core1_syms =
  sym_trampoline :: u32
  sym_stack_top :: u32
  sym_trap :: u32

record 'd env =
  env_mcycle :: "'d \<Rightarrow> u32 \<times> 'd"
  env_sev :: "'d \<Rightarrow> 'd"
  env_syms :: core1_syms

definition CORE1_META :: u32 where "CORE1_META = 0x100001C0"
definition VECTOR_TABLE :: u32 where "VECTOR_TABLE = 0x10000100"
definition ST_VLD :: u32 where "ST_VLD = 1"
definition ST_RDY :: u32 where "ST_RDY = 2"

definition core1_meta_word :: "core1_syms \<Rightarrow> u32 \<Rightarrow> u32" where
  "core1_meta_word y i =
     (if i = 1 then sym_stack_top y else if i = 2 then sym_trap y else sym_trampoline y)"

definition sev :: "'d env \<Rightarrow> 'd mach \<Rightarrow> 'd mach" where
  "sev E s = s\<lparr>dev := env_sev E (dev s)\<rparr>"

definition ticks :: "chip \<Rightarrow> 'd env \<Rightarrow> 'd device \<Rightarrow> 'd mach \<Rightarrow> u32 \<times> 'd mach" where
  "ticks C E D s = (if chip_IS_RISCV C then read_mcycle (env_mcycle E) s else pico_time_us RP2040 D s)"

definition to_ticks :: "chip \<Rightarrow> u32 \<Rightarrow> u32" where
  "to_ticks C timeout_us = (if chip_IS_RISCV C then timeout_us * 16 else timeout_us)"

section \<open>The FIFO\<close>

partial_function (option) drain_loop ::
  "chip \<Rightarrow> 'd device \<Rightarrow> u32 \<Rightarrow> 'd mach \<Rightarrow> (u32 \<times> 'd mach) option" where
  "drain_loop C D junk s =
     (let (st, s) = rd D (chip_SIO_FIFO_ST C) s
      in if st AND ST_VLD \<noteq> 0
         then (let (v, s) = rd D (chip_SIO_FIFO_RD C) s in drain_loop C D (junk XOR v) s)
         else Some (junk, s))"

definition fifo_drain :: "chip \<Rightarrow> 'd env \<Rightarrow> 'd device \<Rightarrow> 'd mach \<Rightarrow> 'd mach option" where
  "fifo_drain C E D s = do {
     (junk, s) \<leftarrow> drain_loop C D 0 s;
     Some (if junk = 0x5AFEC0DE then sev E s else s)
   }"

text \<open>Both wait loops: until a status bit is set (\<open>True\<close>) or the budget is exceeded.\<close>

partial_function (option) fifo_wait ::
  "chip \<Rightarrow> 'd env \<Rightarrow> 'd device \<Rightarrow> u32 \<Rightarrow> u32 \<Rightarrow> u32 \<Rightarrow> 'd mach \<Rightarrow> (bool \<times> 'd mach) option" where
  "fifo_wait C E D bits t0 budget s =
     (let (st, s) = rd D (chip_SIO_FIFO_ST C) s
      in if st AND bits = 0
         then (let (t, s) = ticks C E D s
               in if budget < t - t0 then Some (False, s) else fifo_wait C E D bits t0 budget s)
         else Some (True, s))"

definition fifo_push :: "chip \<Rightarrow> 'd env \<Rightarrow> 'd device \<Rightarrow> u32 \<Rightarrow> u32 \<Rightarrow> 'd mach \<Rightarrow> (bool \<times> 'd mach) option" where
  "fifo_push C E D v timeout_us s = do {
     let budget = to_ticks C timeout_us;
     let (t0, s) = ticks C E D s;
     (ready, s) \<leftarrow> fifo_wait C E D ST_RDY t0 budget s;
     if \<not> ready then Some (False, s)
     else Some (True, sev E (wr D (chip_SIO_FIFO_WR C) v s))
   }"

definition fifo_pop :: "chip \<Rightarrow> 'd env \<Rightarrow> 'd device \<Rightarrow> u32 \<Rightarrow> 'd mach \<Rightarrow> ((bool \<times> u32) \<times> 'd mach) option" where
  "fifo_pop C E D timeout_us s = do {
     let budget = to_ticks C timeout_us;
     let (t0, s) = ticks C E D s;
     (ready, s) \<leftarrow> fifo_wait C E D ST_VLD t0 budget s;
     if \<not> ready then Some ((False, 0), s)
     else (let (v, s) = rd D (chip_SIO_FIFO_RD C) s in Some ((True, v), s))
   }"

section \<open>The handshake\<close>

definition halt_core1 :: "chip \<Rightarrow> 'd device \<Rightarrow> 'd mach \<Rightarrow> 'd mach option" where
  "halt_core1 C D s = do {
     let s = write32_set D (chip_PSM_FRCE_OFF C) (chip_PSM_PROC1 C) s;
     poll D (chip_PSM_FRCE_OFF C) (\<lambda>v. v AND chip_PSM_PROC1 C \<noteq> 0) s
   }"

definition reset_core1 :: "chip \<Rightarrow> 'd device \<Rightarrow> 'd mach \<Rightarrow> 'd mach option" where
  "reset_core1 C D s = do {
     let s = write32_set D (chip_PSM_FRCE_OFF C) (chip_PSM_PROC1 C) s;
     s \<leftarrow> poll D (chip_PSM_FRCE_OFF C) (\<lambda>v. v AND chip_PSM_PROC1 C \<noteq> 0) s;
     Some (write32_clr D (chip_PSM_FRCE_OFF C) (chip_PSM_PROC1 C) s)
   }"

definition cmd :: "chip \<Rightarrow> 'd env \<Rightarrow> 'd device \<Rightarrow> nat \<Rightarrow> 'd mach \<Rightarrow> u32 \<times> 'd mach" where
  "cmd C E D i s =
     (if i = 0 \<or> i = 1 then (0, s)
      else if i = 2 then (1, s)
      else if chip_IS_RISCV C
      then (core1_meta_word (env_syms E) (if i = 3 then 2 else if i = 4 then 1 else 0), s)
      else if i = 3 then (VECTOR_TABLE, s)
      else if i = 4 then rd D (CORE1_META + 4) s
      else rd D CORE1_META s)"

text \<open>
  One attempt: send word \<open>i\<close> and expect its echo. \<open>None\<close> in the index is the early return of a
  push that timed out.
\<close>

definition attempt :: "chip \<Rightarrow> 'd env \<Rightarrow> 'd device \<Rightarrow> nat \<Rightarrow> 'd mach \<Rightarrow> (nat option \<times> 'd mach) option" where
  "attempt C E D i s = do {
     let (c, s) = cmd C E D i s;
     s \<leftarrow> (if c = 0 then do { s \<leftarrow> fifo_drain C E D s; Some (sev E s) } else Some s);
     (pushed, s) \<leftarrow> fifo_push C E D c 1000 s;
     if \<not> pushed then Some (None, s)
     else do {
       ((ok, v), s) \<leftarrow> fifo_pop C E D 1000 s;
       Some (Some (if ok \<and> v = c then i + 1 else 0), s)
     }
   }"

text \<open>The loop, by the number of attempts that are left before \<^verbatim>\<open>attempts > 64\<close>.\<close>

fun launch_loop :: "chip \<Rightarrow> 'd env \<Rightarrow> 'd device \<Rightarrow> nat \<Rightarrow> nat \<Rightarrow> 'd mach \<Rightarrow> (bool \<times> 'd mach) option" where
  "launch_loop C E D 0 i s = Some (\<not> i < 6, s)"
| "launch_loop C E D (Suc n) i s =
     (if i < 6
      then do {
        (next, s) \<leftarrow> attempt C E D i s;
        case next of None \<Rightarrow> Some (False, s) | Some j \<Rightarrow> launch_loop C E D n j s
      }
      else Some (True, s))"

definition launch :: "chip \<Rightarrow> 'd env \<Rightarrow> 'd device \<Rightarrow> 'd mach \<Rightarrow> (bool \<times> 'd mach) option" where
  "launch C E D s = do { s \<leftarrow> reset_core1 C D s; launch_loop C E D 64 0 s }"

section \<open>The conversation in the log\<close>

definition logged_env :: "'d env \<Rightarrow> ('d \<times> event list) env" where
  "logged_env E = \<lparr>env_mcycle = \<lambda>(d, es). (let (v, d') = env_mcycle E d in (v, (d', es))),
     env_sev = \<lambda>(d, es). (env_sev E d, es), env_syms = env_syms E\<rparr>"

text \<open>The accesses to the data registers of the FIFO.\<close>

definition is_word :: "chip \<Rightarrow> event \<Rightarrow> bool" where
  "is_word C e = (case e of Write a v \<Rightarrow> a = chip_SIO_FIFO_WR C | Read a v \<Rightarrow> a = chip_SIO_FIFO_RD C)"

text \<open>
  \<open>echoed C ws es\<close>: every word of \<open>ws\<close> was sent and then read back, in order; before a zero the
  FIFO was emptied.
\<close>

fun echoed :: "chip \<Rightarrow> u32 list \<Rightarrow> event list \<Rightarrow> bool" where
  "echoed C [] es = (es = [])"
| "echoed C (w # ws) [] = False"
| "echoed C (w # ws) (Read a v # es) = (a = chip_SIO_FIFO_RD C \<and> w = 0 \<and> echoed C (w # ws) es)"
| "echoed C (w # ws) (Write a v # es) =
     (a = chip_SIO_FIFO_WR C \<and> v = w \<and> (case es of
        [] \<Rightarrow> False | e # es \<Rightarrow> e = Read (chip_SIO_FIFO_RD C) w \<and> echoed C ws es))"

text \<open>The words of the handshake, the last two of which the Arm chip finds in flash.\<close>

definition answered :: "'d device \<Rightarrow> event list \<Rightarrow> u32 \<Rightarrow> u32 \<Rightarrow> bool" where
  "answered D es a w \<longleftrightarrow> Read a w \<in> set es \<and> (\<exists>d. fst (dread D d a) = w)"

lemma answered_append: "answered D es a w \<Longrightarrow> answered D (es @ fs) a w" "answered D fs a w \<Longrightarrow> answered D (es @ fs) a w"
  by (auto simp: answered_def)

definition handshake_word :: "chip \<Rightarrow> 'd device \<Rightarrow> core1_syms \<Rightarrow> event list \<Rightarrow> nat \<Rightarrow> u32 \<Rightarrow> bool" where
  "handshake_word C D y es i w \<longleftrightarrow>
     (if i < 2 then w = 0 else if i = 2 then w = 1
      else if chip_IS_RISCV C then w = [sym_trap y, sym_stack_top y, sym_trampoline y] ! (i - 3)
      else if i = 3 then w = VECTOR_TABLE
      else answered D es (if i = 4 then CORE1_META + 4 else CORE1_META) w)"

definition grows :: "(event list \<Rightarrow> bool) \<Rightarrow> ('d \<times> event list) mach \<Rightarrow> ('d \<times> event list) mach \<Rightarrow> bool" where
  "grows P s t \<longleftrightarrow> (\<exists>es. log t = log s @ es \<and> P es)"

lemma grows_trans:
  "grows P s t \<Longrightarrow> grows Q t u \<Longrightarrow> (\<And>es fs. P es \<Longrightarrow> Q fs \<Longrightarrow> R (es @ fs)) \<Longrightarrow> grows R s u"
  unfolding grows_def by fastforce

lemma chip_fifo:
  assumes "known_chip C"
  shows "chip_SIO_FIFO_ST C = 0xD0000050" "chip_SIO_FIFO_WR C = 0xD0000054" "chip_SIO_FIFO_RD C = 0xD0000058"
    "\<not> in_sram (chip_PSM_FRCE_OFF C)" "\<not> in_sram (chip_PSM_FRCE_OFF C + SET_ALIAS)"
    "\<not> in_sram (chip_PSM_FRCE_OFF C + CLR_ALIAS)" "chip_TIMER_BASE RP2040 + 0x28 = 0x40054028"
  using assms by (auto simp: known_chip_def RP2040_def RP2350_def sram_eval SET_ALIAS_def CLR_ALIAS_def)

definition quiet :: "chip \<Rightarrow> event list \<Rightarrow> bool" where
  "quiet C es \<longleftrightarrow> filter (is_word C) es = []"

lemma quiet_trans: "grows (quiet C) s t \<Longrightarrow> grows (quiet C) t u \<Longrightarrow> grows (quiet C) s u"
  by (erule (1) grows_trans) (simp add: quiet_def)

lemma grows_rd:
  "known_chip C \<Longrightarrow> \<not> in_sram a \<Longrightarrow> a \<noteq> 0xD0000058 \<Longrightarrow> rd (logged D) a s = (v, t) \<Longrightarrow> grows (quiet C) s t"
  using log_rd [of a D s v t] by (auto simp: grows_def quiet_def is_word_def chip_fifo)

lemma ticks_grows:
  assumes "known_chip C" and "ticks C (logged_env E) (logged D) s = (v, t)"
  shows "grows (quiet C) s t"
proof (cases "chip_IS_RISCV C")
  case True
  then have "log t = log s"
    using assms(2) by (auto simp: ticks_def read_mcycle_def logged_env_def split_beta)
  then show ?thesis by (simp add: grows_def quiet_def)
next
  case False
  then show ?thesis
    using assms grows_rd [OF assms(1), of "0x40054028" D s v t]
    by (simp add: ticks_def pico_time_us_def chip_fifo sram_eval)
qed

lemma fifo_wait_grows:
  assumes "known_chip C" and "fifo_wait C (logged_env E) (logged D) bits t0 budget s = Some (b, t)"
  shows "grows (quiet C) s t"
proof -
  let ?P = "\<lambda>C' E' D' bits t0 budget s x. C' = C \<longrightarrow> E' = logged_env E \<longrightarrow> D' = logged D \<longrightarrow>
    grows (quiet C) s (snd x)"
  have "?P C (logged_env E) (logged D) bits t0 budget s (b, t)"
    using assms(2)
  proof (rule fifo_wait.raw_induct [where P = ?P, rotated], intro impI)
    fix f C' E' D' bits t0 budget s x
    assume IH: "\<And>C' E' D' bits t0 budget s x. f C' E' D' bits t0 budget s = Some x \<Longrightarrow>
        ?P C' E' D' bits t0 budget s x"
      and run: "(let (st, s) = rd D' (chip_SIO_FIFO_ST C') s
        in if st AND bits = 0
           then (let (t, s) = ticks C' E' D' s
                 in if budget < t - t0 then Some (False, s) else f C' E' D' bits t0 budget s)
           else Some (True, s)) = Some x"
      and eqs: "C' = C" "E' = logged_env E" "D' = logged D"
    obtain st u where u: "rd (logged D) 0xD0000050 s = (st, u)" by fastforce
    obtain now w where w: "ticks C (logged_env E) (logged D) u = (now, w)" by fastforce
    have "grows (quiet C) s u" using grows_rd [OF assms(1) _ _ u] by (simp add: sram_eval)
    moreover have "grows (quiet C) u w" using assms(1) w by (rule ticks_grows)
    moreover have "snd x = u \<or> snd x = w \<or> f C (logged_env E) (logged D) bits t0 budget w = Some x"
      using run u w by (auto simp: eqs chip_fifo [OF assms(1)] split: if_splits)
    ultimately show "grows (quiet C) s (snd x)"
      using IH [of C "logged_env E" "logged D" bits t0 budget w x] by (metis quiet_trans)
  qed
  then show ?thesis by simp
qed

definition drained :: "chip \<Rightarrow> event list \<Rightarrow> bool" where
  "drained C es \<longleftrightarrow> list_all (\<lambda>e. case e of Read a v \<Rightarrow> True | _ \<Rightarrow> False) (filter (is_word C) es)"

lemma drain_loop_grows:
  assumes "known_chip C" and "drain_loop C (logged D) junk s = Some (j, t)"
  shows "grows (drained C) s t"
proof -
  let ?P = "\<lambda>C' D' junk s x. C' = C \<longrightarrow> D' = logged D \<longrightarrow> grows (drained C) s (snd x)"
  have "?P C (logged D) junk s (j, t)"
    using assms(2)
  proof (rule drain_loop.raw_induct [where P = ?P, rotated], intro impI)
    fix f C' D' junk s x
    assume IH: "\<And>C' D' junk s x. f C' D' junk s = Some x \<Longrightarrow> ?P C' D' junk s x"
      and run: "(let (st, s) = rd D' (chip_SIO_FIFO_ST C') s
        in if st AND ST_VLD \<noteq> 0
           then (let (v, s) = rd D' (chip_SIO_FIFO_RD C') s in f C' D' (junk XOR v) s)
           else Some (junk, s)) = Some x"
      and eqs: "C' = C" "D' = logged D"
    obtain st u where u: "rd (logged D) 0xD0000050 s = (st, u)" by fastforce
    obtain v w where w: "rd (logged D) 0xD0000058 u = (v, w)" by fastforce
    have logs: "log u = log s @ [Read 0xD0000050 st]" "log w = log u @ [Read 0xD0000058 v]"
      using log_rd [OF _ u] log_rd [OF _ w] by (simp_all add: sram_eval)
    show "grows (drained C) s (snd x)"
    proof (cases "st AND ST_VLD = 0")
      case True
      then have "snd x = u" using run u by (auto simp: eqs chip_fifo [OF assms(1)])
      then show ?thesis using logs by (simp add: grows_def drained_def)
    next
      case False
      then have "f C (logged D) (junk XOR v) w = Some x"
        using run u w by (simp add: eqs chip_fifo [OF assms(1)])
      from IH [OF this] obtain es where "log (snd x) = log w @ es" "drained C es"
        by (auto simp: grows_def)
      then show ?thesis unfolding grows_def using logs
        by (intro exI [of _ "[Read 0xD0000050 st, Read 0xD0000058 v] @ es"]) (simp add: drained_def)
    qed
  qed
  then show ?thesis by simp
qed

lemma log_sev [simp]: "log (sev (logged_env E) s) = log s"
  by (simp add: sev_def logged_env_def split_beta)

lemma fifo_push_grows:
  assumes "known_chip C" and "fifo_push C (logged_env E) (logged D) v us s = Some (True, t)"
  shows "grows (\<lambda>es. filter (is_word C) es = [Write (chip_SIO_FIFO_WR C) v]) s t"
proof -
  obtain t0 u w where u: "ticks C (logged_env E) (logged D) s = (t0, u)"
    and w: "fifo_wait C (logged_env E) (logged D) ST_RDY t0 (to_ticks C us) u = Some (True, w)"
    and t: "t = sev (logged_env E) (wr (logged D) (chip_SIO_FIFO_WR C) v w)"
    using assms(2) by (fastforce simp: fifo_push_def bind_eq_Some_conv split: prod.splits if_splits)
  have "grows (quiet C) s w"
    using ticks_grows [OF assms(1) u] fifo_wait_grows [OF assms(1) w] by (rule quiet_trans)
  moreover have "log t = log w @ [Write (chip_SIO_FIFO_WR C) v]"
    by (simp add: t log_wr sram_eval chip_fifo [OF assms(1)])
  ultimately show ?thesis unfolding grows_def quiet_def
    by (auto simp: is_word_def)
qed

lemma fifo_pop_grows:
  assumes "known_chip C" and "fifo_pop C (logged_env E) (logged D) us s = Some ((True, v), t)"
  shows "grows (\<lambda>es. filter (is_word C) es = [Read (chip_SIO_FIFO_RD C) v]) s t"
proof -
  obtain t0 u w where u: "ticks C (logged_env E) (logged D) s = (t0, u)"
    and w: "fifo_wait C (logged_env E) (logged D) ST_VLD t0 (to_ticks C us) u = Some (True, w)"
    and t: "rd (logged D) (chip_SIO_FIFO_RD C) w = (v, t)"
    using assms(2) by (fastforce simp: fifo_pop_def bind_eq_Some_conv split: prod.splits if_splits)
  have "grows (quiet C) s w"
    using ticks_grows [OF assms(1) u] fifo_wait_grows [OF assms(1) w] by (rule quiet_trans)
  moreover have "log t = log w @ [Read (chip_SIO_FIFO_RD C) v]"
    using log_rd [OF _ t] by (simp add: sram_eval chip_fifo [OF assms(1)])
  ultimately show ?thesis unfolding grows_def quiet_def
    by (auto simp: is_word_def)
qed

lemma echoed_drained:
  "drained C es \<Longrightarrow> echoed C [0] (filter (is_word C) es @ [Write (chip_SIO_FIFO_WR C) 0, Read (chip_SIO_FIFO_RD C) 0])"
proof (induction es)
  case (Cons e es)
  have "is_word C (Read a v) \<longleftrightarrow> a = chip_SIO_FIFO_RD C" for a v by (simp add: is_word_def)
  with Cons show ?case by (cases e) (auto simp: drained_def split: if_splits)
qed simp

lemma echoed_append: "echoed C ws es \<Longrightarrow> echoed C [w] fs \<Longrightarrow> echoed C (ws @ [w]) (es @ fs)"
  by (induction C ws es rule: echoed.induct) (auto split: list.splits)

lemma cmd_word:
  assumes "known_chip C" and "cmd C (logged_env E) (logged D) i s = (c, t)" and "i < 6"
  shows "\<exists>es. log t = log s @ es \<and> filter (is_word C) es = [] \<and> handshake_word C D (env_syms E) es i c"
proof -
  have "i = 0 \<or> i = 1 \<or> i = 2 \<or> i = 3 \<or> i = 4 \<or> i = 5" using assms(3) by auto
  moreover have "\<exists>es. log t = log s @ es \<and> filter (is_word C) es = [] \<and> answered D es a c"
    if "rd (logged D) a s = (c, t)" "a = CORE1_META + 4 \<or> a = CORE1_META" for a
  proof -
    have "\<not> in_sram a" "a \<noteq> 0xD0000058" using that(2) by (auto simp: sram_eval CORE1_META_def)
    moreover from this(1) have "fst (dread D (fst (dev s)) a) = c"
      using that(1) by (auto simp: rd_dev logged_def split_beta)
    ultimately show ?thesis
      using log_rd [OF _ that(1)] by (auto simp: answered_def is_word_def chip_fifo [OF assms(1)])
  qed
  ultimately show ?thesis
    using assms(2) by (auto simp: cmd_def handshake_word_def core1_meta_word_def logged_env_def split: if_splits)
qed

lemma attempt_grows:
  assumes "known_chip C" and "attempt C (logged_env E) (logged D) i s = Some (Some j, t)" and "i < 6"
  shows "j = 0 \<or> j = Suc i \<and> (\<exists>w. grows (\<lambda>es. echoed C [w] (filter (is_word C) es) \<and>
    handshake_word C D (env_syms E) es i w) s t)"
proof (cases "j = 0")
  case False
  let ?E = "logged_env E" and ?D = "logged D"
  obtain c s1 where c: "cmd C ?E ?D i s = (c, s1)" by fastforce
  obtain s2 s3 ok v where
    s2: "(if c = 0 then do { s \<leftarrow> fifo_drain C ?E ?D s1; Some (sev ?E s) } else Some s1) = Some s2" and
    s3: "fifo_push C ?E ?D c 1000 s2 = Some (True, s3)" and
    pop: "fifo_pop C ?E ?D 1000 s3 = Some ((ok, v), t)" and j: "j = (if ok \<and> v = c then i + 1 else 0)"
    using assms(2) c by (fastforce simp: attempt_def bind_eq_Some_conv split: prod.splits if_splits)
  with False have "ok" "v = c" "j = Suc i" by (auto split: if_splits)
  obtain e1 where e1: "log s1 = log s @ e1" "filter (is_word C) e1 = []" "handshake_word C D (env_syms E) e1 i c"
    using cmd_word [OF assms(1) c assms(3)] by blast
  obtain e2 where e2: "log s2 = log s1 @ e2" "drained C e2" "c \<noteq> 0 \<longrightarrow> e2 = []"
  proof (cases "c = 0")
    case True
    with s2 obtain junk u where "drain_loop C ?D 0 s1 = Some (junk, u)" "log s2 = log u"
      by (auto simp: fifo_drain_def bind_eq_Some_conv split: if_splits)
    with drain_loop_grows [OF assms(1), of D 0 s1 junk u] that True show ?thesis by (auto simp: grows_def)
  next
    case False
    with s2 that show ?thesis by (simp add: drained_def)
  qed
  obtain e3 where e3: "log s3 = log s2 @ e3" "filter (is_word C) e3 = [Write (chip_SIO_FIFO_WR C) c]"
    using fifo_push_grows [OF assms(1) s3] by (auto simp: grows_def)
  obtain e4 where e4: "log t = log s3 @ e4" "filter (is_word C) e4 = [Read (chip_SIO_FIFO_RD C) c]"
    using fifo_pop_grows [OF assms(1), of E D 1000 s3 c t] pop \<open>ok\<close> \<open>v = c\<close> by (auto simp: grows_def)
  let ?es = "e1 @ e2 @ e3 @ e4"
  have "log t = log s @ ?es" by (simp add: e1 e2 e3 e4)
  moreover have "echoed C [c] (filter (is_word C) ?es)"
    using echoed_drained [OF e2(2)] e2(3) by (cases "c = 0") (simp_all add: e1 e3 e4)
  moreover have "handshake_word C D (env_syms E) ?es i c"
    using e1(3) by (auto simp: handshake_word_def answered_append split: if_splits)
  ultimately show ?thesis using \<open>j = Suc i\<close> unfolding grows_def by blast
qed simp

text \<open>The part of the log that is the conversation since the last restart.\<close>

definition conversed :: "chip \<Rightarrow> 'd device \<Rightarrow> core1_syms \<Rightarrow> nat \<Rightarrow> event list \<Rightarrow> bool" where
  "conversed C D y i es \<longleftrightarrow> (\<exists>pre fs ws. es = pre @ fs \<and> length ws = i \<and>
     echoed C ws (filter (is_word C) fs) \<and> (\<forall>k<i. handshake_word C D y fs k (ws ! k)))"

lemma conversed_0: "conversed C D y 0 es"
  unfolding conversed_def by (intro exI [of _ es] exI [of _ "[]"]) simp

lemma conversed_Suc:
  assumes "conversed C D y i es" and "echoed C [w] (filter (is_word C) fs)" and "handshake_word C D y fs i w"
  shows "conversed C D y (Suc i) (es @ fs)"
proof -
  obtain pre gs ws where inv: "es = pre @ gs" "length ws = i" "echoed C ws (filter (is_word C) gs)"
    "\<forall>k<i. handshake_word C D y gs k (ws ! k)"
    using assms(1) unfolding conversed_def by blast
  have "handshake_word C D y (gs @ fs) k ((ws @ [w]) ! k)" if "k < Suc i" for k
    using that inv(2,4) assms(3) by (cases "k = i") (auto simp: handshake_word_def nth_append less_Suc_eq answered_append)
  moreover have "echoed C (ws @ [w]) (filter (is_word C) (gs @ fs))"
    using echoed_append [OF inv(3) assms(2)] by simp
  ultimately show ?thesis
    unfolding conversed_def inv(1) using inv(2)
    by (intro exI [of _ pre] exI [of _ "gs @ fs"] exI [of _ "ws @ [w]"]) simp
qed

lemma launch_loop_grows:
  assumes "known_chip C"
  shows "launch_loop C (logged_env E) (logged D) n i s = Some (True, t) \<Longrightarrow> i \<le> 6 \<Longrightarrow>
    conversed C D (env_syms E) i (log s) \<Longrightarrow> conversed C D (env_syms E) 6 (log t)"
proof (induction n arbitrary: i s)
  case (Suc n)
  show ?case
  proof (cases "i < 6")
    case True
    with Suc.prems(1) obtain j u where at: "attempt C (logged_env E) (logged D) i s = Some (Some j, u)"
      and rest: "launch_loop C (logged_env E) (logged D) n j u = Some (True, t)"
      by (auto simp: bind_eq_Some_conv split: option.splits)
    from attempt_grows [OF assms at True] have "conversed C D (env_syms E) j (log u)" "j \<le> 6"
      using conversed_0 conversed_Suc [OF Suc.prems(3)] True by (auto simp: grows_def)
    then show ?thesis using Suc.IH [OF rest] by blast
  qed (use Suc.prems in auto)
qed auto

lemma launch_conversation:
  assumes "known_chip C" and "launch C (logged_env E) (logged D) s = Some (True, t)"
  shows "\<exists>pre fs vt sp entry. log t = pre @ fs \<and>
    echoed C [0, 0, 1, vt, sp, entry] (filter (is_word C) fs) \<and>
    (if chip_IS_RISCV C
     then vt = sym_trap (env_syms E) \<and> sp = sym_stack_top (env_syms E) \<and>
       entry = sym_trampoline (env_syms E)
     else vt = VECTOR_TABLE \<and> answered D fs (CORE1_META + 4) sp \<and> answered D fs CORE1_META entry)"
proof -
  obtain u where "launch_loop C (logged_env E) (logged D) 64 0 u = Some (True, t)"
    using assms(2) by (auto simp: launch_def bind_eq_Some_conv)
  from launch_loop_grows [OF assms(1) this] conversed_0 have "conversed C D (env_syms E) 6 (log t)" by blast
  then obtain pre fs ws where c: "log t = pre @ fs" "length ws = 6" "echoed C ws (filter (is_word C) fs)"
    "\<forall>k<6. handshake_word C D (env_syms E) fs k (ws ! k)"
    unfolding conversed_def by blast
  from c(2) obtain w0 w1 w2 w3 w4 w5 where ws: "ws = [w0, w1, w2, w3, w4, w5]"
    by (auto simp: numeral_eq_Suc length_Suc_conv)
  have "handshake_word C D (env_syms E) fs k (ws ! k)" if "k \<in> {0, 1, 2, 3, 4, 5}" for k
    using c(4) that by auto
  from this [of 0] this [of 1] this [of 2] this [of 3] this [of 4] this [of 5] c(1,3) show ?thesis
    by (intro exI [of _ pre] exI [of _ fs] exI [of _ w3] exI [of _ w4] exI [of _ w5])
      (auto simp: ws handshake_word_def)
qed

section \<open>Termination\<close>

text \<open>
  What the code relies on: alternating reads of the FIFO status and the clock see the clock
  pass every deadline, and the power state machine acknowledges. Nothing is assumed of core 1.
\<close>

definition tick_dev :: "chip \<Rightarrow> 'd env \<Rightarrow> 'd device \<Rightarrow> 'd \<Rightarrow> u32 \<times> 'd" where
  "tick_dev C E D d = (if chip_IS_RISCV C then env_mcycle E d else dread D d 0x40054028)"











lemma ticks_dev:
  "known_chip C \<Longrightarrow> ticks C E D s = (fst (tick_dev C E D (dev s)), s\<lparr>dev := snd (tick_dev C E D (dev s))\<rparr>)"
  by (simp add: ticks_def tick_dev_def read_mcycle_def pico_time_us_def chip_fifo rd_dev sram_eval split_beta)

lemma rd_fifo:
  assumes "known_chip C"
  shows "rd D (chip_SIO_FIFO_ST C) s = (fst (dread D (dev s) (chip_SIO_FIFO_ST C)),
      s\<lparr>dev := snd (dread D (dev s) (chip_SIO_FIFO_ST C))\<rparr>)"
    and "rd D (chip_SIO_FIFO_RD C) s = (fst (dread D (dev s) (chip_SIO_FIFO_RD C)),
      s\<lparr>dev := snd (dread D (dev s) (chip_SIO_FIFO_RD C))\<rparr>)"
  by (simp_all add: chip_fifo [OF assms] rd_dev sram_eval)
















section \<open>A core that answers\<close>

text \<open>
  The boot ROM's side of the protocol, as the datasheets describe it: while core 1 waits (\<open>Q\<close>)
  the FIFO has room and nothing to read; after a word was sent (\<open>R w\<close>) its echo can be read,
  and core 1 waits again. Powering core 1 back on makes it wait.
\<close>

definition boot_rom ::
  "chip \<Rightarrow> 'd env \<Rightarrow> 'd device \<Rightarrow> ('d \<Rightarrow> bool) \<Rightarrow> (u32 \<Rightarrow> 'd \<Rightarrow> bool) \<Rightarrow> bool" where
  "boot_rom C E D Q R \<longleftrightarrow>
     (\<forall>d. Q d \<longrightarrow> Q (env_sev E d) \<and> Q (snd (tick_dev C E D d)) \<and>
        Q (snd (dread D d CORE1_META)) \<and> Q (snd (dread D d (CORE1_META + 4))) \<and>
        fst (dread D d (chip_SIO_FIFO_ST C)) AND ST_VLD = 0 \<and>
        fst (dread D d (chip_SIO_FIFO_ST C)) AND ST_RDY \<noteq> 0 \<and> Q (snd (dread D d (chip_SIO_FIFO_ST C)))) \<and>
     (\<forall>d w. Q d \<longrightarrow> R w (dwrite D d (chip_SIO_FIFO_WR C) w)) \<and>
     (\<forall>d w. R w d \<longrightarrow> R w (env_sev E d) \<and> R w (snd (tick_dev C E D d)) \<and>
        fst (dread D d (chip_SIO_FIFO_ST C)) AND ST_VLD \<noteq> 0 \<and> R w (snd (dread D d (chip_SIO_FIFO_ST C))) \<and>
        fst (dread D d (chip_SIO_FIFO_RD C)) = w \<and> Q (snd (dread D d (chip_SIO_FIFO_RD C)))) \<and>
     (\<forall>d. Q (dwrite D d (chip_PSM_FRCE_OFF C + CLR_ALIAS) (chip_PSM_PROC1 C)))"

lemma attempt_echo:
  assumes C: "known_chip C" and rom: "boot_rom C E D Q R" and "Q (dev s)" and "i < 6"
  shows "\<exists>t. attempt C E D i s = Some (Some (Suc i), t) \<and> Q (dev t)"
proof -
  note rom' = rom [unfolded boot_rom_def]
  obtain c s1 where c: "cmd C E D i s = (c, s1)" "Q (dev s1)"
    using rom' assms(3)
    by (cases "cmd C E D i s") (auto simp: cmd_def rd_dev sram_eval CORE1_META_def split: if_splits)
  have "\<exists>u. (if c = 0 then do { s \<leftarrow> fifo_drain C E D s1; Some (sev E s) } else Some s1) = Some u \<and> Q (dev u)"
    using rom' c(2)
    by (subst fifo_drain_def, subst drain_loop.simps) (auto simp: rd_fifo [OF C] sev_def)
  then obtain s2 where s2: "(if c = 0 then do { s \<leftarrow> fifo_drain C E D s1; Some (sev E s) } else Some s1) = Some s2"
    "Q (dev s2)" by blast
  have idle: "Q (snd (tick_dev C E D d))" "fst (dread D d (chip_SIO_FIFO_ST C)) AND ST_RDY \<noteq> 0"
    "Q (snd (dread D d (chip_SIO_FIFO_ST C)))" "R c (env_sev E (dwrite D d (chip_SIO_FIFO_WR C) c))"
    if "Q d" for d
    using rom' that by blast+
  have dev_put: "dev (wr D (chip_SIO_FIFO_WR C) c u) = dwrite D (dev u) (chip_SIO_FIFO_WR C) c" for u
    by (simp add: dev_wr sram_eval chip_fifo [OF C])
  have "\<exists>u. fifo_push C E D c 1000 s2 = Some (True, u) \<and> R c (dev u)"
    using s2(2) unfolding fifo_push_def
    by (subst fifo_wait.simps)
      (simp add: Let_def rd_fifo [OF C] ticks_dev [OF C] sev_def dev_put idle)
  then obtain s3 where s3: "fifo_push C E D c 1000 s2 = Some (True, s3)" "R c (dev s3)" by blast
  have pending: "R c (snd (tick_dev C E D d))" "fst (dread D d (chip_SIO_FIFO_ST C)) AND ST_VLD \<noteq> 0"
    "R c (snd (dread D d (chip_SIO_FIFO_ST C)))" "fst (dread D d (chip_SIO_FIFO_RD C)) = c"
    "Q (snd (dread D d (chip_SIO_FIFO_RD C)))" if "R c d" for d
    using rom' that by blast+
  have "\<exists>u. fifo_pop C E D 1000 s3 = Some ((True, c), u) \<and> Q (dev u)"
    using s3(2) unfolding fifo_pop_def
    by (subst fifo_wait.simps) (simp add: Let_def rd_fifo [OF C] ticks_dev [OF C] pending)
  then show ?thesis using c s2 s3 by (auto simp: attempt_def)
qed

lemma launch_loop_echo:
  assumes "known_chip C" and "boot_rom C E D Q R"
  shows "Q (dev s) \<Longrightarrow> i \<le> 6 \<Longrightarrow> 6 \<le> n + i \<Longrightarrow> \<exists>t. launch_loop C E D n i s = Some (True, t)"
proof (induction n arbitrary: i s)
  case (Suc n)
  show ?case
  proof (cases "i < 6")
    case True
    obtain u where "attempt C E D i s = Some (Some (Suc i), u)" "Q (dev u)"
      using attempt_echo [OF assms Suc.prems(1) True] by blast
    with Suc.IH [of u "Suc i"] Suc.prems True show ?thesis by simp
  qed simp
qed simp

lemma launch_echo:
  assumes "known_chip C" and "boot_rom C E D Q R"
    and "acks D (chip_PSM_FRCE_OFF C + SET_ALIAS) (chip_PSM_PROC1 C) (chip_PSM_FRCE_OFF C)
       (\<lambda>v. v AND chip_PSM_PROC1 C \<noteq> 0)"
  shows "\<exists>t. launch C E D s = Some (True, t)"
proof -
  obtain d where d: "poll D (chip_PSM_FRCE_OFF C) (\<lambda>v. v AND chip_PSM_PROC1 C \<noteq> 0)
      (wr D (chip_PSM_FRCE_OFF C + SET_ALIAS) (chip_PSM_PROC1 C) s) = Some (s\<lparr>dev := d\<rparr>)"
    using write_then_poll_returns [OF assms(3)] by (metis chip_fifo(4,5) [OF assms(1)])
  define u where "u = wr D (chip_PSM_FRCE_OFF C + CLR_ALIAS) (chip_PSM_PROC1 C) (s\<lparr>dev := d\<rparr>)"
  have "Q (dev u)" using assms(2) by (simp add: u_def dev_wr chip_fifo [OF assms(1)] boot_rom_def)
  moreover have "reset_core1 C D s = Some u"
    using d by (simp add: reset_core1_def write32_set_def write32_clr_def u_def)
  ultimately show ?thesis
    using launch_loop_echo [OF assms(1,2), of u 0 64] by (simp add: launch_def)
qed

text \<open>The smallest such core: its state is the pending echo.\<close>

definition echo_core :: "u32 option device" where
  "echo_core = \<lparr>dread = \<lambda>d a.
       if a = 0xD0000050 then (if d = None then 2 else 3, d)
       else if a = 0xD0000058 then (case d of None \<Rightarrow> (0, None) | Some w \<Rightarrow> (w, None))
       else (0xFFFFFFFF, d),
     dwrite = \<lambda>d a v. if a = 0xD0000054 then Some v else if a = 0x40013004 then None else d\<rparr>"

definition quiet_env :: "'d env" where
  "quiet_env = \<lparr>env_mcycle = \<lambda>d. (0, d), env_sev = \<lambda>d. d,
     env_syms = \<lparr>sym_trampoline = 0, sym_stack_top = 0, sym_trap = 0\<rparr>\<rparr>"

lemma echo_core_rom:
  "boot_rom RP2040 (logged_env quiet_env) (logged echo_core) (\<lambda>(d, _). d = None) (\<lambda>w (d, _). d = Some w)"
  by (auto simp: boot_rom_def tick_dev_def RP2040_def logged_def echo_core_def quiet_env_def logged_env_def
      CORE1_META_def CLR_ALIAS_def ST_VLD_def ST_RDY_def)

lemma echo_core_acks:
  "acks (logged echo_core) (chip_PSM_FRCE_OFF RP2040 + SET_ALIAS) (chip_PSM_PROC1 RP2040)
     (chip_PSM_FRCE_OFF RP2040) (\<lambda>v. v AND chip_PSM_PROC1 RP2040 \<noteq> 0)"
proof (intro acks_logged)
  show "acks echo_core (chip_PSM_FRCE_OFF RP2040 + SET_ALIAS) (chip_PSM_PROC1 RP2040)
     (chip_PSM_FRCE_OFF RP2040) (\<lambda>v. v AND chip_PSM_PROC1 RP2040 \<noteq> 0)"
    unfolding acks_def by (intro allI exI [of _ 0]) (simp add: nth_read_0 RP2040_def echo_core_def)
qed






section \<open>Properties\<close>

text \<open>C10: \<open>launch\<close> reports success only after the complete handshake: the last part of the FIFO
  conversation is the six words in order, each written and then read back unchanged, with the
  FIFO emptied before the zeros; the vector table, stack pointer and entry are those of the
  chip, on the RP2040 the words read from the image's metadata.\<close>

theorem launch_handshake:
  assumes "known_chip C" and "launch C (logged_env E) (logged D) s = Some (True, t)"
  shows "\<exists>pre fs vt sp entry. log t = pre @ fs \<and>
    echoed C [0, 0, 1, vt, sp, entry] (filter (is_word C) fs) \<and>
    (if chip_IS_RISCV C
     then vt = sym_trap (env_syms E) \<and> sp = sym_stack_top (env_syms E) \<and>
       entry = sym_trampoline (env_syms E)
     else vt = VECTOR_TABLE \<and> answered D fs (CORE1_META + 4) sp \<and> answered D fs CORE1_META entry)"
  by (rule launch_conversation [OF assms])

theorem launch_handshake_witness:
  "\<exists>t sp. launch RP2040 (logged_env quiet_env) (logged echo_core) \<lparr>ram = \<lambda>_. 0, dev = (None, [])\<rparr> = Some (True, t) \<and>
     Read (CORE1_META + 4) sp \<in> set (log t)"
proof -
  have C: "known_chip RP2040" "\<not> chip_IS_RISCV RP2040" by (simp_all add: known_chip_def RP2040_def)
  obtain t where t: "launch RP2040 (logged_env quiet_env) (logged echo_core)
      \<lparr>ram = \<lambda>_. 0, dev = (None, [])\<rparr> = Some (True, t)"
    using launch_echo [OF C(1) echo_core_rom echo_core_acks] by blast
  show ?thesis using launch_handshake [OF C(1) t] C(2) t by (fastforce simp: answered_def)
qed



text \<open>Against a core 1 that follows the boot ROM's protocol \<open>launch\<close> succeeds, on both chips.\<close>

theorem launch_succeeds:
  assumes "known_chip C" and "boot_rom C E D Q R"
    and "acks D (chip_PSM_FRCE_OFF C + SET_ALIAS) (chip_PSM_PROC1 C) (chip_PSM_FRCE_OFF C)
       (\<lambda>v. v AND chip_PSM_PROC1 C \<noteq> 0)"
  shows "\<exists>t. launch C E D s = Some (True, t)"
  using launch_echo [OF assms, of s] by blast

theorem launch_succeeds_witness:
  "\<exists>t. launch RP2040 (logged_env quiet_env) (logged echo_core) \<lparr>ram = \<lambda>_. 0, dev = (Some 5, [])\<rparr> = Some (True, t)"
  using launch_succeeds [OF _ echo_core_rom echo_core_acks] by (simp add: known_chip_def)

end
