(* ===== verification/PowerOn.thy ===== *)
theory PowerOn
  imports Boot2 Startup Multicore BenchC PlatformDefs
begin

text \<open>
  The RP2040 image from power-on: the boot ROM enters the second-stage loader, the loader starts
  the image through its vector table, the reset handler initialises the memory and calls
  \<^verbatim>\<open>mojo_main\<close>, here that of \<^verbatim>\<open>bench.c\<close>. What the linker resolves is a parameter: the addresses
  of the symbols, the interrupt handlers the application exports and the content of the flash, which \<^verbatim>\<open>link.ld\<close> fills with the vector table
  behind the loader and the metadata of core 1 right behind the table.
\<close>

section \<open>The linked image\<close>

definition image_linked :: "nat set \<Rightarrow> (symbol \<Rightarrow> u32) \<Rightarrow> (u32 \<Rightarrow> u32) \<Rightarrow> bool" where
  "image_linked exported addr img \<longleftrightarrow>
     (let words = map (\<lambda>y. addr (isr_target exported y)) (vector_table @ core1_meta)
      in \<forall>i<length words. img (idx 0x10000100 i) = words ! i)"

lemma image_word:
  assumes "image_linked exported addr img" and "i < length (vector_table @ core1_meta)"
  shows "img (idx 0x10000100 i) = addr (isr_target exported ((vector_table @ core1_meta) ! i))"
  using assms by (simp add: image_linked_def Let_def nth_append)

lemma vector_table_length: "length vector_table = 48"
  by (simp add: vector_table_def)

lemma image_words:
  assumes "image_linked exported addr img"
  shows "img 0x10000100 = addr Stack_top" "img 0x10000104 = addr Reset_handler"
    "img CORE1_META = addr Core1_trampoline" "img (CORE1_META + 4) = addr Core1_stack_top"
  using image_word [OF assms, of 0] image_word [OF assms, of 1] image_word [OF assms, of 48]
    image_word [OF assms, of 49]
  by (simp_all add: idx_def CORE1_META_def nth_append vector_table_length core1_meta_def)
    (simp_all add: vector_table_def isr_target_def)

text \<open>
  The interrupt vectors start where the platform header says, and each is the application's
  handler when it exports one and the endless loop of the default handler otherwise.
\<close>

lemma irq_vector:
  assumes "image_linked exported addr img" and "n < NUM_IRQS"
  shows "img (idx 0x10000100 (VTABLE_FIRST_IRQ + n)) =
    addr (if n \<in> exported then Isr_irq n else Default_handler)"
proof -
  have n: "n < 32" using assms(2) by (simp add: platform_defs)
  then have "vector_table ! (16 + n) = Isr_irq n"
    by (simp add: vector_table_def nth_append del: upt_rec_numeral)
  with n show ?thesis
    using image_word [OF assms(1), of "16 + n"]
    by (simp add: platform_defs nth_append vector_table_length isr_target_def)
qed

lemma flash_read:
  assumes "flash_holds D img" and "0x10000000 \<le> a" and "a < 0x10200000"
  shows "fst (rd D a s) = img a"
proof -
  have "\<not> in_sram a" using assms(3) by (auto simp: sram_eval word_le_nat_alt word_less_nat_alt)
  then show ?thesis using assms by (simp add: rd_dev flash_holds_def)
qed

section \<open>From the boot ROM to the program\<close>

text \<open>
  The chip executes the word it was started with: here the reset handler of the image with its
  \<^verbatim>\<open>mojo_main\<close>, when that is where the loader jumps to.
\<close>

definition power_on ::
  "(symbol \<Rightarrow> u32) \<Rightarrow> layout \<Rightarrow> u32 \<Rightarrow> 'd device \<Rightarrow> ('d mach \<Rightarrow> 'e option) \<Rightarrow> 'd mach \<Rightarrow> (u32 \<times> 'e) option" where
  "power_on addr L clkdiv D main s = do {
     (x, s) \<leftarrow> stage2_boot clkdiv D 0 s;
     (case x of
        Vector sp entry \<Rightarrow>
          if entry = addr Reset_handler then do { e \<leftarrow> reset_handler L D main s; Some (sp, e) } else None
      | Return_to _ \<Rightarrow> None)
   }"

lemma power_on_run:
  assumes "flash_answers D" and "flash_holds D img" and "image_linked exported addr img" and "layout_ok L"
  shows "\<exists>t. ram t = initialised L img (ram s) \<and>
    power_on addr L clkdiv D main s = map_option (Pair (addr Stack_top)) (main t)"
proof -
  obtain u where u: "ram u = ram s" "stage2_boot clkdiv D 0 s = Some (check_return D 0 u)"
    using stage2_returns [OF assms(1)] by blast
  define v where "v = snd (check_return D 0 u)"
  have "ram (wr D (PPB_BASE + reg_offset M0PLUS_VTOR) x u) = ram u" for x
    by (simp add: boot2_addrs ram_wr sram_eval)
  then have v: "check_return D 0 u = (Vector (addr Stack_top) (addr Reset_handler), v)" "ram v = ram s"
    using flash_read [OF assms(2)] image_words [OF assms(3)] u(1)
    by (simp_all add: v_def check_return_def boot2_addrs Let_def split_beta)
  obtain t where t: "ram t = initialised L img (ram v)" "reset_handler L D main v = main t"
    using reset_run [OF assms(4,2)] by blast
  then show ?thesis using u v by (cases "main t") (auto simp: power_on_def)
qed

section \<open>Properties\<close>

text \<open>C2: from power-on to the report: on a chip whose flash holds a linked image and whose
  hardware answers, the loader, the start-up code and the benchmark program run to the idle
  loop with the image's stack pointer; the mailbox then has the header, the done state and every
  expected checksum, and any other word of RAM outside the buffers of the kernels is what the
  start-up code made of it: initialised data, zero, or the value before the reset.\<close>

theorem power_on_reports:
  assumes "flash_answers D" and "flash_holds D img" and "image_linked exported addr img" and "layout_ok L"
    and "bringup_answers D"
  shows "\<exists>t. power_on addr L clkdiv D (mojo_main D) s = Some (addr Stack_top, t) \<and>
    ram t MB = 0x42454E43 \<and> ram t (MB + 4) = 2 \<and>
    (\<forall>run i. (if run < 3 \<and> i < 9 then ram t (ck_slot 0x10 run i) = bench_checks ! i else True)) \<and>
    (\<forall>c. c \<in> scratch \<or> c = FIB_N \<or> c \<in> region MB 58 \<or> ram t c = initialised L img (ram s) c)"
proof -
  obtain u where u: "ram u = initialised L img (ram s)"
    "power_on addr L clkdiv D (mojo_main D) s = map_option (Pair (addr Stack_top)) (mojo_main D u)"
    using power_on_run [OF assms(1-4)] by blast
  from mojo_main_run [OF assms(5), of u] show ?thesis by (auto simp: u)
qed

text \<open>A chip with all of it: the flash holds the image, the flash controller is always ready, and
  the rest is the hardware that answers.\<close>

definition demo_addr :: "symbol \<Rightarrow> u32" where
  "demo_addr y = (case y of Stack_top \<Rightarrow> 0x20040000 | Reset_handler \<Rightarrow> 0x100001C9
     | Default_handler \<Rightarrow> 0x100001F1 | Isr_irq n \<Rightarrow> 0x20000001
     | Core1_trampoline \<Rightarrow> 0x10000201 | Core1_stack_top \<Rightarrow> 0x2003F000)"

definition demo_image :: "u32 \<Rightarrow> u32" where
  "demo_image a = (let i = (unat a - 0x10000100) div 4; ws = map (\<lambda>y. demo_addr (isr_target {13} y)) (vector_table @ core1_meta)
     in if i < length ws then ws ! i else 0)"

definition demo_layout :: layout where
  "demo_layout = \<lparr>sidata = 0x10001000, sdata = 0x20000000, edata = 0x20000008, sbss = 0x20000008,
     ebss = 0x20000010\<rparr>"

definition demo_chip :: "(u32 \<times> u32) device" where
  "demo_chip = ready_device\<lparr>dread := \<lambda>d a.
     if 0x10000000 \<le> a \<and> a < 0x10200000 then (demo_image a, d)
     else if a = 0x18000028 then (4, d) else if a = 0x18000060 then (0, d)
     else dread ready_device d a\<rparr>"

lemma demo_reads: "0x40000000 \<le> a \<Longrightarrow> nth_read demo_chip a n d = nth_read ready_device a n d"
proof (induction n arbitrary: d)
  case 0
  then show ?case by (auto simp: nth_read_0 demo_chip_def word_le_nat_alt word_less_nat_alt)
next
  case (Suc n)
  then have "dread demo_chip d a = dread ready_device d a"
    by (auto simp: demo_chip_def word_le_nat_alt word_less_nat_alt)
  with Suc show ?case by (simp add: nth_read_Suc)
qed

lemma demo_hardware:
  "flash_answers demo_chip" "flash_holds demo_chip demo_image" "image_linked {13} demo_addr demo_image"
  "layout_ok demo_layout" "bringup_answers demo_chip"
proof -
  show "flash_answers demo_chip"
    by (rule ready_flash_answers) (simp_all add: demo_chip_def)
  show "flash_holds demo_chip demo_image" by (simp add: flash_holds_def demo_chip_def)
  have len: "length (vector_table @ core1_meta) = 50" by (simp add: vector_table_length core1_meta_def)
  have "unat (idx 0x10000100 i) = 0x10000100 + 4 * i" if "i < 50" for i
    using that by (simp add: idx_def unat_word_ariths unat_of_nat)
  then show "image_linked {13} demo_addr demo_image"
    unfolding image_linked_def Let_def length_map len demo_image_def by auto
  show "layout_ok demo_layout" by (simp add: layout_ok_def demo_layout_def)
  have "acks demo_chip w v a p = acks ready_device w v a p" if "0x40000000 \<le> a" for w v a p
    using that by (simp add: acks_def demo_reads) (simp add: demo_chip_def)
  then show "bringup_answers demo_chip"
    using ready_hardware(1) by (simp add: bringup_answers_def)
qed

theorem power_on_reports_witness:
  "\<exists>t. power_on demo_addr demo_layout 4 demo_chip (mojo_main demo_chip) \<lparr>ram = \<lambda>_. 7, dev = (0, 0)\<rparr> =
     Some (0x20040000, t) \<and> ram t (MB + 4) = 2"
proof -
  have "demo_addr Stack_top = 0x20040000" by (simp add: demo_addr_def)
  with power_on_reports [OF demo_hardware, of 4 "\<lparr>ram = \<lambda>_. 7, dev = (0, 0)\<rparr>"] show ?thesis by auto
qed

text \<open>C12: core 1 of the RP2040 starts where the image says: when \<open>launch\<close> succeeds on a linked image,
  the last six words it sent and had echoed are zero, zero, one, the address of the vector table
  the loader installed, the top of core 1's stack and its trampoline, which it reads at the fixed
  address where the linker places them, behind the 48 vectors.\<close>

theorem core1_starts_in_image:
  assumes "flash_holds D img" and "image_linked exported addr img" and "launch RP2040 (logged_env E) (logged D) s = Some (True, t)"
  shows "\<exists>pre fs. log t = pre @ fs \<and>
    echoed RP2040 [0, 0, 1, 0x10000100, addr Core1_stack_top, addr Core1_trampoline] (filter (is_word RP2040) fs)"
proof -
  obtain pre fs sp entry where log: "log t = pre @ fs"
    and words: "echoed RP2040 [0, 0, 1, VECTOR_TABLE, sp, entry] (filter (is_word RP2040) fs)"
    and read: "answered D fs (CORE1_META + 4) sp" "answered D fs CORE1_META entry"
    using launch_conversation [OF _ assms(3)] by (auto simp: known_chip_def RP2040_def)
  have "sp = img (CORE1_META + 4)" "entry = img CORE1_META"
    using read assms(1) by (auto simp: answered_def flash_holds_def CORE1_META_def)
  then show ?thesis
    using log words image_words(3,4) [OF assms(2)] by (auto simp: VECTOR_TABLE_def)
qed

text \<open>The echoing core with the flash.\<close>

definition demo_echo :: "u32 option device" where
  "demo_echo = echo_core\<lparr>dread := \<lambda>d a.
     if 0x10000000 \<le> a \<and> a < 0x10200000 then (demo_image a, d) else dread echo_core d a\<rparr>"

lemma demo_echo_rom:
  "boot_rom RP2040 (logged_env quiet_env) (logged demo_echo) (\<lambda>(d, _). d = None) (\<lambda>w (d, _). d = Some w)"
  by (auto simp: boot_rom_def tick_dev_def RP2040_def logged_def demo_echo_def echo_core_def quiet_env_def
      logged_env_def CORE1_META_def CLR_ALIAS_def ST_VLD_def ST_RDY_def)

lemma demo_echo_acks:
  "acks (logged demo_echo) (chip_PSM_FRCE_OFF RP2040 + SET_ALIAS) (chip_PSM_PROC1 RP2040)
     (chip_PSM_FRCE_OFF RP2040) (\<lambda>v. v AND chip_PSM_PROC1 RP2040 \<noteq> 0)"
proof (intro acks_logged)
  show "acks demo_echo (chip_PSM_FRCE_OFF RP2040 + SET_ALIAS) (chip_PSM_PROC1 RP2040)
     (chip_PSM_FRCE_OFF RP2040) (\<lambda>v. v AND chip_PSM_PROC1 RP2040 \<noteq> 0)"
    unfolding acks_def by (intro allI exI [of _ 0]) (simp add: nth_read_0 RP2040_def demo_echo_def echo_core_def)
qed

theorem core1_starts_in_image_witness:
  "\<exists>t pre fs. launch RP2040 (logged_env quiet_env) (logged demo_echo) \<lparr>ram = \<lambda>_. 0, dev = (None, [])\<rparr> = Some (True, t) \<and>
     log t = pre @ fs \<and> echoed RP2040 [0, 0, 1, 0x10000100, 0x2003F000, 0x10000201] (filter (is_word RP2040) fs)"
proof -
  have flash: "flash_holds demo_echo demo_image" by (simp add: flash_holds_def demo_echo_def)
  obtain t where t: "launch RP2040 (logged_env quiet_env) (logged demo_echo)
      \<lparr>ram = \<lambda>_. 0, dev = (None, [])\<rparr> = Some (True, t)"
    using launch_echo [OF _ demo_echo_rom demo_echo_acks] by (auto simp: known_chip_def)
  have "demo_addr Core1_stack_top = 0x2003F000" "demo_addr Core1_trampoline = 0x10000201"
    by (simp_all add: demo_addr_def)
  with core1_starts_in_image [OF flash demo_hardware(3) t] t show ?thesis by auto
qed

end
