(* ===== verification/Bytes.thy ===== *)
theory Bytes
  imports Machine
begin

text \<open>
  Bytes of the word memory: the byte accesses of \<^verbatim>\<open>src/pico/mmio.mojo\<close>, which are also the byte
  loads and stores of the processors, in SRAM.
\<close>

section \<open>Byte accesses\<close>

text \<open>\<^verbatim>\<open>write8\<close> and \<^verbatim>\<open>read8\<close> of \<^verbatim>\<open>mmio.mojo\<close> in SRAM, which is little-endian.\<close>

definition byte_word :: "u32 \<Rightarrow> u32" where
  "byte_word a = a - a mod 4"

definition byte_shift :: "u32 \<Rightarrow> nat" where
  "byte_shift a = 8 * unat (a mod 4)"

definition write8 :: "u32 \<Rightarrow> u8 \<Rightarrow> mem \<Rightarrow> mem" where
  "write8 a b m = m(byte_word a :=
     (m (byte_word a) AND NOT (push_bit (byte_shift a) 0xFF)) OR push_bit (byte_shift a) (ucast b))"

definition read8 :: "u32 \<Rightarrow> mem \<Rightarrow> u8" where
  "read8 a m = ucast (drop_bit (byte_shift a) (m (byte_word a)))"

section \<open>Bytes do not disturb each other\<close>

lemma far_apart: "8 * x \<noteq> 8 * y \<Longrightarrow> 8 * x + 8 \<le> 8 * y \<or> 8 * y + 8 \<le> 8 * (x :: nat)"
  by presburger

lemma read_write8:
  "read8 a (write8 a' b m) = (if a = a' then b else read8 a m)"
proof -
  have ff: "(0xFF :: u32) = mask 8" by (simp add: mask_eq_exp_minus_1)
  have small: "byte_shift x \<le> 24" for x
    by (simp add: byte_shift_def unat_mod)
  show ?thesis
  proof (cases "byte_word a = byte_word a'")
    case False
    then show ?thesis by (auto simp: read8_def write8_def)
  next
    case True
    show ?thesis
    proof (cases "a = a'")
      case True
      show ?thesis
      proof (rule bit_word_eqI)
        fix n assume "n < LENGTH(8)"
        then show "bit (read8 a (write8 a' b m)) n = bit (if a = a' then b else read8 a m) n"
          using True small [of a] unfolding read8_def write8_def ff by (auto simp: bit_simps)
      qed
    next
      case False
      have "byte_shift a \<noteq> byte_shift a'"
      proof
        assume "byte_shift a = byte_shift a'"
        then have "a mod 4 = a' mod 4" by (simp add: byte_shift_def word_unat_eq_iff)
        with True have "a = a'" by (simp add: byte_word_def)
        with False show False by simp
      qed
      then have far: "byte_shift a + 8 \<le> byte_shift a' \<or> byte_shift a' + 8 \<le> byte_shift a"
        unfolding byte_shift_def using far_apart by blast
      show ?thesis
      proof (rule bit_word_eqI)
        fix n assume "n < LENGTH(8)"
        then show "bit (read8 a (write8 a' b m)) n = bit (if a = a' then b else read8 a m) n"
          using True False far small [of a] unfolding read8_def write8_def ff
          by (auto simp: bit_simps dest: bit_imp_le_length)
      qed
    qed
  qed
qed

end
