(* ===== verification/Crt0Rv.thy ===== *)
theory Crt0Rv
  imports Startup Bytes
begin

text \<open>
  The rest of \<^verbatim>\<open>runtime/crt0_rv32.S\<close>, instruction by instruction on the register file of
  \<^verbatim>\<open>Startup\<close>: the entry code, the interrupt enable helpers that \<^verbatim>\<open>pico/xh3irq.mojo\<close> calls,
  \<^verbatim>\<open>rom_reboot_bootsel\<close>, \<^verbatim>\<open>memcpy\<close> and \<^verbatim>\<open>memset\<close>, and the image definition block of
  \<^verbatim>\<open>runtime/rp2350_image_def.S\<close>. The addresses the linker computes and the boot ROM are parameters.
\<close>

section \<open>Control and status registers\<close>

text \<open>
  \<^verbatim>\<open>meiea\<close> (0xbe0) is windowed: the low five bits of an access select a window of sixteen
  interrupts, the upper half holds the bits of the window.
\<close>

record csrs =
  mtvec :: u32
  mcountinhibit :: u32
  mie :: u32
  mstatus :: u32
  meiea :: "nat \<Rightarrow> u16"

record 'd hart =
  cpu :: "'d cpu"
  csr :: csrs

definition setr :: "reg \<Rightarrow> u32 \<Rightarrow> 'd cpu \<Rightarrow> 'd cpu" where
  "setr q v c = c\<lparr>regs := (regs c)(q := v)\<rparr>"

definition csrs_meiea :: "u32 \<Rightarrow> csrs \<Rightarrow> csrs" where
  "csrs_meiea v z =
     (let w = unat (v AND 31) in z\<lparr>meiea := (meiea z)(w := meiea z w OR ucast (drop_bit 16 v))\<rparr>)"

lemma regs_setr [simp]: "regs (setr q v c) = (regs c)(q := v)" and core_setr [simp]: "core (setr q v c) = core c"
  by (simp_all add: setr_def)

section \<open>Entry\<close>

record entry_syms =
  global_pointer :: u32
  stack_top :: u32
  trap_dispatch_at :: u32

text \<open>Label 1: copy the initialised data.\<close>

partial_function (option) rv_copy :: "'d device \<Rightarrow> 'd cpu \<Rightarrow> 'd cpu option" where
  "rv_copy D c =
     (if regs c A2 \<le> regs c A1 then Some c
      else (let (v, s) = rd D (regs c A0) (core c);
                c = setr A3 v (c\<lparr>core := s\<rparr>);
                c = c\<lparr>core := wr D (regs c A1) (regs c A3) (core c)\<rparr>;
                c = setr A0 (regs c A0 + 4) c;
                c = setr A1 (regs c A1 + 4) c
            in rv_copy D c))"

text \<open>Label 3: clear the rest.\<close>

partial_function (option) rv_zero :: "'d device \<Rightarrow> 'd cpu \<Rightarrow> 'd cpu option" where
  "rv_zero D c =
     (if regs c A1 \<le> regs c A0 then Some c
      else (let c = c\<lparr>core := wr D (regs c A0) 0 (core c)\<rparr>;
                c = setr A0 (regs c A0 + 4) c
            in rv_zero D c))"

definition rv_reset ::
  "entry_syms \<Rightarrow> layout \<Rightarrow> u32 \<Rightarrow> 'd device \<Rightarrow> ('d hart \<Rightarrow> 'e option) \<Rightarrow> 'd hart \<Rightarrow> 'e option" where
  "rv_reset Y L link D main h = do {
     let c = setr Gp (global_pointer Y) (cpu h);
     let c = setr Sp (stack_top Y) c;
     let c = setr T0 (trap_dispatch_at Y) c;
     let z = (csr h)\<lparr>mtvec := regs c T0\<rparr>;
     let z = z\<lparr>mcountinhibit := 0\<rparr>;
     let c = setr A2 (edata L) (setr A1 (sdata L) (setr A0 (sidata L) c));
     c \<leftarrow> rv_copy D c;
     let c = setr A1 (ebss L) (setr A0 (sbss L) c);
     c \<leftarrow> rv_zero D c;
     main \<lparr>cpu = setr Ra link c, csr = z\<rparr>
   }"

text \<open>The loops are those of the RP2040 start-up code.\<close>

definition keeps :: "reg set \<Rightarrow> 'd mach \<Rightarrow> 'd cpu \<Rightarrow> 'd cpu \<Rightarrow> bool" where
  "keeps Q t c c' \<longleftrightarrow> core c' = t \<and> (\<forall>q. q \<notin> Q \<longrightarrow> regs c' q = regs c q)"

lemma rv_copy_sim:
  assumes "copy_words D r0 r1 r2 s = Some t"
  shows "\<forall>c. regs c A0 = r0 \<longrightarrow> regs c A1 = r1 \<longrightarrow> regs c A2 = r2 \<longrightarrow> core c = s \<longrightarrow>
    (\<exists>c'. rv_copy D c = Some c' \<and> keeps {A0, A1, A3} t c c')"
proof (rule copy_words.raw_induct [where P = "\<lambda>D r0 r1 r2 s t. \<forall>c. regs c A0 = r0 \<longrightarrow>
    regs c A1 = r1 \<longrightarrow> regs c A2 = r2 \<longrightarrow> core c = s \<longrightarrow>
    (\<exists>c'. rv_copy D c = Some c' \<and> keeps {A0, A1, A3} t c c')", OF _ assms], intro allI impI)
  fix f D r0 r1 r2 s t and c :: "'a cpu"
  assume IH: "\<And>r0 r1 r2 s b y. f r0 r1 r2 s b = Some y \<Longrightarrow> \<forall>c. regs c A0 = r1 \<longrightarrow>
      regs c A1 = r2 \<longrightarrow> regs c A2 = s \<longrightarrow> core c = b \<longrightarrow>
      (\<exists>c'. rv_copy r0 c = Some c' \<and> keeps {A0, A1, A3} y c c')"
    and f: "(if r1 < r2 then let (r3, s) = rd D r0 s in f D (r0 + 4) (r1 + 4) r2 (wr D r1 r3 s)
      else Some s) = Some t"
    and c: "regs c A0 = r0" "regs c A1 = r1" "regs c A2 = r2" "core c = s"
  show "\<exists>c'. rv_copy D c = Some c' \<and> keeps {A0, A1, A3} t c c'"
  proof (cases "r1 < r2")
    case False
    with f c have "rv_copy D c = Some c \<and> keeps {A0, A1, A3} t c c"
      by (subst rv_copy.simps) (simp add: keeps_def not_less)
    then show ?thesis by blast
  next
    case True
    obtain v u where v: "rd D r0 s = (v, u)" by fastforce
    have nle: "(r2 \<le> r1) = False" using True by (simp add: not_le)
    let ?c = "c\<lparr>core := wr D r1 v u, regs := (regs c)(A3 := v, A0 := r0 + 4, A1 := r1 + 4)\<rparr>"
    have "f D (r0 + 4) (r1 + 4) r2 (wr D r1 v u) = Some t" using f True v by simp
    then have "\<exists>c'. rv_copy D ?c = Some c' \<and> keeps {A0, A1, A3} t ?c c'"
      by (rule IH [rule_format]) (simp_all add: c(3))
    then obtain c' where c': "rv_copy D ?c = Some c'" "keeps {A0, A1, A3} t ?c c'" by blast
    have "rv_copy D c = rv_copy D ?c"
      using True v c by (subst rv_copy.simps) (simp add: Let_def setr_def nle)
    then show ?thesis using c' by (auto simp: keeps_def)
  qed
qed

lemma rv_zero_sim:
  assumes "zero_words D r1 r2 s = Some t"
  shows "\<forall>c. regs c A0 = r1 \<longrightarrow> regs c A1 = r2 \<longrightarrow> core c = s \<longrightarrow>
    (\<exists>c'. rv_zero D c = Some c' \<and> keeps {A0} t c c')"
proof (rule zero_words.raw_induct [where P = "\<lambda>D r1 r2 s t. \<forall>c. regs c A0 = r1 \<longrightarrow>
    regs c A1 = r2 \<longrightarrow> core c = s \<longrightarrow>
    (\<exists>c'. rv_zero D c = Some c' \<and> keeps {A0} t c c')", OF _ assms], intro allI impI)
  fix f D r1 r2 s t and c :: "'a cpu"
  assume IH: "\<And>r1 r2 s b y. f r1 r2 s b = Some y \<Longrightarrow> \<forall>c. regs c A0 = r2 \<longrightarrow>
      regs c A1 = s \<longrightarrow> core c = b \<longrightarrow> (\<exists>c'. rv_zero r1 c = Some c' \<and> keeps {A0} y c c')"
    and f: "(if r1 < r2 then f D (r1 + 4) r2 (wr D r1 0 s) else Some s) = Some t"
    and c: "regs c A0 = r1" "regs c A1 = r2" "core c = s"
  show "\<exists>c'. rv_zero D c = Some c' \<and> keeps {A0} t c c'"
  proof (cases "r1 < r2")
    case False
    with f c have "rv_zero D c = Some c \<and> keeps {A0} t c c"
      by (subst rv_zero.simps) (simp add: keeps_def not_less)
    then show ?thesis by blast
  next
    case True
    have nle: "(r2 \<le> r1) = False" using True by (simp add: not_le)
    let ?c = "c\<lparr>core := wr D r1 0 s, regs := (regs c)(A0 := r1 + 4)\<rparr>"
    have "f D (r1 + 4) r2 (wr D r1 0 s) = Some t" using f True by simp
    then have "\<exists>c'. rv_zero D ?c = Some c' \<and> keeps {A0} t ?c c'"
      by (rule IH [rule_format]) (simp_all add: c(2))
    then obtain c' where c': "rv_zero D ?c = Some c'" "keeps {A0} t ?c c'" by blast
    have "rv_zero D c = rv_zero D ?c"
      using True c by (subst rv_zero.simps) (simp add: Let_def setr_def nle)
    then show ?thesis using c' by (auto simp: keeps_def)
  qed
qed

lemma rv_reset_run:
  assumes "layout_ok L" and "flash_holds D img"
  shows "\<exists>h'. rv_reset Y L link D main h = main h' \<and>
    ram (core (cpu h')) = initialised L img (ram (core (cpu h))) \<and>
    regs (cpu h') Sp = stack_top Y \<and> regs (cpu h') Gp = global_pointer Y \<and>
    csr h' = (csr h)\<lparr>mtvec := trap_dispatch_at Y, mcountinhibit := 0\<rparr>"
proof -
  obtain u t where m: "copy_words D (sidata L) (sdata L) (edata L) (core (cpu h)) = Some u"
    "zero_words D (sbss L) (ebss L) u = Some t" "ram t = initialised L img (ram (core (cpu h)))"
    using init_memory_run [OF assms] by blast
  define c where "c = setr A2 (edata L) (setr A1 (sdata L) (setr A0 (sidata L)
    (setr T0 (trap_dispatch_at Y) (setr Sp (stack_top Y) (setr Gp (global_pointer Y) (cpu h))))))"
  have "regs c A0 = sidata L" "regs c A1 = sdata L" "regs c A2 = edata L" "core c = core (cpu h)"
    by (simp_all add: c_def)
  with rv_copy_sim [OF m(1)] obtain d where d: "rv_copy D c = Some d" "keeps {A0, A1, A3} u c d" by blast
  define e where "e = setr A1 (ebss L) (setr A0 (sbss L) d)"
  have "regs e A0 = sbss L" "regs e A1 = ebss L" "core e = u" using d(2) by (simp_all add: e_def keeps_def)
  with rv_zero_sim [OF m(2)] obtain z where z: "rv_zero D e = Some z" "keeps {A0} t e z" by blast
  let ?h = "\<lparr>cpu = setr Ra link z, csr = (csr h)\<lparr>mtvec := trap_dispatch_at Y, mcountinhibit := 0\<rparr>\<rparr>"
  have "rv_reset Y L link D main h = main ?h"
    using d(1) z(1) unfolding e_def c_def
    by (simp add: rv_reset_def Let_def)
  moreover have "regs z q = regs c q" if "q \<in> {Sp, Gp}" for q
    using that d(2) z(2) by (cases q) (simp_all add: keeps_def e_def)
  moreover have "regs c Sp = stack_top Y" "regs c Gp = global_pointer Y" by (simp_all add: c_def)
  moreover have "core z = t" using z(2) by (simp add: keeps_def)
  ultimately show ?thesis using m(3) by (intro exI [of _ ?h]) simp
qed

section \<open>Enabling interrupts\<close>

definition h3_irq_enable :: "'d hart \<Rightarrow> 'd hart" where
  "h3_irq_enable h =
     (let c = cpu h;
          c = setr T0 (regs c A0 AND 15) c;
          c = setr T1 0x10000 c;
          c = setr T1 (push_bit (unat (regs c T0 AND 31)) (regs c T1)) c;
          c = setr T0 (drop_bit 4 (regs c A0)) c;
          c = setr T0 (regs c T0 OR regs c T1) c
      in h\<lparr>cpu := c, csr := csrs_meiea (regs c T0) (csr h)\<rparr>)"

definition h3_irq_global_enable :: "'d hart \<Rightarrow> 'd hart" where
  "h3_irq_global_enable h =
     (let c = setr T0 0x800 (cpu h);
          z = csr h;
          z = z\<lparr>mie := mie z OR regs c T0\<rparr>;
          z = z\<lparr>mstatus := mstatus z OR 8\<rparr>
      in h\<lparr>cpu := c, csr := z\<rparr>)"

text \<open>\<^verbatim>\<open>enable\<close> and \<^verbatim>\<open>global_enable\<close> of \<^verbatim>\<open>xh3irq.mojo\<close>: calls with the argument in \<^verbatim>\<open>a0\<close>.\<close>

definition xh3irq_enable :: "u32 \<Rightarrow> 'd hart \<Rightarrow> 'd hart" where
  "xh3irq_enable irq h = h3_irq_enable (h\<lparr>cpu := setr A0 irq (cpu h)\<rparr>)"

definition xh3irq_global_enable :: "'d hart \<Rightarrow> 'd hart" where
  "xh3irq_global_enable h = h3_irq_global_enable h"

text \<open>The interrupts that are enabled, and those that are taken when they are pending.\<close>

definition irq_lines :: "csrs \<Rightarrow> nat set" where
  "irq_lines z = {n. n < 512 \<and> bit (meiea z (n div 16)) (n mod 16)}"

definition irqs_taken :: "csrs \<Rightarrow> nat set" where
  "irqs_taken z = (if bit (mie z) 11 \<and> bit (mstatus z) 3 then irq_lines z else {})"

text \<open>The word that is written: the window of the interrupt and its bit in the upper half.\<close>

definition meiea_word :: "u32 \<Rightarrow> u32" where
  "meiea_word irq = drop_bit 4 irq OR push_bit (unat (irq AND 15)) 0x10000"

lemma meiea_word:
  assumes "unat irq < 512"
  shows "unat (meiea_word irq AND 31) = unat irq div 16"
    and "bit (ucast (drop_bit 16 (meiea_word irq)) :: u16) n \<longleftrightarrow> n = unat irq mod 16"
proof -
  have x: "irq AND 15 = take_bit 4 irq"
    by (simp add: take_bit_eq_mask mask_eq_exp_minus_1)
  have m: "unat (irq AND 15) = unat irq mod 16"
    unfolding x unsigned_take_bit_eq by (simp add: take_bit_eq_mod)
  have "push_bit k (push_bit 16 1) = (push_bit (k + 16) 1 :: u32)" for k
    by (simp only: push_bit_push_bit)
  then have p: "push_bit k (0x10000 :: u32) = 2 ^ (k + 16)" for k by simp
  have "take_bit 9 irq = irq"
    unfolding word_unat_eq_iff unsigned_take_bit_eq using assms by (simp add: take_bit_eq_mod)
  then have hi: "\<not> bit irq j" if "9 \<le> j" for j using that by (metis bit_take_bit_iff not_less)
  have hi': "j < 5" if "bit irq (4 + j)" for j using hi [of "4 + j"] that by (cases "j < 5") auto
  show "unat (meiea_word irq AND 31) = unat irq div 16"
  proof -
    have w: "(31 :: u32) = mask 5" by (simp add: mask_eq_exp_minus_1)
    have "meiea_word irq AND 31 = drop_bit 4 irq"
      unfolding w meiea_word_def m p
      by (rule bit_word_eqI) (use hi' in \<open>auto simp: bit_simps\<close>)
    then show ?thesis by (simp add: unsigned_drop_bit_eq drop_bit_eq_div unat_div)
  qed
  show "bit (ucast (drop_bit 16 (meiea_word irq)) :: u16) n \<longleftrightarrow> n = unat irq mod 16"
    unfolding meiea_word_def m p using hi' hi [of "20 + n"] by (auto simp: bit_simps)
qed

lemma xh3irq_enable_run:
  assumes "unat irq < 512"
  shows "irq_lines (csr (xh3irq_enable irq h)) = insert (unat irq) (irq_lines (csr h))"
    and "csr (xh3irq_enable irq h) = (csr h)\<lparr>meiea := meiea (csr (xh3irq_enable irq h))\<rparr>"
    and "keeps {A0, T0, T1} (core (cpu h)) (cpu h) (cpu (xh3irq_enable irq h))"
proof -
  have a: "(irq AND 15) AND 31 = irq AND 15" by (simp add: and.assoc)
  have z: "csr (xh3irq_enable irq h) = csrs_meiea (meiea_word irq) (csr h)"
    by (simp add: a xh3irq_enable_def h3_irq_enable_def Let_def meiea_word_def)
  have n: "n = unat irq \<longleftrightarrow> n div 16 = unat irq div 16 \<and> n mod 16 = unat irq mod 16" for n
    by (metis div_mult_mod_eq)
  have "bit (meiea (csrs_meiea (meiea_word irq) (csr h)) (n div 16)) (n mod 16) \<longleftrightarrow>
      bit (meiea (csr h) (n div 16)) (n mod 16) \<or> n = unat irq" for n
    by (simp add: csrs_meiea_def Let_def meiea_word [OF assms] bit_or_iff n)
  then show "irq_lines (csr (xh3irq_enable irq h)) = insert (unat irq) (irq_lines (csr h))"
    unfolding z irq_lines_def using assms by auto
  show "csr (xh3irq_enable irq h) = (csr h)\<lparr>meiea := meiea (csr (xh3irq_enable irq h))\<rparr>"
    unfolding z by (simp add: csrs_meiea_def Let_def)
  show "keeps {A0, T0, T1} (core (cpu h)) (cpu h) (cpu (xh3irq_enable irq h))"
    by (simp add: keeps_def xh3irq_enable_def h3_irq_enable_def Let_def)
qed

lemma xh3irq_global_enable_run:
  "irqs_taken (csr (xh3irq_global_enable h)) = irq_lines (csr h)"
  "keeps {T0} (core (cpu h)) (cpu h) (cpu (xh3irq_global_enable h))"
proof -
  have "(0x800 :: u32) = push_bit 11 1" "(8 :: u32) = push_bit 3 1" by simp_all
  then have "bit (x OR 0x800 :: u32) 11" "bit (x OR 8 :: u32) 3" for x
    by (simp_all only: bit_or_iff bit_push_bit_iff) simp_all
  then show "irqs_taken (csr (xh3irq_global_enable h)) = irq_lines (csr h)"
    by (simp add: irqs_taken_def irq_lines_def xh3irq_global_enable_def h3_irq_global_enable_def Let_def)
  show "keeps {T0} (core (cpu h)) (cpu h) (cpu (xh3irq_global_enable h))"
    by (simp add: keeps_def xh3irq_global_enable_def h3_irq_global_enable_def Let_def)
qed

section \<open>Copying and filling bytes\<close>

text \<open>
  The loop at label 1 of \<^verbatim>\<open>memcpy\<close> and \<^verbatim>\<open>memset\<close>, on the registers and the memory; a byte load
  zero-extends, a byte store takes the low byte of the register.
\<close>

type_synonym regfile = "reg \<Rightarrow> u32"

function memcpy_loop :: "regfile \<Rightarrow> mem \<Rightarrow> regfile \<times> mem" where
  "memcpy_loop r m =
     (if r A2 = 0 then (r, m)
      else (let r = r(T1 := ucast (read8 (r A1) m));
                m = write8 (r T0) (ucast (r T1)) m;
                r = r(A1 := r A1 + 1);
                r = r(T0 := r T0 + 1);
                r = r(A2 := r A2 - 1)
            in memcpy_loop r m))"
  by pat_completeness auto

function memset_loop :: "regfile \<Rightarrow> mem \<Rightarrow> regfile \<times> mem" where
  "memset_loop r m =
     (if r A2 = 0 then (r, m)
      else (let m = write8 (r T0) (ucast (r A1)) m;
                r = r(T0 := r T0 + 1);
                r = r(A2 := r A2 - 1)
            in memset_loop r m))"
  by pat_completeness auto

lemma unat_pred: "(x :: u32) \<noteq> 0 \<Longrightarrow> Suc (unat (x - 1)) = unat x"
  by (simp add: unat_minus_one unat_gt_0)

lemma unat_pred_less: "(x :: u32) \<noteq> 0 \<Longrightarrow> unat (x - 1) < unat x"
  using unat_pred [of x] by simp

termination memcpy_loop
  by (relation "measure (\<lambda>(r, m). unat (r A2))") (simp_all add: unat_pred_less)

termination memset_loop
  by (relation "measure (\<lambda>(r, m). unat (r A2))") (simp_all add: unat_pred_less)

declare memcpy_loop.simps [simp del] memset_loop.simps [simp del]

definition memcpy :: "regfile \<Rightarrow> mem \<Rightarrow> regfile \<times> mem" where
  "memcpy r m = memcpy_loop (r(T0 := r A0)) m"

definition memset :: "regfile \<Rightarrow> mem \<Rightarrow> regfile \<times> mem" where
  "memset r m = memset_loop (r(T0 := r A0)) m"

text \<open>A range of addresses, which may run around the end of the address space.\<close>

definition offset_in :: "u32 \<Rightarrow> u32 \<Rightarrow> u32 \<Rightarrow> bool" where
  "offset_in a b n \<longleftrightarrow> a - b < n"

lemma offset_in_pred:
  "n \<noteq> 0 \<Longrightarrow> offset_in a b n \<longleftrightarrow> a = b \<or> offset_in a (b + 1) (n - 1)"
proof -
  assume n: "n \<noteq> 0"
  show ?thesis
  proof (cases "a = b")
    case True
    then show ?thesis using n by (simp add: offset_in_def word_gt_0)
  next
    case False
    then have "a - b \<noteq> 0" by simp
    have "unat (a - b) < unat n \<longleftrightarrow> unat (a - (b + 1)) < unat (n - 1)"
      using unat_pred [OF \<open>a - b \<noteq> 0\<close>] unat_pred [OF n] by (simp add: diff_diff_eq) linarith
    with False show ?thesis by (simp add: offset_in_def word_less_nat_alt)
  qed
qed

lemma memset_loop_run:
  "memset_loop r m = (r', m') \<Longrightarrow>
    (\<forall>a. read8 a m' = (if offset_in a (r T0) (r A2) then ucast (r A1) else read8 a m)) \<and>
    (\<forall>q. q \<notin> {T0, A2} \<longrightarrow> r' q = r q)"
proof (induction "unat (r A2)" arbitrary: r m rule: less_induct)
  case less
  show ?case
  proof (cases "r A2 = 0")
    case True
    then show ?thesis using less.prems(1) by (subst (asm) memset_loop.simps) (auto simp: offset_in_def)
  next
    case False
    let ?r = "r(T0 := r T0 + 1, A2 := r A2 - 1)" and ?m = "write8 (r T0) (ucast (r A1)) m"
    have "memset_loop ?r ?m = (r', m')"
      using less.prems(1) False by (subst (asm) memset_loop.simps) (simp add: Let_def fun_upd_twist)
    then have "(\<forall>a. read8 a m' = (if offset_in a (r T0 + 1) (r A2 - 1) then ucast (r A1) else read8 a ?m)) \<and>
        (\<forall>q. q \<notin> {T0, A2} \<longrightarrow> r' q = r q)"
      using less.hyps [of ?r ?m] unat_pred_less [OF False] by simp
    then show ?thesis
      using offset_in_pred [OF False] by (auto simp: read_write8)
  qed
qed

lemma ucast_byte: "ucast (ucast (b :: u8) :: u32) = b"
  by (rule bit_word_eqI) (auto simp: bit_simps)

text \<open>Going upwards, the copy reads every source byte before it overwrites it, unless the
  destination starts inside the source.\<close>

lemma memcpy_loop_run:
  "memcpy_loop r m = (r', m') \<Longrightarrow> r T0 = r A1 \<or> r A2 \<le> r T0 - r A1 \<Longrightarrow>
    (\<forall>a. read8 a m' = (if offset_in a (r T0) (r A2) then read8 (r A1 + (a - r T0)) m else read8 a m)) \<and>
    (\<forall>q. q \<notin> {T0, T1, A1, A2} \<longrightarrow> r' q = r q)"
proof (induction "unat (r A2)" arbitrary: r m rule: less_induct)
  case less
  show ?case
  proof (cases "r A2 = 0")
    case True
    then show ?thesis using less.prems(1) by (subst (asm) memcpy_loop.simps) (auto simp: offset_in_def)
  next
    case False
    let ?r = "r(T1 := ucast (read8 (r A1) m), A1 := r A1 + 1, T0 := r T0 + 1, A2 := r A2 - 1)"
    let ?m = "write8 (r T0) (read8 (r A1) m) m"
    have l: "memcpy_loop ?r ?m = (r', m')"
      using less.prems(1) False by (subst (asm) memcpy_loop.simps) (simp add: Let_def ucast_byte)
    have o': "?r T0 = ?r A1 \<or> ?r A2 \<le> ?r T0 - ?r A1"
      using less.prems(2) unat_pred [OF False] by (auto simp: word_le_nat_alt)
    have IH: "(\<forall>a. read8 a m' = (if offset_in a (r T0 + 1) (r A2 - 1)
          then read8 (r A1 + 1 + (a - (r T0 + 1))) ?m else read8 a ?m)) \<and>
        (\<forall>q. q \<notin> {T0, T1, A1, A2} \<longrightarrow> r' q = r q)"
      using less.hyps [of ?r ?m] unat_pred_less [OF False] l o' by simp
    have src: "read8 (r A1 + (a - r T0)) ?m = read8 (r A1 + (a - r T0)) m"
      if "offset_in a (r T0 + 1) (r A2 - 1)" for a
    proof (cases "r A1 + (a - r T0) = r T0")
      case True
      then have "a - r T0 = r T0 - r A1" by (simp add: algebra_simps)
      moreover have "offset_in a (r T0) (r A2)" using that offset_in_pred [OF False] by blast
      ultimately have "r T0 = r A1" using less.prems(2) by (auto simp: offset_in_def)
      then show ?thesis by (simp add: read_write8)
    qed (simp add: read_write8)
    show ?thesis
      using IH src offset_in_pred [OF False] by (auto simp: read_write8)
  qed
qed

section \<open>Rebooting through the boot ROM\<close>

definition store_reg :: "'d device \<Rightarrow> reg \<Rightarrow> u32 \<Rightarrow> 'd cpu \<Rightarrow> 'd cpu" where
  "store_reg D q off c = c\<lparr>core := wr D (regs c Sp + off) (regs c q) (core c)\<rparr>"

definition load_reg :: "'d device \<Rightarrow> reg \<Rightarrow> u32 \<Rightarrow> 'd cpu \<Rightarrow> 'd cpu" where
  "load_reg D q off c = (let (v, s) = rd D (regs c Sp + off) (core c) in setr q v (c\<lparr>core := s\<rparr>))"

text \<open>\<^verbatim>\<open>lhu t0, 0(t0)\<close>\<close>

definition load_half :: "'d device \<Rightarrow> 'd cpu \<Rightarrow> 'd cpu" where
  "load_half D c =
     (let a = regs c T0; (v, s) = rd D (byte_word a) (core c)
      in setr T0 (drop_bit (byte_shift a) v AND 0xFFFF) (c\<lparr>core := s\<rparr>))"

text \<open>The instructions before the first call, before the second call, and after it.\<close>

definition bootsel_enter :: "'d device \<Rightarrow> 'd cpu \<Rightarrow> 'd cpu" where
  "bootsel_enter D c =
     (let c = setr Sp (regs c Sp - 16) c;
          c = store_reg D S1 4 (store_reg D S0 8 (store_reg D Ra 12 c));
          c = setr S0 (regs c A0) c;
          c = setr S1 (regs c A1) c
      in load_half D (setr T0 0x7DFA (setr A1 1 (setr A0 0x4252 c))))"

definition reboot_args :: "'d cpu \<Rightarrow> 'd cpu" where
  "reboot_args c =
     (let c = setr T0 (regs c A0) c;
          c = setr A0 (regs c S1 OR 2) c;
          c = setr A1 (regs c S0) c
      in setr A3 0 (setr A2 0 c))"

definition bootsel_leave :: "'d device \<Rightarrow> 'd cpu \<Rightarrow> 'd cpu" where
  "bootsel_leave D c =
     (let c = load_reg D S1 4 (load_reg D S0 8 (load_reg D Ra 12 c)) in setr Sp (regs c Sp + 16) c)"

text \<open>
  The code of the ROM is the parameter \<open>rom\<close>, which runs the routine at an address on the
  registers and the machine; \<open>l1\<close> and \<open>l2\<close> are the return addresses of the two calls.
\<close>

definition rom_reboot_bootsel ::
  "'d device \<Rightarrow> u32 \<Rightarrow> u32 \<Rightarrow> (u32 \<Rightarrow> 'd cpu \<Rightarrow> 'd cpu option) \<Rightarrow> 'd cpu \<Rightarrow> 'd cpu option" where
  "rom_reboot_bootsel D l1 l2 rom c = do {
     let c = bootsel_enter D c;
     c \<leftarrow> rom (regs c T0) (setr Ra l1 c);
     c \<leftarrow> (if regs c A0 = 0 then Some c
          else (let c = reboot_args c in rom (regs c T0) (setr Ra l2 c)));
     Some (bootsel_leave D c)
   }"

lemma frame_access [simp]:
  "regs (store_reg D q off c) = regs c" "q \<noteq> T0 \<Longrightarrow> regs (load_half D c) q = regs c q"
  "ram (core (load_half D c)) = ram (core c)"
  "in_sram (regs c Sp + off) \<Longrightarrow> ram (core (store_reg D q off c)) = (ram (core c))(regs c Sp + off := regs c q)"
  "in_sram (regs c Sp + off) \<Longrightarrow> load_reg D q off c = setr q (ram (core c) (regs c Sp + off)) c"
  by (simp_all add: store_reg_def load_half_def load_reg_def ram_wr rd_ram Let_def split_beta)

text \<open>
  With routines that follow the calling convention and write outside its frame the caller gets its stack, its saved
  registers and its return address back, and the ROM is asked for the reboot routine and then
  for a reboot with the caller's delay and flags, or for nothing more when it has none.
\<close>

lemma rom_reboot_run:
  assumes "\<And>f. convention W ((regs c)(Sp := regs c Sp - 16, S0 := regs c A0, S1 := regs c A1)) (rom f)"
    and "fits (regs c Sp - 16) 4" and "\<And>i. i < 4 \<Longrightarrow> in_sram (idx (regs c Sp - 16) i)"
    and "W \<inter> region (regs c Sp - 16) 4 = {}" and "rom_reboot_bootsel D l1 l2 rom c = Some c'"
  shows "(\<forall>q. q = Ra \<or> q \<in> callee_saved \<longrightarrow> regs c' q = regs c q) \<and>
    (\<exists>f x c1. rom f x = Some c1 \<and> regs x A0 = 0x4252 \<and> regs x A1 = 1 \<and>
      (if regs c1 A0 = 0 then core c' = core c1
       else \<exists>y c2. rom (regs c1 A0) y = Some c2 \<and> core y = core c1 \<and> regs y A0 = regs c A1 OR 2 \<and>
         regs y A1 = regs c A0 \<and> regs y A2 = 0 \<and> regs y A3 = 0 \<and> core c' = core c2))"
proof -
  obtain sp where sp: "regs c Sp = sp + 16" by (metis diff_add_cancel)
  then have fit: "fits sp 4" and ins: "\<And>i. i < 4 \<Longrightarrow> in_sram (idx sp i)" using assms(2,3) by simp_all
  have off: "sp + 4 = idx sp 1" "sp + 8 = idx sp 2" "sp + 12 = idx sp 3" by (simp_all add: idx_def)
  note dif = idx_inject [OF fit]
  have cs: "Sp \<in> callee_saved" "S0 \<in> callee_saved" "S1 \<in> callee_saved" "Ra \<notin> callee_saved"
    "T0 \<notin> callee_saved" "A0 \<notin> callee_saved" "A1 \<notin> callee_saved" "A2 \<notin> callee_saved" "A3 \<notin> callee_saved"
    by (simp_all add: callee_saved_def frame_def)
  let ?r = "(regs c)(Sp := sp, S0 := regs c A0, S1 := regs c A1)"
  have out: "idx sp i \<notin> W" if "i < 4" for i
    using assms(4) idx_in_region [OF that, of sp] by (auto simp: sp)
  have conv: "(\<forall>q \<in> callee_saved. regs d' q = regs d q) \<and> (\<forall>i<4. ram (core d') (idx sp i) = ram (core d) (idx sp i))"
    if "rom f d = Some d'" "\<forall>q \<in> callee_saved. regs d q = ?r q" for f d d'
  proof -
    have "convention W ?r (rom f)" using assms(1) [of f] by (simp add: sp)
    then have "(\<forall>q \<in> callee_saved. regs d' q = regs d q) \<and> (\<forall>a. a \<notin> W \<longrightarrow> ram (core d') a = ram (core d) a)"
      using that unfolding convention_def by blast
    then show ?thesis using out by simp
  qed
  define w where "w = store_reg D S1 4 (store_reg D S0 8 (store_reg D Ra 12 (setr Sp sp c)))"
  have w: "regs w = (regs c)(Sp := sp)"
    "ram (core w) = (ram (core c))(idx sp 3 := regs c Ra, idx sp 2 := regs c S0, idx sp 1 := regs c S1)"
    by (simp_all add: w_def off ins)
  define v where "v = bootsel_enter D c"
  have v: "v = load_half D (setr T0 0x7DFA (setr A1 1 (setr A0 0x4252 (setr S1 (regs c A1) (setr S0 (regs c A0) w)))))"
    by (simp add: v_def bootsel_enter_def Let_def sp w_def store_reg_def)
  define x where "x = setr Ra l1 v"
  have x: "regs x Sp = sp" "regs x S0 = regs c A0" "regs x S1 = regs c A1" "regs x A0 = 0x4252" "regs x A1 = 1"
    "ram (core x) = ram (core w)"
    by (simp_all add: x_def v w(1))
  have xs: "regs x q = regs c q" if "q \<in> callee_saved" "q \<notin> {Sp, S0, S1}" for q
  proof -
    have "q \<noteq> T0" "q \<noteq> A0" "q \<noteq> A1" "q \<noteq> Ra" using that(1) cs by auto
    with that(2) show ?thesis by (simp add: x_def v w(1))
  qed
  have xr: "\<forall>q \<in> callee_saved. regs x q = ?r q"
    using xs x(1-3) by (metis (no_types, lifting) fun_upd_apply insertE singletonD)
  obtain c1 where c1: "rom (regs v T0) x = Some c1"
    using assms(5) by (auto simp: rom_reboot_bootsel_def Let_def x_def v_def split: bind_splits)
  define y where "y = setr Ra l2 (reboot_args c1)"
  obtain c2 where c2: "if regs c1 A0 = 0 then c2 = c1 else rom (regs c1 A0) y = Some c2" "c' = bootsel_leave D c2"
    using assms(5) c1 by (cases "regs c1 A0 = 0")
      (auto simp: rom_reboot_bootsel_def Let_def x_def v_def y_def reboot_args_def split: bind_splits)
  have k1: "\<forall>q \<in> callee_saved. regs c1 q = regs x q"
    "\<forall>i<4. ram (core c1) (idx sp i) = ram (core x) (idx sp i)"
    using conv [OF c1 xr] by simp_all
  have ys: "regs y q = regs c1 q" if "q \<in> callee_saved" for q
  proof -
    have "q \<noteq> T0" "q \<noteq> A0" "q \<noteq> A1" "q \<noteq> A2" "q \<noteq> A3" "q \<noteq> Ra" using that cs by auto
    then show ?thesis by (simp add: y_def reboot_args_def Let_def)
  qed
  have k2: "\<forall>q \<in> callee_saved. regs c2 q = regs x q"
    "\<forall>i<4. ram (core c2) (idx sp i) = ram (core x) (idx sp i)"
  proof -
    have "(\<forall>q \<in> callee_saved. regs c2 q = regs c1 q) \<and> (\<forall>i<4. ram (core c2) (idx sp i) = ram (core c1) (idx sp i))"
    proof (cases "regs c1 A0 = 0")
      case False
      then have "rom (regs c1 A0) y = Some c2" using c2(1) by simp
      moreover have "\<forall>q \<in> callee_saved. regs y q = ?r q" using ys k1(1) xr by simp
      ultimately show ?thesis
        using conv ys by (simp add: y_def reboot_args_def Let_def)
    qed (use c2(1) in simp)
    with k1 show "\<forall>q \<in> callee_saved. regs c2 q = regs x q"
      "\<forall>i<4. ram (core c2) (idx sp i) = ram (core x) (idx sp i)" by simp_all
  qed
  have sp2: "regs c2 Sp = sp" using k2(1) cs(1) x(1) by simp
  have b: "bootsel_leave D c2 = setr Sp (sp + 16) (setr S1 (regs c S1) (setr S0 (regs c S0) (setr Ra (regs c Ra) c2)))"
    using k2(2) by (simp add: bootsel_leave_def Let_def sp2 off ins x(6) w(2) dif)
  have "regs c' q = regs c q" if "q = Ra \<or> q \<in> callee_saved" for q
    using that k2(1) xs sp unfolding c2(2) b by (cases "q \<in> {Sp, S0, S1, Ra}") auto
  moreover have "core c' = core c2" by (simp add: c2(2) b)
  moreover have "regs y A0 = regs c A1 OR 2" "regs y A1 = regs c A0" "regs y A2 = 0" "regs y A3 = 0" "core y = core c1"
    using k1(1) x(2,3) cs by (simp_all add: y_def reboot_args_def Let_def)
  ultimately show ?thesis
    using c1 x(4,5) c2(1) by (intro conjI exI [of _ "regs v T0"] exI [of _ x] exI [of _ c1]) (auto split: if_splits)
qed

section \<open>The image definition\<close>

definition image_def_block :: "u32 \<Rightarrow> u32 list" where
  "image_def_block reset = [0xFFFFDED3, 0x11010142, 0x00000344, reset, 0x20082000, 0x000004FF, 0x00000000, 0xAB123579]"

text \<open>
  What the boot ROM makes of it, after the comments of the file: behind the start marker come
  items, whose first word has a type in the low byte and the size in words above it; the last
  item counts the words of all others, and a link and the end marker follow.
\<close>

fun block_items :: "nat \<Rightarrow> u32 list \<Rightarrow> (u32 \<times> u32 list) list option" where
  "block_items k [] = None"
| "block_items k (w # ws) =
     (if w AND 0xFF = 0xFF
      then (if unat (drop_bit 8 w AND 0xFFFF) = k \<and> length ws = 2 \<and> ws ! 1 = 0xAB123579 then Some [] else None)
      else (let n = unat (drop_bit 8 w AND 0xFF) - 1
            in if n < length ws then map_option ((#) (w, take n ws)) (block_items (k + n + 1) (drop n ws)) else None))"

text \<open>A RISC-V image is entered at the program counter of its entry point item, with its stack.\<close>

definition rv_entry :: "u32 list \<Rightarrow> (u32 \<times> u32) option" where
  "rv_entry ws = (case ws of [] \<Rightarrow> None | w # ws \<Rightarrow>
     if w \<noteq> 0xFFFFDED3 then None
     else (case block_items 0 ws of
       Some [(i, []), (e, [pc, sp])] \<Rightarrow>
         if i AND 0xFF = 0x42 \<and> drop_bit 16 i = 0x1101 \<and> e AND 0xFF = 0x44 then Some (pc, sp) else None
     | _ \<Rightarrow> None))"

lemma image_def_entry: "rv_entry (image_def_block reset) = Some (reset, 0x20082000)"
  by (simp add: rv_entry_def image_def_block_def Let_def)

section \<open>Properties\<close>

text \<open>C19: \<^verbatim>\<open>memcpy\<close> and \<^verbatim>\<open>memset\<close> of the start-up code end and do what C requires, byte by byte
  at any alignment and also where the range runs around the end of the address space: the
  destination holds the source as it was before, or the byte, every other byte is unchanged,
  the destination is returned and only argument and temporary registers are used. The copy is also right for overlapping
  ranges as long as the destination does not start inside the source.\<close>

theorem byte_functions:
  "(r A0 = r A1 \<or> r A2 \<le> r A0 - r A1 \<longrightarrow> (\<exists>r' m'. memcpy r m = (r', m') \<and>
      (\<forall>a. read8 a m' = (if offset_in a (r A0) (r A2) then read8 (r A1 + (a - r A0)) m else read8 a m)) \<and>
      r' = r(T0 := r' T0, T1 := r' T1, A1 := r' A1, A2 := r' A2))) \<and>
    (\<exists>r' m'. memset r m = (r', m') \<and>
      (\<forall>a. read8 a m' = (if offset_in a (r A0) (r A2) then ucast (r A1) else read8 a m)) \<and>
      r' = r(T0 := r' T0, A2 := r' A2))"
proof (intro conjI impI)
  assume apart: "r A0 = r A1 \<or> r A2 \<le> r A0 - r A1"
  obtain r' m' where l: "memcpy r m = (r', m')" by fastforce
  then show "\<exists>r' m'. memcpy r m = (r', m') \<and>
    (\<forall>a. read8 a m' = (if offset_in a (r A0) (r A2) then read8 (r A1 + (a - r A0)) m else read8 a m)) \<and>
    r' = r(T0 := r' T0, T1 := r' T1, A1 := r' A1, A2 := r' A2)"
    using memcpy_loop_run [OF l [unfolded memcpy_def]] apart by auto
next
  obtain r2 m2 where l: "memset r m = (r2, m2)" by fastforce
  then show "\<exists>r' m'. memset r m = (r', m') \<and>
    (\<forall>a. read8 a m' = (if offset_in a (r A0) (r A2) then ucast (r A1) else read8 a m)) \<and>
    r' = r(T0 := r' T0, A2 := r' A2)"
    using memset_loop_run [OF l [unfolded memset_def]] by auto
qed

theorem byte_functions_witness:
  "\<exists>r' m'. memcpy ((\<lambda>_. 5)(A0 := 0x20000101, A1 := 0x20000002)) (\<lambda>_. 0x44332211) = (r', m') \<and>
    read8 0x20000102 m' = 0x44 \<and> read8 0x20000103 m' = 0x11 \<and> read8 0x20000100 m' = 0x11 \<and>
    read8 0x20000106 m' = 0x33 \<and> r' A0 = 0x20000101"
proof -
  let ?r = "(\<lambda>_. 5)(A0 := 0x20000101, A1 := 0x20000002) :: regfile"
  have "?r A0 = ?r A1 \<or> ?r A2 \<le> ?r A0 - ?r A1" by simp
  from conjunct1 [OF byte_functions [of ?r "\<lambda>_. 0x44332211"], THEN mp, OF this]
  obtain r' m' where m: "memcpy ?r (\<lambda>_. 0x44332211) = (r', m')"
    "\<And>a. read8 a m' = (if offset_in a 0x20000101 5 then read8 (0x20000002 + (a - 0x20000101)) (\<lambda>_. 0x44332211)
       else read8 a (\<lambda>_. 0x44332211))" "r' = ?r(T0 := r' T0, T1 := r' T1, A1 := r' A1, A2 := r' A2)"
    by (auto simp: fun_upd_def)
  have "r' A0 = 0x20000101" by (subst m(3)) simp
  moreover have "read8 0x20000102 m' = 0x44" "read8 0x20000103 m' = 0x11" "read8 0x20000100 m' = 0x11"
    "read8 0x20000106 m' = 0x33"
    unfolding m(2) by (simp_all add: offset_in_def read8_def byte_shift_def)
  ultimately show ?thesis using m(1) by blast
qed

text \<open>C18: what an RP2350 program sets up is what the controller delivers: the start-up code enters
  the program with the initialised memory, its stack, the trap vector at the dispatcher and the
  cycle counter running; \<^verbatim>\<open>enable\<close> of \<^verbatim>\<open>xh3irq.mojo\<close> adds exactly the named interrupt, for each of
  the 512, in its window and changes no other register that the caller may rely on; and after
  \<^verbatim>\<open>global_enable\<close> the processor takes exactly the interrupts that were enabled.\<close>

theorem rv_entry_and_interrupts:
  assumes "layout_ok L" and "flash_holds D img" and "unat irq < 512"
  shows "\<exists>h'. rv_reset Y L link D Some h = Some h' \<and>
    ram (core (cpu h')) = initialised L img (ram (core (cpu h))) \<and>
    regs (cpu h') Sp = stack_top Y \<and> mtvec (csr h') = trap_dispatch_at Y \<and> mcountinhibit (csr h') = 0 \<and>
    irqs_taken (csr (xh3irq_global_enable (xh3irq_enable irq h'))) = insert (unat irq) (irq_lines (csr h)) \<and>
    mtvec (csr (xh3irq_global_enable (xh3irq_enable irq h'))) = trap_dispatch_at Y \<and>
    keeps {A0, T0, T1} (core (cpu h')) (cpu h') (cpu (xh3irq_global_enable (xh3irq_enable irq h')))"
proof -
  obtain h' where h: "rv_reset Y L link D Some h = Some h'"
    "ram (core (cpu h')) = initialised L img (ram (core (cpu h)))" "regs (cpu h') Sp = stack_top Y"
    "csr h' = (csr h)\<lparr>mtvec := trap_dispatch_at Y, mcountinhibit := 0\<rparr>"
    using rv_reset_run [OF assms(1,2), of Y link Some h] by blast
  note e = xh3irq_enable_run [OF assms(3), of h']
  have "mtvec (csr (xh3irq_global_enable k)) = mtvec (csr k)" for k :: "'a hart"
    by (simp add: xh3irq_global_enable_def h3_irq_global_enable_def Let_def)
  moreover have "mtvec (csr (xh3irq_enable irq h')) = mtvec (csr h')" by (subst e(2)) simp
  moreover have "irq_lines (csr h') = irq_lines (csr h)" using h(4) by (simp add: irq_lines_def)
  moreover have "keeps {A0, T0, T1} (core (cpu h')) (cpu h') (cpu (xh3irq_global_enable (xh3irq_enable irq h')))"
    using e(3) xh3irq_global_enable_run(2) [of "xh3irq_enable irq h'"] by (simp add: keeps_def)
  ultimately show ?thesis
    using h e(1) by (intro exI [of _ h']) (simp add: xh3irq_global_enable_run(1))
qed

theorem rv_entry_and_interrupts_witness:
  "let L = \<lparr>sidata = 0x10001000, sdata = 0x20000000, edata = 0x20000008, sbss = 0x20000008, ebss = 0x20000010\<rparr>;
       Y = \<lparr>global_pointer = 0x20000800, stack_top = 0x20082000, trap_dispatch_at = 0x10000080\<rparr>;
       h = \<lparr>cpu = \<lparr>regs = \<lambda>_. 0, core = \<lparr>ram = \<lambda>_. 7, dev = ()\<rparr>\<rparr>,
            csr = \<lparr>mtvec = 0, mcountinhibit = 5, mie = 0, mstatus = 0, meiea = \<lambda>_. 0\<rparr>\<rparr>
   in \<exists>h'. rv_reset Y L 0 (const_device (\<lambda>a. a)) Some h = Some h' \<and>
     irqs_taken (csr (xh3irq_global_enable (xh3irq_enable 21 h'))) = {21}"
proof -
  let ?L = "\<lparr>sidata = 0x10001000, sdata = 0x20000000, edata = 0x20000008, sbss = 0x20000008, ebss = 0x20000010\<rparr>"
  let ?Y = "\<lparr>global_pointer = 0x20000800, stack_top = 0x20082000, trap_dispatch_at = 0x10000080\<rparr>"
  let ?h = "\<lparr>cpu = \<lparr>regs = \<lambda>_. 0, core = \<lparr>ram = \<lambda>_. 7, dev = ()\<rparr>\<rparr>,
    csr = \<lparr>mtvec = 0, mcountinhibit = 5, mie = 0, mstatus = 0, meiea = \<lambda>_. 0\<rparr>\<rparr>"
  have "layout_ok ?L" by (simp add: layout_ok_def)
  moreover have "flash_holds (const_device (\<lambda>a. a) :: unit device) (\<lambda>a. a)" by (simp add: flash_holds_def const_device_def)
  moreover have "unat (21 :: u32) < 512" by simp
  moreover have "irq_lines (csr ?h) = {}" by (simp add: irq_lines_def)
  ultimately show ?thesis
    using rv_entry_and_interrupts [of ?L "const_device (\<lambda>a. a)" "\<lambda>a. a" 21 ?Y 0 ?h] by (auto simp: Let_def)
qed

end
