(* ===== verification/PowerOnRv.thy ===== *)
theory PowerOnRv
  imports Crt0Rv BenchRust
begin

text \<open>
  The RP2350 image from power-on to the committed results: the boot ROM finds the entry point in the image
  definition, the entry code initialises the memory and calls \<^verbatim>\<open>mojo_main\<close>, here that of
  \<^verbatim>\<open>bench_rp2350.c\<close> or of its Mojo or Rust mirror.
\<close>

text \<open>The program as the start-up code calls it: it uses the machine, not the registers.\<close>

definition as_main :: "('d mach \<Rightarrow> ('d mach \<times> rom_call list) option) \<Rightarrow> 'd hart \<Rightarrow> ('d mach \<times> rom_call list) option" where
  "as_main main h = main (core (cpu h))"

text \<open>C3: The RP2350 program works from power-on, in all three languages: the image definition makes the boot ROM
  enter the reset code with the stack that the code sets up again; with a linked image in flash
  and hardware that answers, the code initialises the memory and the program, whether in C,
  Mojo or Rust, ends with one sector erase and one page program of the last sector followed by
  the reboot, the page holding the header, the language and every expected checksum.\<close>

theorem rv_power_on_commits:
  assumes "layout_ok L" and "flash_holds D img"
    and "acks D 0x40023000 0x240 0x40020008 (\<lambda>v. v AND 0x240 = 0x240)"
  shows "rv_entry (image_def_block reset) = Some (reset, 0x20082000) \<and>
    list_all (\<lambda>(lang, main). \<exists>t page.
      rv_reset Y L link D (as_main main) h =
        Some (t, [ConnectInternalFlash, FlashExitXip, FlashRangeErase 0x3FF000 4096 65536 0xD8,
          FlashRangeProgram 0x3FF000 page, FlashFlushCache, Reboot 2 100 0 0]) \<and>
      length page = 64 \<and> take 5 page = [0x42454E43, 2, 9, 3, lang] \<and>
      (\<forall>run<3. \<forall>i<9. page ! (2 * (run * 9 + i) + 6) = bench_checks ! i))
    [(1, mj_rv_start D mc), (2, rv_mojo_main False D mc), (3, rv_mojo_main True D mc), (4, rs_rv_mojo_main D mc)]"
proof -
  have run: "\<exists>t page. rv_reset Y L link D (as_main main) h =
        Some (t, [ConnectInternalFlash, FlashExitXip, FlashRangeErase 0x3FF000 4096 65536 0xD8,
          FlashRangeProgram 0x3FF000 page, FlashFlushCache, Reboot 2 100 0 0]) \<and>
      length page = 64 \<and> take 5 page = [0x42454E43, 2, 9, 3, lang] \<and>
      (\<forall>run<3. \<forall>i<9. page ! (2 * (run * 9 + i) + 6) = bench_checks ! i)"
    if m: "main = rv_program lang D mc" for main lang
  proof -
    obtain h' where "rv_reset Y L link D (as_main main) h = as_main main h'"
      using rv_reset_run [OF assms(1,2), of Y link "as_main main" h] by blast
    with rv_program_run [OF assms(3), of lang mc "core (cpu h')"] show ?thesis
      by (simp add: m as_main_def)
  qed
  have "mj_rv_start D mc = rv_program 1 D mc" "rs_rv_mojo_main D mc = rv_program 4 D mc"
    "rv_mojo_main False D mc = rv_program 2 D mc" "rv_mojo_main True D mc = rv_program 3 D mc"
    by (simp_all add: fun_eq_iff mj_programs rs_programs rv_mojo_main_program LANG_def)
  then show ?thesis
    by (simp only: list.pred_inject prod.case image_def_entry run simp_thms)
qed

theorem rv_power_on_commits_witness:
  "let L = \<lparr>sidata = 0x10001000, sdata = 0x20000000, edata = 0x20000008, sbss = 0x20000008, ebss = 0x20000010\<rparr>;
       D = const_device (\<lambda>a. if a = 0x40020008 then 0x240 else 7)
   in \<exists>t calls. rv_reset \<lparr>global_pointer = 0x20000800, stack_top = 0x20082000, trap_dispatch_at = 0x10000080\<rparr>
       L 0 D (as_main (rs_rv_mojo_main D (\<lambda>d. (0, d))))
       \<lparr>cpu = \<lparr>regs = \<lambda>_. 0, core = \<lparr>ram = \<lambda>_. 0, dev = ()\<rparr>\<rparr>,
        csr = \<lparr>mtvec = 0, mcountinhibit = 5, mie = 0, mstatus = 0, meiea = \<lambda>_. 0\<rparr>\<rparr> = Some (t, calls)"
proof -
  let ?L = "\<lparr>sidata = 0x10001000, sdata = 0x20000000, edata = 0x20000008, sbss = 0x20000008, ebss = 0x20000010\<rparr>"
  let ?D = "const_device (\<lambda>a. if a = 0x40020008 then 0x240 else 7) :: unit device"
  have "layout_ok ?L" by (simp add: layout_ok_def)
  moreover have "flash_holds ?D (\<lambda>_. 7)"
    by (auto simp: flash_holds_def const_device_def word_less_nat_alt)
  moreover have "acks ?D 0x40023000 0x240 0x40020008 (\<lambda>v. v AND 0x240 = 0x240)"
    by (simp add: acks_const)
  ultimately show ?thesis
    using rv_power_on_commits [where L = ?L and D = ?D and img = "\<lambda>_. 7" and link = 0 and mc = "\<lambda>d. (0, d)"
      and Y = "\<lparr>global_pointer = 0x20000800, stack_top = 0x20082000, trap_dispatch_at = 0x10000080\<rparr>"
      and h = "\<lparr>cpu = \<lparr>regs = \<lambda>_. 0, core = \<lparr>ram = \<lambda>_. 0, dev = ()\<rparr>\<rparr>,
        csr = \<lparr>mtvec = 0, mcountinhibit = 5, mie = 0, mstatus = 0, meiea = \<lambda>_. 0\<rparr>\<rparr>"]
    by (simp only: Let_def list.pred_inject prod.case) blast
qed

end
