(* ===== verification/Rtt.thy ===== *)
theory Rtt
  imports Bytes
begin

text \<open>
  The log channel \<^verbatim>\<open>src/pico/rtt.mojo\<close>: a control block and a ring of 1024 bytes in SRAM. The
  firmware appends whole messages at the write offset and drops what does not fit; a host on
  the debug probe takes bytes at the read offset, at any time. All addresses are in SRAM, so
  the functions work on the memory. The interleaving of the two sides is a step relation; its
  abstraction is the stream of bytes accepted so far.
\<close>

section \<open>The control block\<close>

named_theorems rtt_layout \<open>the addresses of the control block\<close>

definition RTT_BASE :: u32 where [rtt_layout]: "RTT_BASE = 0x20038000"
definition MAX_UP :: u32 where [rtt_layout]: "MAX_UP = RTT_BASE + 16"
definition MAX_DOWN :: u32 where [rtt_layout]: "MAX_DOWN = RTT_BASE + 20"
definition UP_NAME :: u32 where [rtt_layout]: "UP_NAME = RTT_BASE + 24"
definition UP_BUF :: u32 where [rtt_layout]: "UP_BUF = RTT_BASE + 28"
definition UP_SIZE :: u32 where [rtt_layout]: "UP_SIZE = RTT_BASE + 32"
definition UP_WROFF :: u32 where [rtt_layout]: "UP_WROFF = RTT_BASE + 36"
definition UP_RDOFF :: u32 where [rtt_layout]: "UP_RDOFF = RTT_BASE + 40"
definition UP_FLAGS :: u32 where [rtt_layout]: "UP_FLAGS = RTT_BASE + 44"
definition BUF :: u32 where [rtt_layout]: "BUF = RTT_BASE + 64"
definition BUF_SIZE :: u32 where [rtt_layout]: "BUF_SIZE = 1024"

text \<open>The stores of \<^verbatim>\<open>init\<close>, in order.\<close>

definition init_stores :: "(u32 \<times> u32) list" where
  "init_stores = [(MAX_UP, 1), (MAX_DOWN, 0), (UP_NAME, 0), (UP_BUF, BUF), (UP_SIZE, BUF_SIZE),
     (UP_WROFF, 0), (UP_RDOFF, 0), (UP_FLAGS, 0),
     (RTT_BASE + 12, 0), (RTT_BASE + 8, 0x00005454), (RTT_BASE + 4, 0x52205245), (RTT_BASE, 0x47474553)]"

definition rtt_init :: "mem \<Rightarrow> mem" where
  "rtt_init m = fold (\<lambda>(a, v) m. mem_put m a v) init_stores m"

section \<open>Writing\<close>

definition put :: "u32 \<Rightarrow> u8 \<Rightarrow> mem \<Rightarrow> u32 \<times> mem" where
  "put p byte m =
     (let m = write8 (BUF + p) byte m; nxt = p + 1
      in (if nxt = BUF_SIZE then 0 else nxt, m))"

definition room :: "u32 \<Rightarrow> mem \<Rightarrow> u32" where
  "room p m =
     (let r = m UP_RDOFF in if p < r then r - p - 1 else BUF_SIZE - 1 - p + r)"

fun put_all :: "u32 \<Rightarrow> u8 list \<Rightarrow> mem \<Rightarrow> u32 \<times> mem" where
  "put_all p [] m = (p, m)"
| "put_all p (b # bs) m = (let (p, m) = put p b m in put_all p bs m)"

definition rtt_write :: "u8 list \<Rightarrow> mem \<Rightarrow> mem" where
  "rtt_write bytes m =
     (let p = m UP_WROFF
      in if room p m < of_nat (length bytes) then m
         else (let (p, m) = put_all p bytes m in mem_put m UP_WROFF p))"

text \<open>The digits of \<^verbatim>\<open>write_u32\<close>, least significant first; an index past the array is \<open>None\<close>.\<close>

function dec_loop :: "u32 \<Rightarrow> u8 list \<Rightarrow> nat \<Rightarrow> (u8 list \<times> nat) option" where
  "dec_loop n digits cnt =
     (if 10 \<le> cnt then None
      else (let digits = digits[cnt := of_nat (48 + unat (n mod 10))]; n = n div 10
            in if n = 0 then Some (digits, cnt + 1) else dec_loop n digits (cnt + 1)))"
  by auto
termination
  by (relation "measure (\<lambda>(n, ds, cnt). 10 - cnt)") auto

declare dec_loop.simps [simp del]

definition write_u32 :: "u32 \<Rightarrow> mem \<Rightarrow> mem option" where
  "write_u32 v m = (case dec_loop v (replicate 10 0) 0 of
       None \<Rightarrow> None
     | Some (digits, cnt) \<Rightarrow>
         (let p = m UP_WROFF
          in if room p m < of_nat cnt then Some m
             else (let (p, m) = for_range 0 cnt (\<lambda>i (p, m). put p (digits ! (cnt - 1 - i)) m) (p, m)
                   in Some (mem_put m UP_WROFF p))))"

definition hex_digit :: "u32 \<Rightarrow> nat \<Rightarrow> u8" where
  "hex_digit v i =
     (let nib = unat (drop_bit ((7 - i) * 4) v AND 0xF)
      in if nib < 10 then of_nat (48 + nib) else of_nat (87 + nib))"

definition write_hex :: "u32 \<Rightarrow> mem \<Rightarrow> mem" where
  "write_hex v m =
     (let p = m UP_WROFF
      in if room p m < 10 then m
         else (let (p, m) = put p 48 m;
                   (p, m) = put p 120 m;
                   (p, m) = for_range 0 8 (\<lambda>i (p, m). put p (hex_digit v i) m) (p, m)
               in mem_put m UP_WROFF p))"

section \<open>The numbers are messages\<close>

lemma put_all_append:
  "put_all p (bs @ cs) m = (let (p, m) = put_all p bs m in put_all p cs m)"
  by (induction bs arbitrary: p m) (simp_all add: split_beta Let_def)

lemma put_loop:
  "for_range 0 n (\<lambda>i (p, m). put p (f i) m) (p, m) = put_all p (map f [0..<n]) m"
  by (induction n) (simp_all add: for_range_Suc put_all_append split_beta Let_def)

definition hex_bytes :: "u32 \<Rightarrow> u8 list" where
  "hex_bytes v = [48, 120] @ map (hex_digit v) [0..<8]"

lemma write_hex_write: "write_hex v = rtt_write (hex_bytes v)"
  by (rule ext) (simp add: write_hex_def rtt_write_def hex_bytes_def put_loop split_beta Let_def
      del: upt_rec_numeral)

definition dec_bytes :: "u32 \<Rightarrow> u8 list" where
  "dec_bytes v = (case dec_loop v (replicate 10 0) 0 of
     None \<Rightarrow> [] | Some (digits, cnt) \<Rightarrow> map (\<lambda>i. digits ! (cnt - 1 - i)) [0..<cnt])"

lemma write_u32_write:
  "write_u32 v m = (if dec_loop v (replicate 10 0) 0 = None then None else Some (rtt_write (dec_bytes v) m))"
  by (auto simp: write_u32_def rtt_write_def dec_bytes_def put_loop split_beta Let_def split: option.split)

section \<open>Decimal digits\<close>

fun ndig :: "nat \<Rightarrow> nat list" where
  "ndig n = (n mod 10) # (if n div 10 = 0 then [] else ndig (n div 10))"

declare ndig.simps [simp del]

lemma ndig_length: "n < 10 ^ Suc k \<Longrightarrow> length (ndig n) \<le> Suc k"
proof (induction k arbitrary: n)
  case 0
  then show ?case by (subst ndig.simps) simp
next
  case (Suc k)
  then have "n div 10 < 10 ^ Suc k" by (simp add: less_mult_imp_div_less mult.commute)
  from Suc.IH [OF this] show ?case by (subst ndig.simps) simp
qed

lemma ndig_value: "foldr (\<lambda>d a. d + 10 * a) (ndig n) 0 = n"
  by (induction n rule: ndig.induct) (subst ndig.simps, auto)

lemma ndig_digits: "list_all (\<lambda>d. d < 10) (ndig n)"
  by (induction n rule: ndig.induct) (subst ndig.simps, auto)

lemma ndig_last: "last (ndig n) = 0 \<longleftrightarrow> n = 0"
  by (induction n rule: ndig.induct) (subst ndig.simps, auto simp: ndig.simps [of 0] split: if_splits,
      (metis ndig.simps list.distinct(1))+)

lemma ndig_not_Nil: "ndig n \<noteq> []"
  by (subst ndig.simps) simp

lemma dec_loop_digits:
  assumes "length (ndig (unat n)) + c \<le> 10" and "length ds = 10"
  shows "\<exists>es. dec_loop n ds c = Some (es, c + length (ndig (unat n))) \<and> length es = 10 \<and>
    (\<forall>i<c. es ! i = ds ! i) \<and>
    (\<forall>i<length (ndig (unat n)). es ! (c + i) = of_nat (48 + ndig (unat n) ! i))"
  using assms
proof (induction "unat n" arbitrary: n ds c rule: less_induct)
  case less
  let ?ds = "ds[c := of_nat (48 + unat (n mod 10))]"
  have digits: "ndig (unat n) = unat (n mod 10) # (if n div 10 = 0 then [] else ndig (unat (n div 10)))"
    by (subst ndig.simps) (simp add: unat_mod unat_div unat_eq_zero [symmetric])
  have c: "c < 10" using less.prems(1) digits by simp
  show ?case
  proof (cases "n div 10 = 0")
    case True
    then show ?thesis using c less.prems(2) digits by (subst dec_loop.simps) simp
  next
    case False
    then have "unat (n div 10) < unat n" by (simp add: unat_div) (metis div_less_dividend div_0 not_gr_zero numeral_One numeral_less_iff semiring_norm(76) unsigned_0 word_unat_eq_iff unat_div)
    moreover have "length (ndig (unat (n div 10))) + Suc c \<le> 10" using less.prems(1) digits False by simp
    moreover have "length ?ds = 10" using less.prems(2) by simp
    ultimately obtain es where es: "dec_loop (n div 10) ?ds (Suc c) = Some (es, Suc c + length (ndig (unat (n div 10))))"
      "length es = 10" "\<forall>i<Suc c. es ! i = ?ds ! i"
      "\<forall>i<length (ndig (unat (n div 10))). es ! (Suc c + i) = of_nat (48 + ndig (unat (n div 10)) ! i)"
      using less.hyps by blast
    have "dec_loop n ds c = Some (es, c + length (ndig (unat n)))"
      using es(1) c False digits by (subst dec_loop.simps) simp
    moreover have "es ! (c + i) = of_nat (48 + ndig (unat n) ! i)" if "i < length (ndig (unat n))" for i
      using that es(3,4) c less.prems(2) digits False by (cases i) auto
    ultimately show ?thesis using es(2,3) by (intro exI [of _ es]) auto
  qed
qed

text \<open>The message of a number: its decimal digits from the most significant one.\<close>

lemma dec_bytes_digits:
  "dec_loop v (replicate 10 0) 0 \<noteq> None"
  "dec_bytes v = map (\<lambda>d. of_nat (48 + d)) (rev (ndig (unat v)))"
proof -
  let ?ds = "ndig (unat v)"
  have "unat v < 10 ^ Suc 9" using unat_u32 [of v] by simp
  then have "length ?ds \<le> 10" using ndig_length by fastforce
  then obtain es where es: "dec_loop v (replicate 10 0) 0 = Some (es, length ?ds)"
    "\<forall>i<length ?ds. es ! i = of_nat (48 + ?ds ! i)"
    using dec_loop_digits [of v 0 "replicate 10 0"] by auto
  show "dec_loop v (replicate 10 0) 0 \<noteq> None" using es(1) by simp
  show "dec_bytes v = map (\<lambda>d. of_nat (48 + d)) (rev ?ds)"
    using es by (intro nth_equalityI) (simp_all add: dec_bytes_def rev_nth)
qed

text \<open>What a reader of the log makes of the digits.\<close>

definition number :: "nat \<Rightarrow> (u8 \<Rightarrow> nat) \<Rightarrow> u8 list \<Rightarrow> nat" where
  "number base digit = foldl (\<lambda>a b. base * a + digit b) 0"

lemma number_dec: "number 10 (\<lambda>b. unat b - 48) (dec_bytes v) = unat v"
proof -
  have "unat (of_nat (48 + d) :: u8) - 48 = d" if "d < 10" for d
    using that by (simp add: unat_of_nat del: of_nat_add)
  then have "foldr (\<lambda>b a. 10 * a + (unat b - 48)) (map (\<lambda>d. of_nat (48 + d) :: u8) ds) 0 =
      foldr (\<lambda>d a. d + 10 * a) ds 0" if "list_all (\<lambda>d. d < 10) ds" for ds
    using that by (induction ds) (simp_all del: of_nat_add)
  from this [OF ndig_digits] show ?thesis
    by (simp add: number_def dec_bytes_digits(2) foldl_conv_foldr rev_map ndig_value del: of_nat_add)
qed

lemma number_hex: "number 16 (\<lambda>b. if unat b < 58 then unat b - 48 else unat b - 87) (drop 2 (hex_bytes v)) = unat v"
proof -
  let ?n = "\<lambda>i. unat (drop_bit ((7 - i) * 4) v AND 0xF)"
  have nib: "?n i < 16" for i
  proof -
    have "drop_bit ((7 - i) * 4) v AND 0xF = take_bit 4 (drop_bit ((7 - i) * 4) v)"
      by (simp add: take_bit_eq_mask mask_eq_exp_minus_1)
    then show ?thesis by (simp add: unsigned_take_bit_eq take_bit_eq_mod unat_mod)
  qed
  have val: "(if unat (hex_digit v i) < 58 then unat (hex_digit v i) - 48 else unat (hex_digit v i) - 87) = ?n i" for i
    using nib [of i] by (auto simp: hex_digit_def Let_def unat_of_nat simp del: of_nat_add)
  have digits: "?n i = unat v div 16 ^ (7 - i) mod 16" for i
  proof -
    have "drop_bit ((7 - i) * 4) v AND 0xF = take_bit 4 (drop_bit ((7 - i) * 4) v)"
      by (simp add: take_bit_eq_mask mask_eq_exp_minus_1)
    moreover have "unat (take_bit 4 (drop_bit k v)) = take_bit 4 (drop_bit k (unat v))" for k
      by (simp only: unsigned_take_bit_eq unsigned_drop_bit_eq) (simp add: take_bit_nat_eq_self [OF unat_u32])
    ultimately show ?thesis
      by (simp only: take_bit_eq_mod drop_bit_eq_div) (simp add: mult.commute power_mult)
  qed
  have "unat v < 16 ^ 8" using unat_u32 [of v] by simp
  moreover have "foldl (\<lambda>a i. 16 * a + x div 16 ^ (7 - i) mod 16) 0 [0..<j] = x div 16 ^ (8 - j)"
    if "x < 16 ^ 8" "j \<le> 8" for x j :: nat
    using that(2)
  proof (induction j)
    case 0
    then show ?case using that(1) by simp
  next
    case (Suc j)
    have "8 - j = Suc (7 - j)" "8 - Suc j = 7 - j" using Suc.prems by simp_all
    then have "x div 16 ^ (8 - j) = (x div 16 ^ (7 - j)) div 16" by (simp add: div_mult2_eq [symmetric] mult.commute)
    then show ?case using Suc \<open>8 - Suc j = 7 - j\<close> by simp
  qed
  from this [of _ 8] have "foldl (\<lambda>a i. 16 * a + x div 16 ^ (7 - i) mod 16) 0 [0..<8] = x"
    if "x < 16 ^ 8" for x :: nat using that by simp
  ultimately show ?thesis
    by (simp add: number_def hex_bytes_def foldl_map val digits del: upt_rec_numeral)
qed

section \<open>The ring\<close>

text \<open>The ring: position \<open>i\<close> of the buffer, the bytes from \<open>r\<close> on, and how many there are.\<close>

definition ring_byte :: "mem \<Rightarrow> nat \<Rightarrow> u8" where
  "ring_byte m i = read8 (BUF + of_nat i) m"

definition ring :: "mem \<Rightarrow> nat \<Rightarrow> nat \<Rightarrow> u8 list" where
  "ring m r n = map (\<lambda>i. ring_byte m ((r + i) mod 1024)) [0..<n]"

definition used :: "nat \<Rightarrow> nat \<Rightarrow> nat" where
  "used r w = (if r \<le> w then w - r else w + 1024 - r)"

text \<open>The bytes of the ring are behind the control block.\<close>

lemma byte_word_above: "i < 1024 \<Longrightarrow> \<not> byte_word (BUF + of_nat i) < BUF"
proof -
  assume i: "i < 1024"
  have "unat (BUF + of_nat i :: u32) = 0x20038040 + i"
    using i by (simp add: rtt_layout unat_word_ariths unat_of_nat)
  moreover have "unat (byte_word x) = unat x - unat x mod 4" for x
    by (simp add: byte_word_def unat_sub word_le_nat_alt unat_mod)
  moreover have "0x20038040 + i - (0x20038040 + i) mod 4 \<ge> (0x20038040 :: nat)" by presburger
  ultimately show ?thesis by (simp add: rtt_layout word_less_nat_alt)
qed

lemma write8_ring:
  assumes "i < 1024"
  shows "ring_byte (write8 (BUF + of_nat i) b m) j = (if BUF + of_nat j = BUF + of_nat i then b else ring_byte m j)"
    and "a < BUF \<Longrightarrow> write8 (BUF + of_nat i) b m a = m a"
proof -
  show "ring_byte (write8 (BUF + of_nat i) b m) j = (if BUF + of_nat j = BUF + of_nat i then b else ring_byte m j)"
    by (simp add: ring_byte_def read_write8)
  show "a < BUF \<Longrightarrow> write8 (BUF + of_nat i) b m a = m a"
    using byte_word_above [OF assms] by (auto simp: write8_def)
qed

lemma ring_pos: "i < 1024 \<Longrightarrow> j < 1024 \<Longrightarrow> BUF + of_nat i = BUF + of_nat j \<longleftrightarrow> i = j"
  unfolding add_left_cancel by (simp add: word_unat_eq_iff unat_of_nat)

section \<open>Firmware and host\<close>

datatype rtt_pc = Idle | Putting u32 "u8 list"

text \<open>The memory, where the firmware is, and as ghosts the streams of both sides.\<close>

record rtt =
  rmem :: mem
  pc :: rtt_pc
  current :: "u8 list"
  accepted :: "u8 list"
  taken :: "u8 list"

definition wroff :: "mem \<Rightarrow> nat" where "wroff m = unat (m UP_WROFF)"
definition rdoff :: "mem \<Rightarrow> nat" where "rdoff m = unat (m UP_RDOFF)"

definition pending_bytes :: "mem \<Rightarrow> u8 list" where
  "pending_bytes m = ring m (rdoff m) (used (rdoff m) (wroff m))"

text \<open>
  The accesses of a message one by one, with the host's steps in between: it copies some of the
  bytes that are published and then advances the read offset.
\<close>

inductive rtt_step :: "rtt \<Rightarrow> rtt \<Rightarrow> bool" where
  begin_message: "pc (s :: rtt) = Idle \<Longrightarrow> length bs < 2 ^ 32 \<Longrightarrow>
     \<not> room (rmem s UP_WROFF) (rmem s) < of_nat (length bs) \<Longrightarrow>
     rtt_step s (s\<lparr>pc := Putting (rmem s UP_WROFF) bs, current := bs\<rparr>)"
| drop_message: "pc (s :: rtt) = Idle \<Longrightarrow> room (rmem s UP_WROFF) (rmem s) < of_nat (length (bs :: u8 list)) \<Longrightarrow> rtt_step s s"
| put_byte: "pc (s :: rtt) = Putting p (b # bs) \<Longrightarrow> put p b (rmem s) = (q, m) \<Longrightarrow>
     rtt_step s (s\<lparr>rmem := m, pc := Putting q bs\<rparr>)"
| publish: "pc (s :: rtt) = Putting p [] \<Longrightarrow>
     rtt_step s (s\<lparr>rmem := mem_put (rmem s) UP_WROFF p, pc := Idle,
       current := [], accepted := accepted s @ current s\<rparr>)"
| host_take: "k \<le> used (rdoff (rmem (s :: rtt))) (wroff (rmem s)) \<Longrightarrow>
     rtt_step s (s\<lparr>rmem := mem_put (rmem s) UP_RDOFF (of_nat ((rdoff (rmem s) + k) mod 1024)),
       taken := taken s @ ring (rmem s) (rdoff (rmem s)) k\<rparr>)"

inductive rtt_reach :: "rtt \<Rightarrow> bool" where
  start: "rtt_reach \<lparr>rmem = rtt_init m, pc = Idle, current = [], accepted = [], taken = []\<rparr>"
| step: "rtt_reach s \<Longrightarrow> rtt_step s t \<Longrightarrow> rtt_reach t"

text \<open>
  The invariant: what the host has not taken of the accepted stream is in the ring, and the
  bytes of the message under way are behind it, within the room that is left.
\<close>

definition progress :: "mem \<Rightarrow> u8 list \<Rightarrow> rtt_pc \<Rightarrow> bool" where
  "progress m cur y \<longleftrightarrow> (case y of Idle \<Rightarrow> cur = [] | Putting p bs \<Rightarrow>
     (\<exists>old. cur = old @ bs \<and> unat p = (wroff m + length old) mod 1024 \<and>
        ring m (wroff m) (length old) = old \<and> used (rdoff m) (wroff m) + length cur < 1024))"

definition rtt_inv :: "rtt \<Rightarrow> bool" where
  "rtt_inv s \<longleftrightarrow> wroff (rmem s) < 1024 \<and> rdoff (rmem s) < 1024 \<and>
     taken s @ pending_bytes (rmem s) = accepted s \<and> progress (rmem s) (current s) (pc s)"

lemma ring_append: "ring m r (k + n) = ring m r k @ ring m ((r + k) mod 1024) n"
proof (rule nth_equalityI)
  fix i assume "i < length (ring m r (k + n))"
  then have "i < k + n" by (simp add: ring_def)
  then have "\<not> i < k \<Longrightarrow> i - k < n \<and> (r + k) mod 1024 + (i - k) = (r + k) mod 1024 + (i - k)" by simp
  with \<open>i < k + n\<close> show "ring m r (k + n) ! i = (ring m r k @ ring m ((r + k) mod 1024) n) ! i"
    by (simp add: ring_def nth_append mod_add_left_eq)
qed (simp add: ring_def)

lemma length_ring [simp]: "length (ring m r n) = n"
  by (simp add: ring_def)

lemma mod_1024: "x < 2048 \<Longrightarrow> x mod 1024 = (if x < 1024 then x else x - 1024 :: nat)"
  by (simp add: mod_if)

lemma used_less: "r < 1024 \<Longrightarrow> w < 1024 \<Longrightarrow> used r w < 1024"
  by (auto simp: used_def)

lemma used_take: "r < 1024 \<Longrightarrow> w < 1024 \<Longrightarrow> k \<le> used r w \<Longrightarrow> used ((r + k) mod 1024) w = used r w - k"
  by (auto simp: used_def mod_1024 split: if_splits)

lemma used_put: "r < 1024 \<Longrightarrow> w < 1024 \<Longrightarrow> used r w + n < 1024 \<Longrightarrow> used r ((w + n) mod 1024) = used r w + n"
  by (auto simp: used_def mod_1024 split: if_splits)

lemma used_pos: "r < 1024 \<Longrightarrow> w < 1024 \<Longrightarrow> (r + used r w) mod 1024 = w"
  by (auto simp: used_def mod_1024)

lemma unat_room:
  assumes "wroff m < 1024" and "rdoff m < 1024"
  shows "unat (room (m UP_WROFF) m) = 1023 - used (rdoff m) (wroff m)"
proof -
  have small: "unat (m UP_WROFF) < 1024" "unat (m UP_RDOFF) < 1024"
    using assms by (simp_all add: wroff_def rdoff_def)
  show ?thesis
  proof (cases "m UP_WROFF < m UP_RDOFF")
    case True
    then have "unat (m UP_RDOFF - m UP_WROFF - 1) = unat (m UP_RDOFF) - unat (m UP_WROFF) - 1"
      by (subst unat_sub) (auto simp: unat_sub word_le_nat_alt word_less_nat_alt)
    then show ?thesis
      using True small by (simp add: room_def used_def wroff_def rdoff_def word_less_nat_alt)
  next
    case False
    have "unat (1023 - m UP_WROFF) = 1023 - unat (m UP_WROFF)"
      using small by (subst unat_sub) (auto simp: word_le_nat_alt)
    then have "unat (1023 - m UP_WROFF + m UP_RDOFF) = 1023 - unat (m UP_WROFF) + unat (m UP_RDOFF)"
      using False small by (simp add: unat_word_ariths word_less_nat_alt)
    then show ?thesis
      using False small
      by (simp add: room_def BUF_SIZE_def used_def wroff_def rdoff_def word_less_nat_alt)
  qed
qed

text \<open>The offsets are not bytes of the ring.\<close>

lemma offsets_below: "UP_WROFF < BUF" "UP_RDOFF < BUF" "UP_WROFF \<noteq> UP_RDOFF"
  by (simp_all add: rtt_layout)

lemma ring_offset:
  assumes "a < BUF"
  shows "ring (mem_put m a v) r n = ring m r n"
proof -
  have "ring_byte (mem_put m a v) i = ring_byte m i" if "i < 1024" for i
    using byte_word_above [OF that] assms by (auto simp: ring_byte_def read8_def mem_put_def)
  then show ?thesis by (simp add: ring_def)
qed

lemma ring_write8:
  assumes "i < 1024" and "\<And>k. k < n \<Longrightarrow> (r + k) mod 1024 \<noteq> i"
  shows "ring (write8 (BUF + of_nat i) b m) r n = ring m r n"
proof -
  have "ring_byte (write8 (BUF + of_nat i) b m) ((r + k) mod 1024) = ring_byte m ((r + k) mod 1024)"
    if "k < n" for k
    using write8_ring(1) [OF assms(1), of b m "(r + k) mod 1024"] assms(2) [OF that]
      ring_pos [of "(r + k) mod 1024" i] assms(1) by simp
  then show ?thesis by (simp add: ring_def)
qed

text \<open>Every step keeps the invariant.\<close>

lemma unat_word_of_less: "n < 1024 \<Longrightarrow> unat (of_nat n :: u32) = n"
  by (simp add: unat_of_nat)

lemma inv_host:
  assumes "rtt_inv s" and k: "k \<le> used (rdoff (rmem s)) (wroff (rmem s))"
  shows "rtt_inv (s\<lparr>rmem := mem_put (rmem s) UP_RDOFF (of_nat ((rdoff (rmem s) + k) mod 1024)),
       taken := taken s @ ring (rmem s) (rdoff (rmem s)) k\<rparr>)"
proof -
  let ?m = "rmem s" and ?r = "rdoff (rmem s)" and ?w = "wroff (rmem s)"
  let ?m' = "mem_put ?m UP_RDOFF (of_nat ((?r + k) mod 1024))"
  note inv = assms(1) [unfolded rtt_inv_def]
  have off: "wroff ?m' = ?w" "rdoff ?m' = (?r + k) mod 1024"
    using offsets_below by (simp_all add: wroff_def rdoff_def mem_put_def unat_word_of_less)
  have used': "used ((?r + k) mod 1024) ?w = used ?r ?w - k" using inv k by (simp add: used_take)
  have "ring ?m ?r k @ pending_bytes ?m' = pending_bytes ?m"
    using ring_append [of ?m ?r k "used ?r ?w - k"] k
    by (simp add: pending_bytes_def off used' ring_offset offsets_below)
  moreover have "progress ?m' (current s) (pc s)"
    using inv by (auto simp: progress_def off used' ring_offset offsets_below split: rtt_pc.splits)
  ultimately show ?thesis using inv by (auto simp: rtt_inv_def off)
qed

lemma inv_put:
  assumes "rtt_inv s" and "pc s = Putting p (b # bs)" and "put p b (rmem s) = (q, m)"
  shows "rtt_inv (s\<lparr>rmem := m, pc := Putting q bs\<rparr>)"
proof -
  let ?m = "rmem s" and ?r = "rdoff (rmem s)" and ?w = "wroff (rmem s)"
  note inv = assms(1) [unfolded rtt_inv_def]
  obtain old where old: "current s = old @ b # bs" "unat p = (?w + length old) mod 1024"
    "ring ?m ?w (length old) = old" "used ?r ?w + length (current s) < 1024"
    using inv assms(2) by (auto simp: progress_def)
  let ?i = "(?w + length old) mod 1024"
  have p: "p = of_nat ?i" by (simp add: word_unat_eq_iff unat_word_of_less old(2))
  have m: "m = write8 (BUF + of_nat ?i) b ?m"
    using assms(3) p by (auto simp: put_def Let_def)
  have "unat q = Suc (unat p) mod 1024"
    using assms(3) old(2) by (auto simp: put_def Let_def BUF_SIZE_def word_unat_eq_iff unat_word_ariths split: if_splits)
  then have q: "unat q = (?w + length (old @ [b])) mod 1024" by (simp add: old(2) mod_Suc_eq)
  have off: "wroff m = ?w" "rdoff m = ?r"
    using write8_ring(2) [of ?i _ b ?m] offsets_below by (simp_all add: m wroff_def rdoff_def)
  have free: "(?w + k) mod 1024 \<noteq> ?i" if "k < length old" for k
    using that old(1,4) inv by (auto simp: mod_1024 split: if_splits)
  have "ring m ?r (used ?r ?w) = ring ?m ?r (used ?r ?w)"
    unfolding m using inv old(1,4)
    by (intro ring_write8) (auto simp: mod_1024 used_def split: if_splits)
  moreover have "ring m ?w (Suc (length old)) = old @ [b]"
    using ring_append [of m ?w "length old" 1] ring_write8 [of ?i "length old" ?w b ?m] free old(3)
      write8_ring(1) [of ?i b ?m ?i]
    by (simp add: m) (simp add: ring_def)
  ultimately show ?thesis
    using inv old q unfolding rtt_inv_def pending_bytes_def progress_def
    by (auto simp: off intro!: exI [of _ "old @ [b]"])
qed

lemma inv_publish:
  assumes "rtt_inv s" and "pc s = Putting p []"
  shows "rtt_inv (s\<lparr>rmem := mem_put (rmem s) UP_WROFF p, pc := Idle, current := [],
       accepted := accepted s @ current s\<rparr>)"
proof -
  let ?m = "rmem s" and ?r = "rdoff (rmem s)" and ?w = "wroff (rmem s)" and ?n = "length (current s)"
  note inv = assms(1) [unfolded rtt_inv_def]
  have old: "unat p = (?w + ?n) mod 1024" "ring ?m ?w ?n = current s" "used ?r ?w + ?n < 1024"
    using inv assms(2) by (auto simp: progress_def)
  let ?m' = "mem_put ?m UP_WROFF p"
  have off: "wroff ?m' = (?w + ?n) mod 1024" "rdoff ?m' = ?r"
    using offsets_below old(1) by (simp_all add: wroff_def rdoff_def mem_put_def)
  have "pending_bytes ?m' = pending_bytes ?m @ current s"
    using inv old ring_append [of ?m ?r "used ?r ?w" ?n]
    by (simp add: pending_bytes_def off used_put used_pos ring_offset offsets_below)
  moreover have "(?w + ?n) mod 1024 < 1024" by simp
  ultimately show ?thesis using inv by (auto simp: rtt_inv_def off progress_def)
qed

lemma begin_inv:
  assumes "rtt_inv s" and "pc s = Idle" and "length bs \<le> 1023 - used (rdoff (rmem s)) (wroff (rmem s))"
  shows "rtt_inv (s\<lparr>pc := Putting (rmem s UP_WROFF) bs, current := bs\<rparr>)"
proof -
  have "used (rdoff (rmem s)) (wroff (rmem s)) < 1024"
    using assms(1) by (simp add: rtt_inv_def used_less)
  then show ?thesis using assms by (auto simp: rtt_inv_def progress_def wroff_def ring_def)
qed

lemma room_length:
  assumes "wroff m < 1024" and "rdoff m < 1024" and "length (bs :: u8 list) < 2 ^ 32"
  shows "room (m UP_WROFF) m < of_nat (length bs) \<longleftrightarrow> \<not> length bs \<le> 1023 - used (rdoff m) (wroff m)"
  using assms unat_room [of m] by (simp add: word_less_nat_alt unat_of_nat not_le)

lemma rtt_step_inv:
  assumes "rtt_step s t" and "rtt_inv s"
  shows "rtt_inv t"
  using assms
proof (induction rule: rtt_step.induct)
  case (begin_message s bs)
  then show ?case by (intro begin_inv) (simp_all add: rtt_inv_def room_length)
next
  case (put_byte s p b bs q m)
  then show ?case using inv_put by blast
next
  case (publish s p)
  then show ?case using inv_publish by blast
next
  case (host_take k s)
  then show ?case using inv_host by blast
qed

lemma rtt_init_inv: "rtt_inv \<lparr>rmem = rtt_init m, pc = Idle, current = [], accepted = [], taken = []\<rparr>"
proof -
  have "wroff (rtt_init m) = 0" "rdoff (rtt_init m) = 0"
    by (simp_all add: rtt_init_def init_stores_def wroff_def rdoff_def mem_put_def rtt_layout)
  then show ?thesis by (simp add: rtt_inv_def pending_bytes_def used_def ring_def progress_def)
qed

lemma rtt_reach_inv: "rtt_reach s \<Longrightarrow> rtt_inv s"
  by (induction rule: rtt_reach.induct) (auto intro: rtt_init_inv rtt_step_inv)

text \<open>A whole write, run by itself, takes the same steps.\<close>

lemma put_all_inv:
  "rtt_inv s \<Longrightarrow> pc s = Putting p bs \<Longrightarrow> put_all p bs (rmem s) = (q, m) \<Longrightarrow>
   rtt_inv (s\<lparr>rmem := m, pc := Putting q []\<rparr>)"
proof (induction bs arbitrary: s p)
  case Nil
  then have "s\<lparr>rmem := m, pc := Putting q []\<rparr> = s" by simp
  with Nil.prems(1) show ?case by simp
next
  case (Cons b bs)
  obtain p' m' where put: "put p b (rmem s) = (p', m')" by fastforce
  from inv_put [OF Cons.prems(1,2) put] Cons.prems(3) show ?case
    using Cons.IH [of "s\<lparr>rmem := m', pc := Putting p' bs\<rparr>" p'] by (simp add: put)
qed

text \<open>The bytes go behind the control block.\<close>

lemma put_frame:
  assumes "unat p < 1024" and "put p b m = (q, m')"
  shows "a < BUF \<Longrightarrow> m' a = m a" and "unat q < 1024"
proof -
  have "m' = write8 (BUF + of_nat (unat p)) b m" using assms(2) by (auto simp: put_def Let_def)
  then show "a < BUF \<Longrightarrow> m' a = m a" using write8_ring(2) [OF assms(1)] by simp
  show "unat q < 1024" using assms
    by (auto simp: put_def Let_def BUF_SIZE_def word_unat_eq_iff unat_word_ariths split: if_splits)
qed

lemma put_all_frame:
  "unat p < 1024 \<Longrightarrow> put_all p bs m = (q, m') \<Longrightarrow> a < BUF \<Longrightarrow> m' a = m a"
proof (induction bs arbitrary: p m)
  case (Cons b bs)
  obtain p1 m1 where put: "put p b m = (p1, m1)" by fastforce
  with Cons.prems(2) have "put_all p1 bs m1 = (q, m')" by simp
  from Cons.IH [OF put_frame(2) [OF Cons.prems(1) put] this Cons.prems(3)]
  show ?case using put_frame(1) [OF Cons.prems(1) put Cons.prems(3)] by simp
qed simp

section \<open>The descriptor\<close>

text \<open>Only the two offsets of the control block change after \<open>rtt_init\<close>.\<close>

definition descriptor :: "(u32 \<times> u32) list" where
  "descriptor = filter (\<lambda>(a, v). a \<noteq> UP_WROFF \<and> a \<noteq> UP_RDOFF) init_stores"

definition holds_all :: "(u32 \<times> u32) list \<Rightarrow> mem \<Rightarrow> bool" where
  "holds_all ws m \<longleftrightarrow> list_all (\<lambda>(a, v). m a = v) ws"

lemma descriptor_init: "holds_all descriptor (rtt_init m)"
  by (simp add: holds_all_def descriptor_def init_stores_def rtt_init_def mem_put_def rtt_layout)

lemma descriptor_frame:
  assumes "\<And>a. a < BUF \<Longrightarrow> a \<noteq> UP_WROFF \<Longrightarrow> a \<noteq> UP_RDOFF \<Longrightarrow> m' a = m a" and "holds_all descriptor m"
  shows "holds_all descriptor m'"
  using assms by (auto simp: holds_all_def list_all_iff descriptor_def init_stores_def rtt_layout)

lemma descriptor_step:
  assumes "rtt_step s t" and "rtt_inv s" and "holds_all descriptor (rmem s)"
  shows "holds_all descriptor (rmem t)"
  using assms
proof (induction rule: rtt_step.induct)
  case (put_byte s p b bs q m)
  then have "unat p < 1024" by (auto simp: rtt_inv_def progress_def)
  then have "a < BUF \<Longrightarrow> m a = rmem s a" for a using put_frame(1) put_byte(2) by blast
  with put_byte(4) show ?case by (auto intro: descriptor_frame)
qed (auto simp: mem_put_def intro: descriptor_frame)

lemma rtt_reach_descriptor: "rtt_reach s \<Longrightarrow> holds_all descriptor (rmem s)"
proof (induction rule: rtt_reach.induct)
  case (step s t)
  then show ?case using descriptor_step rtt_reach_inv by blast
qed (simp add: descriptor_init)

section \<open>Numbers: properties\<close>

text \<open>C24: numbers survive the log: \<open>write_u32\<close> never runs over its ten digits and appends a
  message of at most ten decimal digits, without a leading zero except for zero itself, that
  reads back as the number; \<open>write_hex\<close> appends \<open>0x\<close> and eight digits that read back as the
  number. Both append like a string, whole or not at all.\<close>

theorem numbers_read_back:
  "write_u32 v m = Some (rtt_write (dec_bytes v) m) \<and> length (dec_bytes v) \<le> 10 \<and>
   list_all (\<lambda>b. 48 \<le> b \<and> b \<le> 57) (dec_bytes v) \<and> (hd (dec_bytes v) = 48) = (v = 0) \<and>
   number 10 (\<lambda>b. unat b - 48) (dec_bytes v) = unat v \<and>
   write_hex v m = rtt_write (hex_bytes v) m \<and> length (hex_bytes v) = 10 \<and>
   number 16 (\<lambda>b. if unat b < 58 then unat b - 48 else unat b - 87) (drop 2 (hex_bytes v)) = unat v"
proof -
  have "unat v < 10 ^ Suc 9" using unat_u32 [of v] by simp
  then have "length (dec_bytes v) \<le> 10" using ndig_length by (fastforce simp: dec_bytes_digits(2))
  moreover have "list_all (\<lambda>b. 48 \<le> b \<and> b \<le> (57 :: u8)) (map (\<lambda>d. of_nat (48 + d)) (rev ds))"
    if "list_all (\<lambda>d. d < 10) ds" for ds
    using that by (induction ds) (auto simp: word_le_nat_alt unat_of_nat simp del: of_nat_add)
  then have "list_all (\<lambda>b. 48 \<le> b \<and> b \<le> (57 :: u8)) (dec_bytes v)"
    using ndig_digits by (simp add: dec_bytes_digits(2))
  moreover have "(hd (dec_bytes v) = 48) = (v = 0)"
  proof -
    have "last (ndig (unat v)) < 10" using ndig_digits ndig_not_Nil by (metis last_in_set list_all_iff)
    moreover have "hd (dec_bytes v) = of_nat (48 + last (ndig (unat v)))"
      using ndig_not_Nil by (simp add: dec_bytes_digits(2) hd_map hd_rev del: of_nat_add)
    ultimately have "(hd (dec_bytes v) = 48) = (last (ndig (unat v)) = 0)"
      by (simp add: word_unat_eq_iff unat_of_nat del: of_nat_add)
    then show ?thesis by (simp add: ndig_last unat_eq_zero)
  qed
  moreover have "length (hex_bytes v) = 10" by (simp add: hex_bytes_def)
  ultimately show ?thesis
    using dec_bytes_digits(1) [of v] number_hex [of v]
    by (simp add: write_u32_write write_hex_write number_dec)
qed

section \<open>The stream: properties\<close>

text \<open>C8: whatever the order in which the firmware's stores and the host's reads interleave after
  \<open>init\<close>, the bytes the host has taken followed by those waiting in the ring are exactly the
  messages accepted so far, in order and without gaps; both offsets stay inside the buffer, and
  nothing but the offsets of the control block is ever overwritten.\<close>

theorem rtt_stream:
  assumes "rtt_reach s"
  shows "taken s @ pending_bytes (rmem s) = accepted s \<and> wroff (rmem s) < 1024 \<and> rdoff (rmem s) < 1024 \<and>
    holds_all descriptor (rmem s)"
  using rtt_reach_inv [OF assms] rtt_reach_descriptor [OF assms] by (simp add: rtt_inv_def)

text \<open>Two bytes put one by one, the host taking what is published in between.\<close>

definition demo_start :: rtt where
  "demo_start = \<lparr>rmem = rtt_init (\<lambda>_. 0), pc = Idle, current = [], accepted = [], taken = []\<rparr>"

definition demo_begun :: rtt where
  "demo_begun = demo_start\<lparr>pc := Putting (rmem demo_start UP_WROFF) [104], current := [104]\<rparr>"

definition demo_put :: rtt where
  "demo_put = demo_begun\<lparr>rmem := snd (put 0 104 (rmem demo_begun)), pc := Putting 1 []\<rparr>"

definition demo_end :: rtt where
  "demo_end = demo_put\<lparr>rmem := mem_put (rmem demo_put) UP_WROFF 1, pc := Idle, current := [],
     accepted := accepted demo_put @ current demo_put\<rparr>"

lemma demo_reach: "rtt_reach demo_end"
proof -
  have 0: "rtt_reach demo_start" unfolding demo_start_def by (rule rtt_reach.start)
  have w: "rmem demo_start UP_WROFF = 0" "rmem demo_start UP_RDOFF = 0"
    by (simp_all add: demo_start_def rtt_init_def init_stores_def mem_put_def rtt_layout)
  have "rtt_step demo_start demo_begun" unfolding demo_begun_def
    by (rule rtt_step.begin_message) (simp_all add: w room_def BUF_SIZE_def, simp add: demo_start_def)
  with 0 have 1: "rtt_reach demo_begun" by (rule rtt_reach.step)
  have "pc demo_begun = Putting 0 [104]" by (simp add: demo_begun_def w)
  moreover have "put 0 104 (rmem demo_begun) = (1, snd (put 0 104 (rmem demo_begun)))"
    by (simp add: put_def BUF_SIZE_def Let_def)
  ultimately have "rtt_step demo_begun demo_put" unfolding demo_put_def by (rule rtt_step.put_byte)
  with 1 have 2: "rtt_reach demo_put" by (rule rtt_reach.step)
  have "pc demo_put = Putting 1 []" by (simp add: demo_put_def)
  then have "rtt_step demo_put demo_end" unfolding demo_end_def by (rule rtt_step.publish)
  with 2 show ?thesis by (rule rtt_reach.step)
qed

theorem rtt_stream_witness:
  "taken demo_end @ pending_bytes (rmem demo_end) = [104]"
proof -
  have "accepted demo_end = [104]"
    by (simp add: demo_end_def demo_put_def demo_begun_def demo_start_def)
  then show ?thesis using rtt_stream [OF demo_reach] by simp
qed

text \<open>C23: \<open>write\<close> is an append to a bounded queue of 1023 bytes that drops what does not fit: a
  message that fits in the room left is appended whole to the bytes waiting, wherever in the ring
  the offsets are and also across its end, and any other message changes nothing.\<close>

theorem rtt_write_appends:
  assumes "wroff m < 1024" and "rdoff m < 1024" and "length bs < 2 ^ 32"
  shows "if length (pending_bytes m) + length bs \<le> 1023
    then pending_bytes (rtt_write bs m) = pending_bytes m @ bs \<and> wroff (rtt_write bs m) < 1024 \<and>
      rdoff (rtt_write bs m) = rdoff m
    else rtt_write bs m = m"
proof (cases "length bs \<le> 1023 - used (rdoff m) (wroff m)")
  case True
  let ?s = "\<lparr>rmem = m, pc = Idle, current = [], accepted = pending_bytes m, taken = []\<rparr>"
  obtain q m' where run: "put_all (m UP_WROFF) bs m = (q, m')" by fastforce
  have "rtt_inv ?s" using assms by (simp add: rtt_inv_def progress_def)
  then have "rtt_inv (?s\<lparr>pc := Putting (m UP_WROFF) bs, current := bs\<rparr>)"
    using begin_inv [of ?s bs] True by simp
  from put_all_inv [OF this, of "m UP_WROFF" bs q m'] run
  have "rtt_inv (?s\<lparr>rmem := m', pc := Putting q [], current := bs\<rparr>)" by simp
  from inv_publish [OF this, of q]
  have inv: "rtt_inv \<lparr>rmem = mem_put m' UP_WROFF q, pc = Idle, current = [],
      accepted = pending_bytes m @ bs, taken = []\<rparr>" by simp
  have "rtt_write bs m = mem_put m' UP_WROFF q"
    using True assms run by (simp add: rtt_write_def room_length Let_def)
  moreover have "rdoff (mem_put m' UP_WROFF q) = rdoff m"
    using put_all_frame [OF _ run, of UP_RDOFF] assms(1) offsets_below
    by (simp add: rdoff_def mem_put_def wroff_def)
  ultimately show ?thesis
    using inv True used_less [OF assms(2,1)] by (auto simp: rtt_inv_def pending_bytes_def)
next
  case False
  then have "rtt_write bs m = m" using assms by (simp add: rtt_write_def room_length Let_def)
  moreover have "\<not> used (rdoff m) (wroff m) + length bs \<le> 1023" using False by arith
  ultimately show ?thesis by (simp add: pending_bytes_def)
qed

theorem rtt_write_appends_witness:
  "let m = mem_put (mem_put (rtt_init (\<lambda>_. 0)) UP_WROFF 1023) UP_RDOFF 1023
   in pending_bytes (rtt_write [1, 2] m) = [1, 2] \<and> rtt_write (replicate 1024 7) m = m"
proof -
  let ?m = "mem_put (mem_put (rtt_init (\<lambda>_. 0)) UP_WROFF 1023) UP_RDOFF 1023"
  have "wroff ?m = 1023" "rdoff ?m = 1023"
    by (simp_all add: wroff_def rdoff_def mem_put_def rtt_layout)
  moreover from this have "pending_bytes ?m = []" by (simp add: pending_bytes_def used_def ring_def)
  ultimately show ?thesis
    using rtt_write_appends [of ?m "[1, 2]"] rtt_write_appends [of ?m "replicate 1024 7"] by (simp add: Let_def)
qed

lemma length_init_stores: "length init_stores = 12"
  by (simp add: init_stores_def)

text \<open>The magic that a host scans for is stored last: on memory that does not hold it yet, no
  prefix of the stores of \<open>init\<close> shows it, and when it appears every other word of the control block
  is in place.\<close>

theorem rtt_magic_last:
  assumes "m RTT_BASE \<noteq> 0x47474553"
  shows "list_all (\<lambda>n. fold (\<lambda>(a, v) m. mem_put m a v) (take n init_stores) m RTT_BASE \<noteq> 0x47474553) [0..<12] \<and>
    holds_all init_stores (rtt_init m)"
proof
  have "a \<noteq> RTT_BASE" if "(a, v) \<in> set (butlast init_stores)" for a v
    using that by (auto simp: init_stores_def rtt_layout)
  then have far: "list_all (\<lambda>(a, v). a \<noteq> RTT_BASE) (butlast init_stores)"
    by (auto simp: list_all_iff)
  have keep: "fold (\<lambda>(a, v) m. mem_put m a v) ws m RTT_BASE = m RTT_BASE"
    if "list_all (\<lambda>(a, v). a \<noteq> RTT_BASE) ws" for ws m
    using that by (induction ws arbitrary: m) (auto simp: mem_put_def)
  have "take n init_stores = take n (butlast init_stores)" if "n < 12" for n
    using that by (simp add: butlast_conv_take length_init_stores min_absorb1)
  moreover have "list_all (\<lambda>(a, v). a \<noteq> RTT_BASE) (take n (butlast init_stores))" for n
    using far by (metis append_take_drop_id list_all_append)
  ultimately show "list_all (\<lambda>n. fold (\<lambda>(a, v) m. mem_put m a v) (take n init_stores) m RTT_BASE \<noteq> 0x47474553) [0..<12]"
    using assms keep by (simp add: list_all_iff)
  show "holds_all init_stores (rtt_init m)"
    by (simp add: holds_all_def init_stores_def rtt_init_def mem_put_def rtt_layout)
qed

theorem rtt_magic_last_witness:
  "fold (\<lambda>(a, v) m. mem_put m a v) (take 11 init_stores) (\<lambda>_. 0) RTT_BASE \<noteq> 0x47474553 \<and>
   rtt_init (\<lambda>_. 0) RTT_BASE = 0x47474553"
proof -
  have len: "list_all P [0..<12] \<Longrightarrow> P 11" for P :: "nat \<Rightarrow> bool" by (simp add: list_all_iff)
  have "holds_all init_stores m \<Longrightarrow> m RTT_BASE = 0x47474553" for m
    by (simp add: holds_all_def init_stores_def)
  then show ?thesis using rtt_magic_last [of "\<lambda>_. 0"] len by fastforce
qed

text \<open>After a reset that keeps the RAM, the old magic is still there while \<open>init\<close> runs again: once
  it has cleared the write offset and not yet the read offset, a host sees a complete block with
  stale bytes waiting in it.\<close>

theorem rtt_init_again:
  "let m = mem_put (mem_put (rtt_init (\<lambda>_. 0)) UP_WROFF 5) UP_RDOFF 5;
       m' = fold (\<lambda>(a, v) m. mem_put m a v) (take 6 init_stores) m
   in holds_all descriptor m' \<and> length (pending_bytes m) = 0 \<and> length (pending_bytes m') = 1019"
  by (simp add: Let_def init_stores_def rtt_init_def mem_put_def rtt_layout holds_all_def descriptor_def
      pending_bytes_def wroff_def rdoff_def used_def)

end
