(* ===== verification/Sync.thy ===== *)
theory Sync
  imports Board
begin

text \<open>
  The hardware spinlocks of \<^verbatim>\<open>src/pico/sync.mojo\<close>. What the lock registers answer is documented
  behaviour of the chip and a predicate on the device (\<open>spinlock_bank\<close>). Two cores that use a
  lock are a step relation on one machine, whose steps are the functions of the module.
\<close>

section \<open>The lock\<close>

definition lock_addr :: "nat \<Rightarrow> u32" where
  "lock_addr n = SIO_SPINLOCK0 + of_nat (4 * n)"

definition try_acquire :: "nat \<Rightarrow> 'd device \<Rightarrow> 'd mach \<Rightarrow> bool \<times> 'd mach" where
  "try_acquire n D s = (let (v, s) = rd D (lock_addr n) s in (v \<noteq> 0, s))"

definition acquire :: "nat \<Rightarrow> 'd device \<Rightarrow> 'd mach \<Rightarrow> 'd mach option" where
  "acquire n D s = poll D (lock_addr n) (\<lambda>v. \<not> v = 0) s"

definition release :: "nat \<Rightarrow> 'd device \<Rightarrow> 'd mach \<Rightarrow> 'd mach" where
  "release n D s = wr D (lock_addr n) 1 s"

definition is_locked :: "nat \<Rightarrow> 'd device \<Rightarrow> 'd mach \<Rightarrow> bool \<times> 'd mach" where
  "is_locked n D s = (let (v, s) = rd D SIO_SPINLOCK_ST s in (v AND push_bit n 1 \<noteq> 0, s))"

section \<open>The lock registers\<close>

text \<open>
  A read claims the lock and tells by a value other than zero that it was free, any write frees
  it, and the status register shows the locks without changing them.
\<close>

definition spinlock_bank :: "'d device \<Rightarrow> ('d \<Rightarrow> nat \<Rightarrow> bool) \<Rightarrow> bool" where
  "spinlock_bank D locked \<longleftrightarrow>
     (\<forall>d. \<forall>n<32. (fst (dread D d (lock_addr n)) \<noteq> 0) = (\<not> locked d n) \<and>
        locked (snd (dread D d (lock_addr n))) = (locked d)(n := True)) \<and>
     (\<forall>d v. \<forall>n<32. locked (dwrite D d (lock_addr n) v) = (locked d)(n := False)) \<and>
     (\<forall>d. locked (snd (dread D d SIO_SPINLOCK_ST)) = locked d \<and>
        (\<forall>n<32. bit (fst (dread D d SIO_SPINLOCK_ST)) n = locked d n))"

lemma lock_addr_dev: "n < 32 \<Longrightarrow> \<not> in_sram (lock_addr n)"
proof -
  assume "n < 32"
  then have "unat (lock_addr n) = 0xD0000100 + 4 * n"
    by (simp add: lock_addr_def rp2040_map unat_word_ariths unat_of_nat)
  then show ?thesis by (simp add: sram_eval word_le_nat_alt word_less_nat_alt)
qed

lemma try_acquire_bank:
  assumes "spinlock_bank D locked" and "n < 32" and "try_acquire n D s = (b, t)"
  shows "b = (\<not> locked (dev s) n)" and "locked (dev t) = (locked (dev s))(n := True)" and "ram t = ram s"
  using assms lock_addr_dev [of n] by (auto simp: try_acquire_def spinlock_bank_def rd_dev)

lemma release_bank:
  assumes "spinlock_bank D locked" and "n < 32"
  shows "locked (dev (release n D s)) = (locked (dev s))(n := False)" and "ram (release n D s) = ram s"
  using assms lock_addr_dev [of n] by (auto simp: release_def spinlock_bank_def wr_dev)

lemma is_locked_bank:
  assumes "spinlock_bank D locked" and "n < 32" and "is_locked n D s = (b, t)"
  shows "b = locked (dev s) n" and "locked (dev t) = locked (dev s)"
proof -
  have "v AND push_bit n 1 \<noteq> 0 \<longleftrightarrow> bit v n" for v :: u32
    by (simp add: bit_iff_and_push_bit_not_eq_0)
  then show "b = locked (dev s) n" and "locked (dev t) = locked (dev s)"
    using assms by (auto simp: is_locked_def spinlock_bank_def rd_dev rp2040_map sram_eval)
qed

text \<open>\<open>acquire\<close> repeats \<open>try_acquire\<close>.\<close>

lemma acquire_unfold:
  "acquire n D s = (let (b, s) = try_acquire n D s in if b then Some s else acquire n D s)"
  unfolding acquire_def by (subst poll.simps) (simp add: try_acquire_def split_beta Let_def)

lemma held_reads:
  assumes "spinlock_bank D locked" and "n < 32" and "locked d n"
  shows "nth_read D (lock_addr n) k d = 0"
  using assms(3)
proof (induction k arbitrary: d)
  case 0
  then show ?case using assms(1,2) by (simp add: nth_read_0 spinlock_bank_def)
next
  case (Suc k)
  have "locked (snd (dread D d (lock_addr n))) n" using assms(1,2) by (simp add: spinlock_bank_def)
  with Suc.IH show ?case by (simp add: nth_read_Suc)
qed

section \<open>Two cores\<close>

datatype core_id = Core0 | Core1

datatype lock_pc = Outside | Spinning | Holding

text \<open>\<open>view\<close> is a ghost: the memory as a core left it, when it last held the lock.\<close>

record 'd duo =
  mac :: "'d mach"
  at_pc :: "core_id \<Rightarrow> lock_pc"
  view :: "core_id \<Rightarrow> mem"

text \<open>
  Between the operations on the lock each core does what it likes with the machine, as long as
  it leaves the lock alone and touches the protected words \<open>P\<close> only while it holds the lock.
\<close>

inductive duo_step :: "nat \<Rightarrow> 'd device \<Rightarrow> ('d \<Rightarrow> nat \<Rightarrow> bool) \<Rightarrow> u32 set \<Rightarrow> 'd duo \<Rightarrow> 'd duo \<Rightarrow> bool"
  for n :: nat and D :: "'d device" and locked :: "'d \<Rightarrow> nat \<Rightarrow> bool" and P :: "u32 set" where
  want: "at_pc s c = Outside \<Longrightarrow> duo_step n D locked P s (s\<lparr>at_pc := (at_pc s)(c := Spinning)\<rparr>)"
| refused: "at_pc s c = Spinning \<Longrightarrow> try_acquire n D (mac s) = (False, t) \<Longrightarrow>
     duo_step n D locked P s (s\<lparr>mac := t\<rparr>)"
| claimed: "at_pc s c = Spinning \<Longrightarrow> try_acquire n D (mac s) = (True, t) \<Longrightarrow>
     duo_step n D locked P s
       (s\<lparr>mac := t, at_pc := (at_pc s)(c := Holding), view := (view s)(c := ram t)\<rparr>)"
| give_up: "at_pc s c = Spinning \<Longrightarrow> duo_step n D locked P s (s\<lparr>at_pc := (at_pc s)(c := Outside)\<rparr>)"
| work_holding: "at_pc s c = Holding \<Longrightarrow> locked (dev t) n = locked (dev (mac s)) n \<Longrightarrow>
     duo_step n D locked P s (s\<lparr>mac := t, view := (view s)(c := ram t)\<rparr>)"
| work_free: "at_pc s c \<noteq> Holding \<Longrightarrow> locked (dev t) n = locked (dev (mac s)) n \<Longrightarrow>
     (\<And>a. a \<in> P \<Longrightarrow> ram t a = ram (mac s) a) \<Longrightarrow> duo_step n D locked P s (s\<lparr>mac := t\<rparr>)"
| free: "at_pc s c = Holding \<Longrightarrow>
     duo_step n D locked P s (s\<lparr>mac := release n D (mac s), at_pc := (at_pc s)(c := Outside)\<rparr>)"

inductive duo_reach :: "nat \<Rightarrow> 'd device \<Rightarrow> ('d \<Rightarrow> nat \<Rightarrow> bool) \<Rightarrow> u32 set \<Rightarrow> 'd duo \<Rightarrow> bool"
  for n :: nat and D :: "'d device" and locked :: "'d \<Rightarrow> nat \<Rightarrow> bool" and P :: "u32 set" where
  start: "\<not> locked (dev s) n \<Longrightarrow>
     duo_reach n D locked P \<lparr>mac = s, at_pc = \<lambda>_. Outside, view = \<lambda>_. ram s\<rparr>"
| step: "duo_reach n D locked P s \<Longrightarrow> duo_step n D locked P s t \<Longrightarrow> duo_reach n D locked P t"

text \<open>The invariant: the lock is taken exactly while one core holds it, whose view is the memory.\<close>

definition duo_inv :: "nat \<Rightarrow> ('d \<Rightarrow> nat \<Rightarrow> bool) \<Rightarrow> u32 set \<Rightarrow> 'd duo \<Rightarrow> bool" where
  "duo_inv n locked P s \<longleftrightarrow>
     locked (dev (mac s)) n = (at_pc s Core0 = Holding \<or> at_pc s Core1 = Holding) \<and>
     \<not> (at_pc s Core0 = Holding \<and> at_pc s Core1 = Holding) \<and>
     (\<forall>c. at_pc s c = Holding \<longrightarrow> (\<forall>a \<in> P. ram (mac s) a = view s c a))"

lemma duo_inv_holder:
  "duo_inv n locked P s \<Longrightarrow> at_pc s c = Holding \<Longrightarrow> at_pc s c' = Holding \<longleftrightarrow> c' = c"
  by (cases c; cases c') (auto simp: duo_inv_def)

lemma duo_step_inv:
  assumes "duo_step n D locked P s t" and bank: "spinlock_bank D locked" "n < 32" and "duo_inv n locked P s"
  shows "duo_inv n locked P t"
  using assms(1,4)
proof (induction rule: duo_step.induct)
  case (want s c)
  then show ?case by (cases c) (auto simp: duo_inv_def)
next
  case (refused s c t)
  then show ?case using try_acquire_bank [OF bank refused(2)] by (auto simp: duo_inv_def)
next
  case (claimed s c t)
  then show ?case using try_acquire_bank [OF bank claimed(2)] by (cases c) (auto simp: duo_inv_def)
next
  case (give_up s c)
  then show ?case by (cases c) (auto simp: duo_inv_def)
next
  case (work_holding s c t)
  have "at_pc s c' = Holding \<longleftrightarrow> c' = c" for c'
    using duo_inv_holder [OF work_holding(3,1)] .
  with work_holding show ?case by (auto simp: duo_inv_def)
next
  case (work_free s c t)
  then show ?case by (auto simp: duo_inv_def)
next
  case (free s c)
  have "at_pc s c' = Holding \<longleftrightarrow> c' = c" for c'
    using duo_inv_holder [OF free(2,1)] .
  then show ?case using release_bank [OF bank, of "mac s"] by (simp add: duo_inv_def)
qed

lemma duo_reach_inv:
  assumes "duo_reach n D locked P s" and "spinlock_bank D locked" and "n < 32"
  shows "duo_inv n locked P s"
  using assms(1)
proof (induction rule: duo_reach.induct)
  case (start s)
  then show ?case by (simp add: duo_inv_def)
next
  case (step s t)
  then show ?case using duo_step_inv assms(2,3) by blast
qed

section \<open>Properties\<close>

text \<open>C9: the spinlock excludes: in every interleaving of two cores that try, spin, give up, work
  and release, at most one core holds the lock; while it does, the status register shows the
  lock as taken, further attempts of either core fail, and no word that the lock protects
  changes but by the holder's own steps.\<close>

theorem spinlock_excludes:
  assumes "spinlock_bank D locked" and "n < 32" and "duo_reach n D locked P s" and "at_pc s c = Holding"
  shows "list_all (\<lambda>c'. at_pc s c' = Holding \<longleftrightarrow> c' = c) [Core0, Core1] \<and>
    fst (is_locked n D (mac s)) \<and> \<not> fst (try_acquire n D (mac s)) \<and>
    (\<forall>a. (if a \<in> P then ram (mac s) a = view s c a else True))"
proof -
  have inv: "duo_inv n locked P s" using duo_reach_inv assms(1-3) by blast
  then have "locked (dev (mac s)) n" using assms(4) by (cases c) (auto simp: duo_inv_def)
  moreover obtain b t b' t' where "is_locked n D (mac s) = (b, t)" "try_acquire n D (mac s) = (b', t')"
    by fastforce
  ultimately have "fst (is_locked n D (mac s))" "\<not> fst (try_acquire n D (mac s))"
    using is_locked_bank(1) [OF assms(1,2)] try_acquire_bank(1) [OF assms(1,2)] by fastforce+
  moreover have "list_all (\<lambda>c'. at_pc s c' = Holding \<longleftrightarrow> c' = c) [Core0, Core1]"
    using duo_inv_holder [OF inv assms(4)] by simp
  ultimately show ?thesis using inv assms(4) by (auto simp: duo_inv_def)
qed

text \<open>The lock registers as a word of bits.\<close>

definition lock_device :: "u32 device" where
  "lock_device = \<lparr>dread = \<lambda>d a. if a = SIO_SPINLOCK_ST then (d, d)
       else (let n = unat (a - SIO_SPINLOCK0) div 4 in (if bit d n then 0 else 1, set_bit n d)),
     dwrite = \<lambda>d a v. unset_bit (unat (a - SIO_SPINLOCK0) div 4) d\<rparr>"

lemma lock_device_bank: "spinlock_bank lock_device bit"
proof -
  have "lock_addr n \<noteq> SIO_SPINLOCK_ST" "unat (lock_addr n - SIO_SPINLOCK0) div 4 = n" if "n < 32" for n
    using that by (auto simp: lock_addr_def rp2040_map word_unat_eq_iff unat_word_ariths unat_of_nat)
  then show ?thesis
    by (auto simp: spinlock_bank_def lock_device_def Let_def bit_simps fun_eq_iff)
qed

definition lock_demo :: "u32 duo" where
  "lock_demo = \<lparr>mac = \<lparr>ram = \<lambda>_. 0, dev = set_bit 7 0\<rparr>, at_pc = (\<lambda>_. Outside)(Core0 := Holding),
     view = \<lambda>_ _. 0\<rparr>"

lemma lock_demo_reach: "duo_reach 7 lock_device bit UNIV lock_demo"
proof -
  let ?s0 = "\<lparr>mac = \<lparr>ram = \<lambda>_. 0, dev = 0 :: u32\<rparr>, at_pc = \<lambda>_. Outside, view = \<lambda>_ _. 0\<rparr>"
  let ?s1 = "?s0\<lparr>at_pc := (at_pc ?s0)(Core0 := Spinning)\<rparr>"
  have "duo_reach 7 lock_device bit UNIV ?s0"
    using duo_reach.start [of bit "\<lparr>ram = \<lambda>_. 0, dev = 0\<rparr>" 7] by simp
  then have 1: "duo_reach 7 lock_device bit UNIV ?s1"
    by (rule duo_reach.step) (rule duo_step.want, simp)
  have "try_acquire 7 lock_device (mac ?s1) = (True, \<lparr>ram = \<lambda>_. 0, dev = set_bit 7 0\<rparr>)"
    by (simp add: try_acquire_def lock_addr_def rp2040_map rd_dev sram_eval lock_device_def Let_def)
  from duo_step.claimed [of ?s1 Core0, OF _ this] have "duo_step 7 lock_device bit UNIV ?s1 lock_demo"
    by (simp add: lock_demo_def fun_upd_def if_distrib cong: if_cong)
  with 1 show ?thesis by (rule duo_reach.step)
qed

theorem spinlock_excludes_witness:
  "at_pc lock_demo Core1 \<noteq> Holding \<and> fst (is_locked 7 lock_device (mac lock_demo))"
  using spinlock_excludes [OF lock_device_bank _ lock_demo_reach, of Core0] by (simp add: lock_demo_def)

text \<open>\<open>acquire\<close> takes a free lock with a single read and changes nothing else; on a lock that
  is held and that nobody releases it never returns, so a core that acquires a lock it already
  holds stops for good. \<open>release\<close> makes the lock free again whoever holds it.\<close>

theorem acquire_free_or_never:
  assumes "spinlock_bank D locked" and "n < 32"
  shows "(if locked (dev s) n then acquire n D s = None
     else acquire n D s = Some (snd (try_acquire n D s)) \<and>
       locked (dev (snd (try_acquire n D s))) = (locked (dev s))(n := True) \<and>
       ram (snd (try_acquire n D s)) = ram s) \<and>
    acquire n D (release n D s) \<noteq> None"
proof -
  have free: "acquire n D u = Some (snd (try_acquire n D u))" if "\<not> locked (dev u) n" for u
    using try_acquire_bank(1) [OF assms, of u] that
    by (subst acquire_unfold) (auto simp: split_beta Let_def prod_eq_iff)
  have "acquire n D s = None" if "locked (dev s) n"
  proof (rule ccontr)
    assume "acquire n D s \<noteq> None"
    then obtain t where "acquire n D s = Some t" by blast
    then show False
      using poll_saw [of D "lock_addr n" _ s t] lock_addr_dev [OF assms(2)] held_reads [OF assms that]
      by (auto simp: acquire_def)
  qed
  moreover obtain b t where "try_acquire n D s = (b, t)" by fastforce
  ultimately show ?thesis
    using free [of s] free [of "release n D s"] release_bank(1) [OF assms, of s]
      try_acquire_bank(2,3) [OF assms, of s b t] by auto
qed

theorem acquire_free_or_never_witness:
  "acquire 3 lock_device \<lparr>ram = \<lambda>_. 0, dev = 8\<rparr> = None \<and> acquire 3 lock_device \<lparr>ram = \<lambda>_. 0, dev = 7\<rparr> \<noteq> None"
proof -
  have "bit (8 :: u32) 3" "\<not> bit (7 :: u32) 3" by code_simp+
  then show ?thesis
    using acquire_free_or_never [OF lock_device_bank, of 3 "\<lparr>ram = \<lambda>_. 0, dev = 8\<rparr>"]
      acquire_free_or_never [OF lock_device_bank, of 3 "\<lparr>ram = \<lambda>_. 0, dev = 7\<rparr>"] by simp
qed

end
