(* ===== verification/ElfCheck.thy ===== *)
theory ElfCheck
  imports Prelude "HOL-Library.Monad_Syntax"
begin

text \<open>
  The host tools that make and check a bootable image: \<^verbatim>\<open>tools/boot2.mojo\<close> pads the assembled
  loader and appends the checksum the boot ROM demands, and \<^verbatim>\<open>tools/check_elf.mojo\<close> verifies a
  linked image. Files are byte lists. A raised error is \<open>Inl\<close>; an index past the end of a
  list, at which the program aborts, is \<open>None\<close>. Offsets are computed in 64 bits from 32-bit
  fields and cannot overflow, so they are natural numbers; the sizes and addresses that the
  tool adds in 32 bits are words.
\<close>

section \<open>Checksum and fields\<close>

definition mpeg_round :: "u32 \<Rightarrow> u32" where
  "mpeg_round crc = (if crc AND 0x80000000 \<noteq> 0 then push_bit 1 crc XOR 0x04C11DB7 else push_bit 1 crc)"

definition mpeg_byte :: "u8 \<Rightarrow> u32 \<Rightarrow> u32" where
  "mpeg_byte b crc = for_range 0 8 (\<lambda>_. mpeg_round) (crc XOR push_bit 24 (ucast b))"

definition crc32_mpeg2 :: "u8 list \<Rightarrow> nat \<Rightarrow> u32" where
  "crc32_mpeg2 d n = for_range 0 n (\<lambda>i. mpeg_byte (d ! i)) 0xFFFFFFFF"

definition byte_at :: "u8 list \<Rightarrow> nat \<Rightarrow> u8 option" where
  "byte_at d i = (if i < length d then Some (d ! i) else None)"

definition rd16 :: "u8 list \<Rightarrow> nat \<Rightarrow> u32 option" where
  "rd16 d off = do {
     b0 \<leftarrow> byte_at d off;
     b1 \<leftarrow> byte_at d (off + 1);
     Some (ucast b0 OR push_bit 8 (ucast b1))
   }"

definition rd32 :: "u8 list \<Rightarrow> nat \<Rightarrow> u32 option" where
  "rd32 d off = do {
     b0 \<leftarrow> byte_at d off;
     b1 \<leftarrow> byte_at d (off + 1);
     b2 \<leftarrow> byte_at d (off + 2);
     b3 \<leftarrow> byte_at d (off + 3);
     Some (ucast b0 OR push_bit 8 (ucast b1) OR push_bit 16 (ucast b2) OR push_bit 24 (ucast b3))
   }"

section \<open>Making the loader image\<close>

text \<open>The part of \<^verbatim>\<open>build_boot2\<close> behind the tool chain: padding and checksum.\<close>

datatype boot2_error = Boot2_too_long nat

definition build_boot2 :: "u8 list \<Rightarrow> boot2_error + u8 list" where
  "build_boot2 raw =
     (if 252 < length raw then Inl (Boot2_too_long (length raw))
      else let blob = raw @ replicate (252 - length raw) 0;
               crc = crc32_mpeg2 blob 252
           in Inr (blob @ [ucast (crc AND 0xFF), ucast (drop_bit 8 crc AND 0xFF),
                ucast (drop_bit 16 crc AND 0xFF), ucast (drop_bit 24 crc AND 0xFF)]))"

section \<open>Parsing\<close>

definition FLASH_ORIGIN :: u32 where "FLASH_ORIGIN = 0x10000000"
definition FLASH_END :: u32 where "FLASH_END = 0x10200000"
definition RAM_ORIGIN :: u32 where "RAM_ORIGIN = 0x20000000"
definition RAM_END :: u32 where "RAM_END = 0x20040000"
definition ELF_VECTOR_TABLE :: u32 where "ELF_VECTOR_TABLE = 0x10000100"
definition STACK_MARGIN :: u32 where "STACK_MARGIN = 4096"
definition EM_ARM :: u32 where "EM_ARM = 40"
definition SHF_ALLOC :: u32 where "SHF_ALLOC = 2"

lemmas elf_consts = FLASH_ORIGIN_def FLASH_END_def RAM_ORIGIN_def RAM_END_def ELF_VECTOR_TABLE_def
  STACK_MARGIN_def SHF_ALLOC_def

record sect =
  sect_name :: "u8 list"
  sect_type :: u32
  sect_flags :: u32
  sect_addr :: u32
  sect_offset :: u32
  sect_size :: u32

datatype elf_error = No_file | Not_elf | Not_elf32 | Wrong_machine u32

function read_name :: "u8 list \<Rightarrow> nat \<Rightarrow> u8 list option" where
  "read_name raw p =
     (case byte_at raw p of None \<Rightarrow> None
      | Some b \<Rightarrow> if b = 0 then Some [] else map_option ((#) b) (read_name raw (p + 1)))"
  by auto
termination
  by (relation "measure (\<lambda>(raw, p). length raw - p)") (auto simp: byte_at_def split: if_splits)

declare read_name.simps [simp del]

definition parse_sect :: "u8 list \<Rightarrow> nat \<Rightarrow> nat \<Rightarrow> nat \<Rightarrow> nat \<Rightarrow> sect option" where
  "parse_sect raw shoff shentsize strtab_off i = do {
     let off = shoff + i * shentsize;
     name_off \<leftarrow> rd32 raw off;
     name \<leftarrow> read_name raw (strtab_off + unat name_off);
     ty \<leftarrow> rd32 raw (off + 4);
     flags \<leftarrow> rd32 raw (off + 8);
     addr \<leftarrow> rd32 raw (off + 12);
     offset \<leftarrow> rd32 raw (off + 16);
     sz \<leftarrow> rd32 raw (off + 20);
     Some \<lparr>sect_name = name, sect_type = ty, sect_flags = flags, sect_addr = addr,
       sect_offset = offset, sect_size = sz\<rparr>
   }"

definition parse_sections :: "u8 list \<Rightarrow> (elf_error + sect list) option" where
  "parse_sections raw =
     (if length raw < 52 \<or> raw ! 0 \<noteq> 0x7F \<or> raw ! 1 \<noteq> 69 \<or> raw ! 2 \<noteq> 76 \<or> raw ! 3 \<noteq> 70
      then Some (Inl Not_elf)
      else if raw ! 4 \<noteq> 1 \<or> raw ! 5 \<noteq> 1 then Some (Inl Not_elf32)
      else do {
        machine \<leftarrow> rd16 raw 18;
        if machine \<noteq> EM_ARM then Some (Inl (Wrong_machine machine))
        else do {
          shoff \<leftarrow> rd32 raw 32;
          shentsize \<leftarrow> rd16 raw 46;
          shnum \<leftarrow> rd16 raw 48;
          shstrndx \<leftarrow> rd16 raw 50;
          strtab_off \<leftarrow> rd32 raw (unat shoff + unat shstrndx * unat shentsize + 16);
          sects \<leftarrow> those (map (parse_sect raw (unat shoff) (unat shentsize) (unat strtab_off)) [0..<unat shnum]);
          Some (Inr sects)
        }
      })"

section \<open>Checking\<close>

text \<open>The messages, with the values they print.\<close>

datatype failure = Cannot_parse elf_error
  | Boot2_at u32 | Boot2_size u32 | Boot2_checksum u32 u32
  | Vector_table_at u32 | Bad_sp u32 | No_thumb_bit u32 | Reset_outside u32
  | Missing_boot2 | Missing_vector_table
  | Overflows_flash "u8 list" | Overflows_ram "u8 list" | Outside "u8 list" u32
  | Overlap "u8 list" "u8 list" | Ram_usage u32

definition ascii :: "string \<Rightarrow> u8 list" where
  "ascii s = map of_char s"

text \<open>The two branches of the loop over the sections that look at the content.\<close>

definition check_boot2 :: "u8 list \<Rightarrow> sect \<Rightarrow> failure list option" where
  "check_boot2 raw s = do {
     let f1 = (if sect_addr s \<noteq> FLASH_ORIGIN then [Boot2_at (sect_addr s)] else []);
     if sect_size s \<noteq> 256 then Some (f1 @ [Boot2_size (sect_size s)])
     else do {
       blob \<leftarrow> those (map (\<lambda>i. byte_at raw (unat (sect_offset s) + i)) [0..<256]);
       expected \<leftarrow> rd32 blob 252;
       let got = crc32_mpeg2 blob 252;
       Some (f1 @ (if expected \<noteq> got then [Boot2_checksum expected got] else []))
     }
   }"

definition check_vectors :: "u8 list \<Rightarrow> sect \<Rightarrow> failure list option" where
  "check_vectors raw s = do {
     let f1 = (if sect_addr s \<noteq> ELF_VECTOR_TABLE then [Vector_table_at (sect_addr s)] else []);
     sp \<leftarrow> rd32 raw (unat (sect_offset s));
     reset \<leftarrow> rd32 raw (unat (sect_offset s) + 4);
     let f2 = (if \<not> (RAM_ORIGIN < sp \<and> sp \<le> RAM_END) \<or> sp mod 4 \<noteq> 0 then [Bad_sp sp] else []);
     let f3 = (if reset AND 1 = 0 then [No_thumb_bit reset] else []);
     let reset_a = reset AND NOT 1;
     let f4 = (if \<not> (FLASH_ORIGIN \<le> reset_a \<and> reset_a < FLASH_END) then [Reset_outside reset] else []);
     Some (f1 @ f2 @ f3 @ f4)
   }"

fun check_contents :: "u8 list \<Rightarrow> sect list \<Rightarrow> failure list option" where
  "check_contents raw [] = Some []"
| "check_contents raw (s # ss) = do {
     f \<leftarrow> (if sect_name s = ascii ''.boot2'' then check_boot2 raw s
          else if sect_name s = ascii ''.vector_table'' then check_vectors raw s
          else Some []);
     fs \<leftarrow> check_contents raw ss;
     Some (f @ fs)
   }"

definition has_section :: "string \<Rightarrow> sect list \<Rightarrow> bool" where
  "has_section n ss \<longleftrightarrow> (\<exists>s \<in> set ss. sect_name s = ascii n)"

text \<open>The loop over the allocated sections, with its three lists and two sums.\<close>

record budget =
  mem_fails :: "failure list"
  flash_bytes :: u32
  ram_bytes :: u32
  lo_l :: "u32 list"
  hi_l :: "u32 list"
  name_l :: "u8 list list"

definition budget_step :: "sect \<Rightarrow> budget \<Rightarrow> budget" where
  "budget_step s b =
     (if sect_flags s AND SHF_ALLOC = 0 \<or> sect_size s = 0 then b
      else let lo = sect_addr s; hi = sect_addr s + sect_size s;
               b = b\<lparr>lo_l := lo_l b @ [lo], hi_l := hi_l b @ [hi], name_l := name_l b @ [sect_name s]\<rparr>
           in if FLASH_ORIGIN \<le> lo \<and> lo < FLASH_END
              then b\<lparr>mem_fails := mem_fails b @ (if FLASH_END < hi then [Overflows_flash (sect_name s)] else []),
                     flash_bytes := flash_bytes b + sect_size s\<rparr>
              else if RAM_ORIGIN \<le> lo \<and> lo < RAM_END
              then b\<lparr>mem_fails := mem_fails b @ (if RAM_END < hi then [Overflows_ram (sect_name s)] else []),
                     ram_bytes := ram_bytes b + sect_size s\<rparr>
              else b\<lparr>mem_fails := mem_fails b @ [Outside (sect_name s) lo]\<rparr>)"

definition budget_of :: "sect list \<Rightarrow> budget" where
  "budget_of ss = fold budget_step ss
     \<lparr>mem_fails = [], flash_bytes = 0, ram_bytes = 0, lo_l = [], hi_l = [], name_l = []\<rparr>"

text \<open>The insertion sort by \<^verbatim>\<open>lo\<close>, in the three lists at once.\<close>

definition swap_at :: "nat \<Rightarrow> 'a list \<Rightarrow> 'a list" where
  "swap_at j xs = xs[j := xs ! Suc j, Suc j := xs ! j]"

type_synonym ranges = "u32 list \<times> u32 list \<times> u8 list list"

fun sift :: "nat \<Rightarrow> ranges \<Rightarrow> ranges" where
  "sift 0 t = t"
| "sift (Suc j) (lo, hi, nm) =
     (if lo ! Suc j < lo ! j then sift j (swap_at j lo, swap_at j hi, swap_at j nm) else (lo, hi, nm))"

definition sort_ranges :: "ranges \<Rightarrow> ranges" where
  "sort_ranges t = for_range 1 (length (fst t)) sift t"

definition overlaps :: "ranges \<Rightarrow> failure list" where
  "overlaps t = (case t of (lo, hi, nm) \<Rightarrow>
     concat (map (\<lambda>i. if lo ! i < hi ! (i - 1) then [Overlap (nm ! (i - 1)) (nm ! i)] else []) [1..<length lo]))"

definition check_memory :: "sect list \<Rightarrow> failure list" where
  "check_memory ss =
     (let b = budget_of ss
      in mem_fails b @ overlaps (sort_ranges (lo_l b, hi_l b, name_l b)) @
         (if RAM_END - RAM_ORIGIN - STACK_MARGIN < ram_bytes b then [Ram_usage (ram_bytes b)] else []))"

definition check :: "u8 list option \<Rightarrow> failure list option" where
  "check file = (case file of
       None \<Rightarrow> Some [Cannot_parse No_file]
     | Some raw \<Rightarrow> (case parse_sections raw of
         None \<Rightarrow> None
       | Some (Inl e) \<Rightarrow> Some [Cannot_parse e]
       | Some (Inr ss) \<Rightarrow> do {
           f \<leftarrow> check_contents raw ss;
           Some (f @ (if has_section ''.boot2'' ss then [] else [Missing_boot2]) @
             (if has_section ''.vector_table'' ss then [] else [Missing_vector_table]) @ check_memory ss)
         }))"

section \<open>The memory map\<close>

text \<open>What the second part of \<^verbatim>\<open>check\<close> is for.\<close>

definition allocated :: "sect \<Rightarrow> bool" where
  "allocated s \<longleftrightarrow> sect_flags s AND SHF_ALLOC \<noteq> 0 \<and> sect_size s \<noteq> 0"

definition range_of :: "sect \<Rightarrow> nat set" where
  "range_of s = {unat (sect_addr s)..<unat (sect_addr s) + unat (sect_size s)}"

definition in_flash :: "sect \<Rightarrow> bool" where
  "in_flash s \<longleftrightarrow> range_of s \<subseteq> {0x10000000..<0x10200000}"

definition in_ram :: "sect \<Rightarrow> bool" where
  "in_ram s \<longleftrightarrow> range_of s \<subseteq> {0x20000000..<0x20040000}"

definition memory_ok :: "sect list \<Rightarrow> bool" where
  "memory_ok ss \<longleftrightarrow>
     (let as = filter allocated ss
      in list_all (\<lambda>s. in_flash s \<or> in_ram s) as \<and>
         sorted_wrt (\<lambda>s t. range_of s \<inter> range_of t = {}) as \<and>
         sum_list (map (unat \<circ> sect_size) (filter in_ram as)) \<le> 0x40000 - 4096)"

text \<open>The end of a section is a 32-bit address.\<close>

definition ends_in_range :: "sect \<Rightarrow> bool" where
  "ends_in_range s \<longleftrightarrow> unat (sect_addr s) + unat (sect_size s) < 2 ^ 32"

subsection \<open>The loop over the sections\<close>

definition starts_in_flash :: "sect \<Rightarrow> bool" where
  "starts_in_flash s \<longleftrightarrow> FLASH_ORIGIN \<le> sect_addr s \<and> sect_addr s < FLASH_END"

definition starts_in_ram :: "sect \<Rightarrow> bool" where
  "starts_in_ram s \<longleftrightarrow> RAM_ORIGIN \<le> sect_addr s \<and> sect_addr s < RAM_END"

definition sect_fails :: "sect \<Rightarrow> failure list" where
  "sect_fails s =
     (if starts_in_flash s then if FLASH_END < sect_addr s + sect_size s then [Overflows_flash (sect_name s)] else []
      else if starts_in_ram s then if RAM_END < sect_addr s + sect_size s then [Overflows_ram (sect_name s)] else []
      else [Outside (sect_name s) (sect_addr s)])"

lemma starts_disjoint: "starts_in_ram s \<Longrightarrow> \<not> starts_in_flash s"
  by (auto simp: starts_in_ram_def starts_in_flash_def elf_consts word_le_nat_alt word_less_nat_alt)

lemma budget_step_skip: "\<not> allocated s \<Longrightarrow> budget_step s b = b"
  by (auto simp: budget_step_def allocated_def)

lemma budget_step_alloc:
  assumes "allocated s"
  shows "mem_fails (budget_step s b) = mem_fails b @ sect_fails s"
    and "ram_bytes (budget_step s b) = ram_bytes b + (if starts_in_ram s then sect_size s else 0)"
    and "lo_l (budget_step s b) = lo_l b @ [sect_addr s]"
    and "hi_l (budget_step s b) = hi_l b @ [sect_addr s + sect_size s]"
    and "name_l (budget_step s b) = name_l b @ [sect_name s]"
  using assms starts_disjoint [of s]
  by (simp_all add: budget_step_def allocated_def sect_fails_def Let_def starts_in_flash_def [symmetric]
      starts_in_ram_def [symmetric])

lemma budget_fold:
  "mem_fails (fold budget_step ss b) = mem_fails b @ concat (map sect_fails (filter allocated ss)) \<and>
   ram_bytes (fold budget_step ss b) = ram_bytes b + sum_list (map sect_size (filter starts_in_ram (filter allocated ss))) \<and>
   lo_l (fold budget_step ss b) = lo_l b @ map sect_addr (filter allocated ss) \<and>
   hi_l (fold budget_step ss b) = hi_l b @ map (\<lambda>s. sect_addr s + sect_size s) (filter allocated ss) \<and>
   name_l (fold budget_step ss b) = name_l b @ map sect_name (filter allocated ss)"
proof (induction ss arbitrary: b)
  case (Cons s ss)
  then show ?case
    by (cases "allocated s") (simp_all add: budget_step_skip budget_step_alloc)
qed simp

subsection \<open>The sort\<close>

text \<open>The three lists are the columns of a list of sections, and move together.\<close>

definition columns :: "sect list \<Rightarrow> ranges" where
  "columns ss = (map sect_addr ss, map (\<lambda>s. sect_addr s + sect_size s) ss, map sect_name ss)"

fun sift_sects :: "nat \<Rightarrow> sect list \<Rightarrow> sect list" where
  "sift_sects 0 ss = ss"
| "sift_sects (Suc j) ss =
     (if sect_addr (ss ! Suc j) < sect_addr (ss ! j) then sift_sects j (swap_at j ss) else ss)"

lemma swap_at_map: "Suc j < length xs \<Longrightarrow> swap_at j (map f xs) = map f (swap_at j xs)"
  by (simp add: swap_at_def map_update)

lemma length_swap_at [simp]: "length (swap_at j xs) = length xs"
  by (simp add: swap_at_def)

lemma sift_columns: "j < length ss \<Longrightarrow> sift j (columns ss) = columns (sift_sects j ss)"
proof (induction j arbitrary: ss)
  case (Suc j)
  from Suc.prems Suc.IH [of "swap_at j ss"] show ?case
    by (simp add: columns_def swap_at_map)
qed (simp add: columns_def)

lemma swap_at_append: "length as = j \<Longrightarrow> swap_at j (as @ a # x # bs) = as @ x # a # bs"
  by (simp add: swap_at_def nth_append list_update_append)

text \<open>
  One round moves a section into the sorted part. It keeps the sections and every symmetric
  relation that holds between any two of them.
\<close>

lemma sift_sects_insert:
  assumes "symp R"
  shows "sorted (map sect_addr as) \<Longrightarrow> \<exists>cs. sift_sects (length as) (as @ x # bs) = cs @ bs \<and>
    sorted (map sect_addr cs) \<and> mset cs = mset (x # as) \<and>
    sorted_wrt R (cs @ bs) = sorted_wrt R (as @ x # bs)"
proof (induction as arbitrary: bs rule: rev_induct)
  case Nil
  then show ?case by (intro exI [of _ "[x]"]) simp
next
  case (snoc a as)
  show ?case
  proof (cases "sect_addr x < sect_addr a")
    case True
    from snoc.prems have sorted: "sorted (map sect_addr as)" "\<forall>s \<in> set as. sect_addr s \<le> sect_addr a"
      by (auto simp: sorted_append)
    obtain cs where cs: "sift_sects (length as) (as @ x # a # bs) = cs @ a # bs" "sorted (map sect_addr cs)"
      "mset cs = mset (x # as)" "sorted_wrt R (cs @ a # bs) = sorted_wrt R (as @ x # a # bs)"
      using snoc.IH [OF sorted(1), of "a # bs"] by blast
    have "sift_sects (Suc (length as)) (as @ a # x # bs) = (cs @ [a]) @ bs"
      using True cs(1) by (simp add: swap_at_append nth_append)
    moreover have "set cs = insert x (set as)" using cs(3) by (metis set_mset_mset list.set(2))
    then have "sorted (map sect_addr (cs @ [a]))" using cs(2) sorted(2) True by (auto simp: sorted_append)
    moreover have "sorted_wrt R (as @ x # a # bs) = sorted_wrt R (as @ a # x # bs)"
      using assms by (auto simp: sorted_wrt_append dest: sympD)
    ultimately show ?thesis using cs(3,4) by (intro exI [of _ "cs @ [a]"]) simp
  next
    case False
    have "sift_sects (Suc (length as)) (as @ a # x # bs) = as @ a # x # bs"
      using False by (simp add: nth_append)
    moreover have "sorted (map sect_addr (as @ [a, x]))" using snoc.prems False by (auto simp: sorted_append)
    ultimately show ?thesis by (intro exI [of _ "as @ [a, x]"]) simp
  qed
qed

lemma sort_sects:
  assumes "symp R" and "1 \<le> length ss"
  shows "\<exists>ts. sort_ranges (columns ss) = columns ts \<and> sorted (map sect_addr ts) \<and> mset ts = mset ss \<and>
    sorted_wrt R ts = sorted_wrt R ss"
proof -
  let ?P = "\<lambda>i t. \<exists>as. t = columns (as @ drop i ss) \<and> sorted (map sect_addr as) \<and> length as = i \<and>
    mset as = mset (take i ss) \<and> sorted_wrt R (as @ drop i ss) = sorted_wrt R ss"
  have "?P (length ss) (for_range 1 (length ss) sift (columns ss))"
  proof (rule for_range_inv [OF assms(2)])
    show "?P 1 (columns ss)"
      using assms(2) by (cases ss) (auto intro!: exI [of _ "[hd ss]"])
  next
    fix i t assume "i < length ss" "?P i t"
    then obtain as where as: "t = columns (as @ drop i ss)" "sorted (map sect_addr as)" "length as = i"
      "mset as = mset (take i ss)" "sorted_wrt R (as @ drop i ss) = sorted_wrt R ss" by blast
    have d: "drop i ss = ss ! i # drop (Suc i) ss" using \<open>i < length ss\<close> by (simp add: Cons_nth_drop_Suc)
    obtain cs where cs: "sift_sects (length as) (as @ ss ! i # drop (Suc i) ss) = cs @ drop (Suc i) ss"
      "sorted (map sect_addr cs)" "mset cs = mset (ss ! i # as)"
      "sorted_wrt R (cs @ drop (Suc i) ss) = sorted_wrt R (as @ ss ! i # drop (Suc i) ss)"
      using sift_sects_insert [OF assms(1) as(2), of "ss ! i" "drop (Suc i) ss"] by blast
    have "sift i t = columns (cs @ drop (Suc i) ss)"
      using sift_columns [of i "as @ drop i ss"] cs(1) as(1,3) d \<open>i < length ss\<close> by simp
    moreover have "length cs = Suc i" using cs(3) as(3) by (metis length_Cons size_mset)
    moreover have "mset cs = mset (take (Suc i) ss)"
      using cs(3) as(4) \<open>i < length ss\<close> by (simp add: take_Suc_conv_app_nth)
    ultimately show "?P (Suc i) (sift i t)" using cs(2,4) as(5) d by auto
  qed
  then show ?thesis by (auto simp: sort_ranges_def columns_def)
qed

subsection \<open>Overlaps\<close>

lemma unat_end: "ends_in_range s \<Longrightarrow> unat (sect_addr s + sect_size s) = unat (sect_addr s) + unat (sect_size s)"
  by (simp add: ends_in_range_def unat_word_ariths)

definition before :: "sect \<Rightarrow> sect \<Rightarrow> bool" where
  "before s t \<longleftrightarrow> unat (sect_addr s) + unat (sect_size s) \<le> unat (sect_addr t)"

lemma neighbours: "(\<forall>i \<in> {1..<n}. P (i - 1) i) \<longleftrightarrow> (\<forall>i. Suc i < n \<longrightarrow> P i (Suc i))" for n :: nat
proof
  assume *: "\<forall>i \<in> {1..<n}. P (i - 1) i"
  show "\<forall>i. Suc i < n \<longrightarrow> P i (Suc i)"
    using bspec [OF *, of "Suc i" for i] by simp
next
  assume *: "\<forall>i. Suc i < n \<longrightarrow> P i (Suc i)"
  show "\<forall>i \<in> {1..<n}. P (i - 1) i"
  proof
    fix i assume "i \<in> {1..<n}"
    then show "P (i - 1) i" using * [rule_format, of "i - 1"] by simp
  qed
qed

lemma overlaps_columns:
  assumes "list_all ends_in_range ss"
  shows "overlaps (columns ss) = [] \<longleftrightarrow> (\<forall>i. Suc i < length ss \<longrightarrow> before (ss ! i) (ss ! Suc i))"
proof -
  have pair: "sect_addr (ss ! j) < sect_addr (ss ! i) + sect_size (ss ! i) \<longleftrightarrow> \<not> before (ss ! i) (ss ! j)"
    if "i < length ss" for i j
    using assms that unat_end [of "ss ! i"] by (simp add: list_all_length before_def word_less_nat_alt not_le)
  have "overlaps (columns ss) = [] \<longleftrightarrow> (\<forall>i \<in> {1..<length ss}. before (ss ! (i - 1)) (ss ! i))"
  proof -
    have "(if map sect_addr ss ! i < map (\<lambda>s. sect_addr s + sect_size s) ss ! (i - 1) then [x] else []) = [] \<longleftrightarrow>
        before (ss ! (i - 1)) (ss ! i)" if "i \<in> {1..<length ss}" for i x
    proof -
      have "i - 1 < length ss" "i < length ss" using that by auto
      then show ?thesis using pair [of "i - 1" i] by simp
    qed
    then show ?thesis
      unfolding overlaps_def columns_def prod.case concat_eq_Nil_conv set_map ball_simps set_upt length_map
      by (intro ball_cong refl)
  qed
  then show ?thesis
    using neighbours [of "length ss" "\<lambda>i j. before (ss ! i) (ss ! j)"] by blast
qed

text \<open>Sorted sections that do not overlap their neighbours do not overlap at all.\<close>

lemma before_sorted:
  assumes "list_all (\<lambda>s. sect_size s \<noteq> 0) ss" and "sorted (map sect_addr ss)"
  shows "(\<forall>i. Suc i < length ss \<longrightarrow> before (ss ! i) (ss ! Suc i)) \<longleftrightarrow>
    sorted_wrt (\<lambda>s t. range_of s \<inter> range_of t = {}) ss"
proof -
  have pos: "0 < unat (sect_size (ss ! i))" if "i < length ss" for i
    using assms(1) that by (simp add: list_all_length unat_gt_0)
  have "(before (ss ! i) (ss ! j)) = (range_of (ss ! i) \<inter> range_of (ss ! j) = {})" if "i < j" "j < length ss" for i j
  proof -
    have "unat (sect_addr (ss ! i)) \<le> unat (sect_addr (ss ! j))"
      using assms(2) that by (auto simp: sorted_iff_nth_mono word_le_nat_alt)
    then show ?thesis using pos [of i] pos [of j] that by (auto simp: before_def range_of_def)
  qed
  then have "sorted_wrt (\<lambda>s t. range_of s \<inter> range_of t = {}) ss = sorted_wrt before ss"
    by (simp add: sorted_wrt_iff_nth_less)
  moreover have "transp before"
    by (rule transpI) (simp add: before_def)
  ultimately show ?thesis by (simp add: sorted_wrt_iff_nth_Suc_transp)
qed

subsection \<open>The sum of the sections in RAM\<close>

lemma sum_ranges:
  assumes "sorted_wrt (\<lambda>s t. range_of s \<inter> range_of t = {}) ss"
  shows "sum_list (map (unat \<circ> sect_size) ss) = card (\<Union> (range_of ` set ss))"
  using assms
proof (induction ss)
  case (Cons s ss)
  have "range_of s \<inter> \<Union> (range_of ` set ss) = {}" using Cons.prems by auto
  then have "card (range_of s \<union> \<Union> (range_of ` set ss)) = card (range_of s) + card (\<Union> (range_of ` set ss))"
    by (intro card_Un_disjoint) (auto simp: range_of_def)
  with Cons show ?case by (simp add: range_of_def)
qed simp

lemma ram_sum_small:
  assumes "sorted_wrt (\<lambda>s t. range_of s \<inter> range_of t = {}) ss" and "list_all in_ram ss"
  shows "sum_list (map (unat \<circ> sect_size) ss) \<le> 0x40000"
proof -
  have "\<Union> (range_of ` set ss) \<subseteq> {0x20000000..<0x20040000}"
    using assms(2) by (auto simp: list_all_iff in_ram_def)
  then have "card (\<Union> (range_of ` set ss)) \<le> card {0x20000000..<0x20040000 :: nat}"
    by (intro card_mono) simp_all
  then show ?thesis by (simp add: sum_ranges [OF assms(1)])
qed

lemma unat_sum_list:
  "sum_list (map (unat \<circ> f) xs) < 2 ^ 32 \<Longrightarrow> unat (sum_list (map f xs) :: u32) = sum_list (map (unat \<circ> f) xs)"
  by (induction xs) (simp_all add: unat_word_ariths)

lemma placed_fails:
  assumes "allocated s" and "ends_in_range s"
  shows "sect_fails s = [] \<longleftrightarrow> in_flash s \<or> in_ram s"
    and "in_ram s \<Longrightarrow> starts_in_ram s" and "in_flash s \<or> in_ram s \<Longrightarrow> starts_in_ram s \<Longrightarrow> in_ram s"
proof -
  have pos: "0 < unat (sect_size s)" using assms(1) by (simp add: allocated_def unat_gt_0)
  have sub: "range_of s \<subseteq> {a..<b} \<longleftrightarrow> a \<le> unat (sect_addr s) \<and> unat (sect_addr s) + unat (sect_size s) \<le> b" for a b
    using pos by (auto simp: range_of_def ivl_subset)
  note simps = sect_fails_def starts_in_flash_def starts_in_ram_def in_flash_def in_ram_def sub elf_consts
    word_le_nat_alt word_less_nat_alt unat_end [OF assms(2)]
  show "sect_fails s = [] \<longleftrightarrow> in_flash s \<or> in_ram s" using pos by (auto simp: simps)
  show "in_ram s \<Longrightarrow> starts_in_ram s" using pos by (simp add: simps)
  show "in_flash s \<or> in_ram s \<Longrightarrow> starts_in_ram s \<Longrightarrow> in_ram s" using pos by (auto simp: simps)
qed

lemma check_memory_iff:
  assumes "list_all ends_in_range (filter allocated ss)"
  shows "check_memory ss = [] \<longleftrightarrow> memory_ok ss"
proof -
  let ?as = "filter allocated ss" and ?R = "\<lambda>s t. range_of s \<inter> range_of t = {}"
  have alloc: "allocated s" "ends_in_range s" if "s \<in> set ?as" for s
    using that assms by (auto simp: list_all_iff)
  have fails: "concat (map sect_fails ?as) = [] \<longleftrightarrow> list_all (\<lambda>s. in_flash s \<or> in_ram s) ?as"
    using placed_fails(1) [OF alloc] by (auto simp: list_all_iff)
  have ovl: "overlaps (sort_ranges (columns ?as)) = [] \<longleftrightarrow> sorted_wrt ?R ?as"
  proof (cases "?as = []")
    case True
    then show ?thesis by (simp add: columns_def sort_ranges_def overlaps_def)
  next
    case False
    have "symp ?R" by (rule sympI) blast
    then obtain ts where ts: "sort_ranges (columns ?as) = columns ts" "sorted (map sect_addr ts)"
      "mset ts = mset ?as" "sorted_wrt ?R ts = sorted_wrt ?R ?as"
      using sort_sects [of ?R ?as] False by (metis One_nat_def Suc_leI length_greater_0_conv)
    from ts(3) have "set ts = set ?as" by (rule mset_eq_setD)
    then have "list_all ends_in_range ts" "list_all (\<lambda>s. sect_size s \<noteq> 0) ts"
      using alloc by (auto simp: list_all_iff allocated_def)
    then show ?thesis using overlaps_columns before_sorted [OF _ ts(2)] ts(1,4) by simp
  qed
  have ram: "filter starts_in_ram ?as = filter in_ram ?as" if "list_all (\<lambda>s. in_flash s \<or> in_ram s) ?as"
    using placed_fails(2,3) [OF alloc] that by (intro filter_cong) (auto simp: list_all_iff)
  have "\<not> RAM_END - RAM_ORIGIN - STACK_MARGIN < sum_list (map sect_size (filter in_ram ?as)) \<longleftrightarrow>
      sum_list (map (unat \<circ> sect_size) (filter in_ram ?as)) \<le> 0x40000 - 4096" if "sorted_wrt ?R ?as"
  proof -
    have "sum_list (map (unat \<circ> sect_size) (filter in_ram ?as)) \<le> 0x40000"
      using that by (intro ram_sum_small sorted_wrt_filter [OF that]) (simp add: list_all_iff)
    then have "unat (sum_list (map sect_size (filter in_ram ?as))) = sum_list (map (unat \<circ> sect_size) (filter in_ram ?as))"
      by (intro unat_sum_list) simp
    then show ?thesis by (simp add: elf_consts word_less_nat_alt not_less)
  qed
  then show ?thesis
    using fails ovl ram
    by (auto simp: check_memory_def memory_ok_def budget_of_def budget_fold Let_def columns_def)
qed

section \<open>The checksum\<close>

lemma top_bit: "x AND 0x80000000 \<noteq> 0 \<longleftrightarrow> bit x 31" for x :: u32
proof -
  have "(0x80000000 :: u32) = push_bit 31 1" by simp
  then show ?thesis by (simp only: bit_iff_and_push_bit_not_eq_0)
qed

lemma mpeg_round_cond:
  "mpeg_round x = push_bit 1 x XOR (if bit x 31 then 0x04C11DB7 else 0)"
  by (simp add: mpeg_round_def top_bit)

interpretation mpeg: xor_linear mpeg_round
  by unfold_locales (auto simp: mpeg_round_cond push_bit_xor bit_xor_iff xor_ac)

lemma mpeg_round_kernel: "mpeg_round x = 0 \<Longrightarrow> x = 0"
proof -
  assume zero: "mpeg_round x = 0"
  have "bit (mpeg_round x) 0 = bit x 31"
    by (simp only: mpeg_round_cond bit_xor_iff bit_push_bit_iff) (simp add: bit_0)
  with zero have top: "\<not> bit x 31" by simp
  with zero have shift: "push_bit 1 x = 0" by (simp add: mpeg_round_cond)
  show ?thesis
  proof (rule bit_word_eqI)
    fix n assume "n < LENGTH(32)"
    then consider "n = 31" | "Suc n < LENGTH(32)" by fastforce
    then show "bit x n = bit 0 n"
    proof cases
      case 2
      then have "bit (push_bit 1 x) (Suc n) = bit x n" by (simp only: bit_push_bit_iff) simp
      with shift show ?thesis by simp
    qed (use top in simp)
  qed
qed

lemma mpeg_byte_funpow: "mpeg_byte b crc = (mpeg_round ^^ 8) (crc XOR push_bit 24 (ucast b))"
  by (simp add: mpeg_byte_def for_range_const)

lemma mpeg_inj: "inj (mpeg_round ^^ 8)"
  by (rule inj_fn [OF mpeg.inj_if_kernel [OF mpeg_round_kernel]])

lemma ucast_u8_inj: "push_bit 24 (ucast b :: u32) = push_bit 24 (ucast c) \<longleftrightarrow> b = (c :: u8)"
proof
  assume *: "push_bit 24 (ucast b :: u32) = push_bit 24 (ucast c)"
  show "b = c"
  proof (rule bit_word_eqI)
    fix n assume "n < LENGTH(8)"
    then have "bit (push_bit 24 (ucast x :: u32)) (24 + n) = bit x n" for x :: u8
      by (simp add: bit_simps)
    with * show "bit b n = bit c n" by metis
  qed
qed simp

lemma mpeg_byte_inj: "mpeg_byte b x = mpeg_byte b y \<longleftrightarrow> x = y" "mpeg_byte b x = mpeg_byte c x \<longleftrightarrow> b = c"
proof -
  show "mpeg_byte b x = mpeg_byte b y \<longleftrightarrow> x = y"
    by (auto simp: mpeg_byte_funpow inj_eq [OF mpeg_inj]) (metis xor_cancel_left xor.commute)
  show "mpeg_byte b x = mpeg_byte c x \<longleftrightarrow> b = c"
    by (simp add: mpeg_byte_funpow inj_eq [OF mpeg_inj]) (metis xor_cancel_left ucast_u8_inj)
qed

lemma mpeg_range_inj:
  "for_range a n (\<lambda>i. mpeg_byte (d ! i)) x = for_range a n (\<lambda>i. mpeg_byte (d ! i)) y \<longleftrightarrow> x = y"
  by (rule for_range_sim [where R = "\<lambda>s t. s = t \<longleftrightarrow> x = y"]) (simp_all add: mpeg_byte_inj)

text \<open>So two lists that differ in one byte have different checksums.\<close>

lemma crc_upto:
  "i < n \<Longrightarrow> crc32_mpeg2 d n =
    for_range (Suc i) n (\<lambda>i. mpeg_byte (d ! i)) (mpeg_byte (d ! i) (crc32_mpeg2 d i))"
  by (simp add: crc32_mpeg2_def for_range_split [of 0 "Suc i" n] for_range_Suc)

lemma crc_cong:
  "(\<And>i. i < n \<Longrightarrow> d ! i = e ! i) \<Longrightarrow> crc32_mpeg2 d n = crc32_mpeg2 e n"
  unfolding crc32_mpeg2_def by (rule for_range_cong) simp_all

lemma crc_detects:
  assumes "i < n" and "n \<le> length d" and "b \<noteq> d ! i"
  shows "crc32_mpeg2 (d[i := b]) n \<noteq> crc32_mpeg2 d n"
proof -
  let ?e = "d[i := b]"
  have "crc32_mpeg2 ?e i = crc32_mpeg2 d i" by (rule crc_cong) simp
  moreover have "for_range (Suc i) n (\<lambda>i. mpeg_byte (?e ! i)) x = for_range (Suc i) n (\<lambda>i. mpeg_byte (d ! i)) x" for x
    by (rule for_range_cong) simp_all
  moreover have "mpeg_byte b x \<noteq> mpeg_byte (d ! i) x" for x using assms(3) by (simp add: mpeg_byte_inj)
  ultimately show ?thesis using assms(1,2) by (simp add: crc_upto [OF assms(1)] mpeg_range_inj)
qed

text \<open>Four bytes and the word they spell.\<close>

lemma rd32_defined: "off + 4 \<le> length d \<Longrightarrow> \<exists>w. rd32 d off = Some w"
  by (simp add: rd32_def byte_at_def)

lemma rd32_byte:
  assumes "rd32 d off = Some w" and "k < 4"
  shows "d ! (off + k) = ucast (drop_bit (8 * k) w)" and "off + k < length d"
proof -
  have len: "off + 3 < length d" and w: "w = ucast (d ! off) OR push_bit 8 (ucast (d ! (off + 1))) OR
      push_bit 16 (ucast (d ! (off + 2))) OR push_bit 24 (ucast (d ! (off + 3)))"
    using assms(1) by (auto simp: rd32_def byte_at_def bind_eq_Some_conv split: if_splits)
  show "off + k < length d" using len assms(2) by simp
  have "k = 0 \<or> k = 1 \<or> k = 2 \<or> k = 3" using assms(2) by auto
  then show "d ! (off + k) = ucast (drop_bit (8 * k) w)"
    by (elim disjE) (rule bit_word_eqI; auto simp: w bit_simps dest: bit_imp_le_length)+
qed

lemma rd32_bytes:
  assumes "length d = 252"
  shows "rd32 (d @ [ucast (c AND 0xFF), ucast (drop_bit 8 c AND 0xFF), ucast (drop_bit 16 c AND 0xFF),
    ucast (drop_bit 24 c AND 0xFF)]) 252 = Some c"
proof -
  have ff: "(0xFF :: u32) = mask 8" by (simp add: mask_eq_exp_minus_1)
  let ?w = "ucast (ucast (c AND 0xFF) :: u8) OR push_bit 8 (ucast (ucast (drop_bit 8 c AND 0xFF) :: u8)) OR
      push_bit 16 (ucast (ucast (drop_bit 16 c AND 0xFF) :: u8)) OR
      push_bit 24 (ucast (ucast (drop_bit 24 c AND 0xFF) :: u8)) :: u32"
  have "?w = c"
  proof (rule bit_word_eqI)
    fix n assume "n < LENGTH(32)"
    then consider "n < 8" | "8 \<le> n" "n < 16" | "16 \<le> n" "n < 24" | "24 \<le> n" "n < 32" by fastforce
    then show "bit ?w n = bit c n"
      unfolding ff by cases (auto simp: bit_simps)
  qed
  then show ?thesis using assms by (simp add: rd32_def byte_at_def nth_append)
qed

section \<open>What a bootable image is\<close>

text \<open>
  The CRC-32/MPEG-2 as a circuit: a register of 32 cells, all set at first, takes the bits of
  the message, the highest of each byte first. With every bit the cells move up, and the last
  one, compared with the bit, is fed back to the cells that the polynomial
  \<open>x\<^sup>3\<^sup>2 + x\<^sup>2\<^sup>6 + x\<^sup>2\<^sup>3 + x\<^sup>2\<^sup>2 + x\<^sup>1\<^sup>6 + x\<^sup>1\<^sup>2 + x\<^sup>1\<^sup>1 + x\<^sup>1\<^sup>0 + x\<^sup>8 + x\<^sup>7 + x\<^sup>5 + x\<^sup>4 + x\<^sup>2 + x + 1\<close> names.
\<close>

definition crc_taps :: "nat set" where
  "crc_taps = {0, 1, 2, 4, 5, 7, 8, 10, 11, 12, 16, 22, 23, 26}"

definition crc_clock :: "bool \<Rightarrow> (nat \<Rightarrow> bool) \<Rightarrow> nat \<Rightarrow> bool" where
  "crc_clock b r k \<longleftrightarrow> (0 < k \<and> r (k - 1)) \<noteq> (k \<in> crc_taps \<and> r 31 \<noteq> b)"

definition message_bits :: "u8 list \<Rightarrow> bool list" where
  "message_bits d = concat (map (\<lambda>b. map (bit b) [7, 6, 5, 4, 3, 2, 1, 0]) d)"

definition crc_circuit :: "u8 list \<Rightarrow> nat \<Rightarrow> bool" where
  "crc_circuit d = fold crc_clock (message_bits d) (\<lambda>_. True)"

text \<open>The rounds of the code are the clocks of the circuit.\<close>

lemma poly_taps: "k < 32 \<Longrightarrow> bit (0x04C11DB7 :: u32) k \<longleftrightarrow> k \<in> crc_taps"
proof -
  have "\<forall>k \<in> set [0..<32]. bit (0x04C11DB7 :: u32) k = (k \<in> crc_taps)" by code_simp
  then show "k < 32 \<Longrightarrow> bit (0x04C11DB7 :: u32) k \<longleftrightarrow> k \<in> crc_taps" by simp
qed

definition top_if :: "bool \<Rightarrow> u32" where
  "top_if b = (if b then push_bit 31 1 else 0)"

lemma bit_top_if: "bit (top_if b) k \<longleftrightarrow> b \<and> k = 31"
  by (cases b) (auto simp only: top_if_def bit_push_bit_iff bit_1_iff if_True if_False, auto)

lemma mpeg_round_clock:
  assumes "\<forall>k<32. bit crc k = r k"
  shows "\<forall>k<32. bit (mpeg_round (crc XOR top_if b)) k = crc_clock b r k"
proof (intro allI impI)
  fix k :: nat assume k: "k < 32"
  have "bit (mpeg_round (crc XOR top_if b)) k =
      (bit (push_bit 1 (crc XOR top_if b)) k \<noteq> (bit crc 31 \<noteq> b \<and> bit (0x04C11DB7 :: u32) k))"
    by (auto simp: mpeg_round_cond bit_xor_iff bit_top_if)
  also have "bit (push_bit 1 (crc XOR top_if b)) k = (0 < k \<and> r (k - 1))"
    using k assms by (auto simp only: bit_push_bit_iff bit_xor_iff bit_top_if) auto
  finally show "bit (mpeg_round (crc XOR top_if b)) k = crc_clock b r k"
    using k assms poly_taps [OF k] by (auto simp: crc_clock_def)
qed

text \<open>A byte that is added at the top at once is added bit by bit.\<close>

lemma mpeg_rounds_serial:
  "(mpeg_round ^^ length is) (crc XOR v) = fold (\<lambda>b c. mpeg_round (c XOR top_if b)) (map (bit v) is) crc"
  if "is = rev [m..<32]" and "\<forall>k<m. \<not> bit v k" and "m \<le> 32"
proof -
  have "(mpeg_round ^^ n) (crc XOR v) =
      fold (\<lambda>b c. mpeg_round (c XOR top_if b)) (map (bit v) (rev [32 - n..<32])) crc"
    if "n \<le> 32" and "\<forall>k<32 - n. \<not> bit v k" for n v crc
    using that
  proof (induction n arbitrary: v crc)
    case 0
    then have "v = 0" by (intro bit_word_eqI) simp
    then show ?case by simp
  next
    case (Suc n)
    have split: "v = top_if (bit v 31) XOR take_bit 31 v"
    proof (rule bit_word_eqI)
      fix k assume "k < LENGTH(32)"
      then have "k = 31 \<or> k < 31" by auto
      then show "bit v k = bit (top_if (bit v 31) XOR take_bit 31 v) k"
        by (auto simp: bit_xor_iff bit_top_if bit_take_bit_iff)
    qed
    have low: "mpeg_round (take_bit 31 v) = push_bit 1 v"
    proof -
      have "push_bit 1 (take_bit 31 v) = push_bit 1 v"
        by (rule bit_word_eqI) (auto simp only: bit_push_bit_iff bit_take_bit_iff, auto)
      then show ?thesis by (simp add: mpeg_round_cond bit_take_bit_iff)
    qed
    have up: "bit (push_bit 1 v) k = (0 < k \<and> bit v (k - 1))" if "k < 32" for k
      using that by (auto simp only: bit_push_bit_iff) auto
    have "\<forall>k<32 - n. \<not> bit (push_bit 1 v) k"
    proof (intro allI impI)
      fix k assume "k < 32 - n"
      then show "\<not> bit (push_bit 1 v) k" using up [of k] Suc.prems by (cases k) auto
    qed
    moreover have "mpeg_round (crc XOR v) = mpeg_round (crc XOR top_if (bit v 31)) XOR push_bit 1 v"
      by (subst split) (simp only: xor.assoc [symmetric] mpeg.linear low)
    ultimately have "(mpeg_round ^^ Suc n) (crc XOR v) =
        fold (\<lambda>b c. mpeg_round (c XOR top_if b)) (map (bit (push_bit 1 v)) (rev [32 - n..<32]))
          (mpeg_round (crc XOR top_if (bit v 31)))"
      using Suc.IH [of "push_bit 1 v" "mpeg_round (crc XOR top_if (bit v 31))"] Suc.prems(1)
      by (simp only: funpow_Suc_right o_apply)
    also have "map (bit (push_bit 1 v)) (rev [32 - n..<32]) = map (bit v) (rev [31 - n..<31])"
    proof -
      have "[32 - n..<32] = map Suc [31 - n..<31]"
        using Suc.prems(1) by (simp add: map_Suc_upt Suc_diff_le numeral_eq_Suc)
      then show ?thesis using up by (auto simp: rev_map)
    qed
    also have "rev [32 - Suc n..<32] = 31 # rev [31 - n..<31]"
      using Suc.prems(1) upt_Suc [of "31 - n" 31] by simp
    then have "fold (\<lambda>b c. mpeg_round (c XOR top_if b)) (map (bit v) (rev [31 - n..<31]))
        (mpeg_round (crc XOR top_if (bit v 31))) =
      fold (\<lambda>b c. mpeg_round (c XOR top_if b)) (map (bit v) (rev [32 - Suc n..<32])) crc"
      by simp
    finally show ?case .
  qed
  from this [of "32 - m" v crc] that show ?thesis by simp
qed

lemma mpeg_byte_clocks:
  assumes "\<forall>k<32. bit crc k = r k"
  shows "\<forall>k<32. bit (mpeg_byte b crc) k = fold crc_clock (map (bit b) [7, 6, 5, 4, 3, 2, 1, 0]) r k"
proof -
  let ?v = "push_bit 24 (ucast b) :: u32"
  let ?ks = "[31, 30, 29, 28, 27, 26, 25, 24] :: nat list"
  have ks: "?ks = rev [24..<32]" by code_simp
  have "bit ?v (24 + i) = bit b i" if "i < 8" for i using that by (simp add: bit_simps)
  from this [of 7] this [of 6] this [of 5] this [of 4] this [of 3] this [of 2] this [of 1] this [of 0]
  have bits: "map (bit ?v) ?ks = map (bit b) [7, 6, 5, 4, 3, 2, 1, 0]" by simp
  have "(mpeg_round ^^ length ?ks) (crc XOR ?v) = fold (\<lambda>b c. mpeg_round (c XOR top_if b)) (map (bit ?v) ?ks) crc"
    by (rule mpeg_rounds_serial [OF ks]) (simp_all add: bit_push_bit_iff)
  moreover have "length ?ks = 8" by simp
  ultimately have byte: "mpeg_byte b crc =
      fold (\<lambda>b c. mpeg_round (c XOR top_if b)) (map (bit b) [7, 6, 5, 4, 3, 2, 1, 0]) crc"
    by (simp only: mpeg_byte_funpow bits)
  have "\<forall>k<32. bit (fold (\<lambda>b c. mpeg_round (c XOR top_if b)) bs crc) k = fold crc_clock bs r k" for bs
    using assms by (induction bs arbitrary: crc r) (simp_all add: mpeg_round_clock)
  then show ?thesis unfolding byte .
qed

lemma crc32_circuit:
  assumes "n \<le> length d" and "k < 32"
  shows "bit (crc32_mpeg2 d n) k = crc_circuit (take n d) k"
proof -
  have "\<forall>k<32. bit (crc32_mpeg2 d n) k = crc_circuit (take n d) k"
    using assms(1)
  proof (induction n)
    case 0
    have "(0xFFFFFFFF :: u32) = mask 32" by (simp add: mask_eq_exp_minus_1)
    then have "bit (0xFFFFFFFF :: u32) k" if "k < 32" for k using that by (simp only: bit_mask_iff) simp
    then show ?case by (simp add: crc32_mpeg2_def crc_circuit_def message_bits_def for_range_def)
  next
    case (Suc n)
    then have "\<forall>k<32. bit (mpeg_byte (d ! n) (crc32_mpeg2 d n)) k =
        fold crc_clock (map (bit (d ! n)) [7, 6, 5, 4, 3, 2, 1, 0]) (crc_circuit (take n d)) k"
      by (intro mpeg_byte_clocks) simp
    then show ?case
      using Suc.prems
      by (simp add: crc32_mpeg2_def for_range_Suc crc_circuit_def message_bits_def take_Suc_conv_app_nth)
  qed
  with assms(2) show ?thesis by blast
qed

text \<open>The boot ROM's demand: 256 bytes, the last four of which are the checksum of the rest.\<close>

definition boot2_valid :: "u8 list \<Rightarrow> bool" where
  "boot2_valid blob \<longleftrightarrow> length blob = 256 \<and>
     (\<forall>k<32. bit (blob ! (252 + k div 8)) (k mod 8) = crc_circuit (take 252 blob) k)"

lemma rd32_bit:
  assumes "rd32 d off = Some w" and "k < 32"
  shows "bit (d ! (off + k div 8)) (k mod 8) = bit w k"
proof -
  have "k div 8 < 4" using assms(2) by auto
  from rd32_byte(1) [OF assms(1) this] show ?thesis by (simp add: bit_simps)
qed

lemma boot2_valid_code:
  "boot2_valid blob \<longleftrightarrow> length blob = 256 \<and> rd32 blob 252 = Some (crc32_mpeg2 blob 252)"
proof (cases "length blob = 256")
  case True
  then obtain w where w: "rd32 blob 252 = Some w" using rd32_defined [of 252 blob] by auto
  have "w = crc32_mpeg2 blob 252 \<longleftrightarrow> (\<forall>k<32. bit w k = bit (crc32_mpeg2 blob 252) k)"
    by (auto intro: bit_word_eqI)
  then show ?thesis
    using True w by (simp add: boot2_valid_def rd32_bit crc32_circuit)
qed (simp add: boot2_valid_def)

definition boot2_ok :: "u8 list \<Rightarrow> sect \<Rightarrow> bool" where
  "boot2_ok raw s \<longleftrightarrow> sect_addr s = 0x10000000 \<and> sect_size s = 256 \<and>
     boot2_valid (take 256 (drop (unat (sect_offset s)) raw))"

definition vectors_ok :: "u8 list \<Rightarrow> sect \<Rightarrow> bool" where
  "vectors_ok raw s \<longleftrightarrow> sect_addr s = 0x10000100 \<and>
     (case (rd32 raw (unat (sect_offset s)), rd32 raw (unat (sect_offset s) + 4)) of
        (Some sp, Some reset) \<Rightarrow> 0x20000000 < sp \<and> sp \<le> 0x20040000 \<and> sp mod 4 = 0 \<and>
          bit reset 0 \<and> 0x10000000 \<le> reset AND NOT 1 \<and> reset AND NOT 1 < 0x10200000
      | _ \<Rightarrow> False)"

definition image_ok :: "u8 list \<Rightarrow> sect list \<Rightarrow> bool" where
  "image_ok raw ss \<longleftrightarrow>
     has_section ''.boot2'' ss \<and> has_section ''.vector_table'' ss \<and>
     list_all (boot2_ok raw) (filter (\<lambda>s. sect_name s = ascii ''.boot2'') ss) \<and>
     list_all (vectors_ok raw) (filter (\<lambda>s. sect_name s = ascii ''.vector_table'') ss) \<and>
     memory_ok ss"

lemma those_bytes:
  "those (map (\<lambda>i. byte_at raw (off + i)) [0..<n]) =
     (if off + n \<le> length raw \<or> n = 0 then Some (take n (drop off raw)) else None)"
proof (induction n)
  case (Suc n)
  have those_append: "those (xs @ [x]) = (case those xs of None \<Rightarrow> None | Some ys \<Rightarrow> map_option (\<lambda>y. ys @ [y]) x)"
    for xs :: "u8 option list" and x
    by (induction xs) (auto split: option.splits simp: option.map_comp comp_def)
  show ?case
    using Suc by (auto simp: those_append byte_at_def take_Suc_conv_app_nth split: option.splits)
qed simp

lemma check_boot2_iff: "check_boot2 raw s = Some [] \<longleftrightarrow> boot2_ok raw s"
proof (cases "sect_size s = 256")
  case True
  let ?off = "unat (sect_offset s)" and ?blob = "take 256 (drop (unat (sect_offset s)) raw)"
  show ?thesis
  proof (cases "?off + 256 \<le> length raw")
    case inside: True
    then have "length ?blob = 256" by simp
    then obtain w where "rd32 ?blob 252 = Some w" using rd32_defined [of 252 ?blob] by auto
    then show ?thesis
      using True inside \<open>length ?blob = 256\<close>
      by (auto simp: check_boot2_def those_bytes boot2_ok_def boot2_valid_code elf_consts Let_def)
  next
    case False
    then have "length ?blob \<noteq> 256" by simp
    then show ?thesis using True False
      by (auto simp: check_boot2_def those_bytes boot2_ok_def boot2_valid_code Let_def)
  qed
next
  case False
  then show ?thesis by (simp add: check_boot2_def boot2_ok_def Let_def)
qed

lemma check_vectors_iff: "check_vectors raw s = Some [] \<longleftrightarrow> vectors_ok raw s"
proof -
  have "reset AND 1 = 0 \<longleftrightarrow> \<not> bit reset 0" for reset :: u32
    using bit_iff_and_push_bit_not_eq_0 [of reset 0] by simp
  note bits = this
  show ?thesis
    by (cases "rd32 raw (unat (sect_offset s))"; cases "rd32 raw (unat (sect_offset s) + 4)")
      (simp_all add: check_vectors_def vectors_ok_def elf_consts Let_def bits, satx)
qed

lemma ascii_names: "ascii ''.boot2'' \<noteq> ascii ''.vector_table''"
  by (simp add: ascii_def)

lemma check_contents_iff:
  "check_contents raw ss = Some [] \<longleftrightarrow>
     list_all (boot2_ok raw) (filter (\<lambda>s. sect_name s = ascii ''.boot2'') ss) \<and>
     list_all (vectors_ok raw) (filter (\<lambda>s. sect_name s = ascii ''.vector_table'') ss)"
proof (induction ss)
  case (Cons s ss)
  have "check_contents raw (s # ss) = Some [] \<longleftrightarrow>
      (if sect_name s = ascii ''.boot2'' then check_boot2 raw s
       else if sect_name s = ascii ''.vector_table'' then check_vectors raw s else Some []) = Some [] \<and>
      check_contents raw ss = Some []"
    by (auto simp: bind_eq_Some_conv)
  with Cons.IH show ?case using ascii_names by (auto simp: check_boot2_iff check_vectors_iff)
qed simp

text \<open>A valid loader image is alone among those that differ from it in one byte.\<close>

lemma boot2_single_byte:
  assumes "boot2_valid blob"
  shows "boot2_valid (blob[i := b]) \<longleftrightarrow> blob[i := b] = blob"
proof (rule iffI, rule ccontr)
  assume valid: "boot2_valid (blob[i := b])" and "blob[i := b] \<noteq> blob"
  then have b: "b \<noteq> blob ! i" "i < 256"
    using assms by (auto simp: boot2_valid_code) (metis list_update_beyond not_le)
  note defs = assms [unfolded boot2_valid_code] valid [unfolded boot2_valid_code]
  show False
  proof (cases "i < 252")
    case True
    have "rd32 (blob[i := b]) 252 = rd32 blob 252"
      using True by (simp add: rd32_def byte_at_def)
    then show False using defs crc_detects [OF True _ b(1)] by simp
  next
    case False
    have "crc32_mpeg2 (blob[i := b]) 252 = crc32_mpeg2 blob 252"
      using False by (intro crc_cong) simp
    then have "rd32 (blob[i := b]) 252 = rd32 blob 252" using defs by simp
    then obtain w where "rd32 (blob[i := b]) 252 = Some w" "rd32 blob 252 = Some w" using defs by simp
    from this [THEN rd32_byte(1), of "i - 252"] have "blob[i := b] ! i = blob ! i" using False b(2) by simp
    then show False using b defs by simp
  qed
qed (use assms in simp)

lemma build_boot2_runs:
  assumes "length raw \<le> 252"
  shows "\<exists>blob. build_boot2 raw = Inr blob \<and> boot2_valid blob \<and> take (length raw) blob = raw"
proof -
  let ?pad = "raw @ replicate (252 - length raw) 0"
  define crc where "crc = crc32_mpeg2 ?pad 252"
  define blob where "blob = ?pad @ [ucast (crc AND 0xFF), ucast (drop_bit 8 crc AND 0xFF),
      ucast (drop_bit 16 crc AND 0xFF), ucast (drop_bit 24 crc AND 0xFF)]"
  have run: "build_boot2 raw = Inr blob" using assms by (simp add: build_boot2_def blob_def crc_def Let_def)
  have pad: "length ?pad = 252" using assms by simp
  have "crc32_mpeg2 blob 252 = crc"
    unfolding crc_def blob_def using pad by (intro crc_cong) (simp only: nth_append if_True)
  then have "boot2_valid blob" using rd32_bytes [OF pad] pad by (simp add: boot2_valid_code blob_def)
  moreover have "take (length raw) blob = raw" by (simp add: blob_def)
  ultimately show ?thesis using run by blast
qed

section \<open>A file that passes\<close>

text \<open>Reading a prefix of a file is reading the file.\<close>

lemma byte_at_append: "byte_at d i \<noteq> None \<Longrightarrow> byte_at (d @ e) i = byte_at d i"
  by (simp add: byte_at_def nth_append split: if_splits)

lemma rd16_append: "rd16 d i \<noteq> None \<Longrightarrow> rd16 (d @ e) i = rd16 d i"
  by (cases "byte_at d i"; cases "byte_at d (i + 1)") (simp_all add: rd16_def byte_at_append)

lemma rd32_append: "rd32 d i \<noteq> None \<Longrightarrow> rd32 (d @ e) i = rd32 d i"
  by (cases "byte_at d i"; cases "byte_at d (i + 1)"; cases "byte_at d (i + 2)"; cases "byte_at d (i + 3)")
    (simp_all add: rd32_def byte_at_append)

lemma read_name_append: "read_name d p \<noteq> None \<Longrightarrow> read_name (d @ e) p = read_name d p"
proof (induction d p rule: read_name.induct)
  case (1 d p)
  obtain b where b: "byte_at d p = Some b"
    using "1.prems" by (subst (asm) read_name.simps) (auto split: option.splits)
  then have "byte_at (d @ e) p = Some b" by (simp add: byte_at_append)
  moreover have "read_name (d @ e) (p + 1) = read_name d (p + 1)" if "b \<noteq> 0"
    using "1.IH" [OF b that] "1.prems" b that by (subst (asm) (3) read_name.simps) auto
  ultimately show ?case
    using b by (subst read_name.simps, subst (2) read_name.simps) simp
qed

lemma parse_sect_append: "parse_sect d a b c i = Some s \<Longrightarrow> parse_sect (d @ e) a b c i = Some s"
  by (auto simp: parse_sect_def Let_def bind_eq_Some_conv rd32_append read_name_append)

lemma those_mono:
  "(\<And>x y. f x = Some y \<Longrightarrow> g x = Some y) \<Longrightarrow> those (map f xs) = Some ys \<Longrightarrow> those (map g xs) = Some ys"
  by (induction xs arbitrary: ys) (auto split: option.splits)

lemma parse_append:
  assumes "parse_sections d = Some (Inr ss)"
  shows "parse_sections (d @ e) = Some (Inr ss)"
proof -
  from assms have hdr: "\<not> (length d < 52 \<or> d ! 0 \<noteq> 0x7F \<or> d ! 1 \<noteq> 69 \<or> d ! 2 \<noteq> 76 \<or> d ! 3 \<noteq> 70)"
    "\<not> (d ! 4 \<noteq> 1 \<or> d ! 5 \<noteq> 1)"
    by (auto simp: parse_sections_def split: if_splits)
  with assms obtain m shoff shentsize shnum shstrndx strtab where r: "rd16 d 18 = Some m" "m = EM_ARM"
    "rd32 d 32 = Some shoff" "rd16 d 46 = Some shentsize" "rd16 d 48 = Some shnum" "rd16 d 50 = Some shstrndx"
    "rd32 d (unat shoff + unat shstrndx * unat shentsize + 16) = Some strtab"
    "those (map (parse_sect d (unat shoff) (unat shentsize) (unat strtab)) [0..<unat shnum]) = Some ss"
    by (auto simp: parse_sections_def bind_eq_Some_conv split: if_splits)
  have "those (map (parse_sect (d @ e) (unat shoff) (unat shentsize) (unat strtab)) [0..<unat shnum]) = Some ss"
    using those_mono [OF parse_sect_append r(8)] .
  moreover have "(d @ e) ! k = d ! k" if "k < 52" for k using that hdr(1) by (simp add: nth_append)
  moreover have "\<not> length (d @ e) < 52" using hdr(1) by simp
  ultimately show ?thesis
    using hdr r by (simp add: parse_sections_def rd16_append rd32_append del: length_append)
qed

text \<open>Header, three section headers, the names, the vectors, and behind them a loader image.\<close>

definition le32 :: "u32 \<Rightarrow> u8 list" where
  "le32 w = [ucast w, ucast (drop_bit 8 w), ucast (drop_bit 16 w), ucast (drop_bit 24 w)]"

definition demo_head :: "u8 list" where
  "demo_head = [0x7F, 69, 76, 70, 1, 1, 1, 0] @ replicate 8 0 @ [2, 0, 40, 0] @ le32 1 @ le32 0 @ le32 0 @
     le32 52 @ le32 0 @ [52, 0, 0, 0, 0, 0, 40, 0, 3, 0, 2, 0] @
     concat (map le32 [1, 1, 2, 0x10000000, 202, 256, 0, 0, 0, 0]) @
     concat (map le32 [8, 1, 2, 0x10000100, 194, 8, 0, 0, 0, 0]) @
     concat (map le32 [0, 3, 0, 0, 172, 22, 0, 0, 0, 0]) @
     [0] @ ascii ''.boot2'' @ [0] @ ascii ''.vector_table'' @ [0] @ le32 0x20040000 @ le32 0x100001C9"

definition demo_sects :: "sect list" where
  "demo_sects =
     [\<lparr>sect_name = ascii ''.boot2'', sect_type = 1, sect_flags = 2, sect_addr = 0x10000000, sect_offset = 202, sect_size = 256\<rparr>,
      \<lparr>sect_name = ascii ''.vector_table'', sect_type = 1, sect_flags = 2, sect_addr = 0x10000100, sect_offset = 194, sect_size = 8\<rparr>,
      \<lparr>sect_name = [], sect_type = 3, sect_flags = 0, sect_addr = 0, sect_offset = 172, sect_size = 22\<rparr>]"

lemma demo_parses: "parse_sections demo_head = Some (Inr demo_sects)" "length demo_head = 202"
  by code_simp+

lemma demo_vectors: "rd32 demo_head 194 = Some 0x20040000" "rd32 demo_head 198 = Some 0x100001C9"
  by code_simp+

lemma demo_image_ok:
  assumes "boot2_valid blob"
  shows "image_ok (demo_head @ blob) demo_sects"
proof -
  have names: "ascii ''.vector_table'' \<noteq> ascii ''.boot2''" "[] \<noteq> ascii ''.boot2''" "[] \<noteq> ascii ''.vector_table''"
    by (simp_all add: ascii_def)
  have "length blob = 256" using assms by (simp add: boot2_valid_code)
  then have "take 256 (drop 202 (demo_head @ blob)) = blob" by (simp add: demo_parses(2))
  then have "boot2_ok (demo_head @ blob) (hd demo_sects)"
    using assms by (simp add: boot2_ok_def demo_sects_def)
  moreover have "rd32 (demo_head @ blob) 194 = Some 0x20040000" "rd32 (demo_head @ blob) 198 = Some 0x100001C9"
    using demo_vectors by (simp_all add: rd32_append)
  moreover have "bit (0x100001C9 :: u32) 0" "(0x20040000 :: u32) mod 4 = 0"
    "(0x10000000 :: u32) \<le> 0x100001C9 AND NOT 1" "(0x100001C9 :: u32) AND NOT 1 < 0x10200000"
    by code_simp+
  ultimately have "vectors_ok (demo_head @ blob) (demo_sects ! 1)"
    by (simp add: vectors_ok_def demo_sects_def)
  moreover have alloc: "filter allocated demo_sects = [demo_sects ! 0, demo_sects ! 1]"
    by (simp add: demo_sects_def allocated_def SHF_ALLOC_def)
  have "memory_ok demo_sects"
    unfolding memory_ok_def Let_def alloc
    by (simp add: demo_sects_def in_flash_def in_ram_def range_of_def)
  ultimately show ?thesis
    using \<open>boot2_ok (demo_head @ blob) (hd demo_sects)\<close> names names [symmetric]
    by (simp add: image_ok_def has_section_def demo_sects_def)
qed

section \<open>Properties\<close>

text \<open>C11: the image verifier is exact: for a file that parses and whose allocated sections end below
  \<^verbatim>\<open>2^32\<close>, it reports no failure exactly when the image is bootable: the boot loader and the vector
  table are there, at their addresses, the loader with a valid checksum and the table with a stack
  pointer in RAM and a Thumb reset vector in flash; every allocated section lies in flash or in
  RAM, no two of them overlap, whatever their order in the file, and the stack keeps its margin.\<close>

theorem elf_check_exact:
  assumes "parse_sections raw = Some (Inr ss)" and "list_all ends_in_range (filter allocated ss)"
  shows "check (Some raw) = Some [] \<longleftrightarrow> image_ok raw ss"
  using check_contents_iff [of raw ss] check_memory_iff [OF assms(2)] assms(1)
  by (auto simp: check_def image_ok_def bind_eq_Some_conv)

theorem elf_check_exact_witness:
  "case build_boot2 [0x70, 0x47] of Inl _ \<Rightarrow> False
   | Inr blob \<Rightarrow> check (Some (demo_head @ blob)) = Some [] \<and> check (Some demo_head) \<noteq> Some []"
proof -
  obtain blob where blob: "build_boot2 [0x70, 0x47] = Inr blob" "boot2_valid blob"
    using build_boot2_runs [of "[0x70, 0x47]"] by auto
  have ends: "list_all ends_in_range (filter allocated demo_sects)"
    by (simp add: demo_sects_def ends_in_range_def)
  have "\<not> boot2_ok demo_head (hd demo_sects)"
    by (simp add: boot2_ok_def boot2_valid_code demo_sects_def demo_parses(2))
  then have "\<not> image_ok demo_head demo_sects" by (simp add: image_ok_def demo_sects_def)
  then show ?thesis
    using elf_check_exact [OF parse_append [OF demo_parses(1)] ends] elf_check_exact [OF demo_parses(1) ends]
      demo_image_ok [OF blob(2)] blob(1) by simp
qed

text \<open>C38: a section that starts in flash and is so long that its end wraps around passes the
  memory part of the verifier, alone in the file, although it fits no memory.\<close>

theorem elf_check_misses_wrap:
  assumes "allocated s" and "starts_in_flash s" and "\<not> ends_in_range s"
  shows "check_memory [s] = [] \<and> \<not> memory_ok [s]"
proof
  have "unat (sect_addr s) < 0x10200000" using assms(2) by (simp add: starts_in_flash_def elf_consts word_less_nat_alt)
  moreover have "unat (sect_addr s + sect_size s) = unat (sect_addr s) + unat (sect_size s) - 2 ^ 32"
    using assms(3) unat_u32 [of "sect_addr s"] unat_u32 [of "sect_size s"]
    by (simp add: ends_in_range_def unat_word_ariths mod_if not_less)
  ultimately have "\<not> FLASH_END < sect_addr s + sect_size s"
    using unat_u32 [of "sect_size s"] by (simp add: elf_consts word_less_nat_alt)
  then have "sect_fails s = []" using assms(2) by (simp add: sect_fails_def)
  moreover have "\<not> starts_in_ram s" using assms(2) starts_disjoint by blast
  ultimately show "check_memory [s] = []"
    using assms(1) budget_fold [of "[s]"]
    by (simp add: check_memory_def budget_of_def Let_def sort_ranges_def overlaps_def elf_consts del: fold.simps)
  have "0 < unat (sect_size s)" using assms(1) by (simp add: allocated_def unat_gt_0)
  then have "unat (sect_addr s) + unat (sect_size s) - 1 \<in> range_of s" by (simp add: range_of_def)
  moreover have "2 ^ 32 \<le> unat (sect_addr s) + unat (sect_size s)"
    using assms(3) by (simp add: ends_in_range_def)
  ultimately have "\<not> in_flash s" "\<not> in_ram s" by (auto simp: in_flash_def in_ram_def subset_iff)
  then show "\<not> memory_ok [s]" using assms(1) by (simp add: memory_ok_def Let_def)
qed

theorem elf_check_misses_wrap_witness:
  "check_memory [\<lparr>sect_name = ascii ''.text'', sect_type = 1, sect_flags = 6, sect_addr = 0x100001C8,
     sect_offset = 0x1000, sect_size = 0xF0000000\<rparr>] = []"
proof -
  have "(6 :: u32) AND 2 \<noteq> 0" by code_simp
  then show ?thesis
    by (intro elf_check_misses_wrap [THEN conjunct1])
      (simp_all add: allocated_def starts_in_flash_def ends_in_range_def elf_consts)
qed

text \<open>C20: \<open>build_boot2\<close> makes what the boot ROM and the verifier accept: code of at most 252 bytes
  gives 256 bytes that start with the code and end with the CRC-32/MPEG-2 that the circuit
  computes of the rest; longer code is an error and never truncated. The verifier accepts a
  loader section at its address that holds the result, in any file, and no section that holds
  an image differing from it in a single byte.\<close>

theorem boot2_image_valid:
  "(build_boot2 raw = Inl (Boot2_too_long (length raw))) = (252 < length raw) \<and>
   (case build_boot2 raw of Inl _ \<Rightarrow> True
    | Inr blob \<Rightarrow> boot2_valid blob \<and> take (length raw) blob = raw \<and>
        (\<forall>i b. boot2_valid (blob[i := b]) = (blob[i := b] = blob)) \<and>
        (\<forall>file s i b. sect_addr s = 0x10000000 \<longrightarrow> sect_size s = 256 \<longrightarrow>
           take 256 (drop (unat (sect_offset s)) file) = blob[i := b] \<longrightarrow>
           (check_boot2 file s = Some []) = (blob[i := b] = blob)))"
proof (cases "252 < length raw")
  case False
  then obtain blob where "build_boot2 raw = Inr blob" "boot2_valid blob" "take (length raw) blob = raw"
    using build_boot2_runs by force
  with False show ?thesis using boot2_single_byte by (simp add: check_boot2_iff boot2_ok_def)
qed (simp add: build_boot2_def)

theorem boot2_image_valid_witness:
  "case build_boot2 [0x70, 0x47] of Inl _ \<Rightarrow> False
   | Inr blob \<Rightarrow> check_boot2 (demo_head @ blob) (hd demo_sects) = Some [] \<and>
       check_boot2 (demo_head @ blob[0 := 0x71]) (hd demo_sects) \<noteq> Some []"
proof -
  obtain blob where run: "build_boot2 [0x70, 0x47] = Inr blob"
    using build_boot2_runs [of "[0x70, 0x47]"] by auto
  note result = boot2_image_valid [of "[0x70, 0x47]", unfolded run sum.case, THEN conjunct2]
  have len: "length blob = 256" using result by (simp add: boot2_valid_def)
  have "blob ! 0 = 0x70" using result len by (cases blob) auto
  then have "blob[0 := 0x71] ! 0 \<noteq> blob ! 0" using len by simp
  then have "blob[0 := 0x71] \<noteq> blob" by auto
  moreover have verdict: "(check_boot2 (demo_head @ blob[0 := b]) (hd demo_sects) = Some []) = (blob[0 := b] = blob)" for b
  proof -
    have "take 256 (drop 202 (demo_head @ blob[0 := b])) = blob[0 := b]"
      using len by (simp add: demo_parses(2))
    moreover have "sect_addr (hd demo_sects) = 0x10000000" "sect_size (hd demo_sects) = 256"
      "unat (sect_offset (hd demo_sects)) = 202"
      by (simp_all add: demo_sects_def)
    ultimately show ?thesis using result by metis
  qed
  moreover have "check_boot2 (demo_head @ blob) (hd demo_sects) = Some []"
    using verdict [of "blob ! 0"] by (simp only: list_update_id)
  ultimately show ?thesis by (simp only: run sum.case) simp
qed

end
