(* ===== verification/Analog.thy ===== *)
theory Analog
  imports Gpio
begin

text \<open>
  The PWM and ADC drivers, \<^verbatim>\<open>src/pico/pwm.mojo\<close> and \<^verbatim>\<open>src/pico/adc.mojo\<close>. Two pins share a PWM
  slice, so a call for one pin must keep the other channel's level. The ADC driver returns a
  12-bit sample and converts the temperature with integers only; the theorems bound its result
  and its rounding error.
\<close>

section \<open>PWM\<close>

text \<open>\<^verbatim>\<open>Function.PWM\<close> of \<^verbatim>\<open>gpio.mojo\<close>.\<close>

definition FUNCTION_PWM :: u32 where "FUNCTION_PWM = 4"

definition pwm_slice :: "chip \<Rightarrow> nat \<Rightarrow> nat" where
  "pwm_slice C N = drop_bit 1 N mod chip_NUM_PWM_SLICES C"

definition pwm_is_b :: "nat \<Rightarrow> bool" where
  "pwm_is_b N \<longleftrightarrow> N AND 1 = 1"

definition pwm_csr :: "chip \<Rightarrow> nat \<Rightarrow> u32" where
  "pwm_csr C N = chip_PWM_BASE C + of_nat (0x14 * pwm_slice C N)"

definition pwm_div :: "chip \<Rightarrow> nat \<Rightarrow> u32" where "pwm_div C N = pwm_csr C N + 0x04"
definition pwm_ctr :: "chip \<Rightarrow> nat \<Rightarrow> u32" where "pwm_ctr C N = pwm_csr C N + 0x08"
definition pwm_cc :: "chip \<Rightarrow> nat \<Rightarrow> u32" where "pwm_cc C N = pwm_csr C N + 0x0C"
definition pwm_top :: "chip \<Rightarrow> nat \<Rightarrow> u32" where "pwm_top C N = pwm_csr C N + 0x10"

definition pwm_init :: "chip \<Rightarrow> 'd device \<Rightarrow> nat \<Rightarrow> 'd mach \<Rightarrow> 'd mach option" where
  "pwm_init C D N s = do {
     let s = write32_clr D (chip_RESETS_RESET C) (chip_RESET_PWM C) s;
     s \<leftarrow> poll D (chip_RESETS_RESET_DONE C) (\<lambda>v. \<not> v AND chip_RESET_PWM C = 0) s;
     let s = pin_init C D N s;
     Some (set_function C D N FUNCTION_PWM s)
   }"

definition pwm_set_top :: "chip \<Rightarrow> 'd device \<Rightarrow> nat \<Rightarrow> u32 \<Rightarrow> 'd mach \<Rightarrow> 'd mach" where
  "pwm_set_top C D N v s = wr D (pwm_top C N) (v AND 0xFFFF) s"

definition pwm_set_div_int :: "chip \<Rightarrow> 'd device \<Rightarrow> nat \<Rightarrow> u32 \<Rightarrow> 'd mach \<Rightarrow> 'd mach" where
  "pwm_set_div_int C D N d s = wr D (pwm_div C N) (push_bit 4 (d AND 0xFF)) s"

definition pwm_set_level :: "chip \<Rightarrow> 'd device \<Rightarrow> nat \<Rightarrow> u32 \<Rightarrow> 'd mach \<Rightarrow> 'd mach" where
  "pwm_set_level C D N level s =
     (let (cc, s) = rd D (pwm_cc C N) s
      in if pwm_is_b N
         then wr D (pwm_cc C N) ((cc AND 0x0000FFFF) OR push_bit 16 (level AND 0xFFFF)) s
         else wr D (pwm_cc C N) ((cc AND 0xFFFF0000) OR (level AND 0xFFFF)) s)"

definition pwm_enable :: "chip \<Rightarrow> 'd device \<Rightarrow> nat \<Rightarrow> 'd mach \<Rightarrow> 'd mach" where
  "pwm_enable C D N s = write32_set D (pwm_csr C N) 1 s"

definition pwm_disable :: "chip \<Rightarrow> 'd device \<Rightarrow> nat \<Rightarrow> 'd mach \<Rightarrow> 'd mach" where
  "pwm_disable C D N s = write32_clr D (pwm_csr C N) 1 s"

definition pwm_counter :: "chip \<Rightarrow> 'd device \<Rightarrow> nat \<Rightarrow> 'd mach \<Rightarrow> u32 \<times> 'd mach" where
  "pwm_counter C D N s = (let (v, s) = rd D (pwm_ctr C N) s in (v AND 0xFFFF, s))"

section \<open>ADC\<close>

definition adc_init :: "chip \<Rightarrow> 'd device \<Rightarrow> 'd mach \<Rightarrow> 'd mach option" where
  "adc_init C D s = do {
     let s = wr D (chip_CLOCKS_BASE C + chip_CLK_ADC_CTRL_OFF C) (CLK_ENABLE OR CLK_ADC_AUXSRC_XOSC) s;
     let s = write32_clr D (chip_RESETS_RESET C) (chip_RESET_ADC C) s;
     s \<leftarrow> poll D (chip_RESETS_RESET_DONE C) (\<lambda>v. \<not> v AND chip_RESET_ADC C = 0) s;
     let s = wr D (chip_ADC_BASE C) ADC_CS_EN s;
     poll D (chip_ADC_BASE C) (\<lambda>v. \<not> v AND ADC_CS_READY = 0) s
   }"

definition adc_read :: "chip \<Rightarrow> 'd device \<Rightarrow> u32 \<Rightarrow> 'd mach \<Rightarrow> (u32 \<times> 'd mach) option" where
  "adc_read C D channel s = do {
     let cs = ADC_CS_EN OR push_bit (unat ADC_CS_AINSEL_LSB) channel;
     let cs = (if channel = 4 then cs OR ADC_CS_TS_EN else cs);
     let s = wr D (chip_ADC_BASE C) cs s;
     s \<leftarrow> poll D (chip_ADC_BASE C) (\<lambda>v. \<not> v AND ADC_CS_READY = 0) s;
     let s = write32_set D (chip_ADC_BASE C) ADC_CS_START_ONCE s;
     s \<leftarrow> poll D (chip_ADC_BASE C) (\<lambda>v. \<not> v AND ADC_CS_READY = 0) s;
     let (v, s) = rd D (chip_ADC_BASE C + 0x04) s;
     Some (v AND 0xFFF, s)
   }"

text \<open>The conversion, in 64-bit integers with floor division, and its narrowing to 32 bits.\<close>

definition milli_c :: "u32 \<Rightarrow> int" where
  "milli_c raw =
     (let uv = (uint raw * 3300000) div 4096 in 27000 - ((uv - 706000) * 1000) div 1721)"

definition read_temp_milli_c :: "chip \<Rightarrow> 'd device \<Rightarrow> 'd mach \<Rightarrow> (32 word \<times> 'd mach) option" where
  "read_temp_milli_c C D s = do { (raw, s) \<leftarrow> adc_read C D 4 s; Some (of_int (milli_c raw), s) }"

section \<open>PWM registers\<close>

definition slice_reg :: "chip \<Rightarrow> nat \<Rightarrow> u32 \<Rightarrow> u32" where
  "slice_reg C n off = chip_PWM_BASE C + of_nat (0x14 * n) + off"

lemma pwm_slice_reg:
  "pwm_csr C N = slice_reg C (pwm_slice C N) 0" "pwm_div C N = slice_reg C (pwm_slice C N) 0x4"
  "pwm_cc C N = slice_reg C (pwm_slice C N) 0xC" "pwm_top C N = slice_reg C (pwm_slice C N) 0x10"
  by (simp_all add: pwm_csr_def pwm_div_def pwm_cc_def pwm_top_def slice_reg_def)

definition pwm_regs :: "chip \<Rightarrow> u32 set" where
  "pwm_regs C = {slice_reg C n off | n off. n < chip_NUM_PWM_SLICES C \<and> off \<in> {0, 0x4, 0xC, 0x10}}"

lemma pwm_chip:
  assumes "known_chip C"
  shows "0 < chip_NUM_PWM_SLICES C" "chip_NUM_PWM_SLICES C \<le> 12"
    "chip_PWM_BASE C = 0x40050000 \<or> chip_PWM_BASE C = 0x400A8000"
  using assms by (auto simp: known_chip_def RP2040_def RP2350_def)

lemma pwm_slice_less: "known_chip C \<Longrightarrow> pwm_slice C N < chip_NUM_PWM_SLICES C"
  using pwm_chip(1) by (simp add: pwm_slice_def)

lemma unat_slice_reg:
  assumes "known_chip C" and "n < 12" and "off \<in> {0, 0x4, 0xC, 0x10}"
  shows "unat (slice_reg C n off) = unat (chip_PWM_BASE C) + 0x14 * n + unat off"
proof -
  have "unat (of_nat (0x14 * n) :: u32) = 0x14 * n"
    using assms(2) by (simp add: unat_of_nat del: of_nat_mult)
  then show ?thesis
    using pwm_chip(3) [OF assms(1)] assms(2,3) unfolding slice_reg_def
    by (elim disjE insertE emptyE) (simp_all only: unat_word_ariths, simp_all)
qed

lemma slice_reg_eq:
  assumes "known_chip C" and "n < 12" and "m < 12" and "x \<in> {0, 0x4, 0xC, 0x10}" and "y \<in> {0, 0x4, 0xC, 0x10}"
  shows "slice_reg C n x = slice_reg C m y \<longleftrightarrow> n = m \<and> x = y"
proof
  assume "slice_reg C n x = slice_reg C m y"
  then have "0x14 * n + unat x = 0x14 * m + unat y"
    using unat_slice_reg [OF assms(1,2,4)] unat_slice_reg [OF assms(1,3,5)] by simp
  moreover have "unat x < 0x14" "unat y < 0x14" using assms(4,5) by auto
  ultimately have "n = m" by linarith
  with \<open>0x14 * n + unat x = 0x14 * m + unat y\<close> show "n = m \<and> x = y"
    by (simp add: word_unat_eq_iff)
qed simp

lemma slice_reg_addr:
  assumes "known_chip C" and "n < 12" and "off \<in> {0, 0x4, 0xC, 0x10}"
  shows "reg_addr (slice_reg C n off)"
proof -
  have "unat off \<le> 0x10" using assms(3) by auto
  then show ?thesis
    using pwm_chip(3) [OF assms(1)] assms(2) unat_slice_reg [OF assms]
    by (intro reg_addr_range) auto
qed

section \<open>Slices\<close>

record pwm_cfg =
  pw_on :: bool
  pw_div :: u32
  pw_frac :: u32
  pw_level_a :: u32
  pw_level_b :: u32
  pw_top :: u32

definition pwm_of :: "u32 \<Rightarrow> u32 \<Rightarrow> u32 \<Rightarrow> u32 \<Rightarrow> pwm_cfg" where
  "pwm_of csr d cc wrap =
     \<lparr>pw_on = bit csr 0, pw_div = fget 4 8 d, pw_frac = fget 0 4 d,
      pw_level_a = fget 0 16 cc, pw_level_b = fget 16 16 cc, pw_top = fget 0 16 wrap\<rparr>"

definition pwm_cfgs :: "chip \<Rightarrow> (u32 \<Rightarrow> u32) \<Rightarrow> pwm_cfg list" where
  "pwm_cfgs C regs = map (\<lambda>n. pwm_of (regs (slice_reg C n 0)) (regs (slice_reg C n 0x4))
     (regs (slice_reg C n 0xC)) (regs (slice_reg C n 0x10))) [0..<chip_NUM_PWM_SLICES C]"

datatype pwm_op = Wrap u32 | Divide u32 | Duty u32 | On | Off

fun pwm_run :: "chip \<Rightarrow> 'd device \<Rightarrow> nat \<times> pwm_op \<Rightarrow> 'd mach \<Rightarrow> 'd mach" where
  "pwm_run C D (N, Wrap v) = pwm_set_top C D N v"
| "pwm_run C D (N, Divide v) = pwm_set_div_int C D N v"
| "pwm_run C D (N, Duty v) = pwm_set_level C D N v"
| "pwm_run C D (N, On) = pwm_enable C D N"
| "pwm_run C D (N, Off) = pwm_disable C D N"

fun pwm_step :: "nat \<Rightarrow> pwm_op \<Rightarrow> pwm_cfg \<Rightarrow> pwm_cfg" where
  "pwm_step N (Wrap v) c = c\<lparr>pw_top := take_bit 16 v\<rparr>"
| "pwm_step N (Divide v) c = c\<lparr>pw_div := take_bit 8 v, pw_frac := 0\<rparr>"
| "pwm_step N (Duty v) c =
     (if pwm_is_b N then c\<lparr>pw_level_b := take_bit 16 v\<rparr> else c\<lparr>pw_level_a := take_bit 16 v\<rparr>)"
| "pwm_step N On c = c\<lparr>pw_on := True\<rparr>"
| "pwm_step N Off c = c\<lparr>pw_on := False\<rparr>"

definition pwms_step :: "chip \<Rightarrow> nat \<times> pwm_op \<Rightarrow> pwm_cfg list \<Rightarrow> pwm_cfg list" where
  "pwms_step C = (\<lambda>(N, p) cs. cs[pwm_slice C N := pwm_step N p (cs ! pwm_slice C N)])"

lemma pwm_masks: "(0xFFFF :: u32) = mask 16" "(0xFFFF0000 :: u32) = push_bit 16 (mask 16)"
    "(0xFF :: u32) = mask 8"
  by (simp_all add: mask_eq_exp_minus_1)

lemma level_words:
  "(w AND 0x0000FFFF) OR push_bit 16 (v AND 0xFFFF) = fput 16 16 v w"
  "(w AND 0xFFFF0000) OR (v AND 0xFFFF) = fput 0 16 v w" for w :: u32
  unfolding pwm_masks
  by (rule bit_word_eqI; simp only: bit_or_iff bit_and_iff bit_push_bit_iff bit_mask_iff bit_fput; auto)+

definition div_value :: "u32 \<Rightarrow> u32" where
  "div_value d = push_bit 4 (d AND 0xFF)"

lemma div_value_fields: "fget 4 8 (div_value d) = take_bit 8 d" "fget 0 4 (div_value d) = 0"
  unfolding div_value_def pwm_masks
  by (rule bit_word_eqI; simp only: bit_fget bit_and_iff bit_push_bit_iff bit_mask_iff bit_take_bit_iff; auto)+

lemma top_field: "fget 0 16 (v AND 0xFFFF) = take_bit 16 v"
  unfolding pwm_masks by (rule bit_word_eqI; simp only: bit_fget bit_and_iff bit_mask_iff bit_take_bit_iff; auto)

lemma on_bit: "bit (w OR 1) 0" "\<not> bit (w AND - 2) 0" for w :: u32
proof -
  have "\<not> bit (w AND NOT 1) 0" by (simp only: bit_and_iff bit_not_iff) simp
  then show "\<not> bit (w AND - 2) 0" by simp
qed (simp add: bit_or_iff)

lemma length_pwm_cfgs [simp]: "length (pwm_cfgs C regs) = chip_NUM_PWM_SLICES C"
  by (simp add: pwm_cfgs_def)

lemma pwm_cfgs_nth:
  "n < chip_NUM_PWM_SLICES C \<Longrightarrow> pwm_cfgs C regs ! n = pwm_of (regs (slice_reg C n 0))
     (regs (slice_reg C n 0x4)) (regs (slice_reg C n 0xC)) (regs (slice_reg C n 0x10))"
  by (simp add: pwm_cfgs_def)

text \<open>Writing one register of a slice changes that slice only.\<close>

lemma pwm_cfgs_update:
  assumes "known_chip C" and "n < chip_NUM_PWM_SLICES C" and "off \<in> {0, 0x4, 0xC, 0x10}"
  shows "pwm_cfgs C (regs(slice_reg C n off := w)) = (pwm_cfgs C regs)[n := pwm_of
      (if off = 0 then w else regs (slice_reg C n 0)) (if off = 0x4 then w else regs (slice_reg C n 0x4))
      (if off = 0xC then w else regs (slice_reg C n 0xC)) (if off = 0x10 then w else regs (slice_reg C n 0x10))]"
proof (rule nth_equalityI)
  fix m
  assume m: "m < length (pwm_cfgs C (regs(slice_reg C n off := w)))"
  then have "m < 12" "n < 12" using pwm_chip(2) [OF assms(1)] assms(2) by simp_all
  note eq = slice_reg_eq [OF assms(1) this _ assms(3)]
  have r: "(regs(slice_reg C n off := w)) (slice_reg C m x) =
      (if m = n then if off = x then w else regs (slice_reg C n x) else regs (slice_reg C m x))"
    if "x \<in> {0, 0x4, 0xC, 0x10}" for x
    using eq [OF that] by auto
  have "pwm_cfgs C (regs(slice_reg C n off := w)) ! m = (if m = n then pwm_of
      (if off = 0 then w else regs (slice_reg C n 0)) (if off = 0x4 then w else regs (slice_reg C n 0x4))
      (if off = 0xC then w else regs (slice_reg C n 0xC)) (if off = 0x10 then w else regs (slice_reg C n 0x10))
      else pwm_cfgs C regs ! m)"
    using m by (simp add: pwm_cfgs_nth r del: fun_upd_apply)
  then show "pwm_cfgs C (regs(slice_reg C n off := w)) ! m = (pwm_cfgs C regs)[n := pwm_of
      (if off = 0 then w else regs (slice_reg C n 0)) (if off = 0x4 then w else regs (slice_reg C n 0x4))
      (if off = 0xC then w else regs (slice_reg C n 0xC)) (if off = 0x10 then w else regs (slice_reg C n 0x10))] ! m"
    using m assms(2) by (simp only: nth_list_update length_pwm_cfgs eq_commute [of n m])
qed simp

lemma pwm_run_step:
  assumes "alias_bank D (pwm_regs C) regs" and "known_chip C"
  shows "pwm_cfgs C (regs (dev (pwm_run C D (N, p) s))) = pwms_step C (N, p) (pwm_cfgs C (regs (dev s)))"
    and "ram (pwm_run C D (N, p) s) = ram s"
proof -
  have n: "pwm_slice C N < chip_NUM_PWM_SLICES C" by (rule pwm_slice_less [OF assms(2)])
  then have n12: "pwm_slice C N < 12" using pwm_chip(2) [OF assms(2)] by simp
  have ops: "slice_reg C (pwm_slice C N) off \<in> pwm_regs C" "reg_addr (slice_reg C (pwm_slice C N) off)"
    if "off \<in> {0, 0x4, 0xC, 0x10}" for off
    using that n slice_reg_addr [OF assms(2) n12 that] by (auto simp: pwm_regs_def)
  note bank = bank_ops [OF assms(1) ops] bank_ram [OF ops(2)]
  note defs = pwm_set_top_def pwm_set_div_int_def [folded div_value_def] pwm_set_level_def [unfolded level_words]
    pwm_enable_def pwm_disable_def pwm_slice_reg Let_def split_beta
  show "pwm_cfgs C (regs (dev (pwm_run C D (N, p) s))) = pwms_step C (N, p) (pwm_cfgs C (regs (dev s)))"
    using n by (cases p) (simp_all add: defs bank pwm_cfgs_update [OF assms(2) n] pwms_step_def
        pwm_cfgs_nth pwm_of_def div_value_fields top_field on_bit)
  show "ram (pwm_run C D (N, p) s) = ram s"
    by (cases p) (simp_all add: defs bank)
qed

lemma pwm_runs:
  assumes "alias_bank D (pwm_regs C) regs" and "known_chip C"
  shows "pwm_cfgs C (regs (dev (fold (pwm_run C D) ops s))) = fold (pwms_step C) ops (pwm_cfgs C (regs (dev s)))"
    and "ram (fold (pwm_run C D) ops s) = ram s"
proof (induction ops arbitrary: s)
  case (Cons q ops)
  obtain N p where q: "q = (N, p)" by (cases q)
  {
    case 1
    show ?case by (simp add: q Cons.IH(1) pwm_run_step(1) [OF assms])
  next
    case 2
    show ?case by (simp add: q Cons.IH(2) pwm_run_step(2) [OF assms])
  }
qed simp_all

section \<open>The conversion\<close>

lemma low_12: "uint (v AND 0xFFF :: u32) = uint v mod 4096"
proof -
  have "v AND 0xFFF = take_bit 12 v" by (simp add: take_bit_eq_mask mask_eq_exp_minus_1)
  then have "uint (v AND 0xFFF) = take_bit 12 (uint v)" by (simp add: unsigned_take_bit_eq)
  then show ?thesis by (simp add: take_bit_eq_mod)
qed

text \<open>
  The exact temperature is \<^verbatim>\<open>27000 - (raw * 3300000 / 4096 - 706000) * 1000 / 1721\<close>
  thousandths of a degree. Multiplied by its denominator, the error of the two floor divisions
  is at most a millidegree and a half upward.
\<close>

lemma milli_c_error:
  "0 \<le> 1721 * 4096 * (milli_c raw - 27000) + (uint raw * 3300000 - 706000 * 4096) * 1000"
  "1721 * 4096 * (milli_c raw - 27000) + (uint raw * 3300000 - 706000 * 4096) * 1000 < (1721 + 1000) * 4096"
proof -
  define x where "x = uint raw * 3300000"
  define u where "u = x div 4096"
  define q where "q = ((u - 706000) * 1000) div 1721"
  have T: "milli_c raw - 27000 = - q" by (simp add: milli_c_def Let_def q_def u_def x_def)
  have u: "4096 * u \<le> x" "x < 4096 * u + 4096"
    unfolding u_def by (simp_all add: minus_mod_eq_mult_div [symmetric] algebra_simps)
  have q: "1721 * q \<le> (u - 706000) * 1000" "(u - 706000) * 1000 < 1721 * q + 1721"
    unfolding q_def by (simp_all add: minus_mod_eq_mult_div [symmetric] algebra_simps)
  show "0 \<le> 1721 * 4096 * (milli_c raw - 27000) + (uint raw * 3300000 - 706000 * 4096) * 1000"
    unfolding T x_def [symmetric] using u q by (simp add: algebra_simps)
  show "1721 * 4096 * (milli_c raw - 27000) + (uint raw * 3300000 - 706000 * 4096) * 1000 < (1721 + 1000) * 4096"
    unfolding T x_def [symmetric] using u q by (simp add: algebra_simps)
qed

lemma milli_c_antimono: "uint a \<le> uint b \<Longrightarrow> milli_c b \<le> milli_c a"
  unfolding milli_c_def Let_def by (intro diff_mono zdiv_mono1 mult_right_mono) simp_all

lemma milli_c_range:
  assumes "uint raw < 4096"
  shows "- 1479794 \<le> milli_c raw" "milli_c raw \<le> 437227"
proof -
  have "milli_c 4095 = - 1479794" "milli_c 0 = 437227" by (simp_all add: milli_c_def)
  then show "- 1479794 \<le> milli_c raw" "milli_c raw \<le> 437227"
    using assms milli_c_antimono [of raw 4095] milli_c_antimono [of 0 raw] by simp_all
qed

lemma milli_c_fits:
  assumes "uint raw < 4096"
  shows "sint (of_int (milli_c raw) :: 32 word) = milli_c raw"
  using milli_c_range [OF assms] by (simp add: sint_sbintrunc' signed_take_bit_int_eq_self)

lemma microvolts_fit:
  assumes "uint raw < 4096"
  shows "\<bar>((uint raw * 3300000) div 4096 - 706000) * 1000\<bar> < 2 ^ 63"
proof -
  define u where "u = (uint raw * 3300000) div 4096"
  have "0 \<le> u" unfolding u_def by (subst pos_imp_zdiv_nonneg_iff) simp_all
  moreover have "u \<le> (4095 * 3300000) div 4096"
    unfolding u_def using assms by (intro zdiv_mono1) simp_all
  ultimately show ?thesis unfolding u_def [symmetric] by simp
qed

section \<open>A converter that answers\<close>

definition adc_answers :: "chip \<Rightarrow> 'd device \<Rightarrow> bool" where
  "adc_answers C D \<longleftrightarrow>
     (\<forall>cs. acks D (chip_ADC_BASE C) cs (chip_ADC_BASE C) (\<lambda>v. v AND 0x100 \<noteq> 0)) \<and>
     acks D (chip_ADC_BASE C + SET_ALIAS) 4 (chip_ADC_BASE C) (\<lambda>v. v AND 0x100 \<noteq> 0)"

lemma chip_adc:
  assumes "known_chip C"
  shows "reg_addr (chip_ADC_BASE C)" "\<not> in_sram (chip_ADC_BASE C + 4)"
  using assms by (auto simp: known_chip_def RP2040_def RP2350_def sram_eval intro!: reg_addr_range)

text \<open>
  The accesses of one conversion: the channel is selected and the converter enabled, it is
  waited for, a conversion is started and waited for, and its result is read once.
\<close>

definition conversion :: "chip \<Rightarrow> u32 \<Rightarrow> u32 \<Rightarrow> event list \<Rightarrow> bool" where
  "conversion C cs r es \<longleftrightarrow> (\<exists>w1 w2.
     es = [Write (chip_ADC_BASE C) cs] @ w1 @ [Write (chip_ADC_BASE C + 0x2000) 4] @ w2 @
       [Read (chip_ADC_BASE C + 4) r] \<and>
     waits (chip_ADC_BASE C) (\<lambda>v. v AND 0x100 \<noteq> 0) w1 \<and> waits (chip_ADC_BASE C) (\<lambda>v. v AND 0x100 \<noteq> 0) w2)"

lemma adc_answers_logged: "adc_answers C D \<Longrightarrow> adc_answers C (logged D)"
  by (simp add: adc_answers_def acks_logged)

lemma adc_read_returns:
  assumes "adc_answers C D" and "known_chip C"
  shows "\<exists>r t es. adc_read C (logged D) ch s = Some (r AND 0xFFF, t) \<and> ram t = ram s \<and> log t = log s @ es \<and>
    conversion C (1 OR (if ch = 4 then 2 else 0) OR push_bit 12 ch) r es"
proof -
  let ?D = "logged D" and ?adc = "chip_ADC_BASE C" and ?p = "\<lambda>v :: u32. v AND 0x100 \<noteq> 0"
  note addr = chip_adc [OF assms(2)]
  note hw = adc_answers_logged [OF assms(1)]
  define cs where "cs = (1 OR (if ch = 4 then 2 else 0) OR push_bit 12 ch :: u32)"
  have ready: "ADC_CS_READY = 0x100" "ADC_CS_START_ONCE = 4" by (simp_all add: rp2040_map)
  have cs: "(if ch = 4 then (ADC_CS_EN OR push_bit (unat ADC_CS_AINSEL_LSB) ch) OR ADC_CS_TS_EN
    else ADC_CS_EN OR push_bit (unat ADC_CS_AINSEL_LSB) ch) = cs"
    by (cases "ch = 4") (simp_all add: cs_def rp2040_map)
  obtain d where d: "poll ?D ?adc ?p (wr ?D ?adc cs s) = Some (s\<lparr>dev := d\<rparr>)"
    using write_then_poll_returns [where D = ?D and v = cs and s = s] hw addr
    unfolding adc_answers_def reg_addr_def by blast
  let ?s1 = "s\<lparr>dev := d\<rparr>"
  have set: "write32_set ?D ?adc 4 ?s1 = wr ?D (?adc + 0x2000) 4 ?s1"
    by (simp add: write32_set_def SET_ALIAS_def)
  obtain e where e: "poll ?D ?adc ?p (wr ?D (?adc + 0x2000) 4 ?s1) = Some (s\<lparr>dev := e\<rparr>)"
    using write_then_poll_returns [where D = ?D and v = 4 and s = ?s1 and w = "?adc + SET_ALIAS"] hw addr
    unfolding adc_answers_def reg_addr_def SET_ALIAS_def by fastforce
  obtain r t where t: "rd ?D (?adc + 4) (s\<lparr>dev := e\<rparr>) = (r, t)" by fastforce
  have sram: "\<not> in_sram ?adc" "\<not> in_sram (?adc + 0x2000)"
    using addr(1) by (simp_all add: reg_addr_def SET_ALIAS_def)
  obtain w1 where w1: "log ?s1 = log s @ [Write ?adc cs] @ w1" "waits ?adc ?p w1"
    using log_poll [OF d sram(1)] sram by (auto simp: log_wr)
  obtain w2 where w2: "log (s\<lparr>dev := e\<rparr>) = log ?s1 @ [Write (?adc + 0x2000) 4] @ w2" "waits ?adc ?p w2"
    using log_poll [OF e sram(1)] sram by (auto simp: log_wr)
  have "log t = log (s\<lparr>dev := e\<rparr>) @ [Read (?adc + 4) r]" "ram t = ram s"
    using log_rd [OF addr(2) t] by simp_all
  moreover have "adc_read C ?D ch s = Some (r AND 0xFFF, t)"
    using d e t by (simp add: adc_read_def Let_def ready cs set)
  ultimately show ?thesis
    using w1 w2 unfolding conversion_def cs_def by fastforce
qed

text \<open>A converter that is always ready and reads a fixed value.\<close>

definition adc_device :: "u32 \<Rightarrow> unit device" where
  "adc_device v = const_device (\<lambda>a. if a = 0x4004C004 then v else 0x100)"

lemma adc_device_answers: "adc_answers RP2040 (adc_device v)"
  by (simp add: adc_answers_def adc_device_def acks_const RP2040_def)

section \<open>Properties\<close>

text \<open>C32: The PWM calls implement slices: any sequence of calls for any pins of a known chip leaves
  every slice with exactly the divider, wrap value, channel levels and run bit the calls say. A
  level set for a pin keeps the level of the other channel, which may belong to another pin of
  the same slice; pins twice the number of slices apart share a slice.\<close>

theorem pwm_calls_refine_slices:
  assumes "alias_bank D (pwm_regs C) regs" and "known_chip C"
  shows "pwm_cfgs C (regs (dev (fold (pwm_run C D) ops s))) =
      fold (pwms_step C) ops (pwm_cfgs C (regs (dev s))) \<and>
    ram (fold (pwm_run C D) ops s) = ram s"
  using pwm_runs [OF assms] by blast

theorem pwm_calls_refine_slices_witness:
  "pw_level_a (pwm_cfgs RP2040 (dev (fold (pwm_run RP2040 alias_device)
     [(14, Duty 100), (15, Duty 500), (15, Wrap 999), (15, On)] \<lparr>ram = \<lambda>_. 0, dev = \<lambda>_. 0\<rparr>)) ! 7) = 100"
proof -
  have "slice_reg RP2040 n off AND 0x3000 = 0" if "n < 8" "off \<in> {0, 0x4, 0xC, 0x10}" for n off
  proof -
    from \<open>n < 8\<close> have "n \<in> {0, 1, 2, 3, 4, 5, 6, 7}" by auto
    with that(2) show ?thesis by (auto simp: slice_reg_def RP2040_def)
  qed
  moreover have "chip_NUM_PWM_SLICES RP2040 = 8" by (simp add: RP2040_def)
  ultimately have "alias_bank alias_device (pwm_regs RP2040) (\<lambda>d. d)"
    by (intro alias_device_bankI) (auto simp: pwm_regs_def)
  from pwm_calls_refine_slices [OF this, of "[(14, Duty 100), (15, Duty 500), (15, Wrap 999), (15, On)]"
      "\<lparr>ram = \<lambda>_. 0, dev = \<lambda>_. 0\<rparr>"]
  show ?thesis
    by (simp add: known_chip_def pwms_step_def pwm_slice_def pwm_is_b_def RP2040_def [THEN arg_cong [of _ _ chip_NUM_PWM_SLICES]]
        pwm_cfgs_nth drop_bit_eq_div)
qed

text \<open>C36: Reading the temperature always returns on a converter that answers: the driver selects
  channel 4 with the sensor on, waits, starts one conversion, waits, and reads the result
  register once; the sample is its low 12 bits. The 64-bit intermediate values are far from
  overflowing, the 32-bit result is the computed value, between -1480 and 438 degrees, it
  differs from the exact conversion formula by less than 1.6 thousandths of a degree, and it
  never rises with the sample.\<close>

theorem temperature_reading:
  assumes "adc_answers C D" and "known_chip C"
  shows "\<exists>r raw v t es. read_temp_milli_c C (logged D) s = Some (v, t) \<and> ram t = ram s \<and>
    log t = log s @ es \<and> conversion C 0x4003 r es \<and> uint raw = uint r mod 4096 \<and>
    sint v = milli_c raw \<and> - 1479794 \<le> sint v \<and> sint v \<le> 437227 \<and>
    (let e = 1721 * 4096 * (sint v - 27000) + (uint raw * 3300000 - 706000 * 4096) * 1000
     in 0 \<le> e \<and> e < (1721 + 1000) * 4096) \<and>
    uint raw * 3300000 < 2 ^ 63 \<and> \<bar>((uint raw * 3300000) div 4096 - 706000) * 1000\<bar> < 2 ^ 63 \<and>
    (\<forall>x. (uint raw \<le> uint x \<longrightarrow> milli_c x \<le> sint v) \<and> (uint x \<le> uint raw \<longrightarrow> sint v \<le> milli_c x))"
proof -
  obtain r t es where r: "adc_read C (logged D) 4 s = Some (r AND 0xFFF, t)" "ram t = ram s" "log t = log s @ es"
    "conversion C 0x4003 r es"
    using adc_read_returns [OF assms, of 4 s] by auto
  define raw where "raw = r AND 0xFFF"
  have run: "read_temp_milli_c C (logged D) s = Some (of_int (milli_c raw), t)"
    using r(1) by (simp add: read_temp_milli_c_def raw_def)
  have raw: "uint raw = uint r mod 4096" "uint raw < 4096" by (simp_all add: raw_def low_12)
  note sint = milli_c_fits [OF raw(2)]
  have uv: "uint raw * 3300000 < 2 ^ 63" using raw(2) by simp
  show ?thesis
  proof (rule exI [of _ r], rule exI [of _ raw], rule exI [of _ "of_int (milli_c raw)"], rule exI [of _ t],
      rule exI [of _ es], unfold Let_def sint, intro conjI allI impI)
  qed (fact run r(2-4) raw(1) milli_c_range [OF raw(2)] milli_c_error microvolts_fit [OF raw(2)] uv refl |
      erule milli_c_antimono)+
qed

theorem temperature_reading_witness:
  "\<exists>v t. read_temp_milli_c RP2040 (logged (adc_device 876)) \<lparr>ram = \<lambda>_. 0, dev = ((), [])\<rparr> = Some (v, t) \<and>
     - 1479794 \<le> sint v \<and> Write (chip_ADC_BASE RP2040) 0x4003 \<in> set (log t)"
  using temperature_reading [OF adc_device_answers [of 876], of "\<lparr>ram = \<lambda>_. 0, dev = ((), [])\<rparr>"]
  by (auto simp: known_chip_def conversion_def)

end
