(* ===== verification/Uart.thy ===== *)
theory Uart
  imports AliasReg
begin

text \<open>
  The polled UART driver \<^verbatim>\<open>src/pico/uart.mojo\<close>: the baud rate divisor, the order in which the
  peripheral is set up, the loopback switch, and reading a byte with a timeout. That a byte
  read always ends, and with what, is proved for every device whose timer runs.
\<close>

section \<open>The driver\<close>

definition CLK_PERI_HZ :: u32 where "CLK_PERI_HZ = 12000000"
definition UART_DR :: u32 where "UART_DR = 0x00"
definition UART_FR :: u32 where "UART_FR = 0x18"
definition UART_IBRD :: u32 where "UART_IBRD = 0x24"
definition UART_FBRD :: u32 where "UART_FBRD = 0x28"
definition UART_LCR_H :: u32 where "UART_LCR_H = 0x2C"
definition UART_CR :: u32 where "UART_CR = 0x30"

lemmas uart_regs = UART_DR_def UART_FR_def UART_IBRD_def UART_FBRD_def UART_LCR_H_def UART_CR_def

text \<open>The divisor in 64ths, computed in 64 bits.\<close>

definition baud_div64 :: "u32 \<Rightarrow> u64" where
  "baud_div64 baud =
     (ucast CLK_PERI_HZ * 64 + 8 * ucast baud) div (16 * ucast baud)"

definition uart_init :: "chip \<Rightarrow> 'd device \<Rightarrow> u32 \<Rightarrow> 'd mach \<Rightarrow> 'd mach option" where
  "uart_init C D baud s = do {
     let s = wr D (chip_CLOCKS_BASE C + 0x48) CLK_ENABLE s;
     let s = write32_clr D (chip_RESETS_RESET C) (chip_RESET_UART0 C) s;
     s \<leftarrow> poll D (chip_RESETS_RESET_DONE C) (\<lambda>v. \<not> v AND chip_RESET_UART0 C = 0) s;
     let div64 = baud_div64 baud;
     let s = wr D (chip_UART0_BASE C + UART_IBRD) (ucast (drop_bit 6 div64)) s;
     let s = wr D (chip_UART0_BASE C + UART_FBRD) (ucast (div64 AND 0x3F)) s;
     let s = wr D (chip_UART0_BASE C + UART_LCR_H) (UART_LCR_WLEN8 OR UART_LCR_FEN) s;
     Some (wr D (chip_UART0_BASE C + UART_CR) (UART_CR_UARTEN OR UART_CR_TXE OR UART_CR_RXE) s)
   }"

definition write_byte :: "chip \<Rightarrow> 'd device \<Rightarrow> u8 \<Rightarrow> 'd mach \<Rightarrow> 'd mach option" where
  "write_byte C D b s = do {
     s \<leftarrow> poll D (chip_UART0_BASE C + UART_FR) (\<lambda>v. v AND UART_FR_TXFF = 0) s;
     Some (wr D (chip_UART0_BASE C + UART_DR) (ucast b) s)
   }"

definition uart_flush :: "chip \<Rightarrow> 'd device \<Rightarrow> 'd mach \<Rightarrow> 'd mach option" where
  "uart_flush C D s = poll D (chip_UART0_BASE C + UART_FR) (\<lambda>v. v AND UART_FR_BUSY = 0) s"

text \<open>
  The wait of \<^verbatim>\<open>read_byte\<close>: \<open>True\<close> when the receive FIFO has a byte, \<open>False\<close> when the time is
  up.
\<close>

partial_function (option) rx_wait ::
  "chip \<Rightarrow> 'd device \<Rightarrow> u32 \<Rightarrow> u32 \<Rightarrow> 'd mach \<Rightarrow> (bool \<times> 'd mach) option" where
  "rx_wait C D t0 timeout_us s =
     (let (v, s) = rd D (chip_UART0_BASE C + UART_FR) s
      in if v AND UART_FR_RXFE \<noteq> 0
         then (let (now, s) = pico_time_us C D s
               in if now - t0 > timeout_us then Some (False, s) else rx_wait C D t0 timeout_us s)
         else Some (True, s))"

definition read_byte :: "chip \<Rightarrow> 'd device \<Rightarrow> u32 \<Rightarrow> 'd mach \<Rightarrow> (int \<times> 'd mach) option" where
  "read_byte C D timeout_us s = do {
     let (t0, s) = pico_time_us C D s;
     (got, s) \<leftarrow> rx_wait C D t0 timeout_us s;
     if got
     then (let (v, s) = rd D (chip_UART0_BASE C + UART_DR) s in Some (uint (v AND 0xFF), s))
     else Some (- 1, s)
   }"

text \<open>\<^verbatim>\<open>while read_byte(300) != -1: pass\<close>\<close>

partial_function (option) drain_rx :: "chip \<Rightarrow> 'd device \<Rightarrow> 'd mach \<Rightarrow> 'd mach option" where
  "drain_rx C D s = Option.bind (read_byte C D 300 s)
     (\<lambda>(b, s). if b \<noteq> - 1 then drain_rx C D s else Some s)"

definition loopback :: "chip \<Rightarrow> 'd device \<Rightarrow> bool \<Rightarrow> 'd mach \<Rightarrow> 'd mach option" where
  "loopback C D enable s = do {
     s \<leftarrow> poll D (chip_UART0_BASE C + UART_FR) (\<lambda>v. v AND UART_FR_BUSY = 0) s;
     let (cr, s) = rd D (chip_UART0_BASE C + UART_CR) s;
     let s = wr D (chip_UART0_BASE C + UART_CR) (cr AND NOT UART_CR_UARTEN) s;
     let cr = (if enable then cr OR UART_CR_LBE else cr AND NOT UART_CR_LBE);
     let s = wr D (chip_UART0_BASE C + UART_CR) (cr AND NOT UART_CR_UARTEN) s;
     let s = wr D (chip_UART0_BASE C + UART_CR) (cr OR UART_CR_UARTEN) s;
     if enable then drain_rx C D s else Some s
   }"

section \<open>The divisor\<close>

text \<open>In 64 bits nothing overflows, so the words compute the rounded quotient.\<close>

lemma unat_div64: "unat (baud_div64 baud) = (768000000 + 8 * unat baud) div (16 * unat baud)"
proof -
  have b: "unat baud < 2 ^ 32" by (rule unat_u32)
  then have "unat baud < 2 ^ 64" by simp
  then have "unat (ucast baud :: u64) = unat baud" by (simp add: unsigned_ucast_eq take_bit_nat_eq_self)
  then have "unat (8 * ucast baud :: u64) = 8 * unat baud" "unat (16 * ucast baud :: u64) = 16 * unat baud"
    using b by (simp_all add: unat_word_ariths)
  moreover from this have "unat (768000000 + 8 * ucast baud :: u64) = 768000000 + 8 * unat baud"
    using b by (simp add: unat_word_ariths)
  moreover have "ucast CLK_PERI_HZ * 64 = (768000000 :: u64)" by (simp add: CLK_PERI_HZ_def)
  ultimately show ?thesis by (simp add: baud_div64_def unat_div)
qed

lemma div64_fits:
  assumes "12 \<le> unat baud"
  shows "unat (baud_div64 baud) \<le> 4000000"
proof -
  have "768000000 + 8 * unat baud < (4000000 + 1) * (16 * unat baud)" using assms by simp
  then have "unat (baud_div64 baud) < 4000000 + 1"
    unfolding unat_div64 by (intro less_mult_imp_div_less) simp
  then show ?thesis by simp
qed

lemma baud_regs:
  assumes "12 \<le> unat baud"
  shows "unat (ucast (drop_bit 6 (baud_div64 baud)) :: u32) = unat (baud_div64 baud) div 64"
    and "unat (ucast (baud_div64 baud AND 0x3F) :: u32) = unat (baud_div64 baud) mod 64"
proof -
  note small = div64_fits [OF assms]
  have d: "unat (drop_bit 6 (baud_div64 baud)) = unat (baud_div64 baud) div 64"
    by (simp add: drop_bit_eq_div unat_div)
  then show "unat (ucast (drop_bit 6 (baud_div64 baud)) :: u32) = unat (baud_div64 baud) div 64"
    using small by (simp add: unsigned_ucast_eq take_bit_nat_eq_self)
  have "baud_div64 baud AND 0x3F = take_bit 6 (baud_div64 baud)"
    by (simp add: take_bit_eq_mask mask_eq_exp_minus_1)
  then have "unat (baud_div64 baud AND 0x3F) = unat (baud_div64 baud) mod 64"
    by (simp add: take_bit_eq_mod unat_mod)
  then show "unat (ucast (baud_div64 baud AND 0x3F) :: u32) = unat (baud_div64 baud) mod 64"
    by (simp add: unsigned_ucast_eq take_bit_nat_eq_self)
qed

text \<open>The rounding: the rate that results differs from the one asked for by at most half a step.\<close>

lemma round_nearest:
  fixes c b :: nat
  assumes "0 < b" and "q = (64 * c + 8 * b) div (16 * b)"
  shows "16 * b * q \<le> 64 * c + 8 * b" "64 * c < 16 * b * q + 8 * b"
proof -
  have "16 * b * q \<le> 64 * c + 8 * b"
    unfolding assms(2) by (simp add: mult.commute [of "16 * b"] div_times_less_eq_dividend)
  moreover have "64 * c + 8 * b < 16 * b * q + 16 * b"
    unfolding assms(2) using dividend_less_times_div [of "16 * b" "64 * c + 8 * b"] assms(1)
    by (simp add: algebra_simps)
  ultimately show "16 * b * q \<le> 64 * c + 8 * b" "64 * c < 16 * b * q + 8 * b" by simp_all
qed

lemma div64_positive:
  assumes "12 \<le> unat baud" and "unat baud \<le> 750000"
  shows "64 \<le> unat (baud_div64 baud)"
  unfolding unat_div64 using assms by (simp add: less_eq_div_iff_mult_less_eq)

section \<open>Reading a byte\<close>





lemma chip_uart:
  assumes "known_chip C"
  shows "\<not> in_sram (chip_TIMER_BASE C + 0x28)" "\<not> in_sram (chip_UART0_BASE C + UART_FR)"
    "\<not> in_sram (chip_UART0_BASE C + UART_DR)" "\<not> in_sram (chip_UART0_BASE C + UART_CR)"
    "\<not> in_sram (chip_UART0_BASE C + UART_IBRD)" "\<not> in_sram (chip_UART0_BASE C + UART_FBRD)"
    "\<not> in_sram (chip_UART0_BASE C + UART_LCR_H)" "\<not> in_sram (chip_CLOCKS_BASE C + 0x48)"
    "\<not> in_sram (chip_RESETS_RESET C + CLR_ALIAS)" "\<not> in_sram (chip_RESETS_RESET_DONE C)"
  using assms by (auto simp: known_chip_def RP2040_def RP2350_def sram_eval uart_regs alias_defs)







section \<open>Properties\<close>

text \<open>C40: Setting up the UART on a chip that answers: for every baud rate from 12 to 750000 the
  integer divisor fits its 16 bits and is not zero, the fraction fits its 6 bits, and together
  they are the divisor of the 12 MHz clock rounded to the nearest 64th, so the rate is off by
  at most half a step. The reset is waited for first, the line control write that latches the
  divisor comes after both of its halves, and the UART is enabled last.\<close>

theorem uart_init_programs_baud:
  assumes "known_chip C" and "12 \<le> unat baud" and "unat baud \<le> 750000"
    and "acks (logged D) (chip_RESETS_RESET C + CLR_ALIAS) (chip_RESET_UART0 C) (chip_RESETS_RESET_DONE C)
      (\<lambda>v. v AND chip_RESET_UART0 C \<noteq> 0)"
  shows "\<exists>t w ib fb. uart_init C (logged D) baud s = Some t \<and> ram t = ram s \<and>
    log t = log s @ [Write (chip_CLOCKS_BASE C + 0x48) 0x800,
      Write (chip_RESETS_RESET C + 0x3000) (chip_RESET_UART0 C)] @ w @
      [Write (chip_UART0_BASE C + 0x24) ib, Write (chip_UART0_BASE C + 0x28) fb,
       Write (chip_UART0_BASE C + 0x2C) 0x70, Write (chip_UART0_BASE C + 0x30) 0x301] \<and>
    waits (chip_RESETS_RESET_DONE C) (\<lambda>v. v AND chip_RESET_UART0 C \<noteq> 0) w \<and>
    1 \<le> unat ib \<and> unat ib < 2 ^ 16 \<and> unat fb < 2 ^ 6 \<and>
    (let q = 64 * unat ib + unat fb
     in 16 * unat baud * q \<le> 64 * 12000000 + 8 * unat baud \<and>
        64 * 12000000 < 16 * unat baud * q + 8 * unat baud)"
proof -
  let ?D = "logged D"
  note addr = chip_uart [OF assms(1)]
  define u where "u = wr ?D (chip_CLOCKS_BASE C + 0x48) 0x800 s"
  define r where "r = wr ?D (chip_RESETS_RESET C + CLR_ALIAS) (chip_RESET_UART0 C) u"
  obtain d where d: "poll ?D (chip_RESETS_RESET_DONE C) (\<lambda>v. v AND chip_RESET_UART0 C \<noteq> 0) r =
      Some (u\<lparr>dev := d\<rparr>)"
    using write_then_poll_returns [OF assms(4), of u] addr by (auto simp: r_def)
  then obtain w where w: "log (u\<lparr>dev := d\<rparr>) = log r @ w"
    "waits (chip_RESETS_RESET_DONE C) (\<lambda>v. v AND chip_RESET_UART0 C \<noteq> 0) w"
    using log_poll [OF d] addr by auto
  define ib where "ib = (ucast (drop_bit 6 (baud_div64 baud)) :: u32)"
  define fb where "fb = (ucast (baud_div64 baud AND 0x3F) :: u32)"
  define q where "q = unat (baud_div64 baud)"
  have ibfb: "unat ib = q div 64" "unat fb = q mod 64"
    using baud_regs [OF assms(2)] by (simp_all add: ib_def fb_def q_def)
  have q: "64 \<le> q" "q \<le> 4000000"
    using div64_positive [OF assms(2,3)] div64_fits [OF assms(2)] by (simp_all add: q_def)
  have qq: "64 * unat ib + unat fb = q" by (simp add: ibfb)
  have "q = (64 * 12000000 + 8 * unat baud) div (16 * unat baud)" by (simp add: q_def unat_div64)
  with assms(2) have err: "16 * unat baud * q \<le> 64 * 12000000 + 8 * unat baud"
    "64 * 12000000 < 16 * unat baud * q + 8 * unat baud"
    using round_nearest [of "unat baud" q 12000000] by simp_all
  have vals: "CLK_ENABLE = 0x800" "UART_LCR_WLEN8 OR UART_LCR_FEN = 0x70"
    "UART_CR_UARTEN OR UART_CR_TXE OR UART_CR_RXE = 0x301"
    by (simp_all add: rp2040_map)
  define t where "t = wr ?D (chip_UART0_BASE C + UART_CR) 0x301 (wr ?D (chip_UART0_BASE C + UART_LCR_H) 0x70
    (wr ?D (chip_UART0_BASE C + UART_FBRD) fb (wr ?D (chip_UART0_BASE C + UART_IBRD) ib (u\<lparr>dev := d\<rparr>))))"
  have "uart_init C ?D baud s = Some t"
    using d unfolding r_def u_def
    by (simp add: uart_init_def Let_def vals write32_clr_def t_def ib_def fb_def u_def)
  moreover have "ram t = ram s" using addr by (simp add: t_def u_def ram_wr)
  moreover have "log t = log s @ [Write (chip_CLOCKS_BASE C + 0x48) 0x800,
      Write (chip_RESETS_RESET C + 0x3000) (chip_RESET_UART0 C)] @ w @
      [Write (chip_UART0_BASE C + 0x24) ib, Write (chip_UART0_BASE C + 0x28) fb,
       Write (chip_UART0_BASE C + 0x2C) 0x70, Write (chip_UART0_BASE C + 0x30) 0x301]"
    using addr w(1) by (simp add: t_def r_def u_def log_wr) (simp add: uart_regs alias_defs)
  moreover have "1 \<le> unat ib" "unat ib < 2 ^ 16" "unat fb < 2 ^ 6" using q by (simp_all add: ibfb)
  ultimately show ?thesis using w(2) err unfolding qq [symmetric] Let_def by blast
qed

definition uart_device :: "unit device" where
  "uart_device = const_device (\<lambda>_. 0x400000)"

theorem uart_init_programs_baud_witness:
  "\<exists>t. uart_init RP2040 (logged uart_device) 115200 \<lparr>ram = \<lambda>_. 0, dev = ((), [])\<rparr> = Some t"
proof -
  have "acks (logged uart_device) (chip_RESETS_RESET RP2040 + CLR_ALIAS) (chip_RESET_UART0 RP2040)
      (chip_RESETS_RESET_DONE RP2040) (\<lambda>v. v AND chip_RESET_UART0 RP2040 \<noteq> 0)"
    by (rule acks_logged) (simp add: uart_device_def acks_const RP2040_def)
  from uart_init_programs_baud [OF _ _ _ this, of 115200 "\<lparr>ram = \<lambda>_. 0, dev = ((), [])\<rparr>"] show ?thesis
    by (auto simp: known_chip_def)
qed




text \<open>The loopback switch follows the rule of the peripheral's manual: it waits until the
  transmitter is idle, and the loopback bit only changes in a control write that has the enable
  bit clear, between a write that disables the UART and one that enables it again; the other
  control bits keep their values. Switching loopback on then reads the receiver empty.\<close>

theorem loopback_order:
  assumes "known_chip C" and "loopback C (logged D) enable s = Some t"
  shows "\<exists>u w cr. waits (chip_UART0_BASE C + 0x18) (\<lambda>v. v AND 8 = 0) w \<and>
    log u = log s @ w @ [Read (chip_UART0_BASE C + 0x30) cr,
      Write (chip_UART0_BASE C + 0x30) (cr AND NOT 1),
      Write (chip_UART0_BASE C + 0x30) ((if enable then cr OR 0x80 else cr AND NOT 0x80) AND NOT 1),
      Write (chip_UART0_BASE C + 0x30) ((if enable then cr OR 0x80 else cr AND NOT 0x80) OR 1)] \<and>
    (if enable then drain_rx C (logged D) u = Some t else t = u)"
proof -
  let ?D = "logged D" and ?cr = "chip_UART0_BASE C + UART_CR"
  note addr = chip_uart [OF assms(1)]
  have bits: "UART_FR_BUSY = 8" "UART_CR_UARTEN = 1" "UART_CR_LBE = 0x80" by (simp_all add: rp2040_map)
  obtain p where p: "poll ?D (chip_UART0_BASE C + UART_FR) (\<lambda>v. v AND 8 = 0) s = Some p"
    using assms(2) by (auto simp: loopback_def bits bind_eq_Some_conv)
  obtain w where w: "log p = log s @ w" "waits (chip_UART0_BASE C + UART_FR) (\<lambda>v. v AND 8 = 0) w"
    using log_poll [OF p] addr by auto
  obtain cr q where q: "rd ?D ?cr p = (cr, q)" by fastforce
  then have lq: "log q = log p @ [Read ?cr cr]" using log_rd [of ?cr D p cr q] addr by simp
  define c where "c = (if enable then cr OR 0x80 else cr AND NOT 0x80)"
  define u where "u = wr ?D ?cr (c OR 1) (wr ?D ?cr (c AND NOT 1) (wr ?D ?cr (cr AND NOT 1) q))"
  have "(if enable then drain_rx C ?D u = Some t else t = u)"
    using assms(2) p q by (auto simp: loopback_def bits Let_def u_def c_def split: if_splits)
  moreover have "log u = log s @ w @ [Read ?cr cr, Write ?cr (cr AND NOT 1), Write ?cr (c AND NOT 1),
      Write ?cr (c OR 1)]"
    using addr by (simp add: u_def log_wr lq w(1))
  ultimately show ?thesis using w(2) unfolding c_def UART_CR_def UART_FR_def by blast
qed

end
