(* ===== verification/Retarget.thy ===== *)
theory Retarget
  imports Main "HOL-Library.Sublist"
begin

text \<open>
  The IR retargeting of \<^verbatim>\<open>tools/retarget.mojo\<close>: line by line, the two lines that name the target
  are replaced, and in every other line the values of two attributes are set by a hand-written
  scanner. The specification cuts a line into the pieces between the attributes; the scanner is
  shown to replace the values and nothing else.
\<close>

section \<open>Finding a substring\<close>

text \<open>\<^verbatim>\<open>find\<close> of the string type: the position of the first occurrence.\<close>

fun find_str :: "string \<Rightarrow> string \<Rightarrow> nat option" where
  "find_str p [] = (if p = [] then Some 0 else None)"
| "find_str p (c # cs) = (if prefix p (c # cs) then Some 0 else map_option Suc (find_str p cs))"

definition find_from :: "string \<Rightarrow> nat \<Rightarrow> string \<Rightarrow> nat option" where
  "find_from p k s = map_option (\<lambda>i. k + i) (find_str p (drop k s))"

lemma find_str_bound: "find_str p s = Some i \<Longrightarrow> i + length p \<le> length s"
  by (induction s arbitrary: i) (auto split: if_splits dest: prefix_length_le)

lemma find_str_split: "find_str p s = Some i \<Longrightarrow> s = take i s @ p @ drop (i + length p) s"
proof (induction s arbitrary: i)
  case (Cons c cs)
  then show ?case by (auto split: if_splits simp: prefix_def)
qed (simp split: if_splits)

text \<open>What comes after the first occurrence does not matter.\<close>

lemma find_str_append: "find_str p s = Some i \<Longrightarrow> find_str p (s @ t) = Some i"
proof (induction s arbitrary: i)
  case Nil
  then show ?case by (cases t) (auto split: if_splits)
next
  case (Cons c cs)
  show ?case
  proof (cases "prefix p (c # cs)")
    case True
    then have "prefix p ((c # cs) @ t)" by (rule prefix_prefix)
    then show ?thesis using True Cons.prems by simp
  next
    case False
    then obtain j where j: "find_str p cs = Some j" "i = Suc j" using Cons.prems by auto
    then have "length p \<le> length (c # cs)" using find_str_bound by fastforce
    then have "\<not> prefix p ((c # cs) @ t)" using False
      by (metis prefixI prefix_length_prefix)
    then show ?thesis using Cons.IH [OF j(1)] j(2) by simp
  qed
qed

lemma find_str_at_end:
  assumes "find_str p s = Some i"
  shows "find_str p (take i s @ p) = Some i"
  using assms
proof (induction s arbitrary: i)
  case (Cons c cs)
  show ?case
  proof (cases "prefix p (c # cs)")
    case True
    then show ?thesis using Cons.prems by (cases p) auto
  next
    case False
    then obtain j where j: "find_str p cs = Some j" "i = Suc j" using Cons.prems by auto
    have "prefix (take j cs @ p) cs" using find_str_split [OF j(1)] by (metis append.assoc prefixI)
    then have "prefix (c # take j cs @ p) (c # cs)" by simp
    then have "\<not> prefix p (c # take j cs @ p)" using False prefix_order.trans by blast
    then show ?thesis using Cons.IH [OF j(1)] j(2) by simp
  qed
qed (simp split: if_splits)

text \<open>A single character.\<close>

lemma find_str_char: "find_str [c] s = None \<longleftrightarrow> c \<notin> set s"
  by (induction s) auto

lemma find_str_char_at: "c \<notin> set u \<Longrightarrow> find_str [c] (u @ c # t) = Some (length u)"
  by (induction u) auto

lemma find_str_char_before: "find_str [c] s = Some i \<Longrightarrow> c \<notin> set (take i s)"
  by (induction s arbitrary: i) (auto split: if_splits)

section \<open>The tool\<close>

definition DQ :: char where "DQ = CHR 0x22"
definition NL :: char where "NL = CHR 0x0A"

definition TRIPLE_MCU :: string where "TRIPLE_MCU = ''thumbv6m-unknown-none-eabi''"
definition CPU :: string where "CPU = ''cortex-m0plus''"
definition DATALAYOUT_MCU :: string where
  "DATALAYOUT_MCU = ''e-m:e-p:32:32-Fi8-i64:64-v128:64:128-a:0:32-n32-S64''"

definition quoted :: "string \<Rightarrow> string" where
  "quoted key = DQ # key @ [DQ]"

text \<open>The loop of \<^verbatim>\<open>_set_quoted_attr\<close>, with the output so far.\<close>

function set_attr_loop :: "string \<Rightarrow> string \<Rightarrow> string \<Rightarrow> string \<Rightarrow> string" where
  "set_attr_loop key v out rest =
     (case find_str (quoted key) rest of
        None \<Rightarrow> out @ rest
      | Some ix \<Rightarrow>
          (let after = ix + length (quoted key);
               out' = out @ take ix rest @ quoted key @ ''='' @ [DQ] @ v @ [DQ]
           in if after + 1 < length rest \<and> rest ! after = CHR ''='' \<and> rest ! (after + 1) = DQ
              then (case find_from [DQ] (after + 2) rest of
                      None \<Rightarrow> out @ rest
                    | Some cl \<Rightarrow> set_attr_loop key v out' (drop (cl + 1) rest))
              else set_attr_loop key v out' (drop after rest)))"
  by pat_completeness auto
termination
  by (relation "measure (\<lambda>(key, v, out, rest). length rest)")
     (auto simp: quoted_def find_from_def dest!: find_str_bound)

declare set_attr_loop.simps [simp del]

definition set_quoted_attr :: "string \<Rightarrow> string \<Rightarrow> string \<Rightarrow> string" where
  "set_quoted_attr line key v = set_attr_loop key v [] line"

text \<open>\<^verbatim>\<open>split\<close> at newlines.\<close>

fun split_nl :: "string \<Rightarrow> string list" where
  "split_nl [] = [[]]"
| "split_nl (c # cs) = (if c = NL then [] # split_nl cs
     else (case split_nl cs of [] \<Rightarrow> [[c]] | l # ls \<Rightarrow> (c # l) # ls))"

definition retarget_line :: "string \<Rightarrow> string" where
  "retarget_line line =
     (if prefix ''target datalayout'' line
      then ''target datalayout = '' @ [DQ] @ DATALAYOUT_MCU @ [DQ]
      else if prefix ''target triple'' line
      then ''target triple = '' @ [DQ] @ TRIPLE_MCU @ [DQ]
      else (let line = set_quoted_attr line ''target-cpu'' CPU
            in set_quoted_attr line ''target-features'' ''''))"

definition retarget_text :: "string \<Rightarrow> string" where
  "retarget_text src =
     (let out = concat (map (\<lambda>line. retarget_line line @ [NL]) (split_nl src))
      in take (length out - 1) out)"

section \<open>What the scanner does\<close>

text \<open>
  A line cut at the occurrences of the key: the text before an occurrence, and its value when one
  is given. A piece is regular when the key does not occur earlier and the value ends with its
  closing quote; a bare key is one that no opening quote follows.
\<close>

type_synonym piece = "string \<times> string option"

definition assign :: "string \<Rightarrow> string" where
  "assign v = ''='' @ [DQ] @ v @ [DQ]"

definition piece_text :: "string \<Rightarrow> piece \<Rightarrow> string" where
  "piece_text key p = fst p @ quoted key @ (case snd p of None \<Rightarrow> [] | Some v \<Rightarrow> assign v)"

definition line_text :: "string \<Rightarrow> piece list \<Rightarrow> string \<Rightarrow> string" where
  "line_text key ps tail = concat (map (piece_text key) ps) @ tail"

definition set_value :: "string \<Rightarrow> piece \<Rightarrow> piece" where
  "set_value v p = (fst p, Some v)"

definition opens :: "string \<Rightarrow> bool" where
  "opens s \<longleftrightarrow> prefix (''='' @ [DQ]) s"

definition tail_ok :: "string \<Rightarrow> string \<Rightarrow> bool" where
  "tail_ok key t \<longleftrightarrow>
     (case find_str (quoted key) t of None \<Rightarrow> True
      | Some i \<Rightarrow> opens (drop (i + length (quoted key)) t)
          \<and> DQ \<notin> set (drop (i + length (quoted key) + 2) t))"

fun pieces_ok :: "string \<Rightarrow> piece list \<Rightarrow> string \<Rightarrow> bool" where
  "pieces_ok key [] tail = tail_ok key tail"
| "pieces_ok key (p # ps) tail =
     (find_str (quoted key) (fst p @ quoted key) = Some (length (fst p))
      \<and> (case snd p of None \<Rightarrow> \<not> opens (line_text key ps tail) | Some v \<Rightarrow> DQ \<notin> set v)
      \<and> pieces_ok key ps tail)"

lemma opens_iff:
  "opens (drop k s) \<longleftrightarrow> k + 1 < length s \<and> s ! k = CHR ''='' \<and> s ! (k + 1) = DQ"
proof -
  have "opens u \<longleftrightarrow> 1 < length u \<and> u ! 0 = CHR ''='' \<and> u ! 1 = DQ" for u
    by (cases u rule: list.exhaust; cases "tl u") (auto simp: opens_def)
  from this [of "drop k s"] show ?thesis by auto
qed

text \<open>One round of the loop on each kind of piece.\<close>

lemma set_attr_loop_piece:
  assumes f: "find_str (quoted key) (pre @ quoted key) = Some (length pre)"
    and w: "DQ \<notin> set w"
  shows "set_attr_loop key v out (piece_text key (pre, Some w) @ t)
      = set_attr_loop key v (out @ piece_text key (pre, Some v)) t"
proof -
  let ?r = "pre @ quoted key @ assign w @ t" and ?k = "length pre + length (quoted key)"
  have i: "find_str (quoted key) ?r = Some (length pre)"
    using find_str_append [OF f, of "assign w @ t"] by simp
  have "opens (drop ?k ?r)" by (simp add: opens_def assign_def)
  then have o': "?k + 1 < length ?r \<and> ?r ! ?k = CHR ''='' \<and> ?r ! (?k + 1) = DQ"
    unfolding opens_iff .
  have d: "drop (?k + 2) ?r = w @ DQ # t" by (simp add: assign_def)
  have c: "find_from [DQ] (?k + 2) ?r = Some (?k + 2 + length w)"
    unfolding find_from_def d using find_str_char_at [OF w] by simp
  have e: "drop (?k + 2 + length w + 1) ?r = t" by (simp add: assign_def numeral_3_eq_3)
  show ?thesis
    unfolding piece_text_def fst_conv snd_conv option.case append_assoc
    using o' by (subst set_attr_loop.simps)
      (simp only: i c e option.case Let_def if_True simp_thms, simp add: assign_def)
qed

lemma set_attr_loop_bare:
  assumes f: "find_str (quoted key) (pre @ quoted key) = Some (length pre)"
    and w: "\<not> opens t"
  shows "set_attr_loop key v out (piece_text key (pre, None) @ t)
      = set_attr_loop key v (out @ piece_text key (pre, Some v)) t"
proof -
  let ?r = "pre @ quoted key @ t" and ?k = "length pre + length (quoted key)"
  have i: "find_str (quoted key) ?r = Some (length pre)"
    using find_str_append [OF f, of t] by simp
  have d: "drop ?k ?r = t" by simp
  have o': "\<not> (?k + 1 < length ?r \<and> ?r ! ?k = CHR ''='' \<and> ?r ! (?k + 1) = DQ)"
    using w unfolding opens_iff [symmetric] d .
  show ?thesis
    unfolding piece_text_def fst_conv snd_conv option.case append_assoc append_Nil
    by (subst set_attr_loop.simps)
      (simp only: i d o' option.case Let_def if_False, simp add: assign_def)
qed

lemma set_attr_loop_tail: "tail_ok key t \<Longrightarrow> set_attr_loop key v out t = out @ t"
proof (cases "find_str (quoted key) t")
  case None
  then show ?thesis by (subst set_attr_loop.simps) simp
next
  case (Some i)
  let ?k = "i + length (quoted key)"
  assume "tail_ok key t"
  then have o': "?k + 1 < length t \<and> t ! ?k = CHR ''='' \<and> t ! (?k + 1) = DQ"
    and n: "find_from [DQ] (?k + 2) t = None"
    using Some unfolding tail_ok_def opens_iff by (simp_all add: find_from_def find_str_char)
  show ?thesis
    using o' by (subst set_attr_loop.simps) (simp only: Some n option.case Let_def if_True simp_thms)
qed

lemma set_attr_loop_pieces:
  "pieces_ok key ps tail \<Longrightarrow>
    set_attr_loop key v out (line_text key ps tail)
      = out @ line_text key (map (set_value v) ps) tail"
proof (induction ps arbitrary: out)
  case Nil
  then show ?case by (simp add: line_text_def set_attr_loop_tail)
next
  case (Cons p ps)
  obtain pre w where p: "p = (pre, w)" by (cases p)
  have s: "line_text key (x # ps) tail = piece_text key x @ line_text key ps tail" for x
    by (simp add: line_text_def)
  have "set_attr_loop key v out (line_text key (p # ps) tail)
      = set_attr_loop key v (out @ piece_text key (pre, Some v)) (line_text key ps tail)"
    using Cons.prems unfolding s p
    by (cases w) (simp_all add: set_attr_loop_piece set_attr_loop_bare)
  with Cons show ?case by (simp add: line_text_def set_value_def p)
qed

text \<open>Every line can be cut this way.\<close>

lemma line_cut: "\<exists>ps tail. pieces_ok key ps tail \<and> line_text key ps tail = line"
proof (induction line rule: length_induct)
  case (1 line)
  let ?q = "quoted key"
  show ?case
  proof (cases "tail_ok key line")
    case True
    then show ?thesis by (intro exI [of _ "[]"] exI [of _ line]) (simp add: line_text_def)
  next
    case False
    then obtain i where i: "find_str ?q line = Some i"
      by (auto simp: tail_ok_def split: option.splits)
    define k where "k = i + length ?q"
    have k: "k \<le> length line" "0 < k"
      using find_str_bound [OF i] by (auto simp: k_def quoted_def)
    have s: "line = take i line @ ?q @ drop k line"
      using find_str_split [OF i] by (simp add: k_def)
    have l: "length (take i line) = i" using find_str_bound [OF i] by simp
    have f: "find_str ?q (take i line @ ?q) = Some i" by (rule find_str_at_end [OF i])
    show ?thesis
    proof (cases "opens (drop k line)")
      case False
      have "length (drop k line) < length line" using k by simp
      then obtain ps tail where r: "pieces_ok key ps tail" "line_text key ps tail = drop k line"
        using "1.IH" by blast
      show ?thesis
        using r f l s False
        by (intro exI [of _ "(take i line, None) # ps"] exI [of _ tail])
           (simp add: line_text_def piece_text_def)
    next
      case True
      with \<open>\<not> tail_ok key line\<close> have "DQ \<in> set (drop (k + 2) line)"
        by (simp add: tail_ok_def i k_def)
      then obtain u t where u: "drop (k + 2) line = u @ DQ # t" "DQ \<notin> set u"
        by (meson split_list_first)
      obtain ps tail where r: "pieces_ok key ps tail" "line_text key ps tail = t"
      proof -
        have "length t < length line" using arg_cong [OF u(1), of length] by simp
        then show ?thesis using "1.IH" that by blast
      qed
      obtain z where z: "drop k line = ''='' @ DQ # z"
        using True by (auto simp: opens_def prefix_def)
      have "drop (k + 2) line = drop 2 (drop k line)" by (simp add: add.commute)
      then have "drop k line = assign u @ t" using u(1) z by (simp add: assign_def)
      then show ?thesis
        using r f l s u(2)
        by (intro exI [of _ "(take i line, Some u) # ps"] exI [of _ tail])
           (simp add: line_text_def piece_text_def)
    qed
  qed
qed

lemma pieces_ok_set_value:
  "pieces_ok key ps tail \<Longrightarrow> DQ \<notin> set v \<Longrightarrow> pieces_ok key (map (set_value v) ps) tail"
  by (induction ps) (auto simp: set_value_def)

lemma set_quoted_attr_pieces:
  "pieces_ok key ps tail \<Longrightarrow>
    set_quoted_attr (line_text key ps tail) key v = line_text key (map (set_value v) ps) tail"
  by (simp add: set_quoted_attr_def set_attr_loop_pieces)

lemma set_quoted_attr_idem:
  assumes "DQ \<notin> set v"
  shows "set_quoted_attr (set_quoted_attr line key v) key v = set_quoted_attr line key v"
proof -
  obtain ps tail where c: "pieces_ok key ps tail" "line_text key ps tail = line"
    using line_cut by blast
  have m: "map (set_value v) (map (set_value v) ps) = map (set_value v) ps"
    by (simp add: set_value_def)
  show ?thesis
    unfolding c(2) [symmetric] set_quoted_attr_pieces [OF c(1)]
      set_quoted_attr_pieces [OF pieces_ok_set_value [OF c(1) assms]] m ..
qed

section \<open>Lines\<close>

lemma split_nl_not_nil [simp]: "split_nl s \<noteq> []"
  by (induction s) (auto split: list.splits)

lemma split_nl_free: "\<forall>l \<in> set (split_nl s). NL \<notin> set l"
proof (induction s)
  case (Cons c cs)
  then show ?case by (cases "split_nl cs") auto
qed simp

lemma split_nl_line: "NL \<notin> set l \<Longrightarrow> split_nl (l @ NL # s) = l # split_nl s"
  by (induction l) auto

lemma split_nl_single: "NL \<notin> set l \<Longrightarrow> split_nl l = [l]"
  by (induction l) auto

lemma split_nl_lines:
  assumes "ls \<noteq> []" "\<forall>l \<in> set ls. NL \<notin> set l"
  shows "split_nl (butlast (concat (map (\<lambda>l. l @ [NL]) ls))) = ls"
  using assms
proof (induction ls rule: list_nonempty_induct)
  case (single l)
  then show ?case by (simp add: split_nl_single)
next
  case (cons l ls)
  have "concat (map (\<lambda>l. l @ [NL]) ls) \<noteq> []" using cons.hyps by (cases ls) auto
  then show ?case using cons by (simp add: butlast_append split_nl_line)
qed

lemma set_quoted_attr_free:
  assumes "NL \<notin> set line" "NL \<notin> set key" "NL \<notin> set v"
  shows "NL \<notin> set (set_quoted_attr line key v)"
proof -
  have f: "NL \<notin> set (line_text key (map (set_value v) ps) tail)"
    if "NL \<notin> set (line_text key ps tail)" for ps tail
    using that assms(2,3)
    by (induction ps)
       (auto simp: line_text_def piece_text_def set_value_def assign_def quoted_def NL_def DQ_def)
  obtain ps tail where c: "pieces_ok key ps tail" "line_text key ps tail = line"
    using line_cut by blast
  show ?thesis
    using f assms(1) unfolding c(2) [symmetric] set_quoted_attr_pieces [OF c(1)] by blast
qed

lemma retarget_line_free: "NL \<notin> set l \<Longrightarrow> NL \<notin> set (retarget_line l)"
proof -
  assume l: "NL \<notin> set l"
  have c: "NL \<notin> set ''target-cpu''" "NL \<notin> set ''target-features''" "NL \<notin> set CPU"
    "NL \<notin> set (''target datalayout = '' @ [DQ] @ DATALAYOUT_MCU @ [DQ])"
    "NL \<notin> set (''target triple = '' @ [DQ] @ TRIPLE_MCU @ [DQ])"
    by (simp_all add: NL_def DQ_def CPU_def DATALAYOUT_MCU_def TRIPLE_MCU_def)
  show ?thesis
    using c l by (simp only: retarget_line_def Let_def set_quoted_attr_free list.set empty_iff
      not_False_eq_True split: if_split) simp
qed

lemma retarget_text_lines: "split_nl (retarget_text s) = map retarget_line (split_nl s)"
proof -
  have e: "retarget_text s = butlast (concat (map (\<lambda>l. l @ [NL]) (map retarget_line (split_nl s))))"
    by (simp add: retarget_text_def Let_def butlast_conv_take comp_def)
  show ?thesis
    unfolding e by (rule split_nl_lines) (auto simp: retarget_line_free split_nl_free)
qed

text \<open>C34: The retargeting tool rewrites what names the target and nothing else. Its output has the
  lines of its input one by one, with no line added at the end or lost; every line can be cut at the
  occurrences of an attribute so that the scanner puts the new value behind each occurrence, whether it
  had one or not, and keeps every other character (also where a value is never closed); and
  setting an attribute to a value without quotes twice is setting it once.\<close>

theorem retarget_rewrites:
  "split_nl (retarget_text src) = map retarget_line (split_nl src)
   \<and> (\<exists>ps tail. pieces_ok key ps tail \<and> line_text key ps tail = line
        \<and> set_quoted_attr line key v = line_text key (map (set_value v) ps) tail)
   \<and> (if DQ \<in> set v then True
      else set_quoted_attr (set_quoted_attr line key v) key v = set_quoted_attr line key v)"
  using retarget_text_lines set_quoted_attr_idem line_cut set_quoted_attr_pieces by metis

end
