(* ===== verification/Spec2Isabelle.thy ===== *)
theory Spec2Isabelle
  imports RegBlocks HostIrq HostBench PlatformDefs PowerOn PowerOnRv Rtt Sync ElfCheck PioSm Analog Timer Uart Retarget
begin

text \<open>
  A verification library for inmojomni, a Mojo SDK for the Raspberry Pi Pico with C programs
  that serve as its yardstick.

  \<^bold>\<open>The program.\<close> The C programs under \<^verbatim>\<open>bench/\<close> run on the bare chip: \<^verbatim>\<open>bench.c\<close> (RP2040) and
  \<^verbatim>\<open>bench_rp2350.c\<close> (RP2350) bring the board up, run nine timed kernels three times and leave
  times and checksums in a mailbox in SRAM or in flash; \<^verbatim>\<open>blink.c\<close> toggles a pin;
  \<^verbatim>\<open>irq_latency.c\<close> measures interrupt latency with a PIO program. The headers under
  \<^verbatim>\<open>runtime/boot2/hardware\<close> describe the registers the boot loader uses. The Mojo SDK under
  \<^verbatim>\<open>src/pico\<close> has the same board bring-up, clocks and drivers. Under \<^verbatim>\<open>runtime\<close> are the
  second-stage boot loader and the start-up code that every program is linked with.

  \<^bold>\<open>The machine.\<close> \<^verbatim>\<open>Machine\<close> is a word memory for SRAM and a device for everything else: a
  parameter with a read and a write function on a state of any type. A polling loop is a
  partial function that is undefined when its condition never comes; theorems that a program
  ends say what the hardware has to answer (\<open>acks\<close>). \<^verbatim>\<open>Trace\<close> logs the accesses in order.

  \<^bold>\<open>Theories.\<close>
  \<^item> \<^verbatim>\<open>Prelude\<close>: machine words, counted loops with their invariant and simulation rules,
    arrays in memory, and the interfaces \<open>buffer\<close>, \<open>word_store\<close> and \<open>xor_linear\<close>.
  \<^item> \<^verbatim>\<open>XorShift\<close>, \<^verbatim>\<open>Crc32\<close>, \<^verbatim>\<open>QuickSort\<close>, \<^verbatim>\<open>MatMul\<close>, \<^verbatim>\<open>ScalarKernels\<close>, \<^verbatim>\<open>SoftFloat\<close>: the
    computations of the kernels of \<^verbatim>\<open>bench.c\<close> with their functional specifications.
  \<^item> \<^verbatim>\<open>BenchLayout\<close>: the fixed buffers, the contract of a kernel and the harness loop, as the
    locales \<open>kernel\<close> and \<open>bench_suite\<close>; \<^verbatim>\<open>BenchC\<close> and \<^verbatim>\<open>BenchRv\<close>: the two programs, each an
    instance of the contract.
  \<^item> \<^verbatim>\<open>BenchMojo\<close> and \<^verbatim>\<open>BenchRust\<close>: the same programs in Mojo and Rust for both chips, which are shown
    to be the C programs. The Mojo kernels share the inner loops of the C kernels, whose text they
    repeat; the Rust kernels are modelled on their own, with every plain operator checked for overflow.
  \<^item> \<^verbatim>\<open>AddressMap\<close>, \<^verbatim>\<open>HwReg\<close>, \<^verbatim>\<open>RegsSSI\<close>, \<^verbatim>\<open>RegsPadsQspi\<close>, \<^verbatim>\<open>RegsM0plus\<close>, \<^verbatim>\<open>RegBlocks\<close>: the
    register headers as data, and that they are coherent.
  \<^item> \<^verbatim>\<open>Rp2040Map\<close>, \<^verbatim>\<open>Chips\<close>, \<^verbatim>\<open>Board\<close>: the SDK's register map, chip descriptors, bring-up and
    clock routines next to the C copies of them.
  \<^item> \<^verbatim>\<open>IrqLatency\<close>: the interrupt latency gate, with the handler run between any two accesses
    while its interrupt is enabled; \<^verbatim>\<open>IrqMojo\<close>: the gate in Mojo on the SDK's drivers, with the same
    measurement after a setup of its own. \<^verbatim>\<open>Blink\<close>: the C, Mojo and Rust blink programs with the pin
    and sleep routines of the SDK. Endless loops are modelled by every finite number of rounds.
  \<^item> \<^verbatim>\<open>PioAsm\<close>: the SDK's PIO assembler, its invariant, and the two-pass assembler it equals.
    \<^verbatim>\<open>PioSm\<close>: the driver of its state machines as updates of their configurations and of what runs,
    and what a loaded program leaves in the registers.
  \<^item> \<^verbatim>\<open>AliasReg\<close>: registers with the atomic set, clear and xor aliases as a law of the device, and
    fields of a word. On it \<^verbatim>\<open>Gpio\<close> (function, direction, pads and events), \<^verbatim>\<open>Analog\<close> (PWM and ADC),
    \<^verbatim>\<open>Timer\<close> (timebase, alarm and interrupt controller) and \<^verbatim>\<open>Uart\<close>: the drivers of the SDK, each
    call with the abstract settings it refines, as sequences of calls for any pins; the routines that
    wait, with the accesses they make and what they return.
  \<^item> \<^verbatim>\<open>PlatformDefs\<close>: the constants of \<^verbatim>\<open>platform_defs.h\<close> and its rules for the clock
    frequencies, and that the programs hard-wire the same values.
  \<^item> \<^verbatim>\<open>Boot2\<close>: the second-stage loader on the SSI registers of \<^verbatim>\<open>RegsSSI\<close>. A monitor that runs
    over the log of its accesses states the rules of the SSI and collects what the flash is sent.
  \<^item> \<^verbatim>\<open>Startup\<close>: the vector table, the initialisation of the memory by the reset handler, and the
    trap dispatcher of the RP2350 on a register file. What the dispatcher asks of the handlers it
    calls is the calling convention, for the registers and the memory they may use.
    \<^verbatim>\<open>Crt0Rv\<close>: the rest of the RP2350 start-up code: entry, interrupt enables, the reboot through the
    ROM, \<^verbatim>\<open>memcpy\<close> and \<^verbatim>\<open>memset\<close>, on registers and on the bytes of \<^verbatim>\<open>Bytes\<close>; and the image definition.
  \<^item> \<^verbatim>\<open>Multicore\<close>: the inter-core FIFO and the handshake that starts core 1, with its timeouts and
    the one loop without; core 1 is part of the device, and what \<open>launch\<close> reports and what can
    keep it from returning is shown with no assumption on it.
    \<^verbatim>\<open>Sync\<close>: the hardware spinlocks and two cores that use one; \<^verbatim>\<open>Rtt\<close>: the log channel, its
    number formats and the interleaving of firmware and host, whose abstraction is a byte stream.
  \<^item> \<^verbatim>\<open>PowerOn\<close>: loader, start-up code, benchmark program and core 1 composed over one linked image;
    \<^verbatim>\<open>PowerOnRv\<close>: the same for the RP2350, in all three languages.
  \<^item> \<^verbatim>\<open>ElfCheck\<close>: the host tools that make the loader image and verify a linked file, against a
    specification of a bootable image, whose checksum is a bit-serial circuit. The rounds of the
    code's checksum are its clocks, and an instance of \<open>xor_linear\<close>.
    \<^verbatim>\<open>Retarget\<close>: the rewriting of the compiler's IR, against the cuts of a line at the attributes.
  \<^item> \<^verbatim>\<open>HostIrq\<close> and \<^verbatim>\<open>HostBench\<close>: what the measuring tools decide from the words they read, composed
    with the firmwares that wrote them; percentiles and medians are ranks in the sorted samples.

  \<^bold>\<open>Step relations.\<close> Where two parties run at once the model is an inductive step relation
  whose steps are the accesses of the code: host and firmware in \<^verbatim>\<open>Rtt\<close>, two cores in \<^verbatim>\<open>Sync\<close>. The
  theorems there hold for every reachable state, by an invariant that each step keeps.

  \<^bold>\<open>Bounds.\<close> Loop counters are natural numbers, since every bound is far below \<^verbatim>\<open>2^32\<close>; data is
  kept at its width. The quicksort indices are integers and shown to stay in \<^verbatim>\<open>int32_t\<close>.
  Floating point values are exact binary32 values with one rounding per operation.
  The 64 attempts of \<^verbatim>\<open>multicore.launch\<close> are a natural number that counts down.

  The gate for the spread of times and sums is computed in 64 bits and shown exact.

  \<^bold>\<open>Not modelled.\<close> Timing, the compilers, the boot ROM, the host tools that only drive external
  programs and the building, flashing and printing of the others, the test programs and demos but
  for one interrupt handler. The
  traps for missing library functions in the start-up code only stop. The RP2350 has more SRAM
  than the machine's; layouts of its image are restricted to the part both chips have. The
  instruction fetch from the flash while the loader reconfigures it is not modelled: what the
  flash reads is the same throughout. The optimiser of the compilers may drop what is not
  volatile; the models are of the source. The helper functions \<^verbatim>\<open>bench_rp2350.c\<close> repeats from
  \<^verbatim>\<open>bench.c\<close> word for word have one model.
\<close>

section \<open>Properties across components\<close>

text \<open>C4: the two benchmark programs agree on their checksums: whatever the two boards, their
  timers and the initial memories are, a finished run of the RP2040 program and a committed
  run of the RP2350 program have the same checksum of every kernel in every run.\<close>

theorem checksums_agree:
  assumes "bringup_answers D" and "acks D' 0x40023000 0x240 0x40020008 (\<lambda>v. v AND 0x240 = 0x240)"
  shows "\<exists>t t' calls page. mojo_main D s = Some t \<and> rv_mojo_main clang D' mc s' = Some (t', calls) \<and>
    FlashRangeProgram MB_FLASH_OFF page \<in> set calls \<and>
    (\<forall>run<3. \<forall>run'<3. \<forall>i<9. ram t (ck_slot 0x10 run i) = page ! (2 * (run' * 9 + i) + 6))"
proof -
  obtain t where t: "mojo_main D s = Some t" and
    c: "\<forall>run<3. \<forall>i<9. ram t (ck_slot 0x10 run i) = bench_checks ! i"
    using mojo_main_run [OF assms(1), of s] by blast
  obtain t' page where t': "rv_mojo_main clang D' mc s' =
      Some (t', [ConnectInternalFlash, FlashExitXip, FlashRangeErase 0x3FF000 4096 65536 0xD8,
        FlashRangeProgram 0x3FF000 page, FlashFlushCache, Reboot 2 100 0 0])" and
    c': "\<forall>run<3. \<forall>i<9. page ! (2 * (run * 9 + i) + 6) = bench_checks ! i"
    using rv_mojo_main_run [OF assms(2), of clang mc s'] by blast
  from c c' have "\<forall>run<3. \<forall>run'<3. \<forall>i<9.
      ram t (ck_slot 0x10 run i) = page ! (2 * (run' * 9 + i) + 6)" by simp
  with t t' show ?thesis by (auto simp: MB_FLASH_OFF_def)
qed

theorem checksums_agree_witness:
  "\<exists>t t' calls. mojo_main ready_device \<lparr>ram = \<lambda>_. 0, dev = (0, 0)\<rparr> = Some t \<and>
     rv_mojo_main False (const_device (\<lambda>_. 0x240)) (\<lambda>d. (d, d))
       \<lparr>ram = \<lambda>_. 1, dev = 0\<rparr> = Some (t', calls)"
proof -
  have "acks (const_device (\<lambda>_. 0x240)) 0x40023000 0x240 0x40020008 (\<lambda>v. v AND 0x240 = 0x240)"
    by (simp add: acks_const)
  from checksums_agree [OF ready_hardware(1) this, of "\<lparr>ram = \<lambda>_. 0, dev = (0, 0)\<rparr>" False
      "\<lambda>d. (d, d)" "\<lparr>ram = \<lambda>_. 1, dev = 0\<rparr>"] show ?thesis by blast
qed

text \<open>The seven instruction words \<open>irq_latency.c\<close> loads into the PIO are the program
  \<open>tools/irq_latency.mojo\<close> assembles and compares them with: the SDK's assembler succeeds,
  emits exactly these words and leaves no jump unresolved.\<close>

theorem pio_program_is_reference:
  "\<exists>a. reference_program = Some a \<and> take (alen a) (code a) = PROG \<and> alen a = length PROG \<and>
    unresolved a = 0"
proof -
  have "case reference_program of None \<Rightarrow> False
    | Some a \<Rightarrow> take (alen a) (code a) = PROG \<and> alen a = length PROG \<and> unresolved a = 0"
    by code_simp
  then show ?thesis by (auto split: option.splits)
qed

end
